(* ===== verification/Prelude.thy ===== *)
theory Prelude
  imports Main "HOL-Library.Word"
begin

text \<open>
  What the components share: the types and characters of the C code, the collections of rewrite
  rules (\<open>c_defs\<close> for the small definitions every component unfolds, \<open>list_upd\<close> for arrays
  updated by index), generic lemmas on lists, and the formatting of integers and fields that
  the \<^verbatim>\<open>printf\<close> family gives.

  A C string is modelled by the list of its bytes before the terminating NUL; a C buffer by the
  list of all its bytes, and \<open>cstr\<close> reads the string a buffer holds. Bytes are of type
  \<^typ>\<open>char\<close>, so that string literals read as in the source; \<open>byte\<close> is the value of an
  \<^verbatim>\<open>unsigned char\<close> and \<open>schar\<close> of a (signed) \<^verbatim>\<open>char\<close>, as on the x86 Linux hosts of
  the program.
\<close>

named_theorems c_defs \<open>small definitions that proofs unfold\<close>
named_theorems list_upd \<open>rewrite rules for arrays updated by index\<close>

type_synonym u32 = "32 word"
type_synonym files = "string \<rightharpoonup> string" \<comment> \<open>the regular files: their contents by path\<close>

definition QUIT :: int where "QUIT = 0x666"
definition IDLEN :: nat where "IDLEN = 12"
definition STRLEN :: nat where "STRLEN = 80"

section \<open>Characters\<close>

definition byte :: "char \<Rightarrow> nat" where
  "byte c = of_char c"

definition schar :: "char \<Rightarrow> int" where
  "schar c = (if byte c < 128 then int (byte c) else int (byte c) - 256)"

definition hibit :: "char \<Rightarrow> bool" where
  \<comment> \<open>\<^verbatim>\<open>c & 0x80\<close>\<close>
  "hibit c \<longleftrightarrow> 128 \<le> byte c"

abbreviation NUL :: char where "NUL \<equiv> CHR 0x00"
abbreviation LF :: char where "LF \<equiv> CHR 0x0A"
abbreviation CR :: char where "CR \<equiv> CHR 0x0D"
abbreviation ESC :: char where "ESC \<equiv> CHR 0x1B"
abbreviation SPC :: char where "SPC \<equiv> CHR '' ''"

definition bytes :: "nat list \<Rightarrow> string" where
  "bytes ns = map char_of ns"

text \<open>The \<^verbatim>\<open>ctype.h\<close> functions in the C locale (the program never calls \<^verbatim>\<open>setlocale\<close>).\<close>

definition isupper :: "char \<Rightarrow> bool" where
  "isupper c \<longleftrightarrow> 65 \<le> byte c \<and> byte c \<le> 90"

definition islower :: "char \<Rightarrow> bool" where
  "islower c \<longleftrightarrow> 97 \<le> byte c \<and> byte c \<le> 122"

definition isalpha :: "char \<Rightarrow> bool" where
  "isalpha c \<longleftrightarrow> isupper c \<or> islower c"

definition isdigit :: "char \<Rightarrow> bool" where
  "isdigit c \<longleftrightarrow> 48 \<le> byte c \<and> byte c \<le> 57"

definition isprint :: "char \<Rightarrow> bool" where
  "isprint c \<longleftrightarrow> 32 \<le> byte c \<and> byte c \<le> 126"

definition tolower :: "char \<Rightarrow> char" where
  "tolower c = (if isupper c then char_of (byte c + 32) else c)"

definition toupper :: "char \<Rightarrow> char" where
  "toupper c = (if islower c then char_of (byte c - 32) else c)"

lemma byte_lt [simp]: "byte c < 256"
  by (simp add: byte_def of_char_def)

lemma byte_inject [simp]: "byte c = byte d \<longleftrightarrow> c = d"
  by (simp add: byte_def)

lemma byte_char_of: "n < 256 \<Longrightarrow> byte (char_of n) = n"
  by (simp add: byte_def)

lemma char_of_byte [simp]: "char_of (byte c) = c"
  by (simp add: byte_def)

lemma byte_tolower: "byte (tolower c) = (if isupper c then byte c + 32 else byte c)"
  by (auto simp: tolower_def isupper_def intro!: byte_char_of)

lemma byte_toupper: "byte (toupper c) = (if islower c then byte c - 32 else byte c)"
  by (auto simp: toupper_def islower_def intro!: byte_char_of)

lemma tolower_idem [simp]: "tolower (tolower c) = tolower c"
  by (auto simp: byte_inject [symmetric] byte_tolower isupper_def simp del: byte_inject)

lemma toupper_idem [simp]: "toupper (toupper c) = toupper c"
  by (auto simp: byte_inject [symmetric] byte_toupper islower_def simp del: byte_inject)

lemma toupper_tolower: "toupper (tolower c) = toupper c"
  by (auto simp: byte_inject [symmetric] byte_toupper byte_tolower islower_def isupper_def
      simp del: byte_inject)

lemma tolower_toupper: "tolower (toupper c) = tolower c"
  by (auto simp: byte_inject [symmetric] byte_toupper byte_tolower islower_def isupper_def
      simp del: byte_inject)

lemma tolower_hibit [simp]: "hibit c \<Longrightarrow> tolower c = c"
  by (simp add: tolower_def hibit_def isupper_def)

lemma hibit_tolower [simp]: "hibit (tolower c) = hibit c"
  by (auto simp: hibit_def byte_tolower isupper_def)

lemma byte_NUL [simp]: "byte NUL = 0"
  by (simp add: byte_def)

lemma byte_0_iff: "byte c = 0 \<longleftrightarrow> c = NUL"
  using byte_inject [of c NUL] by simp

lemma tolower_NUL_iff [simp]: "tolower c = NUL \<longleftrightarrow> c = NUL"
  by (auto simp: byte_0_iff [symmetric] byte_tolower isupper_def)

lemma schar_inject [simp]: "schar c = schar d \<longleftrightarrow> c = d"
proof
  assume "schar c = schar d"
  then have "byte c = byte d"
    using byte_lt [of c] byte_lt [of d] unfolding schar_def by (auto split: if_splits simp del: byte_lt byte_inject)
  then show "c = d" by simp
qed simp

section \<open>Undefined behaviour and division\<close>

text \<open>
  \<open>UB\<close> is the result of a run that reads or writes outside its object, or dereferences a null
  pointer: the C standard says nothing of what follows, and neither does the model.
\<close>

datatype 'a run = UB | Val (the_val: 'a)

definition run_bind :: "'a run \<Rightarrow> ('a \<Rightarrow> 'b run) \<Rightarrow> 'b run" where
  "run_bind r f = (case r of UB \<Rightarrow> UB | Val x \<Rightarrow> f x)"

lemma run_bind_simps [simp]: "run_bind UB f = UB" "run_bind (Val x) f = f x"
  by (simp_all add: run_bind_def)

lemma run_bind_Val_iff: "run_bind r f = Val y \<longleftrightarrow> (\<exists>x. r = Val x \<and> f x = Val y)"
  by (cases r) simp_all

text \<open>C99 integer division and remainder: they truncate towards zero.\<close>

definition c_div :: "int \<Rightarrow> int \<Rightarrow> int" where
  "c_div a b = sgn a * sgn b * (\<bar>a\<bar> div \<bar>b\<bar>)"

definition c_mod :: "int \<Rightarrow> int \<Rightarrow> int" where
  "c_mod a b = a - b * c_div a b"

lemma c_div_nonneg: "0 \<le> a \<Longrightarrow> 0 < b \<Longrightarrow> c_div a b = a div b"
  by (cases "a = 0") (simp_all add: c_div_def)

lemma c_mod_nonneg: "0 \<le> a \<Longrightarrow> 0 < b \<Longrightarrow> c_mod a b = a mod b"
  by (simp add: c_mod_def c_div_nonneg minus_mult_div_eq_mod)

section \<open>C strings\<close>

definition cstr :: "string \<Rightarrow> string" where
  \<comment> \<open>the string a buffer holds: its bytes before the first NUL\<close>
  "cstr buf = takeWhile (\<lambda>c. c \<noteq> NUL) buf"

definition strcasecmp_eq :: "string \<Rightarrow> string \<Rightarrow> bool" where
  \<comment> \<open>\<^verbatim>\<open>!strcasecmp (a, b)\<close>\<close>
  "strcasecmp_eq a b \<longleftrightarrow> map tolower a = map tolower b"

definition strncasecmp_eq :: "string \<Rightarrow> string \<Rightarrow> nat \<Rightarrow> bool" where
  "strncasecmp_eq a b n \<longleftrightarrow> map tolower (take n a) = map tolower (take n b)"

lemma cstr_append_NUL [simp]: "NUL \<notin> set s \<Longrightarrow> cstr (s @ NUL # r) = s"
  unfolding cstr_def by (subst takeWhile_append2) auto

lemma NUL_notin_cstr [simp]: "NUL \<notin> set (cstr buf)"
  unfolding cstr_def using set_takeWhileD [of NUL "\<lambda>c. c \<noteq> NUL" buf] by blast

lemma cstr_id: "NUL \<notin> set s \<Longrightarrow> cstr s = s"
  unfolding cstr_def by (auto simp: takeWhile_eq_all_conv)

section \<open>Arrays\<close>

lemma filter_length_update:
  assumes "i < length xs"
  shows "length (filter P (xs[i := y])) + (if P (xs ! i) then 1 else 0)
       = length (filter P xs) + (if P y then 1 else 0)"
  using assms
proof (induction xs arbitrary: i)
  case Nil
  then show ?case by simp
next
  case (Cons x xs)
  then show ?case by (cases i) auto
qed

lemma list_all_update:
  "list_all P xs \<Longrightarrow> P y \<Longrightarrow> list_all P (xs[i := y])"
  by (auto simp: list_all_iff dest!: set_update_subset_insert [THEN subsetD])

lemma nth_update_if [list_upd]:
  "i < length xs \<Longrightarrow> xs[i := y] ! j = (if i = j then y else xs ! j)"
  by simp

lemma map_list_update_same:
  "f y = f (xs ! u) \<Longrightarrow> map f (xs[u := y]) = map f xs"
  by (cases "u < length xs") (simp_all add: map_update list_update_same_conv list_update_beyond)

lemma list_eq_pointwise:
  "length xs = length ys \<Longrightarrow> (\<And>i. i < length xs \<Longrightarrow> xs ! i = ys ! i) \<Longrightarrow> xs = ys"
  by (rule nth_equalityI)

lemma find_None_iff_all: "find P xs = None \<longleftrightarrow> (\<forall>x\<in>set xs. \<not> P x)"
  by (auto simp: find_None_iff)

lemma find_Some_D:
  "find P xs = Some x \<Longrightarrow> x \<in> set xs \<and> P x"
  by (auto simp: find_Some_iff)

section \<open>Numbers and fields of \<^verbatim>\<open>printf\<close>\<close>

fun nat_digits :: "nat \<Rightarrow> string" where
  "nat_digits n = (if n < 10 then [char_of (48 + n)]
     else nat_digits (n div 10) @ [char_of (48 + n mod 10)])"

declare nat_digits.simps [simp del]

definition show_int :: "int \<Rightarrow> string" where
  \<comment> \<open>\<^verbatim>\<open>%d\<close>\<close>
  "show_int i = (if i < 0 then CHR ''-'' # nat_digits (nat (- i)) else nat_digits (nat i))"

definition pad_left :: "nat \<Rightarrow> string \<Rightarrow> string" where
  \<comment> \<open>\<^verbatim>\<open>%4d\<close>, \<^verbatim>\<open>%12s\<close>\<close>
  "pad_left n s = replicate (n - length s) SPC @ s"

definition pad_right :: "nat \<Rightarrow> string \<Rightarrow> string" where
  \<comment> \<open>\<^verbatim>\<open>%-12s\<close>\<close>
  "pad_right n s = s @ replicate (n - length s) SPC"

text \<open>\<^verbatim>\<open>atoi\<close>: optional blanks and a sign, then the longest run of digits. The C standard
  leaves a value out of range undefined; the model gives the mathematical value.\<close>

definition isblank_c :: "char \<Rightarrow> bool" where
  "isblank_c c \<longleftrightarrow> c = SPC \<or> (9 \<le> byte c \<and> byte c \<le> 13)"

fun digits_value :: "int \<Rightarrow> string \<Rightarrow> int" where
  "digits_value acc [] = acc"
| "digits_value acc (c # cs) =
     (if isdigit c then digits_value (10 * acc + (int (byte c) - 48)) cs else acc)"

definition atoi :: "string \<Rightarrow> int" where
  "atoi s = (case dropWhile isblank_c s of
     [] \<Rightarrow> 0
   | c # cs \<Rightarrow> if c = CHR ''-'' then - digits_value 0 cs
               else if c = CHR ''+'' then digits_value 0 cs
               else digits_value 0 (c # cs))"

text \<open>\<^verbatim>\<open>atoi\<close> undoes \<^verbatim>\<open>%d\<close>.\<close>

lemma byte_digit: "d < 10 \<Longrightarrow> byte (char_of (48 + d)) = 48 + d"
  by (simp add: byte_char_of)

lemma isdigit_digit [simp]: "d < (10::nat) \<Longrightarrow> isdigit (char_of (48 + d))"
  by (simp add: isdigit_def byte_digit)

lemma nat_digits_isdigit: "c \<in> set (nat_digits n) \<Longrightarrow> isdigit c"
proof (induction n rule: nat_digits.induct)
  case (1 n)
  then show ?case
    by (subst (asm) nat_digits.simps) (auto split: if_splits)
qed

lemma nat_digits_nonempty [simp]: "nat_digits n \<noteq> []"
  by (subst nat_digits.simps) simp

lemma digits_value_snoc:
  "(\<forall>c\<in>set ds. isdigit c) \<Longrightarrow> isdigit c \<Longrightarrow>
   digits_value acc (ds @ c # rest) = digits_value (10 * digits_value acc ds + (int (byte c) - 48)) rest"
  by (induction ds arbitrary: acc) auto

lemma digits_value_nat_digits:
  "digits_value 0 (nat_digits n @ r) = digits_value (int n) r"
proof (induction n arbitrary: r rule: nat_digits.induct)
  case (1 n)
  show ?case
  proof (cases "n < 10")
    case True
    then show ?thesis by (simp add: nat_digits.simps [of n] byte_digit)
  next
    case False
    then have "digits_value 0 (nat_digits n @ r)
      = digits_value 0 (nat_digits (n div 10) @ char_of (48 + n mod 10) # r)"
      by (simp add: nat_digits.simps [of n])
    also have "\<dots> = digits_value (int (n div 10)) (char_of (48 + n mod 10) # r)"
      using "1.IH" False by blast
    also have "\<dots> = digits_value (10 * int (n div 10) + int (n mod 10)) r"
      by (simp add: byte_digit)
    also have "10 * int (n div 10) + int (n mod 10) = int n"
      by presburger
    finally show ?thesis .
  qed
qed

lemma isdigit_not_sign:
  "isdigit c \<Longrightarrow> \<not> isblank_c c \<and> c \<noteq> CHR ''-'' \<and> c \<noteq> CHR ''+''"
  by (auto simp: isdigit_def isblank_c_def byte_def)

lemma atoi_digits_append:
  assumes "r = [] \<or> \<not> isdigit (hd r)"
  shows "atoi (nat_digits n @ r) = int n"
proof -
  obtain c cs where ds: "nat_digits n = c # cs"
    by (cases "nat_digits n") auto
  then have "isdigit c"
    using nat_digits_isdigit [of c n] by simp
  then have "atoi (nat_digits n @ r) = digits_value 0 (nat_digits n @ r)"
    using isdigit_not_sign [of c] by (auto simp: atoi_def ds)
  also have "\<dots> = digits_value (int n) r"
    by (rule digits_value_nat_digits)
  also have "\<dots> = int n"
    using assms by (cases r) auto
  finally show ?thesis .
qed

lemma atoi_show_int:
  assumes "r = [] \<or> \<not> isdigit (hd r)"
  shows "atoi (show_int i @ r) = i"
proof (cases "i < 0")
  case True
  have "digits_value 0 (nat_digits (nat (- i)) @ r) = digits_value (int (nat (- i))) r"
    by (rule digits_value_nat_digits)
  also have "\<dots> = - i"
    using assms True by (cases r) auto
  finally show ?thesis
    using True by (simp add: atoi_def show_int_def isblank_c_def byte_def)
next
  case False
  then show ?thesis
    using atoi_digits_append [OF assms, of "nat i"] by (simp add: show_int_def)
qed

end
