(* ===== verification/CStrings.thy ===== *)
theory CStrings
  imports Prelude
begin

text \<open>
  The string library, \<^verbatim>\<open>lib/string.c\<close>: one definition per function, and the lemmas that make
  each of them correct. A loop of the source is a recursive function over the bytes it still has
  to read; where the code writes at a pointer, the definition works on the whole buffer with the
  pointer as an index. Text is GBK: a byte with the high bit set is the first of two bytes.
\<close>

section \<open>Definitions\<close>

definition strtolower :: "string option \<Rightarrow> string option \<Rightarrow> string option" where
  "strtolower dst src =
     (case (dst, src) of (Some _, Some s) \<Rightarrow> Some (map tolower s) | _ \<Rightarrow> None)"

definition strtoupper :: "string option \<Rightarrow> string option \<Rightarrow> string option" where
  "strtoupper dst src =
     (case (dst, src) of (Some _, Some s) \<Rightarrow> Some (map toupper s) | _ \<Rightarrow> None)"

text \<open>
  \<open>strncasecmp_loop s1 s2 l n\<close>: the arguments are the rest of both strings and the counters.
  After two equal lead bytes that both end their string the code steps over the terminators and
  reads on: \<^const>\<open>UB\<close>.
\<close>

fun strncasecmp_loop :: "string \<Rightarrow> string \<Rightarrow> int \<Rightarrow> int \<Rightarrow> int run" where
  "strncasecmp_loop (c # s1) (d # s2) l n =
     (if l < n then
        (let c1 = tolower c; c2 = tolower d in
         if c1 \<noteq> c2 then Val (schar c1 - schar c2)
         else if hibit c1 then
           (case (s1, s2) of
              (e # t1, f # t2) \<Rightarrow>
                if e = f then strncasecmp_loop t1 t2 (l + 2) n else Val (schar e - schar f)
            | ([], f # t2) \<Rightarrow> Val (0 - schar f)
            | (e # t1, []) \<Rightarrow> Val (schar e - 0)
            | ([], []) \<Rightarrow> UB)
         else strncasecmp_loop s1 s2 (l + 1) n)
      else Val (if l = n then 0 else -1))"
| "strncasecmp_loop s1 s2 l n = Val (if l = n then 0 else -1)"

definition strncasecmp_gbk :: "string \<Rightarrow> string \<Rightarrow> int \<Rightarrow> int run" where
  "strncasecmp_gbk s1 s2 n = strncasecmp_loop s1 s2 0 n"

function strcasestr_loop :: "string \<Rightarrow> string \<Rightarrow> nat \<Rightarrow> nat option run" where
  "strcasestr_loop haystack needle i =
     (if i + length needle \<le> length haystack \<and> i < length haystack then
        (case strncasecmp_gbk (drop i haystack) needle (int (length needle)) of
           UB \<Rightarrow> UB
         | Val r \<Rightarrow> if r = 0 then Val (Some i)
                    else strcasestr_loop haystack needle
                           (if hibit (haystack ! i) then i + 2 else i + 1))
      else Val None)"
  by pat_completeness auto
termination
  by (relation "measure (\<lambda>(h, n, i). length h - i)") auto

declare strcasestr_loop.simps [simp del]

definition strcasestr_gbk :: "string option \<Rightarrow> string option \<Rightarrow> nat option run" where
  \<comment> \<open>the pointer into \<open>haystack\<close> is the offset of the match\<close>
  "strcasestr_gbk haystack needle =
     (case (haystack, needle) of
        (Some h, Some n) \<Rightarrow>
          if length h < length n then Val None
          else if length h \<le> 0 then Val None
          else if length n \<le> 0 then Val (Some 0)
          else strcasestr_loop h n 0
      | _ \<Rightarrow> Val None)"

fun ansi_filter_loop :: "bool \<Rightarrow> string \<Rightarrow> string" where
  "ansi_filter_loop flag [] = []"
| "ansi_filter_loop flag (c # src) =
     (if c = ESC then ansi_filter_loop True src
      else if \<not> flag then c # ansi_filter_loop flag src
      else if isalpha c then ansi_filter_loop False src
      else ansi_filter_loop flag src)"

definition ansi_filter :: "string option \<Rightarrow> string option \<Rightarrow> string option" where
  "ansi_filter dst src =
     (case (dst, src) of (Some _, Some s) \<Rightarrow> Some (ansi_filter_loop False s) | _ \<Rightarrow> None)"

text \<open>
  \<^verbatim>\<open>ellipsis\<close> on a buffer. \<open>ellipsis_scan\<close> is its first loop: it returns the pointer (an
  index), the counter \<open>i\<close> and whether the pointer is inside a two-byte character.
  \<open>ellipsis_tail\<close> is the second: it steps over up to three bytes and stops after a NUL.
\<close>

fun ellipsis_scan :: "string \<Rightarrow> nat \<Rightarrow> nat \<Rightarrow> bool \<Rightarrow> nat \<times> nat \<times> bool" where
  "ellipsis_scan buf ptr 0 inGBK = (ptr, 0, inGBK)"
| "ellipsis_scan buf ptr (Suc i) inGBK =
     (if buf ! ptr \<noteq> NUL
      then ellipsis_scan buf (Suc ptr) i (if inGBK then False else hibit (buf ! ptr))
      else (ptr, Suc i, inGBK))"

fun ellipsis_tail :: "string \<Rightarrow> nat \<Rightarrow> nat \<Rightarrow> nat \<times> nat" where
  "ellipsis_tail buf ptr i =
     (if buf ! ptr \<noteq> NUL \<and> i - 1 \<noteq> 0 then ellipsis_tail buf (Suc ptr) (i - 1)
      else (Suc ptr, if buf ! ptr \<noteq> NUL then i - 1 else i))"

declare ellipsis_tail.simps [simp del]

definition ellipsis :: "string option \<Rightarrow> int \<Rightarrow> (int \<times> string option) run" where
  "ellipsis str len =
     (case str of
        None \<Rightarrow> Val (0, None)
      | Some buf \<Rightarrow>
          if len < 0 then Val (0, str)
          else if len < 3 then
            (if nat len < length buf then Val (1, Some (buf[nat len := NUL])) else UB)
          else
            (let (ptr, i, inGBK) = ellipsis_scan buf 0 (nat len - 3) False;
                 (ptr, i) = ellipsis_tail buf ptr 3
             in if length buf \<le> ptr then UB
                else if buf ! ptr \<noteq> NUL \<and> i = 0 then
                  (let buf = buf[nat len := NUL];
                       buf = buf[ptr - 1 := CHR ''.''];
                       buf = buf[ptr - 2 := CHR ''.'']
                   in Val (1, Some (if \<not> inGBK \<and> hibit (buf ! (ptr - 3))
                                    then buf[ptr - 3 := CHR ''.''] else buf)))
                else Val (1, str)))"

text \<open>
  \<^verbatim>\<open>rtrim\<close> and \<^verbatim>\<open>trim\<close> walk back from the terminator and look at \<^verbatim>\<open>*ptr\<close> before they
  compare the pointer with the start: on a blank string they read the byte in front of the
  buffer. That byte is the argument \<open>pre\<close>.
\<close>

definition byte_at :: "char \<Rightarrow> string \<Rightarrow> int \<Rightarrow> char" where
  "byte_at pre buf p = (if p < 0 then pre else buf ! nat p)"

function rtrim_ptr :: "char \<Rightarrow> string \<Rightarrow> int \<Rightarrow> int" where
  "rtrim_ptr pre buf p =
     (if byte (byte_at pre buf p) \<le> 32 \<and> 0 \<le> p then rtrim_ptr pre buf (p - 1) else p)"
  by pat_completeness auto
termination
  by (relation "measure (\<lambda>(pre, buf, p). nat (p + 1))") auto

declare rtrim_ptr.simps [simp del]

definition rtrim :: "char \<Rightarrow> string option \<Rightarrow> string option" where
  "rtrim pre str =
     (case str of
        None \<Rightarrow> None
      | Some buf \<Rightarrow>
          Some (buf[nat (rtrim_ptr pre buf (int (length (cstr buf))) + 1) := NUL]))"

fun skip_blanks :: "string \<Rightarrow> nat \<Rightarrow> nat \<Rightarrow> nat" where
  "skip_blanks buf 0 left = left"
| "skip_blanks buf (Suc k) left =
     (if byte (buf ! left) \<le> 32 \<and> buf ! left \<noteq> NUL then skip_blanks buf k (Suc left) else left)"

definition trim :: "char \<Rightarrow> string option \<Rightarrow> string option" where
  "trim pre str =
     (case str of
        None \<Rightarrow> None
      | Some buf \<Rightarrow>
          (let right = nat (rtrim_ptr pre buf (int (length (cstr buf))) + 1);
               buf = buf[right := NUL];
               left = skip_blanks buf (length buf) 0
           in Some (if left \<noteq> 0
                    then take (right - left + 1) (drop left buf) @ drop (right - left + 1) buf
                    else buf)))"

text \<open>
  \<open>strlcpy_copy n src d dst\<close>: \<open>n\<close> is the counter after its first decrement, so the number of
  bytes that may still be copied; the result is the buffer, the destination index and whether
  the counter ran out.
\<close>

fun strlcpy_copy :: "nat \<Rightarrow> string \<Rightarrow> nat \<Rightarrow> string \<Rightarrow> string \<times> nat \<times> bool" where
  "strlcpy_copy 0 src d dst = (dst, d, True)"
| "strlcpy_copy (Suc n) [] d dst = (dst[d := NUL], Suc d, False)"
| "strlcpy_copy (Suc n) (c # src) d dst = strlcpy_copy n src (Suc d) (dst[d := c])"

definition strlcpy :: "string \<Rightarrow> string \<Rightarrow> nat \<Rightarrow> string \<times> nat" where
  "strlcpy dst src siz =
     (if siz = 0 then (dst, length src)
      else (case strlcpy_copy (siz - 1) src 0 dst of
              (dst, d, True) \<Rightarrow> (dst[d := NUL], length src)
            | (dst, d, False) \<Rightarrow> (dst, d - 1)))"

definition url_digit :: "int \<Rightarrow> char" where
  \<comment> \<open>\<^verbatim>\<open>h > 9 ? 'A' - 10 + h : '0' + h\<close>, stored in a \<^verbatim>\<open>char\<close>\<close>
  "url_digit h = char_of (nat ((if 9 < h then 55 + h else 48 + h) mod 256))"

fun strtourl :: "string \<Rightarrow> string" where
  "strtourl [] = []"
| "strtourl (c # str) =
     (if isprint c \<and> c \<noteq> CHR '' '' \<and> c \<noteq> CHR ''%'' then c # strtourl str
      else CHR ''%'' # url_digit (c_div (schar c) 16) # url_digit (c_mod (schar c) 16)
             # strtourl str)"

text \<open>
  \<^verbatim>\<open>strappend\<close> moves \<^verbatim>\<open>*dst\<close> and \<^verbatim>\<open>*size\<close>: its state is the whole buffer, the offset of
  \<^verbatim>\<open>*dst\<close> in it and the room left.
\<close>

record appender =
  ap_buf :: string
  ap_off :: nat
  ap_size :: nat

definition strappend :: "appender \<Rightarrow> string \<Rightarrow> appender" where
  "strappend a src =
     (let (tail, len) = strlcpy (drop (ap_off a) (ap_buf a)) src (ap_size a);
          len = (if ap_size a \<le> len then ap_size a else len)
      in a\<lparr>ap_buf := take (ap_off a) (ap_buf a) @ tail,
           ap_off := ap_off a + len,
           ap_size := ap_size a - len\<rparr>)"

section \<open>Copying and appending\<close>

text \<open>One closed form for both ways out of the copy loop.\<close>

lemma strlcpy_copy_eq:
  "d + n < length dst \<Longrightarrow>
   strlcpy_copy n src d dst =
     (if n \<le> length src then (take d dst @ take n src @ drop (d + n) dst, d + n, True)
      else (take d dst @ src @ NUL # drop (Suc (d + length src)) dst, Suc (d + length src), False))"
proof (induction n src d dst rule: strlcpy_copy.induct)
  case (1 src d dst)
  then show ?case by simp
next
  case (2 n d dst)
  then show ?case by (simp add: upd_conv_take_nth_drop)
next
  case (3 n c src d dst)
  then have "Suc d + n < length (dst[d := c])" by simp
  note IH = "3.IH" [OF this]
  have tk: "take (Suc d) (dst[d := c]) = take d dst @ [c]"
    using "3.prems" by (simp add: take_Suc_conv_app_nth)
  have dr: "drop (Suc d + k) (dst[d := c]) = drop (Suc d + k) dst" for k
    by simp
  show ?case
    by (simp add: IH tk dr)
qed

lemma strlcpy_eq:
  assumes "0 < siz" "siz \<le> length dst"
  shows "strlcpy dst src siz =
    (take (siz - 1) src @ NUL # drop (Suc (min (siz - 1) (length src))) dst, length src)"
proof -
  have "0 + (siz - 1) < length dst" using assms by simp
  note eq = strlcpy_copy_eq [OF this, of src]
  show ?thesis
  proof (cases "siz - 1 \<le> length src")
    case True
    have "drop (siz - 1) dst = dst ! (siz - 1) # drop (Suc (siz - 1)) dst"
      using assms by (intro Cons_nth_drop_Suc [symmetric]) simp
    with True assms eq show ?thesis
      by (simp add: strlcpy_def list_update_append min_absorb1)
  next
    case False
    with assms eq show ?thesis
      by (simp add: strlcpy_def min_absorb2)
  qed
qed

lemma length_strlcpy:
  "siz \<le> length dst \<Longrightarrow> length (fst (strlcpy dst src siz)) = length dst"
  by (cases "siz = 0") (simp add: strlcpy_def, simp add: strlcpy_eq)

lemma NUL_notin_take: "NUL \<notin> set s \<Longrightarrow> NUL \<notin> set (take n s)"
  by (meson in_set_takeD)

text \<open>\<open>strlcpy\<close> with a positive size that fits the buffer stores the longest prefix that
  leaves room for the terminator, returns the length of the source and changes no byte past
  the ones it writes.\<close>

theorem strlcpy_spec:
  assumes "0 < siz" and "siz \<le> length dst" and "NUL \<notin> set src"
  shows "cstr (fst (strlcpy dst src siz)) = take (siz - 1) src
       \<and> snd (strlcpy dst src siz) = length src
       \<and> length (fst (strlcpy dst src siz)) = length dst
       \<and> drop (Suc (min (siz - 1) (length src))) (fst (strlcpy dst src siz))
           = drop (Suc (min (siz - 1) (length src))) dst"
  using assms by (simp add: strlcpy_eq NUL_notin_take min.commute)

theorem strlcpy_spec_witness:
  "cstr (fst (strlcpy ''xxxxx'' ''abcdef'' 4)) = ''abc''
   \<and> snd (strlcpy ''xxxxx'' ''abcdef'' 4) = 6"
  using strlcpy_spec [of 4 "''xxxxx''" "''abcdef''"] by simp

text \<open>The state of an appender over a buffer of \<open>cap\<close> bytes after the text \<open>t\<close>.\<close>

definition appended :: "nat \<Rightarrow> string \<Rightarrow> appender \<Rightarrow> bool" where
  "appended cap t a \<longleftrightarrow>
     length (ap_buf a) = cap \<and> ap_off a + ap_size a = cap
     \<and> ap_off a = min cap (length t)
     \<and> (\<exists>r. ap_buf a = take (cap - 1) t @ NUL # r)"

lemma appended_start:
  "0 < length b \<Longrightarrow> hd b = NUL \<Longrightarrow>
   appended (length b) [] \<lparr>ap_buf = b, ap_off = 0, ap_size = length b\<rparr>"
  by (cases b) (auto simp: appended_def)

lemma appended_step:
  assumes a: "appended cap t a" and pos: "0 < cap"
  shows "appended cap (t @ src) (strappend a src)"
proof (cases "ap_size a = 0")
  case True
  with a pos show ?thesis
    by (auto simp: appended_def strappend_def strlcpy_def)
next
  case False
  from a obtain r where len: "length (ap_buf a) = cap" and sum: "ap_off a + ap_size a = cap"
    and off: "ap_off a = min cap (length t)" and buf: "ap_buf a = take (cap - 1) t @ NUL # r"
    unfolding appended_def by blast
  from False sum off have lt: "length t < cap" and offt: "ap_off a = length t" by auto
  with buf have buf': "ap_buf a = t @ NUL # r" by simp
  have lr: "length r = cap - Suc (length t)" using len buf' by simp
  have sz: "ap_size a = cap - length t" using sum offt by simp
  have cpy: "strlcpy (NUL # r) src (cap - length t)
    = (take (cap - length t - 1) src @ NUL # drop (min (cap - length t - 1) (length src)) r,
       length src)"
    using lr lt by (subst strlcpy_eq) simp_all
  have "strappend a src = a\<lparr>
      ap_buf := t @ take (cap - length t - 1) src
                  @ NUL # drop (min (cap - length t - 1) (length src)) r,
      ap_off := length t + min (cap - length t) (length src),
      ap_size := cap - length t - min (cap - length t) (length src)\<rparr>"
    unfolding strappend_def offt sz buf'
    by (simp add: cpy Let_def min_def)
  then show ?thesis
    using lt lr pos by (cases src) (auto simp: appended_def min_def)
qed

text \<open>Appending any number of strings with \<open>strappend\<close> builds, in the buffer, the
  concatenation cut to the room there is: the buffer always holds a terminated string.\<close>

theorem strappend_all:
  assumes "0 < length b" and "hd b = NUL" and "\<forall>s\<in>set srcs. NUL \<notin> set s"
  shows "cstr (ap_buf (foldl strappend \<lparr>ap_buf = b, ap_off = 0, ap_size = length b\<rparr> srcs))
       = take (length b - 1) (concat srcs)"
proof -
  have "appended (length b) (t @ concat srcs) (foldl strappend a srcs)"
    if "appended (length b) t a" for a t
    using that
  proof (induction srcs arbitrary: a t)
    case Nil
    then show ?case by simp
  next
    case (Cons s srcs)
    from Cons.IH [OF appended_step [OF Cons.prems assms(1)], of s] show ?case by simp
  qed
  from this [OF appended_start [OF assms(1,2)]]
  obtain r where "ap_buf (foldl strappend \<lparr>ap_buf = b, ap_off = 0, ap_size = length b\<rparr> srcs)
      = take (length b - 1) (concat srcs) @ NUL # r"
    by (auto simp: appended_def)
  moreover have "NUL \<notin> set (take (length b - 1) (concat srcs))"
    using assms(3) by (intro NUL_notin_take) auto
  ultimately show ?thesis by simp
qed

theorem strappend_all_witness:
  "cstr (ap_buf (foldl strappend \<lparr>ap_buf = replicate 6 NUL, ap_off = 0, ap_size = 6\<rparr>
      [''ab'', ''cd'', ''ef''])) = ''abcde''"
  using strappend_all [of "replicate 6 NUL" "[''ab'', ''cd'', ''ef'']"]
  by (simp add: numeral_eq_Suc)

section \<open>Searching GBK text\<close>

text \<open>
  GBK text without its case: a lead byte and the byte after it are kept, a single byte is folded
  to lower case. \<open>gbk_ok\<close>: no character is cut in the middle.
\<close>

fun gbk_fold :: "string \<Rightarrow> string" where
  "gbk_fold [] = []"
| "gbk_fold [c] = [tolower c]"
| "gbk_fold (c # d # s) = (if hibit c then c # d # gbk_fold s else tolower c # gbk_fold (d # s))"

fun gbk_ok :: "string \<Rightarrow> bool" where
  "gbk_ok [] = True"
| "gbk_ok [c] = (\<not> hibit c)"
| "gbk_ok (c # d # s) = (if hibit c then gbk_ok s else gbk_ok (d # s))"

fun gbk_starts :: "nat \<Rightarrow> string \<Rightarrow> nat list" where
  \<comment> \<open>the offsets of the characters of a text that starts at offset \<open>i\<close>\<close>
  "gbk_starts i [] = []"
| "gbk_starts i [c] = [i]"
| "gbk_starts i (c # d # s) =
     i # (if hibit c then gbk_starts (i + 2) s else gbk_starts (i + 1) (d # s))"

definition gbk_match :: "string \<Rightarrow> string \<Rightarrow> nat \<Rightarrow> bool" where
  "gbk_match h n i \<longleftrightarrow>
     i + length n \<le> length h \<and> gbk_fold (take (length n) (drop i h)) = gbk_fold n"

lemma gbk_fold_Cons: "\<not> hibit c \<Longrightarrow> gbk_fold (c # s) = tolower c # gbk_fold s"
  by (cases s) simp_all

lemma length_gbk_fold [simp]: "length (gbk_fold s) = length s"
  by (induction s rule: gbk_fold.induct) auto

lemma gbk_fold_Cons_eq:
  "gbk_fold (c # s) = gbk_fold (d # t) \<Longrightarrow> tolower c = tolower d"
  by (cases s; cases t) (auto split: if_splits)

lemma strncasecmp_loop_iff:
  assumes "gbk_ok n" "NUL \<notin> set n" "NUL \<notin> set s"
  shows "\<exists>r. strncasecmp_loop s n l (l + int (length n)) = Val r
    \<and> (r = 0 \<longleftrightarrow> length n \<le> length s \<and> gbk_fold (take (length n) s) = gbk_fold n)"
  using assms
proof (induction n arbitrary: s l rule: gbk_ok.induct)
  case 1
  then show ?case by (cases s) simp_all
next
  case (2 d)
  then show ?case
    by (cases s) (auto simp: Let_def)
next
  case (3 d f n)
  show ?case
  proof (cases s)
    case Nil
    then show ?thesis by simp
  next
    case s: (Cons c s1)
    show ?thesis
    proof (cases "tolower c = tolower d")
      case False
      have "gbk_fold (take (length (d # f # n)) s) \<noteq> gbk_fold (d # f # n)"
        using gbk_fold_Cons_eq [of c _ d "f # n"] False s by auto
      with False s show ?thesis by (simp add: Let_def del: gbk_fold.simps)
    next
      case eq: True
      then have hc: "hibit c = hibit d" by (metis hibit_tolower)
      show ?thesis
      proof (cases "hibit d")
        case True
        with eq hc have cd: "c = d" by simp
        from "3.prems" True have ok: "gbk_ok n" "NUL \<notin> set n" "f \<noteq> NUL" by auto
        show ?thesis
        proof (cases s1)
          case Nil
          have "schar f \<noteq> 0"
            using ok(3) schar_inject [of f NUL] by (simp add: schar_def)
          with True cd s Nil show ?thesis by (simp add: Let_def)
        next
          case s1: (Cons e t1)
          from "3.prems"(3) s s1 have nt: "NUL \<notin> set t1" by simp
          from "3.IH"(1) [OF True ok(1,2) nt, of "l + 2"]
          show ?thesis
            using True cd s s1 by (auto simp: Let_def add_ac)
        qed
      next
        case False
        with "3.prems" have ok: "gbk_ok (f # n)" "NUL \<notin> set (f # n)" by simp_all
        from "3.prems"(3) s have nt: "NUL \<notin> set s1" by simp
        from "3.IH"(2) [OF False ok nt, of "l + 1"]
        show ?thesis
          using False hc eq s by (auto simp: Let_def add_ac gbk_fold_Cons)
      qed
    qed
  qed
qed

lemma strncasecmp_gbk_iff:
  assumes "gbk_ok n" "NUL \<notin> set n" "NUL \<notin> set s"
  shows "\<exists>r. strncasecmp_gbk s n (int (length n)) = Val r
    \<and> (r = 0 \<longleftrightarrow> length n \<le> length s \<and> gbk_fold (take (length n) s) = gbk_fold n)"
  using strncasecmp_loop_iff [OF assms, of 0] by (simp add: strncasecmp_gbk_def)

lemma gbk_match_drop_iff:
  "i \<le> length h \<Longrightarrow> gbk_match h n i \<longleftrightarrow>
     length n \<le> length (drop i h) \<and> gbk_fold (take (length n) (drop i h)) = gbk_fold n"
  by (auto simp: gbk_match_def)

lemma gbk_starts_drop:
  "i < length h \<Longrightarrow> gbk_starts i (drop i h) =
     i # (if hibit (h ! i) then gbk_starts (i + 2) (drop (i + 2) h)
          else gbk_starts (i + 1) (drop (i + 1) h))"
proof -
  assume i: "i < length h"
  then have d: "drop i h = h ! i # drop (Suc i) h" by (simp add: Cons_nth_drop_Suc)
  show ?thesis
  proof (cases "Suc i < length h")
    case True
    then have "drop (Suc i) h = h ! Suc i # drop (Suc (Suc i)) h"
      by (simp add: Cons_nth_drop_Suc)
    with d show ?thesis by simp
  next
    case False
    then have "drop (Suc i) h = []" by simp
    with d False show ?thesis by simp
  qed
qed

lemma gbk_starts_ge: "j \<in> set (gbk_starts i s) \<Longrightarrow> i \<le> j"
  by (induction i s rule: gbk_starts.induct) (auto split: if_splits)

lemma find_False: "(\<And>x. x \<in> set xs \<Longrightarrow> \<not> P x) \<Longrightarrow> find P xs = None"
  by (simp add: find_None_iff)

lemma strcasestr_loop_eq:
  assumes "n \<noteq> []" "gbk_ok n" "NUL \<notin> set n" "NUL \<notin> set h"
  shows "strcasestr_loop h n i = Val (find (gbk_match h n) (gbk_starts i (drop i h)))"
  using assms
proof (induction h n i rule: strcasestr_loop.induct)
  case (1 h n i)
  show ?case
  proof (cases "i + length n \<le> length h \<and> i < length h")
    case True
    have nh: "NUL \<notin> set (drop i h)" using "1.prems"(4) by (meson in_set_dropD)
    from strncasecmp_gbk_iff [OF "1.prems"(2,3) nh] obtain r
      where cmp: "strncasecmp_gbk (drop i h) n (int (length n)) = Val r"
        and r: "r = 0 \<longleftrightarrow> gbk_match h n i"
      using gbk_match_drop_iff [of i h n] True by auto
    note st = gbk_starts_drop [of i h]
    show ?thesis
    proof (cases "r = 0")
      case True
      with cmp r \<open>i + length n \<le> length h \<and> i < length h\<close> st show ?thesis
        by (simp add: strcasestr_loop.simps [of h n i])
    next
      case False
      from "1.IH" [OF True cmp False] "1.prems"
      have IH: "strcasestr_loop h n (if hibit (h ! i) then i + 2 else i + 1)
        = Val (find (gbk_match h n) (gbk_starts (if hibit (h ! i) then i + 2 else i + 1)
                 (drop (if hibit (h ! i) then i + 2 else i + 1) h)))" by blast
      have "strcasestr_loop h n i = strcasestr_loop h n (if hibit (h ! i) then i + 2 else i + 1)"
        using cmp False True by (simp add: strcasestr_loop.simps [of h n i])
      with IH r False True st show ?thesis by (simp split: if_splits)
    qed
  next
    case False
    with "1.prems"(1) have ge: "length h < i + length n"
      by (cases n) auto
    have "find (gbk_match h n) (gbk_starts i (drop i h)) = None"
      using ge gbk_starts_ge by (intro find_False) (fastforce simp: gbk_match_def)
    then show ?thesis
      by (simp only: strcasestr_loop.simps [of h n i] False if_False)
  qed
qed

text \<open>\<open>strcasestr_gbk\<close> finds the first character boundary at which the needle matches
  without regard to case, and only character boundaries: the second byte of a Chinese character
  never starts a match. It never reads out of bounds when the needle is whole GBK text.\<close>

theorem strcasestr_gbk_spec:
  assumes "n \<noteq> []" and "gbk_ok n" and "NUL \<notin> set n" and "NUL \<notin> set h"
  shows "strcasestr_gbk (Some h) (Some n) = Val (find (gbk_match h n) (gbk_starts 0 h))"
proof (cases "length h < length n")
  case True
  then have "find (gbk_match h n) (gbk_starts 0 h) = None"
    by (intro find_False) (simp add: gbk_match_def)
  with True show ?thesis by (simp add: strcasestr_gbk_def)
next
  case False
  with assms(1) have "0 < length h" "0 < length n"
    by (cases n; cases h; simp)+
  then show ?thesis
    using strcasestr_loop_eq [OF assms, of 0] False by (simp add: strcasestr_gbk_def)
qed

theorem strcasestr_gbk_spec_witness:
  "strcasestr_gbk (Some (bytes [181, 65, 97, 66])) (Some ''Ab'') = Val (Some 2)"
proof -
  have "strcasestr_gbk (Some (bytes [181, 65, 97, 66])) (Some ''Ab'')
    = Val (find (gbk_match (bytes [181, 65, 97, 66]) ''Ab'') (gbk_starts 0 (bytes [181, 65, 97, 66])))"
    by (rule strcasestr_gbk_spec) code_simp+
  also have "\<dots> = Val (Some 2)" by code_simp
  finally show ?thesis .
qed

text \<open>A needle or a key that ends in the middle of a character, equal to the rest of the
  other string, sends the comparison past both terminators.\<close>

lemma strncasecmp_gbk_cut_lead_byte:
  "hibit c \<Longrightarrow> 0 < n \<Longrightarrow> strncasecmp_gbk [c] [c] n = UB"
  by (simp add: strncasecmp_gbk_def)

section \<open>Trimming, filtering and quoting\<close>

text \<open>What \<^verbatim>\<open>rtrim\<close> and \<^verbatim>\<open>trim\<close> keep of a text.\<close>

definition blank :: "char \<Rightarrow> bool" where
  "blank c \<longleftrightarrow> byte c \<le> 32"

definition strip_right :: "string \<Rightarrow> string" where
  "strip_right s = rev (dropWhile blank (rev s))"

lemma strip_right_snoc:
  "strip_right (s @ [c]) = (if blank c then strip_right s else s @ [c])"
  by (simp add: strip_right_def)

lemma strip_right_prefix: "\<exists>t. s = strip_right s @ t"
  by (metis strip_right_def rev_append rev_rev_ident takeWhile_dropWhile_id)

lemma rtrim_ptr_eq:
  "rtrim_ptr pre (s @ r) (int (length s) - 1) = int (length (strip_right s)) - 1"
proof (induction s arbitrary: r rule: rev_induct)
  case Nil
  then show ?case by (subst rtrim_ptr.simps) (simp add: strip_right_def)
next
  case (snoc c s)
  have at: "byte_at pre ((s @ [c]) @ r) (int (length (s @ [c])) - 1) = c"
    by (simp add: byte_at_def nth_append)
  show ?case
  proof (cases "blank c")
    case True
    have "rtrim_ptr pre ((s @ [c]) @ r) (int (length (s @ [c])) - 1)
        = rtrim_ptr pre (s @ [c] @ r) (int (length s) - 1)"
      using at True by (subst rtrim_ptr.simps) (simp add: blank_def)
    with snoc.IH [of "[c] @ r"] True show ?thesis by (simp add: strip_right_snoc)
  next
    case False
    with at show ?thesis
      by (subst rtrim_ptr.simps) (simp add: blank_def strip_right_snoc)
  qed
qed

lemma rtrim_ptr_start:
  assumes "NUL \<notin> set s"
  shows "rtrim_ptr pre (s @ NUL # r) (int (length (cstr (s @ NUL # r))))
    = int (length (strip_right s)) - 1"
proof -
  have "rtrim_ptr pre ((s @ [NUL]) @ r) (int (length (s @ [NUL])) - 1)
      = int (length (strip_right (s @ [NUL]))) - 1"
    by (rule rtrim_ptr_eq)
  then show ?thesis
    using assms by (simp add: strip_right_snoc blank_def)
qed

lemma truncate_at_strip:
  "\<exists>r'. (s @ NUL # r)[length (strip_right s) := NUL] = strip_right s @ NUL # r'
    \<and> length r' + length (strip_right s) = length r + length s"
proof -
  define u where "u = strip_right s"
  obtain t where t: "s = u @ t" using strip_right_prefix u_def by blast
  have "(u @ t @ NUL # r)[length u := NUL]
      = (if t = [] then u @ NUL # r else u @ NUL # tl t @ NUL # r)"
    by (cases t) (simp_all add: list_update_append)
  with t show ?thesis
    unfolding u_def [symmetric] by (cases t) auto
qed

lemma rtrim_cstr:
  assumes "NUL \<notin> set s"
  shows "map_option cstr (rtrim pre (Some (s @ NUL # r))) = Some (strip_right s)"
proof -
  have n: "NUL \<notin> set (strip_right s)"
    using assms strip_right_prefix [of s] by (metis UnCI set_append)
  obtain r' where "(s @ NUL # r)[length (strip_right s) := NUL] = strip_right s @ NUL # r'"
    using truncate_at_strip [of s r] by blast
  with n show ?thesis
    by (simp add: rtrim_def rtrim_ptr_start [OF assms] del: cstr_append_NUL)
       (simp add: rtrim_ptr_start [OF assms, simplified])
qed

lemma skip_blanks_eq:
  "NUL \<notin> set s \<Longrightarrow> length s < k \<Longrightarrow>
   skip_blanks (p @ s @ NUL # r) k (length p) = length p + length (takeWhile blank s)"
proof (induction s arbitrary: k p)
  case Nil
  then show ?case by (cases k) (simp_all add: nth_append)
next
  case (Cons c s)
  then obtain k' where k: "k = Suc k'" by (cases k) auto
  from Cons.IH [of k' "p @ [c]"] Cons.prems k show ?case
    by (auto simp: nth_append blank_def)
qed

text \<open>\<open>trim\<close> leaves exactly the text without its leading and trailing bytes up to
  0x20, whatever byte stands in front of the buffer, although the code reads that byte.\<close>

theorem trim_spec:
  assumes "NUL \<notin> set s"
  shows "map_option cstr (trim pre (Some (s @ NUL # r)))
       = Some (dropWhile blank (strip_right s))"
proof -
  let ?t = "strip_right s"
  have n: "NUL \<notin> set ?t"
    using assms strip_right_prefix [of s] by (metis UnCI set_append)
  obtain r' where buf: "(s @ NUL # r)[length ?t := NUL] = ?t @ NUL # r'"
    using truncate_at_strip [of s r] by blast
  define k where "k = length (takeWhile blank ?t)"
  have sk: "skip_blanks (?t @ NUL # r') (length (?t @ NUL # r')) 0 = k"
    unfolding k_def
    using skip_blanks_eq [OF n, of "length (?t @ NUL # r')" "[]" r'] by simp
  have kd: "dropWhile blank ?t = drop k ?t" and kl: "k \<le> length ?t"
    by (simp_all add: k_def dropWhile_eq_drop length_takeWhile_le)
  have "cstr (take (length ?t - k + 1) (drop k (?t @ NUL # r')) @ x) = drop k ?t" for x
    using kl n by (simp add: in_set_dropD [of NUL k ?t] flip: length_drop) (meson cstr_append_NUL in_set_dropD)
  moreover have "trim pre (Some (s @ NUL # r)) = Some
      (if k \<noteq> 0 then take (length ?t - k + 1) (drop k (?t @ NUL # r'))
                         @ drop (length ?t - k + 1) (?t @ NUL # r')
       else ?t @ NUL # r')"
    by (simp only: trim_def option.case rtrim_ptr_start [OF assms] Let_def diff_add_cancel
        nat_int buf sk)
  ultimately show ?thesis
    using n kd by auto
qed

theorem trim_spec_witness:
  "map_option cstr (trim (CHR ''!'') (Some (bytes [32, 9, 97, 32, 98, 32, 10, 0]))) = Some ''a b''"
proof -
  have "bytes [32, 9, 97, 32, 98, 32, 10, 0] = bytes [32, 9, 97, 32, 98, 32, 10] @ NUL # []"
    by code_simp
  moreover have "NUL \<notin> set (bytes [32, 9, 97, 32, 98, 32, 10])" by code_simp
  moreover have "dropWhile blank (strip_right (bytes [32, 9, 97, 32, 98, 32, 10])) = ''a b''"
    by code_simp
  ultimately show ?thesis
    using trim_spec [of "bytes [32, 9, 97, 32, 98, 32, 10]" "CHR ''!''" "[]"] by simp
qed

text \<open>An escape sequence \<^verbatim>\<open>ESC\<close> \dots\ letter vanishes, and nothing else does.\<close>

lemma ansi_filter_loop_noesc:
  "ESC \<notin> set (ansi_filter_loop f s)"
  by (induction f s rule: ansi_filter_loop.induct) auto

lemma ansi_filter_loop_plain:
  "ESC \<notin> set s \<Longrightarrow> ansi_filter_loop False s = s"
  by (induction s) auto

lemma ansi_filter_loop_append:
  "ESC \<notin> set s \<Longrightarrow> ansi_filter_loop False (s @ t) = s @ ansi_filter_loop False t"
  by (induction s) auto

lemma ansi_filter_loop_skip:
  "\<forall>c\<in>set p. \<not> isalpha c \<Longrightarrow> isalpha m \<Longrightarrow> ansi_filter_loop True (p @ m # t) = ansi_filter_loop False t"
  by (induction p) (auto simp: isalpha_def isupper_def islower_def byte_def)

text \<open>\<open>ansi_filter\<close> removes each escape sequence and nothing else; its result holds no
  escape character, so a second pass changes nothing.\<close>

theorem ansi_filter_spec:
  assumes "ESC \<notin> set a" and "\<forall>c\<in>set p. \<not> isalpha c" and "isalpha m"
  shows "ansi_filter (Some d) (Some (a @ ESC # p @ m # b))
           = Some (a @ the (ansi_filter (Some d) (Some b)))
       \<and> ESC \<notin> set (the (ansi_filter (Some d) (Some b)))
       \<and> ansi_filter (Some d) (ansi_filter (Some d) (Some b)) = ansi_filter (Some d) (Some b)"
  using assms ansi_filter_loop_noesc ansi_filter_loop_plain
  by (simp add: ansi_filter_def ansi_filter_loop_append ansi_filter_loop_skip)

theorem ansi_filter_spec_witness:
  "ansi_filter (Some []) (Some (''x'' @ ESC # ''[1;32'' @ CHR ''m'' # ''y'')) = Some ''xy''"
proof -
  have "the (ansi_filter (Some []) (Some ''y'')) = ''y''" by code_simp
  moreover have "\<forall>c\<in>set ''[1;32''. \<not> isalpha c" "isalpha (CHR ''m'')" by code_simp+
  ultimately show ?thesis
    using ansi_filter_spec [of "''x''" "''[1;32''" "CHR ''m''" "[]" "''y''"] by simp
qed

text \<open>The decoder of the quoting of \<^verbatim>\<open>strtourl\<close>, as a URL reader does it.\<close>

definition hex_value :: "char \<Rightarrow> nat option" where
  "hex_value c = (if isdigit c then Some (byte c - 48)
     else if 65 \<le> byte c \<and> byte c \<le> 70 then Some (byte c - 55) else None)"

fun read_url :: "string \<Rightarrow> string option" where
  "read_url [] = Some []"
| "read_url (c # s) =
     (if c \<noteq> CHR ''%'' then map_option (Cons c) (read_url s)
      else case s of
             h # l # s' \<Rightarrow>
               (case (hex_value h, hex_value l) of
                  (Some x, Some y) \<Rightarrow> map_option (Cons (char_of (16 * x + y))) (read_url s')
                | _ \<Rightarrow> None)
           | _ \<Rightarrow> None)"

lemma hex_value_url_digit:
  "0 \<le> h \<Longrightarrow> h < 16 \<Longrightarrow> hex_value (url_digit h) = Some (nat h)"
proof -
  assume h: "0 \<le> h" "h < 16"
  then have "byte (url_digit h) = nat (if 9 < h then 55 + h else 48 + h)"
    by (simp add: url_digit_def byte_char_of)
  with h show ?thesis by (auto simp: hex_value_def isdigit_def)
qed

lemma char_of_hex: "byte c < 128 \<Longrightarrow> char_of (16 * (byte c div 16) + byte c mod 16) = c"
  by (simp only: mult_div_mod_eq char_of_byte)

text \<open>What \<open>strtourl\<close> writes for 7-bit text, a URL reader decodes to the same text.\<close>

theorem strtourl_roundtrip:
  assumes "\<forall>c\<in>set s. \<not> hibit c"
  shows "read_url (strtourl s) = Some s"
  using assms
proof (induction s)
  case Nil
  then show ?case by simp
next
  case (Cons c s)
  then have c: "byte c < 128" by (simp add: hibit_def)
  have "c_div (schar c) 16 = int (byte c div 16)" "c_mod (schar c) 16 = int (byte c mod 16)"
    using c by (simp_all add: schar_def c_div_nonneg c_mod_nonneg zdiv_int zmod_int)
  with c Cons show ?case
    by (auto simp: hex_value_url_digit char_of_hex)
qed

theorem strtourl_roundtrip_witness:
  "read_url (strtourl ''a b%c'') = Some ''a b%c''"
  using strtourl_roundtrip [of "''a b%c''"] by (simp add: hibit_def byte_def)

text \<open>A Chinese character is not quoted right: \<^verbatim>\<open>char\<close> is signed, so the quotient and the
  remainder are negative and the digits are not hexadecimal digits.\<close>

lemma strtourl_high_byte_broken:
  "strtourl (bytes [0xB1]) = ''%,!'' \<and> read_url (strtourl (bytes [0xB1])) = None"
  by code_simp

section \<open>Shortening with an ellipsis\<close>

definition gbk_inside :: "bool \<Rightarrow> string \<Rightarrow> bool" where
  \<comment> \<open>whether a text ends inside a two-byte character\<close>
  "gbk_inside g s = foldl (\<lambda>g c. if g then False else hibit c) g s"

lemma gbk_inside_simps [simp]:
  "gbk_inside g [] = g"
  "gbk_inside g (c # s) = gbk_inside (if g then False else hibit c) s"
  "gbk_inside g (s @ t) = gbk_inside (gbk_inside g s) t"
  by (simp_all add: gbk_inside_def)

lemma gbk_ok_iff: "gbk_ok s \<longleftrightarrow> \<not> gbk_inside False s"
  by (induction s rule: gbk_ok.induct) simp_all

lemma ellipsis_scan_eq:
  assumes "NUL \<notin> set s"
  shows "ellipsis_scan (p @ s @ NUL # r) (length p) i g =
    (if i \<le> length s then (length p + i, 0, gbk_inside g (take i s))
     else (length p + length s, i - length s, gbk_inside g s))"
  using assms
proof (induction s arbitrary: p i g)
  case Nil
  then show ?case by (cases i) (simp_all add: nth_append)
next
  case (Cons c s)
  show ?case
  proof (cases i)
    case 0
    then show ?thesis by simp
  next
    case (Suc j)
    with Cons.IH [of "p @ [c]" j] Cons.prems show ?thesis
      by (auto simp: nth_append)
  qed
qed

lemma ellipsis_tail_long:
  "NUL \<notin> {a, b, c} \<Longrightarrow> ellipsis_tail (p @ a # b # c # r) (length p) 3 = (length p + 3, 0)"
  by ((subst ellipsis_tail.simps, simp add: nth_append)+) auto

lemma ellipsis_tail_short:
  assumes "NUL \<notin> set t" "length t < i"
  shows "ellipsis_tail (p @ t @ NUL # r) (length p) i = (length p + length t + 1, i - length t)"
  using assms
proof (induction t arbitrary: p i)
  case Nil
  then show ?case by (subst ellipsis_tail.simps) (simp add: nth_append)
next
  case (Cons c t)
  then have "i - 1 \<noteq> 0" by (cases i) auto
  with Cons.IH [where p = "p @ [c]" and i = "i - 1"] Cons.prems show ?case
    by (subst ellipsis_tail.simps) (auto simp: nth_append)
qed

definition shorten :: "string \<Rightarrow> nat \<Rightarrow> string" where
  "shorten s n =
     (if length s \<le> n then s
      else if gbk_inside False (take (n - 3) s) \<or> \<not> hibit (s ! (n - 3))
           then take (n - 2) s @ ''..'' else take (n - 3) s @ ''...'')"

lemma length_ge_4: "4 \<le> length xs \<Longrightarrow> \<exists>a b c d t. xs = a # b # c # d # t"
  by (auto simp: numeral_eq_Suc Suc_le_length_iff)

lemma ellipsis_long:
  assumes "3 \<le> n" "n < length s" "NUL \<notin> set s"
  shows "\<exists>b. ellipsis (Some (s @ NUL # r)) (int n) = Val (1, Some b) \<and> cstr b = shorten s n"
proof -
  define p where "p = take (n - 3) s"
  have "4 \<le> length (drop (n - 3) s)" using assms by simp
  then obtain a b c d t where dr: "drop (n - 3) s = a # b # c # d # t"
    using length_ge_4 by blast
  then have s: "s = p @ a # b # c # d # t" unfolding p_def by (metis append_take_drop_id)
  have n: "n = length p + 3" using assms by (simp add: p_def)
  have nul: "NUL \<notin> set p" "NUL \<notin> {a, b, c, d}" "a \<noteq> NUL" "d \<noteq> NUL" "NUL \<noteq> a"
    using assms(3) s by auto
  have scan: "ellipsis_scan (s @ NUL # r) 0 (n - 3) False = (length p, 0, gbk_inside False p)"
    using ellipsis_scan_eq [OF assms(3), of "[]" r "n - 3" False] assms(2)
    by (simp add: p_def less_imp_le [THEN le_trans [OF diff_le_self]])
  have tail: "ellipsis_tail (s @ NUL # r) (length p) 3 = (n, 0)"
    using ellipsis_tail_long [of a b c p "d # t @ NUL # r"] nul(2) s n by auto
  have short: "shorten s n = (if gbk_inside False p \<or> \<not> hibit a then p @ a # ''..'' else p @ ''...'')"
    unfolding shorten_def p_def [symmetric] using assms s n by (auto simp: nth_append)
  have upd: "(s @ NUL # r)[n := NUL, n - 1 := CHR ''.'', n - 2 := CHR ''.'']
      = p @ a # ''..'' @ NUL # t @ NUL # r"
    unfolding s n by (simp add: list_update_append numeral_2_eq_2 numeral_3_eq_3)
  have ell: "ellipsis (Some (s @ NUL # r)) (int n) =
      Val (1, Some (if \<not> gbk_inside False p \<and> hibit a then p @ ''...'' @ NUL # t @ NUL # r
                    else p @ a # ''..'' @ NUL # t @ NUL # r))"
  proof -
    have at: "(s @ NUL # r) ! n = d" and lt: "\<not> length (s @ NUL # r) \<le> n" and np: "n - 3 = length p"
      unfolding s n by (simp_all add: nth_append)
    show ?thesis
      using assms(1) nul(2) scan tail
      by (auto simp only: ellipsis_def option.case split Let_def nat_int upd at lt np
          nth_append_length list_update_length if_False if_True append_Cons append_Nil
          insert_iff empty_iff simp_thms of_nat_less_0_iff of_nat_less_numeral_iff not_less
          split: if_splits)
  qed
  have "cstr (p @ ''...'' @ NUL # t @ NUL # r) = p @ ''...''"
    "cstr (p @ a # ''..'' @ NUL # t @ NUL # r) = p @ a # ''..''"
    using nul(1,3) cstr_append_NUL [of "p @ ''...''" "t @ NUL # r"]
      cstr_append_NUL [of "p @ a # ''..''" "t @ NUL # r"] by auto
  then show ?thesis by (simp add: ell short)
qed

lemma ellipsis_short:
  assumes "3 \<le> n" "length s \<le> n" "NUL \<notin> set s" "length s = n \<or> r \<noteq> []"
  shows "ellipsis (Some (s @ NUL # r)) (int n) = Val (1, Some (s @ NUL # r))"
proof -
  define p where "p = take (n - 3) s"
  define t where "t = drop (n - 3) s"
  have s: "s = p @ t" by (simp add: p_def t_def)
  have tn: "NUL \<notin> set t" using assms(3) s by simp
  obtain g i where scan: "ellipsis_scan (s @ NUL # r) 0 (n - 3) False = (length p, i, g)"
    using ellipsis_scan_eq [OF assms(3), of "[]" r "n - 3" False] assms(2)
    by (cases "n - 3 \<le> length s") (auto simp: p_def)
  show ?thesis
  proof (cases "length t < 3")
    case True
    then have "ellipsis_tail (s @ NUL # r) (length p) 3 = (length s + 1, 3 - length t)"
      using ellipsis_tail_short [OF tn True, of p r] s by simp
    moreover have "r \<noteq> []" using assms True by (auto simp: t_def)
    ultimately show ?thesis
      using assms(1) scan True by (simp add: ellipsis_def)
  next
    case False
    then have "length t = 3" using assms(1,2) by (auto simp: t_def)
    then obtain a b c where t: "t = [a, b, c]"
      by (auto simp: numeral_3_eq_3 length_Suc_conv)
    with tn have "ellipsis_tail (s @ NUL # r) (length p) 3 = (length s, 0)"
      using ellipsis_tail_long [of a b c p "NUL # r"] s by auto
    then show ?thesis
      using assms(1) scan by (simp add: ellipsis_def)
  qed
qed

text \<open>\<open>ellipsis\<close> keeps a text of at most \<open>len\<close> bytes and shortens a longer one to exactly
  \<open>len\<close> bytes that end in dots, never leaving half a Chinese character. (On a text shorter
  than \<open>len\<close> the code reads one byte past the terminator, which has to be in the buffer.)\<close>

theorem ellipsis_spec:
  assumes "3 \<le> n" and "NUL \<notin> set s" and "n \<le> length s \<or> r \<noteq> []"
  shows "(\<exists>b. ellipsis (Some (s @ NUL # r)) (int n) = Val (1, Some b) \<and> cstr b = shorten s n)
       \<and> (if length s \<le> n then shorten s n = s
          else length (shorten s n) = n \<and> gbk_ok (shorten s n)
               \<and> take (n - 3) (shorten s n) = take (n - 3) s
               \<and> drop (n - 2) (shorten s n) = ''..'')"
proof (cases "length s \<le> n")
  case True
  with ellipsis_short [of n s r] assms show ?thesis by (auto simp: shorten_def)
next
  case False
  then have n: "n < length s" by simp
  define p where "p = take (n - 3) s"
  have "take (n - 2) s = p @ [s ! (n - 3)]"
    using n assms(1) take_Suc_conv_app_nth [of "n - 3" s]
    by (simp add: p_def Suc_diff_le [symmetric] numeral_eq_Suc Suc_diff_Suc)
  then have sh: "shorten s n = (if gbk_inside False p \<or> \<not> hibit (s ! (n - 3))
      then p @ s ! (n - 3) # ''..'' else p @ ''...'')"
    using n by (simp add: shorten_def p_def)
  have "length p = n - 3" using n by (simp add: p_def)
  moreover have "\<not> hibit (CHR ''.'')" by code_simp
  ultimately show ?thesis
    using ellipsis_long [OF assms(1) n assms(2), of r] n assms(1) False
    by (auto simp: sh gbk_ok_iff p_def min_def drop_Cons' Suc_diff_le)
qed

theorem ellipsis_spec_witness:
  "shorten ''abcdefgh'' 6 = ''abcd..''
   \<and> (\<exists>b. ellipsis (Some (''abcdefgh'' @ [NUL])) 6 = Val (1, Some b) \<and> cstr b = ''abcd..'')"
proof -
  have "shorten ''abcdefgh'' 6 = ''abcd..''" by code_simp
  then show ?thesis
    using ellipsis_spec [of 6 "''abcdefgh''" "[]"] by simp
qed

end
