(* ===== verification/HashTable.thy ===== *)
theory HashTable
  imports Prelude "HOL-Library.Multiset"
begin

text \<open>
  The hash table, \<^verbatim>\<open>lib/hash.c\<close> and \<^verbatim>\<open>include/hash.h\<close>. A chain of entries is a list, the
  array of chains a list of lists, the list of recycled entries a list; a pointer to a pointer
  to an entry is the number of the chain and the position in it. \<^verbatim>\<open>malloc\<close> may fail: whether it
  succeeds is an argument of each operation that calls it. A value pointer is \<open>None\<close> for NULL.
\<close>

unbundle bit_operations_syntax

type_synonym hash_func = "string \<Rightarrow> u32 \<Rightarrow> u32 \<times> u32"

record 'v hash_entry =
  e_key :: string
  e_klen :: u32
  e_hash :: u32
  e_val :: 'v

record 'v hash_table =
  h_count :: u32
  h_max :: u32
  h_array :: "'v hash_entry list list"
  h_free :: "'v hash_entry list"
  h_func :: hash_func

definition HASH_DEFAULT_MAX :: u32 where "HASH_DEFAULT_MAX = 15"
definition HASH_KEY_STRING :: u32 where "HASH_KEY_STRING = -1"

section \<open>Definitions\<close>

definition hash_bytes :: "u32 \<Rightarrow> string \<Rightarrow> u32" where
  \<comment> \<open>both loops of \<open>hash_func_default\<close>\<close>
  "hash_bytes value str = foldl (\<lambda>value c. value + (value * 33 + of_int (schar c))) value str"

definition hash_func_default :: hash_func where
  "hash_func_default key klen =
     (if klen = HASH_KEY_STRING then (hash_bytes 0 (cstr key), of_nat (length (cstr key)))
      else (hash_bytes 0 (take (unat klen) key), klen))"

definition hash_create :: "bool \<Rightarrow> u32 \<Rightarrow> hash_func option \<Rightarrow> 'v hash_table option" where
  \<comment> \<open>\<open>None\<close> is the return value -1\<close>
  "hash_create malloc_ok mx func =
     (let mx = (if mx = 0 then HASH_DEFAULT_MAX else mx) in
      if \<not> malloc_ok then None
      else Some \<lparr>h_count = 0, h_max = mx, h_array = replicate (unat (mx + 1)) [], h_free = [],
                 h_func = (case func of None \<Rightarrow> hash_func_default | Some f \<Rightarrow> f)\<rparr>)"

definition hash_slot :: "u32 \<Rightarrow> u32 \<Rightarrow> nat" where
  "hash_slot hash mx = unat (hash AND mx)"

definition rehash_entry ::
  "u32 \<Rightarrow> 'v hash_entry \<Rightarrow> 'v hash_entry list list \<Rightarrow> 'v hash_entry list list" where
  "rehash_entry mx entry array =
     (let i = hash_slot (e_hash entry) mx in array[i := entry # array ! i])"

definition hash_expand :: "bool \<Rightarrow> 'v hash_table \<Rightarrow> 'v hash_table option" where
  "hash_expand malloc_ok ht =
     (let mx = 2 * h_max ht + 1 in
      if \<not> malloc_ok then None
      else Some (ht\<lparr>h_max := mx,
             h_array := fold (rehash_entry mx) (concat (take (unat (h_max ht) + 1) (h_array ht)))
                          (replicate (unat (mx + 1)) [])\<rparr>))"

definition entry_matches :: "string \<Rightarrow> u32 \<Rightarrow> u32 \<Rightarrow> 'v hash_entry \<Rightarrow> bool" where
  "entry_matches key klen hash entry \<longleftrightarrow>
     e_klen entry = klen \<and> e_hash entry = hash
     \<and> take (unat klen) (e_key entry) = take (unat klen) key"

fun chain_pos :: "('v hash_entry \<Rightarrow> bool) \<Rightarrow> 'v hash_entry list \<Rightarrow> nat" where
  "chain_pos p [] = 0"
| "chain_pos p (entry # chain) = (if p entry then 0 else Suc (chain_pos p chain))"

definition find_entry ::
  "bool \<Rightarrow> 'v hash_table \<Rightarrow> string \<Rightarrow> u32 \<Rightarrow> 'v option \<Rightarrow> 'v hash_table \<times> (nat \<times> nat) option" where
  \<comment> \<open>the position is \<open>None\<close> where the code returns NULL instead of a pointer to a pointer\<close>
  "find_entry malloc_ok ht key klen val =
     (let (hash, klen) = h_func ht key klen;
          slot = hash_slot hash (h_max ht);
          chain = h_array ht ! slot;
          pos = chain_pos (entry_matches key klen hash) chain
      in if pos < length chain then (ht, Some (slot, pos))
         else (case val of
                 None \<Rightarrow> (ht, Some (slot, pos))
               | Some v \<Rightarrow>
                   if h_free ht = [] \<and> \<not> malloc_ok then (ht, None)
                   else (ht\<lparr>h_free := tl (h_free ht),
                            h_array := (h_array ht)[slot := chain @
                              [\<lparr>e_key = take (unat klen) key, e_klen = klen, e_hash = hash,
                                e_val = v\<rparr>]],
                            h_count := h_count ht + 1\<rparr>,
                         Some (slot, pos))))"

definition hash_set ::
  "bool \<Rightarrow> bool \<Rightarrow> 'v hash_table \<Rightarrow> string \<Rightarrow> u32 \<Rightarrow> 'v option \<Rightarrow> ('v hash_table \<times> int) run" where
  \<comment> \<open>the first flag is for the entry's \<^verbatim>\<open>malloc\<close>, the second for the array's\<close>
  "hash_set malloc_entry malloc_array ht key klen val =
     (case find_entry malloc_entry ht key klen val of
        (ht, None) \<Rightarrow> UB
      | (ht, Some (slot, pos)) \<Rightarrow>
          (let chain = h_array ht ! slot in
           case val of
             Some v \<Rightarrow>
               if length chain \<le> pos then Val (ht, -1)
               else (let ht = ht\<lparr>h_array := (h_array ht)[slot := chain[pos := (chain ! pos)\<lparr>e_val := v\<rparr>]]\<rparr>
                     in if h_max ht < h_count ht
                        then (case hash_expand malloc_array ht of
                                None \<Rightarrow> Val (ht, -1) | Some ht \<Rightarrow> Val (ht, 0))
                        else Val (ht, 0))
           | None \<Rightarrow>
               if pos < length chain
               then Val (ht\<lparr>h_array := (h_array ht)[slot := take pos chain @ drop (Suc pos) chain],
                            h_free := chain ! pos # h_free ht,
                            h_count := h_count ht - 1\<rparr>, 0)
               else Val (ht, 0)))"

definition hash_get :: "'v hash_table \<Rightarrow> string \<Rightarrow> u32 \<Rightarrow> 'v option" where
  "hash_get ht key klen =
     (case find_entry True ht key klen None of
        (ht, Some (slot, pos)) \<Rightarrow>
          if pos < length (h_array ht ! slot) then Some (e_val (h_array ht ! slot ! pos)) else None
      | (ht, None) \<Rightarrow> None)"

definition hash_destroy :: "'v hash_table \<Rightarrow> 'v hash_entry list" where
  \<comment> \<open>the entries passed to \<^verbatim>\<open>free\<close>; the loop over the array stops before \<^verbatim>\<open>max\<close>\<close>
  "hash_destroy ht = concat (take (unat (h_max ht)) (h_array ht)) @ h_free ht"

text \<open>The iterator: an entry pointer is the rest of its chain, the empty list for NULL.\<close>

record 'v hash_iter =
  it_entry :: "'v hash_entry list"
  it_next :: "'v hash_entry list"
  it_index :: nat

function hash_advance :: "'v hash_table \<Rightarrow> 'v hash_entry list \<Rightarrow> nat \<Rightarrow> ('v hash_entry list \<times> nat) option" where
  "hash_advance ht entry index =
     (if entry \<noteq> [] then Some (entry, index)
      else if unat (h_max ht) < index then None
      else hash_advance ht (h_array ht ! index) (Suc index))"
  by pat_completeness auto
termination
  by (relation "measure (\<lambda>(ht, entry, index). Suc (unat (h_max ht)) - index)") auto

declare hash_advance.simps [simp del]

definition hash_next :: "'v hash_table \<Rightarrow> 'v hash_iter \<Rightarrow> 'v hash_iter option" where
  "hash_next ht iter =
     (case hash_advance ht (it_next iter) (it_index iter) of
        None \<Rightarrow> None
      | Some (entry, index) \<Rightarrow>
          Some (iter\<lparr>it_entry := entry, it_index := index, it_next := tl entry\<rparr>))"

definition hash_begin :: "bool \<Rightarrow> 'v hash_table \<Rightarrow> 'v hash_iter option" where
  "hash_begin malloc_ok ht =
     (if \<not> malloc_ok then None
      else hash_next ht \<lparr>it_entry = [], it_next = [], it_index = 0\<rparr>)"

fun hash_collect :: "nat \<Rightarrow> 'v hash_table \<Rightarrow> 'v hash_iter option \<Rightarrow> 'v hash_entry list" where
  \<comment> \<open>the entries a loop over the iterator visits in its first \<open>fuel\<close> rounds\<close>
  "hash_collect 0 ht it = []"
| "hash_collect (Suc fuel) ht it =
     (case it of None \<Rightarrow> [] | Some i \<Rightarrow> hd (it_entry i) # hash_collect fuel ht (hash_next ht i))"

section \<open>Hash functions\<close>

text \<open>
  What the table needs of a hash function: it reports the length of the key it has read, and on
  those bytes with that length it returns the same hash again. A valid key is a string with a
  terminator, or a buffer at least as long as the length passed with it.
\<close>

definition valid_key :: "string \<Rightarrow> u32 \<Rightarrow> bool" where
  "valid_key key klen \<longleftrightarrow>
     (if klen = HASH_KEY_STRING then length (cstr key) < 2 ^ 32 - 1 else unat klen \<le> length key)"

definition norm_key :: "hash_func \<Rightarrow> string \<Rightarrow> u32 \<Rightarrow> string" where
  "norm_key func key klen = take (unat (snd (func key klen))) key"

definition kv :: "'v hash_entry \<Rightarrow> string \<times> 'v" where
  "kv e = (e_key e, e_val e)"

definition slot_of :: "'v hash_table \<Rightarrow> string \<Rightarrow> nat" where
  "slot_of ht k = hash_slot (fst (h_func ht k (of_nat (length k)))) (h_max ht)"

definition hash_abs :: "'v hash_table \<Rightarrow> string \<rightharpoonup> 'v" where
  \<comment> \<open>the finite map a table stands for\<close>
  "hash_abs ht k = map_of (map kv (h_array ht ! slot_of ht k)) k"

definition entry_ok :: "hash_func \<Rightarrow> 'v hash_entry \<Rightarrow> bool" where
  "entry_ok func e \<longleftrightarrow>
     func (e_key e) (e_klen e) = (e_hash e, e_klen e) \<and> length (e_key e) = unat (e_klen e)"

definition hash_inv :: "hash_func \<Rightarrow> 'v hash_table \<Rightarrow> bool" where
  "hash_inv func ht \<longleftrightarrow>
     h_func ht = func \<and> length (h_array ht) = unat (h_max ht) + 1
     \<and> (\<forall>i < length (h_array ht). \<forall>e \<in> set (h_array ht ! i).
           entry_ok func e \<and> hash_slot (e_hash e) (h_max ht) = i)
     \<and> (\<forall>i < length (h_array ht). distinct (map e_key (h_array ht ! i)))
     \<and> h_count ht = of_nat (length (concat (h_array ht)))"

section \<open>Chains\<close>

lemma kv_simps [simp]: "fst (kv e) = e_key e" "snd (kv e) = e_val e"
  by (simp_all add: kv_def)

lemma map_fst_kv [simp]: "map fst (map kv c) = map e_key c"
  by simp

lemma chain_pos_le [simp]: "chain_pos p c \<le> length c"
  by (induction c) auto

lemma chain_pos_nth: "chain_pos p c < length c \<Longrightarrow> p (c ! chain_pos p c)"
  by (induction c) auto

lemma chain_pos_cong: "(\<And>e. e \<in> set c \<Longrightarrow> p e = q e) \<Longrightarrow> chain_pos p c = chain_pos q c"
  by (induction c) auto

lemma chain_pos_absent: "\<not> chain_pos p c < length c \<Longrightarrow> e \<in> set c \<Longrightarrow> \<not> p e"
  by (induction c) (auto split: if_splits)

abbreviation key_pos :: "string \<Rightarrow> 'v hash_entry list \<Rightarrow> nat" where
  "key_pos k c \<equiv> chain_pos (\<lambda>e. e_key e = k) c"

lemma chain_lookup:
  "map_of (map kv c) k = (if key_pos k c < length c then Some (e_val (c ! key_pos k c)) else None)"
  by (induction c) (auto simp: kv_def)

lemma chain_update:
  "key_pos k c < length c \<Longrightarrow>
   map_of (map kv (c[key_pos k c := (c ! key_pos k c)\<lparr>e_val := v\<rparr>])) = (map_of (map kv c))(k \<mapsto> v)"
  by (induction c) (auto simp: kv_def)

lemma chain_append:
  "\<not> key_pos k c < length c \<Longrightarrow> e_key e = k \<Longrightarrow>
   map_of (map kv (c @ [e])) = (map_of (map kv c))(k \<mapsto> e_val e)"
  by (induction c) (auto simp: kv_def split: if_splits)

lemma map_of_kv_None: "k \<notin> e_key ` set c \<Longrightarrow> map_of (map kv c) k = None"
  by (induction c) (auto simp: kv_def)

lemma map_of_Cons_kv: "map_of (map kv (e # c)) = (map_of (map kv c))(e_key e \<mapsto> e_val e)"
  by (simp add: kv_def)

lemma chain_delete:
  "key_pos k c < length c \<Longrightarrow> distinct (map e_key c) \<Longrightarrow>
   map_of (map kv (take (key_pos k c) c @ drop (Suc (key_pos k c)) c)) = (map_of (map kv c))(k := None)"
proof (induction c)
  case Nil
  then show ?case by simp
next
  case (Cons e c)
  show ?case
  proof (cases "e_key e = k")
    case True
    with Cons.prems show ?thesis
      by (auto simp: fun_eq_iff map_of_kv_None map_of_Cons_kv)
  next
    case False
    with Cons show ?thesis
      by (auto simp: map_of_Cons_kv fun_eq_iff simp del: map_append map_of_append)
  qed
qed

lemma map_of_kv_distinct_eq:
  assumes "distinct (map e_key c)" "distinct (map e_key d)"
    and "{e \<in> set c. e_key e = k} = {e \<in> set d. e_key e = k}"
  shows "map_of (map kv c) k = map_of (map kv d) k"
proof -
  have "map_of (map kv c) k = Some v \<longleftrightarrow> (\<exists>e \<in> set c. e_key e = k \<and> e_val e = v)"
    if "distinct (map e_key c)" for c :: "'a hash_entry list" and v
    using that by (subst map_of_eq_Some_iff) (auto simp: kv_def comp_def)
  with assms have "map_of (map kv c) k = Some v \<longleftrightarrow> map_of (map kv d) k = Some v" for v
    by (simp add: set_eq_iff) blast
  then show ?thesis by (metis not_None_eq)
qed

lemma distinct_chains:
  assumes "\<And>i. i < length xs \<Longrightarrow> distinct (map f (xs ! i))"
    and "\<And>i j. i < j \<Longrightarrow> j < length xs \<Longrightarrow> f ` set (xs ! i) \<inter> f ` set (xs ! j) = {}"
  shows "distinct (map f (concat xs))"
  using assms
proof (induction xs)
  case Nil
  then show ?case by simp
next
  case (Cons x xs)
  have "distinct (map f (concat xs))"
    using Cons.prems(1) [of "Suc _"] Cons.prems(2) [of "Suc _" "Suc _"]
    by (intro Cons.IH) (auto simp: less_Suc_eq_0_disj)
  moreover have "distinct (map f x)" using Cons.prems(1) [of 0] by simp
  moreover have "f ` set x \<inter> f ` set (concat xs) = {}"
  proof -
    have "f ` set x \<inter> f ` set y = {}" if "y \<in> set xs" for y
      using that Cons.prems(2) [of 0 "Suc _"] by (auto simp: in_set_conv_nth)
    then show ?thesis by auto
  qed
  ultimately show ?case by (simp add: distinct_append)
qed

section \<open>Slots and rehashing\<close>

lemma hash_slot_le: "hash_slot h mx \<le> unat mx"
  unfolding hash_slot_def by (simp add: word_and_le1 flip: word_le_nat_alt)

lemma fold_rehash:
  assumes "\<And>e. e \<in> set es \<Longrightarrow> hash_slot (e_hash e) mx < length arr"
  shows "length (fold (rehash_entry mx) es arr) = length arr
    \<and> (\<forall>i < length arr. fold (rehash_entry mx) es arr ! i
         = rev (filter (\<lambda>e. hash_slot (e_hash e) mx = i) es) @ arr ! i)"
  using assms
proof (induction es arbitrary: arr)
  case Nil
  then show ?case by simp
next
  case (Cons e es)
  have "length (rehash_entry mx e arr) = length arr" by (simp add: rehash_entry_def Let_def)
  with Cons.IH [of "rehash_entry mx e arr"] Cons.prems show ?case
    by (auto simp: rehash_entry_def Let_def nth_list_update)
qed

lemma fold_rehash_length:
  "(\<And>e. e \<in> set es \<Longrightarrow> hash_slot (e_hash e) mx < length arr) \<Longrightarrow>
   length (concat (fold (rehash_entry mx) es arr)) = length es + length (concat arr)"
proof (induction es arbitrary: arr)
  case Nil
  then show ?case by simp
next
  case (Cons e es)
  let ?i = "hash_slot (e_hash e) mx"
  have i: "?i < length arr" using Cons.prems by simp
  have "length (concat (rehash_entry mx e arr)) = Suc (length (concat arr))"
  proof -
    have "concat arr = concat (take ?i arr) @ arr ! ?i @ concat (drop (Suc ?i) arr)"
      using i by (metis append_take_drop_id concat.simps(2) concat_append Cons_nth_drop_Suc)
    then show ?thesis
      using i by (simp add: rehash_entry_def Let_def upd_conv_take_nth_drop)
  qed
  with Cons.IH [of "rehash_entry mx e arr"] Cons.prems show ?case
    by (simp add: rehash_entry_def Let_def)
qed

section \<open>The table as a finite map\<close>

locale hash_fun =
  fixes func :: hash_func
  assumes func_len: "valid_key key klen \<Longrightarrow> func key klen = (h, k) \<Longrightarrow>
      unat k \<le> length key \<and> k \<noteq> HASH_KEY_STRING"
    and func_norm: "valid_key key klen \<Longrightarrow> func key klen = (h, k) \<Longrightarrow>
      func (take (unat k) key) k = (h, k)"
begin

lemma norm_key_length:
  assumes "valid_key key klen" "func key klen = (h, k)"
  shows "length (norm_key func key klen) = unat k"
    and "of_nat (length (norm_key func key klen)) = k"
    and "func (norm_key func key klen) k = (h, k)"
  using func_len [OF assms] func_norm [OF assms] assms(2)
  by (simp_all add: norm_key_def min_absorb2)

lemma entry_matches_iff:
  assumes "valid_key key klen" "func key klen = (h, k)" "entry_ok func e"
  shows "entry_matches key k h e \<longleftrightarrow> e_key e = norm_key func key klen"
proof
  assume "entry_matches key k h e"
  with assms(2,3) show "e_key e = norm_key func key klen"
    by (simp add: entry_matches_def norm_key_def entry_ok_def)
next
  assume eq: "e_key e = norm_key func key klen"
  with assms(3) norm_key_length(1) [OF assms(1,2)] have "unat (e_klen e) = unat k"
    by (simp add: entry_ok_def)
  then have "e_klen e = k" by (simp add: word_unat_eq_iff)
  with eq assms(2,3) norm_key_length(3) [OF assms(1,2)] show "entry_matches key k h e"
    by (simp add: entry_matches_def entry_ok_def norm_key_def)
qed

lemma slot_bound: "hash_inv func ht \<Longrightarrow> hash_slot h (h_max ht) < length (h_array ht)"
  using hash_slot_le [of h "h_max ht"] by (simp add: hash_inv_def)

lemma entry_in:
  "hash_inv func ht \<Longrightarrow> i < length (h_array ht) \<Longrightarrow> e \<in> set (h_array ht ! i) \<Longrightarrow>
   entry_ok func e \<and> hash_slot (e_hash e) (h_max ht) = i"
  unfolding hash_inv_def by blast

lemma entry_slot:
  "hash_inv func ht \<Longrightarrow> i < length (h_array ht) \<Longrightarrow> e \<in> set (h_array ht ! i) \<Longrightarrow>
   slot_of ht (e_key e) = i"
  by (auto simp: hash_inv_def slot_of_def entry_ok_def)

lemma entry_in_slot:
  assumes "hash_inv func ht" "x \<in> set (concat (h_array ht))"
  shows "x \<in> set (h_array ht ! slot_of ht (e_key x))"
proof -
  from assms(2) obtain i where "i < length (h_array ht)" "x \<in> set (h_array ht ! i)"
    by (auto simp: in_set_conv_nth [of _ "h_array ht"])
  with entry_slot [OF assms(1)] show ?thesis by metis
qed

lemma slot_of_norm:
  assumes "hash_inv func ht" "valid_key key klen" "func key klen = (h, k)"
  shows "slot_of ht (norm_key func key klen) = hash_slot h (h_max ht)"
  using assms norm_key_length [OF assms(2,3)] by (simp add: slot_of_def hash_inv_def)

text \<open>Looking for a key stops at the entry of that key, or at the end of its chain.\<close>

lemma find_pos_eq:
  assumes "hash_inv func ht" "valid_key key klen" "func key klen = (h, k)"
  shows "chain_pos (entry_matches key k h) (h_array ht ! hash_slot h (h_max ht))
       = key_pos (norm_key func key klen) (h_array ht ! hash_slot h (h_max ht))"
proof (rule chain_pos_cong)
  fix e assume "e \<in> set (h_array ht ! hash_slot h (h_max ht))"
  with entry_in [OF assms(1) slot_bound [OF assms(1)]] have "entry_ok func e" by blast
  then show "entry_matches key k h e = (e_key e = norm_key func key klen)"
    by (rule entry_matches_iff [OF assms(2,3)])
qed

lemma hash_abs_norm:
  assumes "hash_inv func ht" "valid_key key klen" "func key klen = (h, k)"
  shows "hash_abs ht (norm_key func key klen)
       = map_of (map kv (h_array ht ! hash_slot h (h_max ht))) (norm_key func key klen)"
  by (simp add: hash_abs_def slot_of_norm [OF assms])

theorem get_abs:
  assumes "hash_inv func ht" "valid_key key klen"
  shows "hash_get ht key klen = hash_abs ht (norm_key func key klen)"
proof -
  obtain h k where f: "func key klen = (h, k)" by (cases "func key klen")
  have hf: "h_func ht = func" using assms(1) by (simp add: hash_inv_def)
  show ?thesis
    using find_pos_eq [OF assms f]
    by (simp add: hash_get_def find_entry_def hf f Let_def hash_abs_norm [OF assms f] chain_lookup)
qed

text \<open>Replacing one chain changes the map at the keys of that chain only.\<close>

lemma abs_update_chain:
  assumes inv: "hash_inv func ht" and i: "i < length (h_array ht)"
    and f: "h_func ht' = h_func ht" and mx: "h_max ht' = h_max ht"
    and a: "h_array ht' = (h_array ht)[i := chain]"
    and upd: "map_of (map kv chain) = (map_of (map kv (h_array ht ! i)))(k := x)"
    and ki: "slot_of ht k = i"
  shows "hash_abs ht' = (hash_abs ht)(k := x)"
proof
  fix k'
  have "slot_of ht' k' = slot_of ht k'" by (simp add: slot_of_def f mx)
  then show "hash_abs ht' k' = ((hash_abs ht)(k := x)) k'"
    using i upd ki by (auto simp: hash_abs_def a nth_list_update)
qed

lemma inv_update_chain:
  assumes inv: "hash_inv func ht" and i: "i < length (h_array ht)"
    and f: "h_func ht' = h_func ht" and mx: "h_max ht' = h_max ht"
    and a: "h_array ht' = (h_array ht)[i := chain]"
    and c: "\<forall>e \<in> set chain. entry_ok func e \<and> hash_slot (e_hash e) (h_max ht) = i"
    and d: "distinct (map e_key chain)"
    and n: "h_count ht' + of_nat (length (h_array ht ! i)) = h_count ht + of_nat (length chain)"
  shows "hash_inv func ht'"
proof -
  have split: "concat xs = concat (take i xs) @ xs ! i @ concat (drop (Suc i) xs)"
    if "i < length xs" for xs :: "'v hash_entry list list"
    using that by (metis append_take_drop_id concat.simps(2) concat_append Cons_nth_drop_Suc)
  have "length (concat (h_array ht')) + length (h_array ht ! i)
      = length (concat (h_array ht)) + length chain"
    using i split [of "h_array ht"] split [of "h_array ht'"] by (simp add: a)
  then have "of_nat (length (concat (h_array ht'))) + of_nat (length (h_array ht ! i))
      = (of_nat (length (concat (h_array ht))) + of_nat (length chain) :: u32)"
    by (metis of_nat_add)
  with n inv have "h_count ht' = of_nat (length (concat (h_array ht')))"
    unfolding hash_inv_def by (metis add_right_cancel)
  with inv i c d show ?thesis
    unfolding hash_inv_def f mx a by (auto simp: nth_list_update)
qed

text \<open>Expanding moves every entry to its slot in an array twice as long: same map, same count.\<close>

lemma keys_distinct:
  assumes "hash_inv func ht"
  shows "distinct (map e_key (concat (h_array ht)))"
proof (rule distinct_chains)
  fix i assume "i < length (h_array ht)"
  with assms show "distinct (map e_key (h_array ht ! i))" by (simp add: hash_inv_def)
next
  fix i j assume ij: "i < j" "j < length (h_array ht)"
  show "e_key ` set (h_array ht ! i) \<inter> e_key ` set (h_array ht ! j) = {}"
  proof (rule ccontr)
    assume "\<not> ?thesis"
    then obtain e f where "e \<in> set (h_array ht ! i)" "f \<in> set (h_array ht ! j)" "e_key e = e_key f"
      by auto
    with entry_slot [OF assms, of i e] entry_slot [OF assms, of j f] ij show False by simp
  qed
qed

lemma expand_inv:
  fixes ht :: "'v hash_table"
  assumes inv: "hash_inv func ht" and mx: "unat (h_max ht) < 2 ^ 31 - 1"
    and e: "hash_expand ok ht = Some ht'"
  shows "hash_inv func ht'" and "hash_abs ht' = hash_abs ht" and "h_count ht' = h_count ht"
proof -
  let ?mx = "2 * h_max ht + 1"
  let ?es = "concat (h_array ht)"
  have len: "length (h_array ht) = unat (h_max ht) + 1" using inv by (simp add: hash_inv_def)
  have umx: "unat ?mx = 2 * unat (h_max ht) + 1"
    using mx by (simp add: unat_word_ariths)
  have "unat (?mx + 1) = (unat ?mx + unat (1 :: u32)) mod 2 ^ LENGTH(32)"
    by (rule unat_word_ariths(1))
  also have "\<dots> = unat ?mx + 1" unfolding umx using mx by (simp del: One_nat_def)
  finally have n: "unat (?mx + 1) = unat ?mx + 1" .
  define arr where "arr = (replicate (unat (?mx + 1)) [] :: 'v hash_entry list list)"
  have la: "length arr = unat ?mx + 1"
    by (simp only: arr_def length_replicate n)
  have ca: "concat arr = []"
    by (simp add: arr_def)
  have slots: "hash_slot (e_hash x) ?mx < length arr" for x :: "'v hash_entry"
    using hash_slot_le [of "e_hash x" ?mx] la by simp
  have ht': "ht' = ht\<lparr>h_max := ?mx, h_array := fold (rehash_entry ?mx) ?es arr\<rparr>"
    using e len by (simp add: hash_expand_def Let_def arr_def split: if_splits)
  note fr = fold_rehash [of ?es ?mx arr, OF slots]
  have nth: "h_array ht' ! i = rev (filter (\<lambda>e. hash_slot (e_hash e) ?mx = i) ?es)"
    if "i < length arr" for i
    using fr that by (simp add: ht' arr_def)
  have la': "length (h_array ht') = unat ?mx + 1" using fr la by (simp add: ht')
  show "h_count ht' = h_count ht" by (simp add: ht')
  have ok: "entry_ok func x" if "x \<in> set ?es" for x
  proof -
    from that obtain c where "c \<in> set (h_array ht)" "x \<in> set c" by auto
    then show ?thesis using entry_in [OF inv] by (metis in_set_conv_nth)
  qed
  have dist: "distinct (map e_key (filter P ?es))" for P
    using keys_distinct [OF inv] by (simp add: distinct_map_filter)
  have "length (concat (h_array ht')) = length ?es"
    using fold_rehash_length [of ?es ?mx arr, OF slots] ca by (simp add: ht')
  then show inv': "hash_inv func ht'"
    using inv la la' nth ok dist
    by (auto simp: hash_inv_def ht' rev_map [symmetric])
  show "hash_abs ht' = hash_abs ht"
  proof
    fix k
    have s': "slot_of ht' k < length arr" and s: "slot_of ht k < length (h_array ht)"
      using la la' slot_bound [OF inv'] slot_bound [OF inv] by (auto simp: slot_of_def)
    have "{e \<in> set (h_array ht' ! slot_of ht' k). e_key e = k}
        = {e \<in> set (h_array ht ! slot_of ht k). e_key e = k}" (is "?L = ?R")
    proof
      show "?L \<subseteq> ?R"
        using entry_in_slot [OF inv] by (auto simp: nth [OF s'] simp del: set_concat)
      show "?R \<subseteq> ?L"
      proof
        fix x assume x: "x \<in> ?R"
        then have xe: "x \<in> set ?es" using nth_mem [OF s] by auto
        then have "hash_slot (e_hash x) ?mx = slot_of ht' k"
          using x ok [OF xe] inv by (auto simp: slot_of_def entry_ok_def ht' hash_inv_def)
        with x xe show "x \<in> ?L" by (simp add: nth [OF s'])
      qed
    qed
    then show "hash_abs ht' k = hash_abs ht k"
      unfolding hash_abs_def
      using inv inv' s s' la la' by (intro map_of_kv_distinct_eq) (auto simp: hash_inv_def)
  qed
qed

text \<open>Setting and deleting a key, on every way the code takes.\<close>

lemma find_entry_cases:
  assumes inv: "hash_inv func ht" and v: "valid_key key klen" and f: "func key klen = (h, k)"
    and slot: "slot = hash_slot h (h_max ht)" and chain: "chain = h_array ht ! slot"
    and nk: "nk = norm_key func key klen"
  shows "find_entry ok ht key klen val =
    (if key_pos nk chain < length chain \<or> val = None then (ht, Some (slot, key_pos nk chain))
     else if h_free ht = [] \<and> \<not> ok then (ht, None)
     else (ht\<lparr>h_free := tl (h_free ht),
              h_array := (h_array ht)[slot := chain @
                [\<lparr>e_key = nk, e_klen = k, e_hash = h, e_val = the val\<rparr>]],
              h_count := h_count ht + 1\<rparr>, Some (slot, key_pos nk chain)))"
proof -
  have hf: "h_func ht = func" using inv by (simp add: hash_inv_def)
  have "take (unat k) key = nk" using f by (simp add: nk norm_key_def)
  then show ?thesis
    using find_pos_eq [OF inv v f]
    by (auto simp: find_entry_def hf f Let_def slot chain nk split: option.splits)
qed

lemma inv_set_chain:
  assumes inv: "hash_inv func ht" and v: "valid_key key klen" and f: "func key klen = (h, k)"
    and slot: "slot = hash_slot h (h_max ht)" and chain: "chain = h_array ht ! slot"
    and nk: "nk = norm_key func key klen" and new: "\<not> key_pos nk chain < length chain"
    and ht': "h_func ht' = h_func ht" "h_max ht' = h_max ht" "h_count ht' = h_count ht + 1"
      "h_array ht' = (h_array ht)[slot := chain @ [\<lparr>e_key = nk, e_klen = k, e_hash = h, e_val = x\<rparr>]]"
  shows "hash_inv func ht' \<and> hash_abs ht' = (hash_abs ht)(nk \<mapsto> x)"
proof
  note sb = slot_bound [OF inv, of h, folded slot]
  note inv_chain = entry_in [OF inv sb, folded chain]
  have d: "distinct (map e_key chain)" using inv sb by (auto simp: hash_inv_def chain)
  have "nk \<notin> e_key ` set chain" using chain_pos_absent [OF new] by auto
  then show "hash_inv func ht'"
    using inv_chain d norm_key_length [OF v f, folded nk]
    by (intro inv_update_chain [OF inv sb, of ht' "chain @ [\<lparr>e_key = nk, e_klen = k, e_hash = h, e_val = x\<rparr>]"])
       (auto simp: ht' entry_ok_def slot [symmetric] chain [symmetric])
  have ki: "slot_of ht nk = slot" using slot_of_norm [OF inv v f] by (simp add: nk slot)
  have upd: "map_of (map kv (chain @ [\<lparr>e_key = nk, e_klen = k, e_hash = h, e_val = x\<rparr>])) = (map_of (map kv (h_array ht ! slot)))(nk \<mapsto> x)"
    unfolding chain [symmetric] using chain_append [OF new, of "\<lparr>e_key = nk, e_klen = k, e_hash = h, e_val = x\<rparr>"] by simp
  show "hash_abs ht' = (hash_abs ht)(nk \<mapsto> x)"
    by (rule abs_update_chain [OF inv sb _ _ _ upd ki]) (simp_all add: ht')
qed

lemma inv_overwrite:
  assumes inv: "hash_inv func ht" and v: "valid_key key klen" and f: "func key klen = (h, k)"
    and slot: "slot = hash_slot h (h_max ht)" and chain: "chain = h_array ht ! slot"
    and nk: "nk = norm_key func key klen" and old: "key_pos nk chain < length chain"
    and ht': "h_func ht' = h_func ht" "h_max ht' = h_max ht" "h_count ht' = h_count ht"
      "h_array ht' = (h_array ht)[slot :=
        chain[key_pos nk chain := (chain ! key_pos nk chain)\<lparr>e_val := x\<rparr>]]"
  shows "hash_inv func ht' \<and> hash_abs ht' = (hash_abs ht)(nk \<mapsto> x)"
proof
  let ?e = "chain ! key_pos nk chain"
  note sb = slot_bound [OF inv, of h, folded slot]
  note inv_chain = entry_in [OF inv sb, folded chain]
  have d: "distinct (map e_key chain)" using inv sb by (auto simp: hash_inv_def chain)
  have "entry_ok func ?e \<and> hash_slot (e_hash ?e) (h_max ht) = slot"
    using inv_chain [of ?e] old by auto
  moreover have "map e_key (chain[key_pos nk chain := ?e\<lparr>e_val := x\<rparr>]) = map e_key chain"
    using old by (simp add: map_update list_update_same_conv)
  ultimately show "hash_inv func ht'"
    using inv_chain d set_update_subset_insert [of chain "key_pos nk chain" "?e\<lparr>e_val := x\<rparr>"]
    by (intro inv_update_chain [OF inv sb, of ht' "chain[key_pos nk chain := ?e\<lparr>e_val := x\<rparr>]"])
       (auto simp: ht' entry_ok_def slot [symmetric] chain [symmetric])
  have ki: "slot_of ht nk = slot" using slot_of_norm [OF inv v f] by (simp add: nk slot)
  have upd: "map_of (map kv (chain[key_pos nk chain := ?e\<lparr>e_val := x\<rparr>])) = (map_of (map kv (h_array ht ! slot)))(nk \<mapsto> x)"
    unfolding chain [symmetric] by (rule chain_update [OF old])
  show "hash_abs ht' = (hash_abs ht)(nk \<mapsto> x)"
    by (rule abs_update_chain [OF inv sb _ _ _ upd ki]) (simp_all add: ht')
qed

lemma inv_delete:
  assumes inv: "hash_inv func ht" and v: "valid_key key klen" and f: "func key klen = (h, k)"
    and slot: "slot = hash_slot h (h_max ht)" and chain: "chain = h_array ht ! slot"
    and nk: "nk = norm_key func key klen" and old: "key_pos nk chain < length chain"
    and ht': "h_func ht' = h_func ht" "h_max ht' = h_max ht" "h_count ht' = h_count ht - 1"
      "h_array ht' = (h_array ht)[slot :=
          take (key_pos nk chain) chain @ drop (Suc (key_pos nk chain)) chain]"
  shows "hash_inv func ht' \<and> hash_abs ht' = (hash_abs ht)(nk := None)"
proof
  let ?c = "take (key_pos nk chain) chain @ drop (Suc (key_pos nk chain)) chain"
  note sb = slot_bound [OF inv, of h, folded slot]
  note inv_chain = entry_in [OF inv sb, folded chain]
  have d: "distinct (map e_key chain)" using inv sb by (auto simp: hash_inv_def chain)
  have "distinct (take (key_pos nk chain) (map e_key chain) @ drop (Suc (key_pos nk chain)) (map e_key chain))"
    using d by (simp add: set_take_disj_set_drop_if_distinct)
  then have "distinct (map e_key ?c)" by (simp only: take_map drop_map map_append)
  moreover have "\<forall>e \<in> set ?c. entry_ok func e \<and> hash_slot (e_hash e) (h_max ht) = slot"
    using inv_chain by (auto dest: in_set_takeD in_set_dropD)
  moreover have "h_count ht' + of_nat (length (h_array ht ! slot)) = h_count ht + of_nat (length ?c)"
  proof -
    have "length chain = Suc (length ?c)" using old by simp
    then have "(of_nat (length chain) :: u32) = of_nat (length ?c) + 1" by simp
    moreover have "h_count ht' = h_count ht - 1" by (simp add: ht')
    ultimately show ?thesis unfolding chain [symmetric] by (simp only: diff_add_eq) simp
  qed
  moreover have "h_func ht' = h_func ht" "h_max ht' = h_max ht" "h_array ht' = (h_array ht)[slot := ?c]"
    by (simp_all add: ht')
  ultimately show "hash_inv func ht'"
    by (metis inv_update_chain [OF inv sb])
  have ki: "slot_of ht nk = slot" using slot_of_norm [OF inv v f] by (simp add: nk slot)
  have upd: "map_of (map kv (?c)) = (map_of (map kv (h_array ht ! slot)))(nk := None)"
    unfolding chain [symmetric] by (rule chain_delete [OF old d])
  show "hash_abs ht' = (hash_abs ht)(nk := None)"
    by (rule abs_update_chain [OF inv sb _ _ _ upd ki]) (simp_all add: ht')
qed

text \<open>The three results of \<open>hash_set\<close> together.\<close>

lemma set_abs:
  assumes inv: "hash_inv func ht" and v: "valid_key key klen" and mx: "unat (h_max ht) < 2 ^ 31 - 1"
    and mem: "h_free ht \<noteq> [] \<or> ok"
  shows "\<exists>ht' r. hash_set ok ok2 ht key klen (Some x) = Val (ht', r) \<and> hash_inv func ht'
      \<and> hash_abs ht' = (hash_abs ht)(norm_key func key klen \<mapsto> x)
      \<and> (ok2 \<longrightarrow> r = 0)
      \<and> (h_max ht' = h_max ht \<or> (h_max ht' = 2 * h_max ht + 1 \<and> h_max ht < h_count ht'))
      \<and> (h_count ht' = h_count ht \<or> h_count ht' = h_count ht + 1)"
proof -
  obtain h k where f: "func key klen = (h, k)" by (cases "func key klen")
  define slot where "slot = hash_slot h (h_max ht)"
  define chain where "chain = h_array ht ! slot"
  define nk where "nk = norm_key func key klen"
  define pos where "pos = key_pos nk chain"
  note sb = slot_bound [OF inv, of h, folded slot_def]
  define e where "e = \<lparr>e_key = nk, e_klen = k, e_hash = h, e_val = x\<rparr>"
  define ht1 where "ht1 = (if pos < length chain
      then ht\<lparr>h_array := (h_array ht)[slot := chain[pos := (chain ! pos)\<lparr>e_val := x\<rparr>]]\<rparr>
      else ht\<lparr>h_free := tl (h_free ht), h_count := h_count ht + 1,
              h_array := (h_array ht)[slot := chain @ [e]]\<rparr>)"
  have le: "pos \<le> length chain" by (simp add: pos_def)
  have ht1: "hash_inv func ht1 \<and> hash_abs ht1 = (hash_abs ht)(nk \<mapsto> x)"
    unfolding ht1_def pos_def e_def
    using inv_overwrite [OF inv v f slot_def chain_def nk_def]
      inv_set_chain [OF inv v f slot_def chain_def nk_def] by simp
  note fe = find_entry_cases [OF inv v f slot_def chain_def nk_def, folded pos_def]
  have e_val_e: "e\<lparr>e_val := x\<rparr> = e" by (simp add: e_def)
  have eq: "hash_set ok ok2 ht key klen (Some x) =
    (if h_max ht1 < h_count ht1
     then (case hash_expand ok2 ht1 of None \<Rightarrow> Val (ht1, -1) | Some ht \<Rightarrow> Val (ht, 0))
     else Val (ht1, 0))"
  proof (cases "pos < length chain")
    case True
    then show ?thesis
      by (simp add: hash_set_def fe ht1_def Let_def flip: chain_def split: option.split)
  next
    case False
    with le have "pos = length chain" by simp
    with mem sb show ?thesis
      by (auto simp: hash_set_def fe ht1_def e_def [symmetric] Let_def e_val_e list_update_append
          split: option.split)
  qed
  have same: "h_max ht1 = h_max ht" "h_count ht1 = h_count ht \<or> h_count ht1 = h_count ht + 1"
    by (simp_all add: ht1_def)
  show ?thesis
  proof (cases "h_max ht1 < h_count ht1 \<and> ok2")
    case False
    with eq ht1 same show ?thesis
      by (auto simp: nk_def hash_expand_def Let_def)
  next
    case True
    then obtain ht2 where e2: "hash_expand ok2 ht1 = Some ht2"
      by (simp add: hash_expand_def Let_def)
    have mx1: "unat (h_max ht1) < 2 ^ 31 - 1" using mx same by simp
    note ex = expand_inv [OF conjunct1 [OF ht1] mx1 e2]
    have "h_max ht2 = 2 * h_max ht + 1"
      using e2 same by (auto simp: hash_expand_def Let_def split: if_splits)
    with eq True e2 ex ht1 same show ?thesis by (auto simp: nk_def)
  qed
qed

lemma delete_abs:
  assumes inv: "hash_inv func ht" and v: "valid_key key klen"
  shows "\<exists>ht'. hash_set ok ok2 ht key klen None = Val (ht', 0) \<and> hash_inv func ht'
      \<and> hash_abs ht' = (hash_abs ht)(norm_key func key klen := None) \<and> h_max ht' = h_max ht
      \<and> (h_count ht' = h_count ht \<or> h_count ht' = h_count ht - 1)"
proof -
  obtain h k where f: "func key klen = (h, k)" by (cases "func key klen")
  define slot where "slot = hash_slot h (h_max ht)"
  define chain where "chain = h_array ht ! slot"
  define nk where "nk = norm_key func key klen"
  note fe = find_entry_cases [OF inv v f slot_def chain_def nk_def]
  show ?thesis
  proof (cases "key_pos nk chain < length chain")
    case True
    then show ?thesis
      using inv_delete [OF inv v f slot_def chain_def nk_def True]
      by (auto simp: hash_set_def fe Let_def chain_def [symmetric] nk_def [symmetric])
  next
    case False
    then have "hash_abs ht nk = None"
      using hash_abs_norm [OF inv v f] by (simp add: chain_lookup nk_def chain_def slot_def)
    with False inv show ?thesis
      by (auto simp: hash_set_def fe Let_def chain_def [symmetric] nk_def [symmetric] fun_upd_idem)
  qed
qed

text \<open>The count is the number of keys, and the iterator visits every entry once.\<close>

lemma dom_abs:
  assumes inv: "hash_inv func ht"
  shows "dom (hash_abs ht) = e_key ` set (concat (h_array ht))"
proof -
  have sub: "set (h_array ht ! slot_of ht k) \<subseteq> set (concat (h_array ht))" for k
    using nth_mem [OF slot_bound [OF inv]] by (auto simp: slot_of_def)
  have "k \<in> dom (hash_abs ht) \<longleftrightarrow> k \<in> e_key ` set (h_array ht ! slot_of ht k)" for k
    by (simp add: domIff hash_abs_def map_of_eq_None_iff image_image)
  then show ?thesis using sub entry_in_slot [OF inv] by blast
qed

lemma card_dom_abs:
  assumes "hash_inv func ht"
  shows "card (dom (hash_abs ht)) = length (concat (h_array ht))"
    and "h_count ht = of_nat (card (dom (hash_abs ht)))"
proof -
  show "card (dom (hash_abs ht)) = length (concat (h_array ht))"
    unfolding dom_abs [OF assms] using distinct_card [OF keys_distinct [OF assms]] by simp
  then show "h_count ht = of_nat (card (dom (hash_abs ht)))"
    using assms by (simp add: hash_inv_def)
qed

end

lemma drop_Cons_nth: "i < length xs \<Longrightarrow> drop i xs = xs ! i # drop (Suc i) xs"
  by (simp add: Cons_nth_drop_Suc)

lemma hash_advance_eq:
  assumes "length (h_array ht) = Suc (unat (h_max ht))"
  shows "(case hash_advance ht entry index of
            None \<Rightarrow> entry @ concat (drop index (h_array ht)) = []
          | Some (entry', index') \<Rightarrow> entry' \<noteq> []
              \<and> entry @ concat (drop index (h_array ht)) = entry' @ concat (drop index' (h_array ht)))"
  using assms
proof (induction ht entry index rule: hash_advance.induct)
  case (1 ht entry index)
  show ?case
  proof (cases "entry \<noteq> []")
    case True
    then show ?thesis by (subst hash_advance.simps) simp
  next
    case False
    show ?thesis
    proof (cases "unat (h_max ht) < index")
      case True
      with False "1.prems" show ?thesis by (subst hash_advance.simps) simp
    next
      case le: False
      with "1.prems" have i: "index < length (h_array ht)" by simp
      have "hash_advance ht entry index = hash_advance ht (h_array ht ! index) (Suc index)"
        using False le by (subst hash_advance.simps) simp
      moreover have "concat (drop index (h_array ht)) = h_array ht ! index @ concat (drop (Suc index) (h_array ht))"
        by (metis concat.simps(2) drop_Cons_nth [OF i])
      ultimately show ?thesis
        using "1.IH" [OF _ le "1.prems"] False by (auto split: option.splits)
    qed
  qed
qed

lemma hash_collect_next:
  assumes "length (h_array ht) = Suc (unat (h_max ht))"
    and "length (it_next i @ concat (drop (it_index i) (h_array ht))) \<le> fuel"
  shows "hash_collect fuel ht (hash_next ht i) = it_next i @ concat (drop (it_index i) (h_array ht))"
  using assms(2)
proof (induction fuel arbitrary: i)
  case 0
  then show ?case by simp
next
  case (Suc fuel)
  note adv = hash_advance_eq [OF assms(1), of "it_next i" "it_index i"]
  show ?case
  proof (cases "hash_advance ht (it_next i) (it_index i)")
    case None
    with adv show ?thesis by (simp add: hash_next_def)
  next
    case (Some r)
    then obtain c cs ix where r: "hash_advance ht (it_next i) (it_index i) = Some (c # cs, ix)"
      and all: "it_next i @ concat (drop (it_index i) (h_array ht)) = c # cs @ concat (drop ix (h_array ht))"
      using adv by (cases r) (auto simp: neq_Nil_conv)
    define i' where "i' = i\<lparr>it_entry := c # cs, it_index := ix, it_next := cs\<rparr>"
    have "hash_collect fuel ht (hash_next ht i') = cs @ concat (drop ix (h_array ht))"
      using Suc.IH [of i'] Suc.prems all by (simp add: i'_def)
    with r all show ?thesis by (simp add: hash_next_def i'_def)
  qed
qed

section \<open>The default hash function\<close>

interpretation djb: hash_fun hash_func_default
proof unfold_locales
  fix key klen h k
  assume v: "valid_key key klen" and f: "hash_func_default key klen = (h, k)"
  have cut: "take (length (cstr key)) key = cstr key" and le: "length (cstr key) \<le> length key"
    by (simp_all add: cstr_def takeWhile_eq_take [symmetric] length_takeWhile_le)
  have "unat k \<le> length key \<and> k \<noteq> HASH_KEY_STRING \<and> hash_func_default (take (unat k) key) k = (h, k)"
  proof (cases "klen = HASH_KEY_STRING")
    case True
    with v have l: "length (cstr key) < 2 ^ 32 - 1" by (simp add: valid_key_def)
    from True f have k: "k = of_nat (length (cstr key))" and h: "h = hash_bytes 0 (cstr key)"
      by (simp_all add: hash_func_default_def)
    have uk: "unat k = length (cstr key)" using l by (simp add: k unat_of_nat)
    moreover have "k \<noteq> HASH_KEY_STRING"
    proof
      assume "k = HASH_KEY_STRING"
      then have "unat k = 2 ^ 32 - 1" by (simp add: HASH_KEY_STRING_def unsigned_minus_1_eq_mask mask_eq_exp_minus_1)
      with uk l show False by simp
    qed
    ultimately show ?thesis using le cut h by (simp add: hash_func_default_def)
  next
    case False
    with v f show ?thesis by (auto simp: valid_key_def hash_func_default_def)
  qed
  then show "unat k \<le> length key \<and> k \<noteq> HASH_KEY_STRING"
    and "hash_func_default (take (unat k) key) k = (h, k)" by simp_all
qed

section \<open>What the table promises\<close>

text \<open>A client's sequence of calls, with all the memory it needs, and the same on maps.\<close>

type_synonym 'v hash_cmd = "string \<times> u32 \<times> 'v option"

fun hash_run :: "'v hash_table \<Rightarrow> 'v hash_cmd list \<Rightarrow> 'v hash_table run" where
  "hash_run ht [] = Val ht"
| "hash_run ht ((key, klen, val) # cmds) =
     run_bind (hash_set True True ht key klen val) (\<lambda>(ht, r). hash_run ht cmds)"

fun map_cmds :: "hash_func \<Rightarrow> (string \<rightharpoonup> 'v) \<Rightarrow> 'v hash_cmd list \<Rightarrow> (string \<rightharpoonup> 'v)" where
  "map_cmds func m [] = m"
| "map_cmds func m ((key, klen, val) # cmds) = map_cmds func (m(norm_key func key klen := val)) cmds"

lemma hash_create_inv:
  assumes "hash_create True mx None = Some ht" "mx \<noteq> -1"
  shows "hash_inv hash_func_default ht" "hash_abs ht = Map.empty"
    "h_max ht = (if mx = 0 then 15 else mx)"
proof -
  define m where "m = (if mx = 0 then HASH_DEFAULT_MAX else mx)"
  have "m \<noteq> -1" using assms(2) by (simp add: m_def HASH_DEFAULT_MAX_def)
  then have "unat m \<noteq> unat (-1 :: u32)" by (simp only: word_unat_eq_iff not_False_eq_True)
  then have "unat m \<noteq> 2 ^ 32 - 1" by (simp add: unsigned_minus_1_eq_mask mask_eq_exp_minus_1)
  moreover have "unat m < 2 ^ LENGTH(32)" by (rule unsigned_less)
  ultimately have "unat m + 1 < 2 ^ 32" by simp
  then have n: "unat (m + 1) = unat m + 1" by (simp add: unat_word_ariths)
  have ht: "ht = \<lparr>h_count = 0, h_max = m, h_array = replicate (unat (m + 1)) [], h_free = [],
      h_func = hash_func_default\<rparr>"
    using assms(1) by (simp add: hash_create_def m_def Let_def)
  show "hash_inv hash_func_default ht"
    by (auto simp: hash_inv_def ht n simp del: replicate_Suc)
  show "hash_abs ht = Map.empty"
    using hash_slot_le [of _ m] by (auto simp: fun_eq_iff hash_abs_def slot_of_def ht n less_Suc_eq_le
        simp del: replicate_Suc)
  show "h_max ht = (if mx = 0 then 15 else mx)" by (simp add: ht m_def HASH_DEFAULT_MAX_def)
qed

lemma hash_run_abs:
  assumes "hash_inv hash_func_default ht" "\<forall>(key, klen, val) \<in> set cmds. valid_key key klen"
    and "card (dom (hash_abs ht)) \<le> n" "unat (h_max ht) \<le> 2 * n + 15" "n + length cmds < 2 ^ 29"
  shows "\<exists>ht'. hash_run ht cmds = Val ht' \<and> hash_inv hash_func_default ht'
    \<and> hash_abs ht' = map_cmds hash_func_default (hash_abs ht) cmds"
  using assms
proof (induction cmds arbitrary: ht n)
  case Nil
  then show ?case by simp
next
  case (Cons cmd cmds)
  obtain key klen val where cmd: "cmd = (key, klen, val)" by (cases cmd)
  have v: "valid_key key klen" using Cons.prems(2) cmd by simp
  let ?nk = "norm_key hash_func_default key klen"
  have mx: "unat (h_max ht) < 2 ^ 31 - 1" using Cons.prems by simp
  have "\<exists>ht' r. hash_set True True ht key klen val = Val (ht', r) \<and> hash_inv hash_func_default ht'
      \<and> hash_abs ht' = (hash_abs ht)(?nk := val)
      \<and> (h_max ht' = h_max ht \<or> (h_max ht' = 2 * h_max ht + 1 \<and> h_max ht < h_count ht'))"
  proof (cases val)
    case None
    with djb.delete_abs [OF Cons.prems(1) v, of True True] show ?thesis by auto
  next
    case (Some x)
    with djb.set_abs [OF Cons.prems(1) v mx, of True True x] show ?thesis by auto
  qed
  then obtain ht1 r where set: "hash_set True True ht key klen val = Val (ht1, r)"
    and inv: "hash_inv hash_func_default ht1" and abs: "hash_abs ht1 = (hash_abs ht)(?nk := val)"
    and grow: "h_max ht1 = h_max ht \<or> (h_max ht1 = 2 * h_max ht + 1 \<and> h_max ht < h_count ht1)"
    by blast
  have "finite (dom (hash_abs ht))" by (simp add: djb.dom_abs [OF Cons.prems(1)])
  then have "card (insert ?nk (dom (hash_abs ht))) \<le> Suc n"
    using Cons.prems(3) by (simp add: card_insert_if)
  moreover have "card (dom (hash_abs ht1)) \<le> card (insert ?nk (dom (hash_abs ht)))"
    using \<open>finite (dom (hash_abs ht))\<close> by (intro card_mono) (auto simp: abs)
  ultimately have card: "card (dom (hash_abs ht1)) \<le> Suc n" by simp
  have "unat (h_count ht1) \<le> Suc n"
    using card djb.card_dom_abs(2) [OF inv] Cons.prems(5)
    by (simp add: unat_of_nat)
  then have max1: "unat (h_max ht1) \<le> 2 * Suc n + 15"
    using grow Cons.prems(4) mx by (auto simp: word_less_nat_alt unat_word_ariths)
  have "\<exists>ht'. hash_run ht1 cmds = Val ht' \<and> hash_inv hash_func_default ht'
      \<and> hash_abs ht' = map_cmds hash_func_default (hash_abs ht1) cmds"
    using Cons.prems(2,5) by (intro Cons.IH [OF inv _ card max1]) auto
  then show ?case by (simp add: cmd set abs)
qed

text \<open>C20: the table refines a finite map from byte strings. After any sequence of fewer than
  2^29 settings and deletions on a new table, with all the memory it asks for, every lookup
  returns what the same sequence of updates leaves in the map at that key.\<close>

theorem hash_table_refines_map:
  assumes "hash_create True 0 None = Some ht0"
    and "\<forall>(key, klen, val) \<in> set cmds. valid_key key klen" and "length cmds < 2 ^ 29"
    and "valid_key key klen"
  shows "\<exists>ht. hash_run ht0 cmds = Val ht
    \<and> hash_get ht key klen
      = map_cmds hash_func_default Map.empty cmds (norm_key hash_func_default key klen)"
proof -
  note new = hash_create_inv [OF assms(1)]
  have "card (dom (hash_abs ht0)) \<le> 0" "unat (h_max ht0) \<le> 2 * 0 + 15"
    using new by simp_all
  with hash_run_abs [OF new(1) assms(2), of 0] assms(3) new(2)
  obtain ht where "hash_run ht0 cmds = Val ht" "hash_inv hash_func_default ht"
    "hash_abs ht = map_cmds hash_func_default Map.empty cmds" by auto
  with djb.get_abs [of ht, OF _ assms(4)] show ?thesis by auto
qed

text \<open>The table the witnesses work on: new, and with one key set.\<close>

definition table0 :: "nat hash_table" where
  "table0 = the (hash_create True 0 None)"

definition table1 :: "nat hash_table" where
  "table1 = fst (the_val (hash_set True True table0 ''ab'' 2 (Some 5)))"

lemma hash_create_table0: "hash_create True 0 None = Some table0"
  by (simp add: table0_def hash_create_def Let_def)

lemma valid_key_ab: "valid_key ''ab'' 2"
  by (simp add: valid_key_def HASH_KEY_STRING_def)

lemma norm_key_ab: "norm_key hash_func_default ''ab'' 2 = ''ab''"
  by code_simp

lemma table0_facts:
  "hash_inv hash_func_default table0" "hash_abs table0 = Map.empty" "unat (h_max table0) = 15"
  "h_free table0 = []"
  using hash_create_inv [OF hash_create_table0]
  by (simp_all add: table0_def hash_create_def Let_def HASH_DEFAULT_MAX_def)

lemma table1_facts:
  "hash_inv hash_func_default table1" "hash_abs table1 = [''ab'' \<mapsto> 5]"
proof -
  obtain ht' r where "hash_set True True table0 ''ab'' 2 (Some 5) = Val (ht', r)"
    "hash_inv hash_func_default ht'" "hash_abs ht' = (hash_abs table0)(''ab'' \<mapsto> 5)"
    using djb.set_abs [OF table0_facts(1) valid_key_ab, of True True 5] norm_key_ab
    by (auto simp: table0_facts)
  then show "hash_inv hash_func_default table1" "hash_abs table1 = [''ab'' \<mapsto> 5]"
    by (simp_all add: table1_def table0_facts)
qed

theorem hash_table_refines_map_witness:
  "\<exists>ht. hash_run table0 [(''ab'', 2, Some 5), (''c'' @ [NUL], -1, Some 7), (''ab'', 2, None)] = Val ht
    \<and> hash_get ht ''c'' 1 = Some 7"
proof -
  let ?cmds = "[(''ab'', 2, Some 5), (''c'' @ [NUL], -1, Some 7), (''ab'', 2, None)] :: nat hash_cmd list"
  have "\<forall>(key, klen, val) \<in> set ?cmds. valid_key key klen"
    by (simp add: valid_key_ab) (simp add: valid_key_def HASH_KEY_STRING_def cstr_def)
  moreover have "length ?cmds < 2 ^ 29" by simp
  moreover have "valid_key ''c'' 1" by (simp add: valid_key_def HASH_KEY_STRING_def)
  moreover have "map_cmds hash_func_default Map.empty ?cmds (norm_key hash_func_default ''c'' 1) = Some 7"
    by code_simp
  ultimately show ?thesis
    using hash_table_refines_map [OF hash_create_table0, of ?cmds "''c''" 1] by metis
qed

text \<open>One call of \<open>hash_set\<close> with a value stores it under the key, keeps every other key
  and the invariant, and returns 0 when there is memory to expand the table; where there is
  none, the pair is stored all the same.\<close>

theorem hash_set_stores:
  assumes "hash_inv hash_func_default ht" and "valid_key key klen"
    and "unat (h_max ht) < 2 ^ 31 - 1" and "h_free ht \<noteq> [] \<or> malloc_entry"
  shows "\<exists>ht' r. hash_set malloc_entry malloc_array ht key klen (Some v) = Val (ht', r)
    \<and> hash_inv hash_func_default ht'
    \<and> hash_abs ht' = (hash_abs ht)(norm_key hash_func_default key klen \<mapsto> v)
    \<and> (malloc_array \<longrightarrow> r = 0)"
  using djb.set_abs [OF assms] by blast

theorem hash_set_stores_witness:
  "\<exists>ht' r. hash_set True True table0 ''ab'' 2 (Some 3) = Val (ht', r) \<and> hash_abs ht' ''ab'' = Some 3"
  using hash_set_stores [OF table0_facts(1) valid_key_ab, of True True 3] norm_key_ab
  by (auto simp: table0_facts)

text \<open>Setting a key to NULL deletes it and nothing else, and its entry is kept for reuse.\<close>

theorem hash_set_deletes:
  assumes "hash_inv hash_func_default ht" and "valid_key key klen"
  shows "\<exists>ht'. hash_set malloc_entry malloc_array ht key klen None = Val (ht', 0)
    \<and> hash_inv hash_func_default ht'
    \<and> hash_abs ht' = (hash_abs ht)(norm_key hash_func_default key klen := None)"
  using djb.delete_abs [OF assms] by blast

theorem hash_set_deletes_witness:
  "\<exists>ht'. hash_set False False table1 ''ab'' 2 None = Val (ht', 0) \<and> hash_abs ht' = Map.empty"
  using hash_set_deletes [OF table1_facts(1) valid_key_ab, of False False] norm_key_ab
  by (auto simp: table1_facts)

text \<open>C21: a loop over \<open>hash_begin\<close> and \<open>hash_next\<close> visits every entry exactly once, so it
  enumerates the keys of the map without repetition.\<close>

theorem hash_iteration_complete:
  assumes "hash_inv hash_func_default ht" and "card (dom (hash_abs ht)) \<le> fuel"
  shows "distinct (map e_key (hash_collect fuel ht (hash_begin True ht)))
    \<and> set (map e_key (hash_collect fuel ht (hash_begin True ht))) = dom (hash_abs ht)
    \<and> (\<forall>e \<in> set (hash_collect fuel ht (hash_begin True ht)). hash_abs ht (e_key e) = Some (e_val e))"
proof -
  have len: "length (h_array ht) = Suc (unat (h_max ht))" using assms(1) by (simp add: hash_inv_def)
  have "length (concat (h_array ht)) \<le> fuel"
    using assms(2) djb.card_dom_abs(1) [OF assms(1)] by simp
  then have all: "hash_collect fuel ht (hash_begin True ht) = concat (h_array ht)"
    using hash_collect_next [OF len, of "\<lparr>it_entry = [], it_next = [], it_index = 0\<rparr>" fuel]
    by (simp add: hash_begin_def)
  have "hash_abs ht (e_key e) = Some (e_val e)" if e: "e \<in> set (concat (h_array ht))" for e
  proof -
    let ?c = "h_array ht ! slot_of ht (e_key e)"
    have "distinct (map e_key ?c)"
      using assms(1) djb.slot_bound [OF assms(1)] by (simp add: hash_inv_def slot_of_def)
    moreover have "kv e \<in> set (map kv ?c)" using djb.entry_in_slot [OF assms(1) e] by simp
    ultimately show ?thesis by (simp add: hash_abs_def kv_def comp_def)
  qed
  then show ?thesis
    using djb.keys_distinct [OF assms(1)] djb.dom_abs [OF assms(1)] by (simp only: all set_map) blast
qed

theorem hash_iteration_complete_witness:
  "set (map e_key (hash_collect 1 table1 (hash_begin True table1))) = {''ab''}"
proof -
  have "card (dom (hash_abs table1)) \<le> 1" by (simp add: table1_facts)
  from hash_iteration_complete [OF table1_facts(1) this] show ?thesis by (simp add: table1_facts)
qed

text \<open>Without memory for a new entry, \<open>hash_set\<close> on an absent key dereferences the null
  pointer that \<open>find_entry\<close> returns, instead of returning -1.\<close>

theorem hash_set_out_of_memory:
  assumes "hash_inv hash_func_default ht" and "valid_key key klen" and "h_free ht = []"
    and "hash_abs ht (norm_key hash_func_default key klen) = None"
  shows "hash_set False malloc_array ht key klen (Some v) = UB"
proof -
  obtain h k where f: "hash_func_default key klen = (h, k)" by (cases "hash_func_default key klen")
  have "\<not> key_pos (norm_key hash_func_default key klen) (h_array ht ! hash_slot h (h_max ht))
      < length (h_array ht ! hash_slot h (h_max ht))"
    using djb.hash_abs_norm [OF assms(1,2) f] assms(4) by (simp add: chain_lookup split: if_splits)
  then show ?thesis
    using assms(3) by (simp add: hash_set_def djb.find_entry_cases [OF assms(1,2) f refl refl refl])
qed

theorem hash_set_out_of_memory_witness:
  "hash_set False True table0 ''ab'' 2 (Some 1) = UB"
  using hash_set_out_of_memory [OF table0_facts(1) valid_key_ab table0_facts(4)]
  by (simp add: table0_facts)

text \<open>The last chain of the array is never freed: the loop of \<open>hash_destroy\<close> ends one short.\<close>

lemma hash_destroy_leaks_last_chain:
  assumes "hash_inv func ht"
  shows "mset (hash_destroy ht) + mset (h_array ht ! unat (h_max ht))
       = mset (concat (h_array ht)) + mset (h_free ht)"
proof -
  have "h_array ht = take (unat (h_max ht)) (h_array ht) @ [h_array ht ! unat (h_max ht)]"
    using assms by (metis hash_inv_def Suc_eq_plus1 lessI take_Suc_conv_app_nth take_all_iff order_refl)
  then have "concat (h_array ht)
      = concat (take (unat (h_max ht)) (h_array ht)) @ h_array ht ! unat (h_max ht)"
    by (metis append_Nil2 concat.simps concat_append)
  then show ?thesis by (simp add: hash_destroy_def)
qed

end
