(* ===== verification/FileIO.thy ===== *)
theory FileIO
  imports Prelude "HOL-Library.Monad_Syntax"
begin

text \<open>
  Files: \<^verbatim>\<open>lib/fileio.c\<close> and the memory-mapped files of \<^verbatim>\<open>lib/mmap.c\<close>. A regular file is its bytes
  and the file system a map from paths; an open descriptor is the path it was opened with. The
  \<^verbatim>\<open>fcntl\<close> locks of all processes are a list. What the kernel answers where the state does not
  determine it (an interrupted or refused call, a short write) is an argument, in the record \<open>os\<close>.
  \<open>None\<close> is a call that does not return: a wait for a lock, or a loop that goes on after the answers
  given. A file is mapped shared, so that the mapping shows the file: an access outside the pages
  that back it is undefined, and what is written behind the end of the file is lost.
\<close>

unbundle bit_operations_syntax

section \<open>Data\<close>

definition O_RDONLY :: int where "O_RDONLY = 0"
definition O_WRONLY :: int where "O_WRONLY = 1"
definition O_RDWR :: int where "O_RDWR = 2"
definition LOCK_SH :: int where "LOCK_SH = 1"
definition LOCK_EX :: int where "LOCK_EX = 2"
definition LOCK_UN :: int where "LOCK_UN = 8"
definition F_RDLCK :: int where "F_RDLCK = 0"
definition F_WRLCK :: int where "F_WRLCK = 1"
definition F_UNLCK :: int where "F_UNLCK = 2"
definition PROT_READ :: int where "PROT_READ = 1"
definition PROT_WRITE :: int where "PROT_WRITE = 2"
definition MMAP_MINSIZE :: nat where "MMAP_MINSIZE = 4096"

datatype sysret = Done nat | Eintr | Fails

record os =
  os_open :: bool
  os_lock :: bool
  os_stat :: bool
  os_mmap :: bool
  os_remap :: bool
  os_seek :: bool
  os_malloc :: bool
  os_writes :: "sysret list"
  os_truncs :: "sysret list"
  os_closes :: "sysret list"

text \<open>A lock: process, path, type, first byte, number of bytes (0: to the end).\<close>

record flock =
  l_pid :: int
  l_path :: string
  l_type :: int
  l_start :: nat
  l_len :: nat

record world =
  w_files :: files
  w_locks :: "flock list"

record mmap_t =
  mm_fd :: "string option"
  mm_oflag :: int
  mm_lock :: int
  mm_prot :: int
  mm_mapped :: bool
  mm_msize :: nat
  mm_size :: nat

section \<open>Locks\<close>

definition overlap :: "flock \<Rightarrow> flock \<Rightarrow> bool" where
  "overlap k l \<longleftrightarrow> (l_len l = 0 \<or> l_start k < l_start l + l_len l) \<and> (l_len k = 0 \<or> l_start l < l_start k + l_len k)"

definition conflict :: "flock \<Rightarrow> flock \<Rightarrow> bool" where
  "conflict k l \<longleftrightarrow> l_pid k \<noteq> l_pid l \<and> l_path k = l_path l \<and> overlap k l \<and> (l_type k = F_WRLCK \<or> l_type l = F_WRLCK)"

definition setlkw :: "bool \<Rightarrow> flock \<Rightarrow> flock list \<Rightarrow> (flock list \<times> int) option" where
  \<comment> \<open>\<^verbatim>\<open>fcntl(fd, F_SETLKW, &lock)\<close>: whether the kernel grants it; it waits for conflicting locks to go\<close>
  "setlkw ok l locks =
     (if \<not> ok then Some (locks, -1)
      else let others = filter (\<lambda>k. \<not> (l_pid k = l_pid l \<and> l_path k = l_path l \<and> overlap k l)) locks
           in if l_type l = F_UNLCK then Some (others, 0)
              else if list_ex (\<lambda>k. conflict k l) locks then None else Some (l # others, 0))"

definition flock_type :: "int \<Rightarrow> int" where
  \<comment> \<open>the \<^verbatim>\<open>switch\<close> of \<^verbatim>\<open>fb_flock\<close>, from the label of each case to the end: there is no \<^verbatim>\<open>break\<close>\<close>
  "flock_type operation =
     (let t = (if operation = LOCK_EX then F_WRLCK else 0);
          t = (if operation = LOCK_EX \<or> operation = LOCK_SH then F_RDLCK else t);
          t = F_UNLCK
      in t)"

definition fb_flock :: "os \<Rightarrow> int \<Rightarrow> string \<Rightarrow> int \<Rightarrow> world \<Rightarrow> (world \<times> int) option" where
  "fb_flock os pid path operation w = do {
     (locks, ret) \<leftarrow> setlkw (os_lock os) \<lparr>l_pid = pid, l_path = path, l_type = flock_type operation, l_start = 0, l_len = 0\<rparr> (w_locks w);
     Some (w\<lparr>w_locks := locks\<rparr>, ret) }"

definition close_fd :: "int \<Rightarrow> string \<Rightarrow> world \<Rightarrow> world" where
  \<comment> \<open>closing a descriptor gives up all locks of the process on the file\<close>
  "close_fd pid path w = w\<lparr>w_locks := filter (\<lambda>k. \<not> (l_pid k = pid \<and> l_path k = path)) (w_locks w)\<rparr>"

section \<open>Restarted calls\<close>

fun safer_write :: "sysret list \<Rightarrow> string \<Rightarrow> string \<Rightarrow> (string \<times> int) option" where
  \<comment> \<open>what is left to write and what was written\<close>
  "safer_write [] bp out = None"
| "safer_write (Fails # rs) bp out = Some (out, -1)"
| "safer_write (Eintr # rs) bp out = (if bp = [] then Some (out, 0) else safer_write rs bp out)"
| "safer_write (Done cc # rs) bp out =
     (if length bp \<le> cc then Some (out @ bp, 0) else safer_write rs (drop cc bp) (out @ take cc bp))"

fun restart :: "sysret list \<Rightarrow> int option" where
  \<comment> \<open>\<^verbatim>\<open>restart_close\<close> and \<^verbatim>\<open>restart_ftruncate\<close>: call until it is not interrupted\<close>
  "restart [] = None"
| "restart (Done n # rs) = Some 0"
| "restart (Eintr # rs) = restart rs"
| "restart (Fails # rs) = Some (-1)"

definition restart_close :: "os \<Rightarrow> int \<Rightarrow> string \<Rightarrow> world \<Rightarrow> (world \<times> int) option" where
  "restart_close os pid path w = do { ret \<leftarrow> restart (os_closes os); Some (close_fd pid path w, ret) }"

definition resize :: "nat \<Rightarrow> string \<Rightarrow> string" where
  "resize n data = take n data @ replicate (n - length data) NUL"

definition restart_ftruncate :: "os \<Rightarrow> string \<Rightarrow> nat \<Rightarrow> world \<Rightarrow> (world \<times> int) option" where
  "restart_ftruncate os path n w = do {
     ret \<leftarrow> restart (os_truncs os);
     Some (if ret < 0 then w
           else w\<lparr>w_files := (w_files w)(path \<mapsto> resize n (the (w_files w path)))\<rparr>, ret) }"

section \<open>Whole files\<close>

definition file_append :: "os \<Rightarrow> int \<Rightarrow> string option \<Rightarrow> string option \<Rightarrow> world \<Rightarrow> (world \<times> int) option" where
  "file_append os pid file msg w =
     (case file of None \<Rightarrow> Some (w, -1) | Some file \<Rightarrow>
      case msg of None \<Rightarrow> Some (w, -1) | Some msg \<Rightarrow>
        if \<not> os_open os then Some (w, 0)
        else do {
          let old = (case w_files w file of None \<Rightarrow> [] | Some data \<Rightarrow> data);
          let w = w\<lparr>w_files := (w_files w)(file \<mapsto> old)\<rparr>;
          (w, ret) \<leftarrow> fb_flock os pid file LOCK_EX w;
          if ret = -1 then Some (close_fd pid file w, -1)
          else do {
            let written = (case os_writes os of Done cc # _ \<Rightarrow> take cc msg | _ \<Rightarrow> []);
            let w = w\<lparr>w_files := (w_files w)(file \<mapsto> old @ written)\<rparr>;
            (w, _) \<leftarrow> fb_flock os pid file LOCK_UN w;
            Some (close_fd pid file w, 0) } })"

definition dashf :: "bool \<Rightarrow> string option \<Rightarrow> world \<Rightarrow> bool" where
  \<comment> \<open>whether \<^verbatim>\<open>stat\<close> may look at the path\<close>
  "dashf ok file w = (case file of None \<Rightarrow> False | Some file \<Rightarrow> ok \<and> w_files w file \<noteq> None)"

definition O_EXCL :: int where "O_EXCL = 0x80"
definition O_APPEND :: int where "O_APPEND = 0x400"
definition BUFSIZ :: nat where "BUFSIZ = 8192"

fun cp_loop :: "sysret list \<Rightarrow> sysret list \<Rightarrow> string \<Rightarrow> string \<Rightarrow> (string \<times> int) option" where
  \<comment> \<open>what \<^verbatim>\<open>read\<close> and \<^verbatim>\<open>write\<close> answer, what is left to read and what was written\<close>
  "cp_loop [] ws rest out = None"
| "cp_loop (Done n # rs) ws rest out =
     (let chunk = take (min n BUFSIZ) rest
      in if chunk = [] then Some (out, 0)
         else case ws of
           [] \<Rightarrow> None
         | Done cc # ws \<Rightarrow>
             if cc = 0 then Some (out, int (length chunk))
             else cp_loop rs ws (drop (length chunk) rest) (out @ take cc chunk)
         | _ # ws \<Rightarrow> Some (out, int (length chunk)))"
| "cp_loop (_ # rs) ws rest out = Some (out, -1)"

definition put_at :: "int \<Rightarrow> string \<Rightarrow> string \<Rightarrow> string" where
  "put_at mode old out = (if mode AND O_APPEND \<noteq> 0 then old @ out else out @ drop (length out) old)"

definition f_cp :: "os \<Rightarrow> sysret list \<Rightarrow> bool \<Rightarrow> string \<Rightarrow> string \<Rightarrow> int \<Rightarrow> world \<Rightarrow> (world \<times> int) option" where
  \<comment> \<open>what \<^verbatim>\<open>read\<close> answers, whether the destination may be opened; another file than the source\<close>
  "f_cp os reads dst_ok src dst mode w =
     (case w_files w src of
        None \<Rightarrow> Some (w, -1)
      | Some data \<Rightarrow>
          if \<not> os_open os then Some (w, -1)
          else if \<not> dst_ok \<or> mode AND O_EXCL \<noteq> 0 \<and> w_files w dst \<noteq> None then Some (w, 0)
          else do {
            let old = (case w_files w dst of None \<Rightarrow> [] | Some d \<Rightarrow> d);
            (out, ret) \<leftarrow> cp_loop reads (os_writes os) data [];
            Some (w\<lparr>w_files := (w_files w)(dst \<mapsto> put_at mode old out)\<rparr>, ret) })"

definition f_ln :: "os \<Rightarrow> sysret list \<Rightarrow> bool \<Rightarrow> bool \<Rightarrow> string \<Rightarrow> string \<Rightarrow> world \<Rightarrow> (world \<times> int) option" where
  \<comment> \<open>whether the two names may be linked; a link is modelled by the contents at that moment\<close>
  "f_ln os reads dst_ok link_ok src dst w =
     (if w_files w dst \<noteq> None then Some (w, 0)
      else if link_ok \<and> w_files w src \<noteq> None then Some (w\<lparr>w_files := (w_files w)(dst := w_files w src)\<rparr>, 0)
      else f_cp os reads dst_ok src dst O_EXCL w)"

fun valid_fname :: "string \<Rightarrow> bool" where
  "valid_fname [] = True"
| "valid_fname (ch # str) = ((isupper ch \<or> islower ch \<or> isdigit ch \<or> ch = CHR ''-'' \<or> ch = CHR ''_'') \<and> valid_fname str)"

fun fgets_line :: "nat \<Rightarrow> string \<Rightarrow> string" where
  \<comment> \<open>what \<^verbatim>\<open>fgets\<close> reads into a buffer with room for that many bytes and the NUL\<close>
  "fgets_line 0 data = []"
| "fgets_line (Suc n) [] = []"
| "fgets_line (Suc n) (c # data) = (if c = LF then [c] else c # fgets_line n data)"

lemma fgets_line_shrinks: "fgets_line n data \<noteq> [] \<Longrightarrow> length data - length (fgets_line n data) < length data"
  by (cases n; cases data) auto

definition xinren :: string where
  "xinren = bytes [0xD0, 0xC5, 0xC8, 0xCB] @ '': ''"
definition fxinren :: string where
  "fxinren = [ESC] @ ''[1;41;33m'' @ bytes [0xB7, 0xA2, 0xD0, 0xC5, 0xC8, 0xCB] @ '': ''"
definition biaoti :: string where
  "biaoti = bytes [0xB1, 0xEA] @ ''  '' @ bytes [0xCC, 0xE2] @ '': ''"
definition faxinzhan :: string where
  "faxinzhan = bytes [0xB7, 0xA2, 0xD0, 0xC5, 0xD5, 0xBE] @ '': ''"

function part_cp_loop :: "bool \<Rightarrow> string \<Rightarrow> string \<Rightarrow> string \<Rightarrow> string" where
  \<comment> \<open>the flag, the 256 bytes of \<^verbatim>\<open>buf\<close>, what is left of the source, what was written\<close>
  "part_cp_loop flag buf data out =
     (let line = fgets_line 255 data
      in if line = [] then out
         else let data = drop (length line) data;
                  buf = line @ [NUL] @ drop (length line + 1) buf
              in if flag \<and> cstr buf = ''--'' @ [LF] then out @ cstr buf
                 else if \<not> flag \<and> (take 6 (drop 2 buf) = xinren \<or> take 18 buf = fxinren)
                 then part_cp_loop flag buf data (out @ cstr buf)
                 else if \<not> flag \<and> (buf ! 0 = NUL \<or> buf ! 0 = LF \<or> take 8 buf = biaoti \<or> take 8 buf = faxinzhan)
                 then part_cp_loop flag buf data out
                 else part_cp_loop True buf data (out @ cstr buf))"
  by pat_completeness auto
termination
  by (relation "measure (\<lambda>(flag, buf, data, out). length data)")
    (auto simp: length_greater_0_conv [symmetric] simp del: length_greater_0_conv dest!: fgets_line_shrinks)

definition part_cp :: "bool \<Rightarrow> bool \<Rightarrow> string \<Rightarrow> string \<Rightarrow> string \<Rightarrow> string \<Rightarrow> world \<Rightarrow> world \<times> int" where
  \<comment> \<open>whether the two files may be opened, the bytes in \<^verbatim>\<open>buf\<close> at the start; another file than the source\<close>
  "part_cp src_ok dst_ok buf0 src dst mode w =
     (case w_files w src of
        None \<Rightarrow> (w, 0)
      | Some data \<Rightarrow>
          if \<not> src_ok \<or> \<not> dst_ok then (w, 0)
          else let old = (case w_files w dst of None \<Rightarrow> [] | Some d \<Rightarrow> if mode = ''a+'' then d else [])
               in (w\<lparr>w_files := (w_files w)(dst \<mapsto> old @ part_cp_loop False buf0 data [])\<rparr>, 1))"

section \<open>Mapped files\<close>

definition page_up :: "nat \<Rightarrow> nat" where
  "page_up n = (n + 4095) div 4096 * 4096"

definition mapped_bytes :: "world \<Rightarrow> mmap_t \<Rightarrow> nat" where
  \<comment> \<open>how many bytes can be accessed: the pages of the mapping that the file backs\<close>
  "mapped_bytes w m =
     (case mm_fd m of None \<Rightarrow> 0 | Some path \<Rightarrow>
      case w_files w path of None \<Rightarrow> 0 | Some data \<Rightarrow>
        if mm_mapped m then min (page_up (mm_msize m)) (page_up (length data)) else 0)"

definition mdata :: "world \<Rightarrow> mmap_t \<Rightarrow> string" where
  "mdata w m = (case mm_fd m of None \<Rightarrow> [] | Some path \<Rightarrow> case w_files w path of None \<Rightarrow> [] | Some data \<Rightarrow> data)"

definition mread :: "world \<Rightarrow> mmap_t \<Rightarrow> int \<Rightarrow> nat \<Rightarrow> string run" where
  \<comment> \<open>\<open>n\<close> bytes from an offset; the last page is filled with zeros\<close>
  "mread w m off n =
     (if off < 0 \<or> mapped_bytes w m < nat off + n then UB
      else Val (take n (drop (nat off) (mdata w m @ replicate 4096 NUL))))"

definition mwrite :: "mmap_t \<Rightarrow> int \<Rightarrow> string \<Rightarrow> world \<Rightarrow> world run" where
  "mwrite m off bs w =
     (if off < 0 \<or> mapped_bytes w m < nat off + length bs \<or> mm_prot m AND PROT_WRITE = 0 then UB
      else let data = mdata w m
           in Val (w\<lparr>w_files := (w_files w)(the (mm_fd m) \<mapsto>
                take (length data) (take (nat off) data @ bs @ drop (nat off + length bs) data))\<rparr>))"

definition mmove :: "mmap_t \<Rightarrow> int \<Rightarrow> int \<Rightarrow> nat \<Rightarrow> world \<Rightarrow> world run" where
  \<comment> \<open>\<^verbatim>\<open>memmove\<close> within the mapping: to, from, size; moving nothing touches nothing\<close>
  "mmove m to from n w =
     (if n = 0 then Val w else run_bind (mread w m from n) (\<lambda>bs. mwrite m to bs w))"

definition mmap_open_fd :: "os \<Rightarrow> int \<Rightarrow> mmap_t \<Rightarrow> world \<Rightarrow> (world \<times> mmap_t \<times> int) option" where
  "mmap_open_fd os pid m w =
     (case mm_fd m of
        None \<Rightarrow> Some (w, m, -1)
      | Some path \<Rightarrow> do {
          (w, ret) \<leftarrow> fb_flock os pid path (mm_lock m) w;
          if ret < 0 then Some (close_fd pid path w, m, -1)
          else if \<not> os_stat os then do {
            (w, _) \<leftarrow> fb_flock os pid path LOCK_UN w;
            Some (close_fd pid path w, m, -1) }
          else do {
            let st_size = length (the (w_files w path));
            let m = m\<lparr>mm_size := st_size, mm_msize := (if MMAP_MINSIZE < st_size then st_size else MMAP_MINSIZE),
                      mm_mapped := os_mmap os\<rparr>;
            if os_mmap os then Some (w, m, 0)
            else do {
              (w, _) \<leftarrow> fb_flock os pid path LOCK_UN w;
              Some (close_fd pid path w, m, -1) } } })"

definition mmap_open :: "os \<Rightarrow> int \<Rightarrow> string \<Rightarrow> mmap_t \<Rightarrow> world \<Rightarrow> (world \<times> mmap_t \<times> int) option" where
  "mmap_open os pid file m w =
     (let m = m\<lparr>mm_lock := LOCK_EX\<rparr>;
          m = (if mm_oflag m AND O_RDWR \<noteq> 0 then m\<lparr>mm_prot := PROT_READ OR PROT_WRITE\<rparr>
               else if mm_oflag m AND O_WRONLY \<noteq> 0 then m\<lparr>mm_prot := PROT_WRITE\<rparr>
               else m\<lparr>mm_prot := PROT_READ, mm_lock := LOCK_SH\<rparr>);
          m = m\<lparr>mm_fd := (if os_open os \<and> w_files w file \<noteq> None then Some file else None)\<rparr>
      in mmap_open_fd os pid m w)"

definition mmap_close :: "os \<Rightarrow> int \<Rightarrow> mmap_t \<Rightarrow> world \<Rightarrow> (world \<times> int) option" where
  \<comment> \<open>of an open file; the pointer must not be used afterwards\<close>
  "mmap_close os pid m w = do {
     let path = the (mm_fd m);
     w \<leftarrow> (if mm_lock m \<noteq> LOCK_UN then map_option fst (fb_flock os pid path LOCK_UN w) else Some w);
     restart_close os pid path w }"

definition mmap_truncate :: "os \<Rightarrow> int \<Rightarrow> nat \<Rightarrow> mmap_t \<Rightarrow> world \<Rightarrow> (world \<times> mmap_t \<times> int) option" where
  \<comment> \<open>the size is unsigned: the test for a negative one is never true\<close>
  "mmap_truncate os pid sz m w = do {
     let m = (if mm_msize m < sz then m\<lparr>mm_mapped := False\<rparr> else m);
     (w, ret) \<leftarrow> restart_ftruncate os (the (mm_fd m)) sz w;
     if ret < 0 then do { (w, _) \<leftarrow> mmap_close os pid m w; Some (w, m\<lparr>mm_mapped := False\<rparr>, -1) }
     else do {
       let m = m\<lparr>mm_size := sz\<rparr>;
       if mm_msize m < sz then
         if os_remap os then Some (w, m\<lparr>mm_mapped := True, mm_msize := sz\<rparr>, 0)
         else do { (w, _) \<leftarrow> mmap_close os pid m w; Some (w, m, -1) }
       else Some (w, m, 0) } }"

definition mmap_shrink :: "os \<Rightarrow> nat \<Rightarrow> mmap_t \<Rightarrow> world \<Rightarrow> (world \<times> mmap_t \<times> int) option" where
  "mmap_shrink os sz m w =
     (if mm_msize m \<le> sz then Some (w, m, -1)
      else do {
        (w, ret) \<leftarrow> restart_ftruncate os (the (mm_fd m)) sz w;
        Some (if ret < 0 then (w, m, -1) else (w, m\<lparr>mm_size := sz\<rparr>, 0)) })"

definition mmap_lock :: "os \<Rightarrow> int \<Rightarrow> int \<Rightarrow> mmap_t \<Rightarrow> world \<Rightarrow> (world \<times> mmap_t \<times> int) option" where
  "mmap_lock os pid lock m w =
     (if lock = mm_lock m then Some (w, m, 0)
      else do {
        (w, ret) \<leftarrow> fb_flock os pid (the (mm_fd m)) lock w;
        Some (w, m\<lparr>mm_lock := lock\<rparr>, ret) })"

section \<open>Calls that the kernel grants\<close>

definition calm :: "os \<Rightarrow> bool" where
  \<comment> \<open>no call is refused, and the lists of answers are long enough\<close>
  "calm os \<longleftrightarrow> os_open os \<and> os_lock os \<and> os_stat os \<and> os_mmap os \<and> os_remap os \<and> os_seek os \<and> os_malloc os
     \<and> restart (os_truncs os) = Some 0 \<and> restart (os_closes os) = Some 0"

lemma flock_type_UNLCK [simp]: "flock_type operation = F_UNLCK"
  by (simp add: flock_type_def)

lemma fb_flock_result:
  "\<exists>locks. fb_flock os pid path operation w = Some (w\<lparr>w_locks := locks\<rparr>, if os_lock os then 0 else -1)"
  by (auto simp: fb_flock_def setlkw_def intro: exI [of _ "w_locks w"])

lemma fb_flock_files:
  "\<exists>w'. fb_flock os pid path operation w = Some (w', if os_lock os then 0 else -1) \<and> w_files w' = w_files w"
  using fb_flock_result [of os pid path operation w] by auto

lemma close_fd_files [simp]: "w_files (close_fd pid path w) = w_files w"
  by (simp add: close_fd_def)

lemma mmap_close_files:
  assumes "restart (os_closes os) = Some n"
  shows "\<exists>w'. mmap_close os pid m w = Some (w', n) \<and> w_files w' = w_files w"
  using assms fb_flock_files [of os pid "the (mm_fd m)" LOCK_UN w]
  by (auto simp: mmap_close_def restart_close_def Let_def)

text \<open>How many bytes of what is offered a list of answers takes, with the fatal one that stops it.\<close>

fun accepted :: "sysret list \<Rightarrow> nat" where
  "accepted [] = 0"
| "accepted (Done cc # rs) = cc + accepted rs"
| "accepted (Eintr # rs) = accepted rs"
| "accepted (Fails # rs) = 0"

lemma safer_write_all:
  assumes "length bp \<le> accepted rs" "bp \<noteq> []"
  shows "safer_write rs bp out = Some (out @ bp, 0)"
  using assms by (induction rs bp out rule: safer_write.induct) (auto simp: Let_def)

lemma safer_write_prefix:
  assumes "safer_write rs bp out = Some (written, ret)"
  shows "\<exists>n \<le> length bp. written = out @ take n bp \<and> (ret = 0 \<longrightarrow> n = length bp)"
  using assms
proof (induction rs bp out rule: safer_write.induct)
  case (4 cc rs bp out)
  show ?case
  proof (cases "length bp \<le> cc")
    case True with 4 show ?thesis by (auto intro: exI [of _ "length bp"])
  next
    case False
    with 4 obtain n where n: "n \<le> length (drop cc bp)" "written = (out @ take cc bp) @ take n (drop cc bp)"
      "ret = 0 \<longrightarrow> n = length (drop cc bp)" by auto
    have "take cc bp @ take n (drop cc bp) = take (cc + n) bp" by (simp add: take_add)
    with n False show ?thesis by (intro exI [of _ "cc + n"]) auto
  qed
qed (auto split: if_splits intro: exI [of _ 0])

section \<open>What a mapping shows\<close>

definition maps :: "world \<Rightarrow> mmap_t \<Rightarrow> string \<Rightarrow> string \<Rightarrow> bool" where
  \<comment> \<open>an open mapping of a whole file with these contents\<close>
  "maps w m f data \<longleftrightarrow> mm_fd m = Some f \<and> w_files w f = Some data \<and> mm_size m = length data
     \<and> length data \<le> mm_msize m \<and> mm_mapped m"

lemma page_up_ge: "n \<le> page_up n"
  using div_mult_mod_eq [of "n + 4095" 4096] mod_less_divisor [of 4096 "n + 4095"]
  unfolding page_up_def by linarith

lemma page_up_mono: "m \<le> n \<Longrightarrow> page_up m \<le> page_up n"
  unfolding page_up_def by (intro mult_le_mono div_le_mono) auto

lemma maps_mapped_bytes: "maps w m f data \<Longrightarrow> length data \<le> mapped_bytes w m"
  using page_up_ge [of "length data"] page_up_mono [of "length data" "mm_msize m"]
  by (auto simp: maps_def mapped_bytes_def)

lemma maps_mdata: "maps w m f data \<Longrightarrow> mdata w m = data"
  by (simp add: maps_def mdata_def)

lemma mread_within:
  assumes "maps w m f data" "off + n \<le> length data"
  shows "mread w m (int off) n = Val (take n (drop off data))"
  using assms maps_mapped_bytes [OF assms(1)] by (auto simp: mread_def maps_mdata)

lemma mwrite_within:
  assumes "maps w m f data" "off + length bs \<le> length data" "mm_prot m AND PROT_WRITE \<noteq> 0"
  shows "mwrite m (int off) bs w
    = Val (w\<lparr>w_files := (w_files w)(f \<mapsto> take off data @ bs @ drop (off + length bs) data)\<rparr>)"
  using assms maps_mapped_bytes [OF assms(1)] by (auto simp: mwrite_def maps_mdata Let_def maps_def)

lemma mmove_within:
  assumes "maps w m f data" "from + n \<le> length data" "to + n \<le> length data" "mm_prot m AND PROT_WRITE \<noteq> 0"
  shows "mmove m (int to) (int from) n w
    = Val (w\<lparr>w_files := (w_files w)(f \<mapsto> take to data @ take n (drop from data) @ drop (to + n) data)\<rparr>)"
proof (cases "n = 0")
  case True
  with assms(1) show ?thesis by (cases w) (auto simp: mmove_def maps_def map_upd_triv)
next
  case False
  with assms mread_within [OF assms(1,2)] mwrite_within [OF assms(1), of to "take n (drop from data)"]
  show ?thesis by (simp add: mmove_def min_absorb2)
qed

lemma mread_before [simp]: "off < 0 \<Longrightarrow> mread w m off n = UB"
  by (simp add: mread_def)

lemma mmap_open_maps:
  assumes "calm os" "w_files w f = Some data" "mm_oflag m = oflag" "oflag = O_RDONLY \<or> oflag = O_WRONLY \<or> oflag = O_RDWR"
  shows "\<exists>w' m'. mmap_open os pid f m w = Some (w', m', 0) \<and> maps w' m' f data
    \<and> w_files w' = w_files w \<and> mm_oflag m' = oflag \<and> (oflag \<noteq> O_RDONLY \<longrightarrow> mm_prot m' AND PROT_WRITE \<noteq> 0)
    \<and> mm_msize m' = max MMAP_MINSIZE (length data)"
proof -
  have lk: "\<exists>w'. fb_flock os pid f k w = Some (w', 0) \<and> w_files w' = w_files w" for k
    using fb_flock_files [of os pid f k w] assms(1) by (auto simp: calm_def)
  from lk [of LOCK_EX] lk [of LOCK_SH] assms show ?thesis
    by (auto simp: mmap_open_def mmap_open_fd_def O_RDONLY_def O_WRONLY_def O_RDWR_def
        PROT_READ_def PROT_WRITE_def Let_def calm_def maps_def max_def)
qed

lemma mmap_open_missing:
  assumes "w_files w f = None"
  shows "\<exists>m'. mmap_open os pid f m w = Some (w, m', -1)"
  using assms by (auto simp: mmap_open_def mmap_open_fd_def Let_def)

lemma mmap_truncate_maps:
  assumes "calm os" "maps w m f data"
  shows "\<exists>m'. mmap_truncate os pid n m w = Some (w\<lparr>w_files := (w_files w)(f \<mapsto> resize n data)\<rparr>, m', 0)
    \<and> maps (w\<lparr>w_files := (w_files w)(f \<mapsto> resize n data)\<rparr>) m' f (resize n data) \<and> mm_prot m' = mm_prot m
    \<and> mm_size m' = n"
  using assms
  by (auto simp: mmap_truncate_def restart_ftruncate_def maps_def calm_def Let_def resize_def)

section \<open>Properties\<close>

text \<open>C19: \<open>safer_write\<close> returns as soon as the kernel has accepted all the bytes, however it splits the
  writing and interrupts it, and has then written just them; it fails only on a fatal answer before
  that, with a prefix written, and goes on as long as neither has happened.\<close>
theorem safer_write_completes:
  assumes "bp \<noteq> []"
  shows "safer_write rs bp [] =
    (if length bp \<le> accepted rs then Some (bp, 0)
     else if Fails \<in> set rs then Some (take (accepted rs) bp, -1) else None)"
proof -
  have "safer_write rs bp out =
    (if length bp \<le> accepted rs then Some (out @ bp, 0)
     else if Fails \<in> set rs then Some (out @ take (accepted rs) bp, -1) else None)" for out
    using assms
  proof (induction rs bp out rule: safer_write.induct)
    case (4 cc rs bp out)
    show ?case
    proof (cases "length bp \<le> cc")
      case False
      then have "drop cc bp \<noteq> []" by simp
      with 4 False show ?thesis by (auto simp: take_add)
    qed auto
  qed auto
  from this [of "[]"] show ?thesis by simp
qed

theorem safer_write_completes_witness:
  "safer_write [Done 2, Eintr, Done 0, Done 1, Fails] ''abc'' [] = Some (''abc'', 0)"
  using safer_write_completes [of "''abc''" "[Done 2, Eintr, Done 0, Done 1, Fails]"] by simp

end
