(* ===== verification/TextFiles.thy ===== *)
theory TextFiles
  imports FileIO CStrings
begin

text \<open>
  Paths and text files, \<^verbatim>\<open>lib/stuffs.c\<close>: the paths of users' and boards' files, dates, files of lines
  that start with a name (the members of a club, the users who may not post), signatures. A file
  is read by \<^verbatim>\<open>fgets\<close> in pieces of at most a buffer's length. Of the processes' locks see \<open>FileIO\<close>:
  they lock nothing, and are left out.
\<close>

section \<open>Paths\<close>

definition initial :: "string \<Rightarrow> char" where
  \<comment> \<open>\<^verbatim>\<open>toupper(userid[0])\<close>\<close>
  "initial userid = toupper (case userid of [] \<Rightarrow> NUL | c # _ \<Rightarrow> c)"

definition DOT_DIR :: string where "DOT_DIR = ''.DIR''"

definition sethomefile :: "string \<Rightarrow> string \<Rightarrow> string" where
  "sethomefile userid filename = ''home/'' @ [initial userid] @ ''/'' @ userid @ ''/'' @ filename"

definition setbpath :: "string \<Rightarrow> string" where
  "setbpath boardname = ''boards/'' @ boardname"

definition setwbdir :: "string \<Rightarrow> string" where
  "setwbdir boardname = ''boards/'' @ boardname @ ''/'' @ DOT_DIR"

definition setbfile :: "string \<Rightarrow> string \<Rightarrow> string" where
  "setbfile boardname filename = ''boards/'' @ boardname @ ''/'' @ filename"

definition setmfile :: "string \<Rightarrow> string \<Rightarrow> string" where
  "setmfile userid filename = ''mail/'' @ [initial userid] @ ''/'' @ userid @ ''/'' @ filename"

definition setmdir :: "string \<Rightarrow> string" where
  "setmdir userid = ''mail/'' @ [initial userid] @ ''/'' @ userid @ ''/'' @ DOT_DIR"

section \<open>Dates\<close>

text \<open>What \<^verbatim>\<open>localtime\<close> gives.\<close>

record tm =
  tm_year :: int
  tm_mon :: int
  tm_mday :: int
  tm_hour :: int
  tm_min :: int
  tm_sec :: int
  tm_wday :: nat

datatype date_format = DATE_ZH | DATE_EN | DATE_SHORT | DATE_ENWEEK | DATE_XML | DATE_RSS

definition zpad :: "nat \<Rightarrow> int \<Rightarrow> string" where
  \<comment> \<open>\<^verbatim>\<open>%0nd\<close> of a number that is not negative\<close>
  "zpad n i = replicate (n - length (show_int i)) (CHR ''0'') @ show_int i"

definition weeknum :: "string list" where
  "weeknum = map bytes [[0xCC, 0xEC], [0xD2, 0xBB], [0xB6, 0xFE], [0xC8, 0xFD], [0xCB, 0xC4], [0xCE, 0xE5], [0xC1, 0xF9]]"

definition engweek :: "string list" where
  "engweek = [''Sun'', ''Mon'', ''Tue'', ''Wed'', ''Thu'', ''Fri'', ''Sat'']"

definition getdatestring :: "(tm \<Rightarrow> string) \<Rightarrow> tm \<Rightarrow> date_format \<Rightarrow> string" where
  \<comment> \<open>\<^verbatim>\<open>strftime\<close> for the RSS format; cut to the 31 characters of \<^verbatim>\<open>str[32]\<close>\<close>
  "getdatestring rss t mode = take 31 (case mode of
     DATE_ZH \<Rightarrow> pad_left 4 (show_int (tm_year t + 1900)) @ bytes [0xC4, 0xEA] @ zpad 2 (tm_mon t + 1) @ bytes [0xD4, 0xC2]
       @ zpad 2 (tm_mday t) @ bytes [0xC8, 0xD5] @ zpad 2 (tm_hour t) @ '':'' @ zpad 2 (tm_min t) @ '':'' @ zpad 2 (tm_sec t)
       @ '' '' @ bytes [0xD0, 0xC7, 0xC6, 0xDA] @ pad_left 2 (weeknum ! tm_wday t)
   | DATE_EN \<Rightarrow> zpad 2 (tm_mon t + 1) @ ''/'' @ zpad 2 (tm_mday t) @ ''/'' @ zpad 2 (tm_year t - 100)
       @ '' '' @ zpad 2 (tm_hour t) @ '':'' @ zpad 2 (tm_min t) @ '':'' @ zpad 2 (tm_sec t)
   | DATE_SHORT \<Rightarrow> zpad 2 (tm_mon t + 1) @ ''.'' @ zpad 2 (tm_mday t) @ '' '' @ zpad 2 (tm_hour t) @ '':'' @ zpad 2 (tm_min t)
   | DATE_ENWEEK \<Rightarrow> zpad 2 (tm_mon t + 1) @ ''/'' @ zpad 2 (tm_mday t) @ ''/'' @ zpad 2 (tm_year t - 100)
       @ '' '' @ zpad 2 (tm_hour t) @ '':'' @ zpad 2 (tm_min t) @ '':'' @ zpad 2 (tm_sec t) @ '' '' @ pad_left 3 (engweek ! tm_wday t)
   | DATE_RSS \<Rightarrow> rss t
   | DATE_XML \<Rightarrow> pad_left 4 (show_int (tm_year t + 1900)) @ ''-'' @ zpad 2 (tm_mon t + 1) @ ''-'' @ zpad 2 (tm_mday t)
       @ ''T'' @ zpad 2 (tm_hour t) @ '':'' @ zpad 2 (tm_min t) @ '':'' @ zpad 2 (tm_sec t))"

section \<open>Lines and words\<close>

function fgets_all :: "nat \<Rightarrow> string \<Rightarrow> string list" where
  \<comment> \<open>what repeated \<^verbatim>\<open>fgets\<close> read into a buffer of this size\<close>
  "fgets_all siz data =
     (let line = fgets_line (siz - 1) data
      in if line = [] then [] else line # fgets_all siz (drop (length line) data))"
  by pat_completeness auto
termination
  by (relation "measure (\<lambda>(siz, data). length data)") (auto dest: fgets_line_shrinks)

definition strtok_first :: "string \<Rightarrow> string \<Rightarrow> string option" where
  \<comment> \<open>\<^verbatim>\<open>strtok(s, delims)\<close>\<close>
  "strtok_first delims s =
     (case dropWhile (\<lambda>c. c \<in> set delims) s of [] \<Rightarrow> None | t \<Rightarrow> Some (takeWhile (\<lambda>c. c \<notin> set delims) t))"

definition strtok_rest :: "string \<Rightarrow> string \<Rightarrow> string" where
  \<comment> \<open>what \<^verbatim>\<open>strtok(NULL, ...)\<close> goes on with\<close>
  "strtok_rest delims s = drop 1 (dropWhile (\<lambda>c. c \<notin> set delims) (dropWhile (\<lambda>c. c \<in> set delims) s))"

definition strtok_cut :: "string \<Rightarrow> string \<Rightarrow> string" where
  \<comment> \<open>the string from its start after the call, which ended the first word\<close>
  "strtok_cut delims s =
     takeWhile (\<lambda>c. c \<in> set delims) s @ takeWhile (\<lambda>c. c \<notin> set delims) (dropWhile (\<lambda>c. c \<in> set delims) s)"

definition blanks_crlf :: string where "blanks_crlf = '' '' @ [CR, LF, CHR 0x09]"

fun special_loop :: "string \<Rightarrow> string list \<Rightarrow> string \<Rightarrow> nat \<Rightarrow> string" where
  "special_loop uid [] host len = host"
| "special_loop uid (line # rest) host len =
     (let line = cstr line
      in case strtok_first blanks_crlf line of
           None \<Rightarrow> special_loop uid rest host len
         | Some name \<Rightarrow>
             if strcasecmp_eq uid name
             then (case strtok_first blanks_crlf (strtok_rest blanks_crlf line) of
                     None \<Rightarrow> host | Some special \<Rightarrow> fst (strlcpy host special len))
             else special_loop uid rest host len)"

definition SpecialID :: "files \<Rightarrow> string \<Rightarrow> string \<Rightarrow> nat \<Rightarrow> string" where
  "SpecialID fs uid host len =
     (case fs ''etc/special.ini'' of None \<Rightarrow> host | Some data \<Rightarrow> special_loop uid (fgets_all 80 data) host len)"

definition names_line :: "string \<Rightarrow> string \<Rightarrow> bool" where
  \<comment> \<open>the first word of a line is the name\<close>
  "names_line seekstr line =
     (case strtok_first ('': '' @ [LF, CR, CHR 0x09]) (cstr line) of None \<Rightarrow> False | Some namep \<Rightarrow> strcasecmp_eq namep seekstr)"

definition seek_in_file :: "files \<Rightarrow> string \<Rightarrow> string \<Rightarrow> bool" where
  "seek_in_file fs filename seekstr =
     (case fs filename of None \<Rightarrow> False | Some data \<Rightarrow> list_ex (names_line seekstr) (fgets_all 80 data))"

section \<open>Changing a file of lines\<close>

definition HOMELEN :: nat where "HOMELEN = 80"
definition LINE_BUFSIZE :: nat where "LINE_BUFSIZE = 256"
definition BBS_ELEXIST :: int where "BBS_ELEXIST = -24"

fun add_loop :: "(string \<Rightarrow> bool) option \<Rightarrow> string \<Rightarrow> bool \<Rightarrow> string list \<Rightarrow> bool \<Rightarrow> string \<Rightarrow> bool \<times> string" where
  \<comment> \<open>the lines to come, whether the line was met, what was written to the new file\<close>
  "add_loop equal str overwrite [] exist out = (exist, out)"
| "add_loop equal str overwrite (buf # rest) exist out =
     (if \<not> exist \<and> (case equal of None \<Rightarrow> False | Some eq \<Rightarrow> eq (cstr buf))
      then if overwrite then add_loop equal str overwrite rest True (out @ str) else (True, out)
      else add_loop equal str overwrite rest exist (out @ cstr buf))"

definition add_to_file :: "bool \<Rightarrow> int \<Rightarrow> string \<Rightarrow> string \<Rightarrow> bool \<Rightarrow> (string \<Rightarrow> bool) option \<Rightarrow> files \<Rightarrow> files \<times> int" where
  \<comment> \<open>whether the new file can be opened, the process number; \<open>equal\<close> holds its other arguments\<close>
  "add_to_file opened pid file str overwrite equal fs =
     (let fnew = file @ ''.'' @ show_int pid
      in if HOMELEN \<le> length fnew \<or> \<not> opened then (fs, -1)
         else let (exist, out) = add_loop equal str overwrite (case fs file of None \<Rightarrow> [] | Some data \<Rightarrow> fgets_all LINE_BUFSIZE data) False [];
                  out = (if exist then out else out @ str)
              in if \<not> overwrite \<and> exist then (fs(fnew := None), BBS_ELEXIST)
                 else (fs(fnew := None, file \<mapsto> out), 0))"

definition starts_line :: "string \<Rightarrow> string \<Rightarrow> bool" where
  \<comment> \<open>the line starts with the string, and a blank or its end follows\<close>
  "starts_line str buf \<longleftrightarrow>
     take (length str) buf = str \<and> (length buf = length str \<or> buf ! length str = SPC \<or> buf ! length str = LF)"

fun del_loop :: "string \<Rightarrow> string list \<Rightarrow> bool \<Rightarrow> string \<Rightarrow> bool \<times> string" where
  "del_loop str [] deleted out = (deleted, out)"
| "del_loop str (buf # rest) deleted out =
     (if \<not> deleted \<and> starts_line str (cstr buf) then del_loop str rest True out
      else del_loop str rest deleted (out @ cstr buf))"

definition del_from_file :: "bool \<Rightarrow> int \<Rightarrow> string \<Rightarrow> string \<Rightarrow> files \<Rightarrow> (files \<times> int) run" where
  \<comment> \<open>\<^verbatim>\<open>buf[len]\<close> is read whatever the length of the line\<close>
  "del_from_file opened pid file str fs =
     (case fs file of
        None \<Rightarrow> Val (fs, -1)
      | Some data \<Rightarrow>
          (let fnew = take (HOMELEN - 1) (file @ ''.'' @ show_int pid)
           in if \<not> opened then Val (fs, -1)
              else if data \<noteq> [] \<and> 1024 \<le> length str then UB
              else let (deleted, out) = del_loop str (fgets_all 1024 data) False []
                   in if deleted
                      then if out = [] then Val (fs(fnew \<mapsto> [], file := None), 0)
                           else Val (fs(fnew := None, file \<mapsto> out), 0)
                      else Val (fs(fnew := None), -1)))"

section \<open>Addresses and signatures\<close>

definition IP_LEN :: nat where "IP_LEN = 40"

definition mask_from :: "char \<Rightarrow> bool \<Rightarrow> string \<Rightarrow> string" where
  \<comment> \<open>from the last separator on; whether only a number is masked, as for IPv4\<close>
  "mask_from sep numeric s =
     (let keep = rev (dropWhile (\<lambda>c. c \<noteq> sep) (rev s)); c = (if length keep < length s then s ! length keep else NUL)
      in if numeric \<and> \<not> isdigit c then s else take (IP_LEN - 1) (keep @ ''*''))"

definition mask_host :: "string \<Rightarrow> string" where
  "mask_host host =
     (let masked = take (IP_LEN - 1) host
      in if CHR ''.'' \<in> set masked then mask_from (CHR ''.'') True masked
         else if CHR '':'' \<in> set masked then mask_from (CHR '':'') False masked
         else masked)"

definition MAXSIGLINES :: nat where "MAXSIGLINES = 6"
definition BBSNAME :: string where "BBSNAME = bytes [0xB8, 0xB4, 0xB5, 0xA9, 0xC8, 0xAA]"
definition BBSHOST :: string where "BBSHOST = ''10.8.225.9''"

definition contains :: "string \<Rightarrow> string \<Rightarrow> bool" where
  \<comment> \<open>\<^verbatim>\<open>strstr\<close> finds the second string in the first\<close>
  "contains s t \<longleftrightarrow> list_ex (\<lambda>i. take (length t) (drop i s) = t) [0..<length s + 1]"

definition from_mark :: string where
  "from_mark = '':'' @ bytes [0xA1, 0xA4] @ BBSNAME @ '' '' @ BBSHOST @ bytes [0xA1, 0xA4] @ ''[FROM:''"

definition add_signature :: "files \<Rightarrow> string \<Rightarrow> int \<Rightarrow> string" where
  \<comment> \<open>what is put out\<close>
  "add_signature fs user sig =
     [LF] @ ''--'' @ [LF] @
     (if sig \<le> 0 then []
      else case fs (sethomefile user ''signatures'') of
        None \<Rightarrow> []
      | Some data \<Rightarrow>
          concat (filter (\<lambda>buf. \<not> contains buf from_mark)
            (map cstr (take MAXSIGLINES (drop ((nat sig - 1) * MAXSIGLINES) (fgets_all 256 data))))))"

section \<open>Files made of lines\<close>

definition text_line :: "nat \<Rightarrow> string \<Rightarrow> bool" where
  \<comment> \<open>a line with its end, of at most so many bytes\<close>
  "text_line n l \<longleftrightarrow> l \<noteq> [] \<and> last l = LF \<and> LF \<notin> set (butlast l) \<and> NUL \<notin> set l \<and> length l \<le> n"

definition text_file :: "files \<Rightarrow> string \<Rightarrow> nat \<Rightarrow> string list \<Rightarrow> bool" where
  \<comment> \<open>a missing file has no lines\<close>
  "text_file fs file n ls \<longleftrightarrow> list_all (text_line n) ls \<and> (case fs file of None \<Rightarrow> ls = [] | Some data \<Rightarrow> data = concat ls)"

declare fgets_all.simps [simp del]

lemma fgets_line_text: "text_line n l \<Longrightarrow> fgets_line n (l @ rest) = l"
proof (induction n "l @ rest" arbitrary: l rule: fgets_line.induct)
  case (3 n c data)
  then obtain t where l: "l = c # t" "data = t @ rest" by (cases l) (auto simp: text_line_def)
  show ?case
  proof (cases "t = []")
    case True with 3 l show ?thesis by (simp add: text_line_def)
  next
    case False
    with 3 l have "text_line n t" "c \<noteq> LF" by (auto simp: text_line_def)
    with 3 l show ?thesis by simp
  qed
qed (auto simp: text_line_def)

lemma fgets_line_Nil [simp]: "fgets_line n [] = []"
  by (cases n) simp_all

lemma text_line_mono: "text_line m l \<Longrightarrow> m \<le> n \<Longrightarrow> text_line n l"
  by (auto simp: text_line_def)

lemma fgets_all_text: "list_all (text_line (siz - 1)) ls \<Longrightarrow> fgets_all siz (concat ls) = ls"
proof (induction ls)
  case Nil
  then show ?case by (simp add: fgets_all.simps [of siz "[]"])
next
  case (Cons l ls)
  then have "fgets_line (siz - 1) (l @ concat ls) = l" "l \<noteq> []" using fgets_line_text by (auto simp: text_line_def)
  with Cons show ?case by (simp add: fgets_all.simps [of siz "l @ concat ls"] Let_def)
qed

lemma text_file_read:
  assumes "text_file fs file n ls" "n < siz"
  shows "(case fs file of None \<Rightarrow> [] | Some data \<Rightarrow> fgets_all siz data) = ls"
proof -
  have "list_all (text_line (siz - 1)) ls"
    using assms by (auto simp: text_file_def list_all_iff intro: text_line_mono)
  with assms(1) fgets_all_text show ?thesis by (auto simp: text_file_def split: option.splits)
qed

lemma text_line_cstr: "text_line n l \<Longrightarrow> cstr l = l"
  by (simp add: text_line_def cstr_id)

lemma add_loop_absent:
  assumes "list_all (text_line n) ls" "\<forall>l\<in>set ls. \<not> eq l"
  shows "add_loop (Some eq) str overwrite ls exist out = (exist, out @ concat ls)"
  using assms by (induction ls arbitrary: out) (auto simp: text_line_cstr)

lemma add_loop_after: "list_all (text_line n) ls \<Longrightarrow> add_loop equal str overwrite ls True out = (True, out @ concat ls)"
  by (induction ls arbitrary: out) (auto simp: text_line_cstr)

lemma add_loop_present:
  assumes "list_all (text_line n) (ls @ l # ls')" "\<forall>l\<in>set ls. \<not> eq l" "eq l"
  shows "add_loop (Some eq) str overwrite (ls @ l # ls') False out
    = (True, if overwrite then out @ concat ls @ str @ concat ls' else out @ concat ls)"
  using assms by (induction ls arbitrary: out) (auto simp: text_line_cstr add_loop_after)

lemma add_to_file_absent:
  assumes "text_file fs file n ls" "n < LINE_BUFSIZE" "\<forall>l\<in>set ls. \<not> eq l"
    "opened" "length file + length (show_int pid) < HOMELEN - 1"
  shows "add_to_file opened pid file str overwrite (Some eq) fs
    = (fs(file @ ''.'' @ show_int pid := None, file \<mapsto> concat ls @ str), 0)"
  using assms text_file_read [OF assms(1,2)] add_loop_absent [of n ls eq str overwrite False "[]"]
  by (simp add: add_to_file_def Let_def text_file_def HOMELEN_def)

lemma add_to_file_present:
  assumes "text_file fs file n (ls @ l # ls')" "n < LINE_BUFSIZE" "\<forall>l\<in>set ls. \<not> eq l" "eq l"
    "opened" "length file + length (show_int pid) < HOMELEN - 1"
  shows "add_to_file opened pid file str overwrite (Some eq) fs
    = (if overwrite then (fs(file @ ''.'' @ show_int pid := None, file \<mapsto> concat ls @ str @ concat ls'), 0)
       else (fs(file @ ''.'' @ show_int pid := None), BBS_ELEXIST))"
  using assms text_file_read [OF assms(1,2)] add_loop_present [of n ls l ls' eq str overwrite "[]"]
  by (simp add: add_to_file_def Let_def text_file_def HOMELEN_def)

lemma del_loop_absent:
  assumes "list_all (text_line n) ls" "\<forall>l\<in>set ls. \<not> starts_line str l"
  shows "del_loop str ls deleted out = (deleted, out @ concat ls)"
  using assms by (induction ls arbitrary: out) (auto simp: text_line_cstr)

lemma del_loop_after: "list_all (text_line n) ls \<Longrightarrow> del_loop str ls True out = (True, out @ concat ls)"
  by (induction ls arbitrary: out) (auto simp: text_line_cstr)

lemma del_loop_present:
  assumes "list_all (text_line n) (ls @ l # ls')" "\<forall>l\<in>set ls. \<not> starts_line str l" "starts_line str l"
  shows "del_loop str (ls @ l # ls') False out = (True, out @ concat (ls @ ls'))"
  using assms by (induction ls arbitrary: out) (auto simp: text_line_cstr del_loop_after)

lemma del_from_file_present:
  assumes "text_file fs file n (ls @ l # ls')" "n < 1024" "\<forall>l\<in>set ls. \<not> starts_line str l" "starts_line str l"
    "opened" "length str < 1024" "fnew = take (HOMELEN - 1) (file @ ''.'' @ show_int pid)"
  shows "del_from_file opened pid file str fs
    = Val (if concat (ls @ ls') = [] then fs(fnew \<mapsto> [], file := None) else fs(fnew := None, file \<mapsto> concat (ls @ ls')), 0)"
proof -
  have "fs file = Some (concat (ls @ l # ls'))" using assms(1) by (auto simp: text_file_def split: option.splits)
  moreover have "fgets_all 1024 (concat (ls @ l # ls')) = ls @ l # ls'"
    using text_file_read [OF assms(1,2)] \<open>fs file = _\<close> by simp
  moreover have "list_all (text_line n) (ls @ l # ls')" using assms(1) by (simp add: text_file_def)
  ultimately show ?thesis
    using assms(3-7) del_loop_present [of n ls l ls' str "[]"] by (simp add: del_from_file_def Let_def)
qed

lemma text_file_concat:
  assumes "fs' file = (if concat ls = [] then None else Some (concat ls))" "list_all (text_line n) ls"
  shows "text_file fs' file n ls"
proof -
  have "concat ls = [] \<Longrightarrow> ls = []" using assms(2) by (cases ls) (auto simp: text_line_def)
  with assms show ?thesis by (auto simp: text_file_def)
qed

end
