(* ===== verification/ReadMarks.thy ===== *)
theory ReadMarks
  imports TextFiles
begin

text \<open>
  The read marks of a user's boards (lib/boardrc.c): for the board being read, a descending list
  of at most 60 post times that were read; for the others, records of the file
  \<^verbatim>\<open>.boardrc\<close> in the user's home. First the definitions, then the list of marks (what
  is read and unread after any sequence of marks), then the records of the file (their encoding,
  the size of the buffer, and that saving and loading keep the marks of every board).

  Files are a map from paths to contents; \<^verbatim>\<open>open\<close> for reading fails exactly when the
  file is missing, whether it succeeds for writing is an argument.
\<close>

section \<open>The program\<close>

definition BRC_MAXSIZE :: nat where "BRC_MAXSIZE = 50000"
definition BRC_MAXNUM :: nat where "BRC_MAXNUM = 60"
definition BRC_STRLEN :: nat where "BRC_STRLEN = 20"
definition BRC_ITEMSIZE :: nat where "BRC_ITEMSIZE = BRC_STRLEN + 1 + BRC_MAXNUM * 4"

text \<open>The static variables of the file.\<close>

record brc =
  brc_buf :: string
  brc_size :: nat
  brc_changed :: bool
  brc_name :: string
  brc_list :: "int list"
  brc_num :: nat

text \<open>An \<^verbatim>\<open>int\<close> in memory: four bytes, least significant first.\<close>

definition int_bytes :: "int \<Rightarrow> string" where
  "int_bytes i = map (\<lambda>k. char_of (nat (i div 256 ^ k mod 256))) [0, 1, 2, 3]"

definition bytes_int :: "string \<Rightarrow> int" where
  "bytes_int s =
     (let u = int (byte (s ! 0)) + 256 * int (byte (s ! 1)) + 65536 * int (byte (s ! 2))
              + 16777216 * int (byte (s ! 3))
      in if u < 2147483648 then u else u - 4294967296)"

definition read_ints :: "nat \<Rightarrow> string \<Rightarrow> int list" where
  "read_ints n s = map (\<lambda>k. bytes_int (take 4 (drop (4 * k) s))) [0..<n]"

text \<open>
  \<open>brc_getrecord buf p name list\<close> reads the record at offset \<open>p\<close> into the two arrays and gives
  them with the count and the offset after the record. Reading outside \<open>buf\<close> is undefined.
\<close>

definition brc_getrecord ::
  "string \<Rightarrow> nat \<Rightarrow> string \<Rightarrow> int list \<Rightarrow> (string \<times> nat \<times> int list \<times> nat) run" where
  "brc_getrecord buf p name list =
     (if NUL \<notin> set (drop p buf) \<or> length buf \<le> p + BRC_STRLEN then UB
      else (let name = fst (strlcpy name (cstr (drop p buf)) BRC_STRLEN);
                num = byte (buf ! (p + BRC_STRLEN));
                ptr = p + BRC_STRLEN + 1;
                tmp = ptr + num * 4;
                num = (if BRC_MAXNUM < num then BRC_MAXNUM else num)
            in if length buf < ptr + num * 4 then UB
               else Val (name, num, read_ints num (drop ptr buf) @ drop num list, tmp)))"

definition brc_putrecord ::
  "string \<Rightarrow> nat \<Rightarrow> string \<Rightarrow> nat \<Rightarrow> int list \<Rightarrow> (string \<times> nat) run" where
  "brc_putrecord buf p name num list =
     (if 0 < num
      then (let num = (if BRC_MAXNUM < num then BRC_MAXNUM else num);
                q = p + BRC_STRLEN + 1 + num * 4
            in if length buf < q then UB
               else Val (take p buf @ take BRC_STRLEN (fst (strlcpy (drop p buf) (cstr name) BRC_STRLEN))
                           @ [char_of num] @ concat (map int_bytes (take num list)) @ drop q buf, q))
      else Val (buf, p))"

definition brc_more :: "string \<Rightarrow> nat \<Rightarrow> nat \<Rightarrow> bool" where
  \<comment> \<open>the condition of the two loops over records\<close>
  "brc_more buf sz p \<longleftrightarrow> p < sz \<and> 32 \<le> schar (buf ! p) \<and> schar (buf ! p) \<le> 122"

definition same_name :: "string \<Rightarrow> string \<Rightarrow> bool" where
  \<comment> \<open>\<^verbatim>\<open>strncmp (name, board, BRC_STRLEN) == 0\<close>\<close>
  "same_name name board \<longleftrightarrow> take BRC_STRLEN (cstr name) = take BRC_STRLEN board"

lemma brc_getrecord_advances:
  "brc_getrecord buf p name list = Val (name', num, list', p') \<Longrightarrow> p < p'"
  by (auto simp: brc_getrecord_def Let_def split: if_splits)

text \<open>The loop of \<^verbatim>\<open>brc_update\<close>: the records of the file other than the board's follow.\<close>

function brc_merge ::
  "string \<Rightarrow> nat \<Rightarrow> nat \<Rightarrow> string \<Rightarrow> int list \<Rightarrow> string \<Rightarrow> string \<Rightarrow> nat \<Rightarrow> (string \<times> nat) run" where
  "brc_merge tmp_buf tmp_size tmp tmp_name tmp_list board buf p =
     (if brc_more tmp_buf tmp_size tmp
      then (case brc_getrecord tmp_buf tmp tmp_name tmp_list of
              UB \<Rightarrow> UB
            | Val (tmp_name, tmp_num, tmp_list, tmp') \<Rightarrow>
                (if \<not> same_name tmp_name board
                 then (case brc_putrecord buf p tmp_name tmp_num tmp_list of
                         UB \<Rightarrow> UB
                       | Val (buf, p) \<Rightarrow>
                           brc_merge tmp_buf tmp_size tmp' tmp_name tmp_list board buf p)
                 else brc_merge tmp_buf tmp_size tmp' tmp_name tmp_list board buf p))
      else Val (buf, p))"
  by pat_completeness auto
termination
  by (relation "measure (\<lambda>(tmp_buf, tmp_size, tmp, _). tmp_size - tmp)")
    (auto simp: brc_more_def dest!: brc_getrecord_advances)

declare brc_merge.simps [simp del]

text \<open>\<open>junk\<close> is what the uninitialised \<^verbatim>\<open>tmp_buf\<close> holds.\<close>

definition brc_update ::
  "(nat \<Rightarrow> char) \<Rightarrow> bool \<Rightarrow> files \<Rightarrow> brc \<Rightarrow> string \<Rightarrow> string \<Rightarrow> (files \<times> brc) run" where
  "brc_update junk open_ok fs b userid board =
     (if \<not> brc_changed b then Val (fs, b)
      else (case (if 0 < brc_num b then brc_putrecord (brc_buf b) 0 (brc_name b) (brc_num b) (brc_list b)
                  else Val (brc_buf b, 0)) of
              UB \<Rightarrow> UB
            | Val (buf, p) \<Rightarrow>
                (let dirfile = sethomefile userid ''.boardrc'';
                     data = (case fs dirfile of None \<Rightarrow> [] | Some data \<Rightarrow> take BRC_MAXSIZE data);
                     tmp_buf = data @ map junk [length data..<BRC_MAXSIZE];
                     tmp_size = (if BRC_MAXSIZE - BRC_ITEMSIZE < length data
                                 then BRC_MAXSIZE - BRC_ITEMSIZE * 2 + 1 else length data)
                 in (case brc_merge tmp_buf tmp_size 0 (replicate BRC_STRLEN NUL)
                            (replicate BRC_MAXNUM 0) board buf p of
                       UB \<Rightarrow> UB
                     | Val (buf, p) \<Rightarrow>
                         Val (if open_ok then fs(dirfile \<mapsto> take p buf) else fs,
                              b\<lparr>brc_buf := buf, brc_size := p, brc_changed := False\<rparr>)))))"

text \<open>The loop of \<^verbatim>\<open>brc_initial\<close>.\<close>

function brc_search ::
  "string \<Rightarrow> nat \<Rightarrow> nat \<Rightarrow> string \<Rightarrow> int list \<Rightarrow> string \<Rightarrow> (string \<times> int list \<times> nat option) run" where
  "brc_search buf sz p name list board =
     (if brc_more buf sz p
      then (case brc_getrecord buf p name list of
              UB \<Rightarrow> UB
            | Val (name, num, list, p') \<Rightarrow>
                (if same_name name board then Val (name, list, Some num)
                 else brc_search buf sz p' name list board))
      else Val (name, list, None))"
  by pat_completeness auto
termination
  by (relation "measure (\<lambda>(buf, sz, p, _). sz - p)")
    (auto simp: brc_more_def dest!: brc_getrecord_advances)

declare brc_search.simps [simp del]

definition brc_initial ::
  "(nat \<Rightarrow> char) \<Rightarrow> bool \<Rightarrow> files \<Rightarrow> brc \<Rightarrow> string \<Rightarrow> string \<Rightarrow> (files \<times> brc \<times> nat) run" where
  "brc_initial junk open_ok fs b userid board =
     (case brc_update junk open_ok fs b userid board of
        UB \<Rightarrow> UB
      | Val (fs, b) \<Rightarrow>
          (let b = b\<lparr>brc_changed := False\<rparr>;
               b = (if brc_buf b ! 0 = NUL
                    then (case fs (sethomefile userid ''.boardrc'') of
                            None \<Rightarrow> b\<lparr>brc_size := 0\<rparr>
                          | Some data \<Rightarrow>
                              (let data = take BRC_MAXSIZE data
                               in b\<lparr>brc_buf := data @ drop (length data) (brc_buf b),
                                    brc_size := length data\<rparr>))
                    else b)
           in (case brc_search (brc_buf b) (brc_size b) 0 (brc_name b) (brc_list b) board of
                 UB \<Rightarrow> UB
               | Val (name, list, Some num) \<Rightarrow>
                   Val (fs, b\<lparr>brc_name := name, brc_list := list, brc_num := num\<rparr>, num)
               | Val (name, list, None) \<Rightarrow>
                   Val (fs, b\<lparr>brc_name := fst (strlcpy name board BRC_STRLEN),
                              brc_list := list[0 := 1], brc_num := 1\<rparr>, 0))))"

definition brc_fcgi_init ::
  "(nat \<Rightarrow> char) \<Rightarrow> bool \<Rightarrow> files \<Rightarrow> brc \<Rightarrow> string \<Rightarrow> string \<Rightarrow> (files \<times> brc \<times> nat) run" where
  "brc_fcgi_init junk open_ok fs b user board =
     brc_initial junk open_ok fs (b\<lparr>brc_buf := (brc_buf b)[0 := NUL]\<rparr>) user board"

text \<open>The time in a file name \<^verbatim>\<open>M.<time>.A\<close> or \<^verbatim>\<open>G.<time>.A\<close>.\<close>

fun brc_ftime :: "string \<Rightarrow> int option" where
  "brc_ftime (c # d # s) = (if (c = CHR ''M'' \<or> c = CHR ''G'') \<and> d = CHR ''.'' then Some (atoi s) else None)"
| "brc_ftime _ = None"

fun brc_shift :: "int list \<Rightarrow> nat \<Rightarrow> nat \<Rightarrow> int list" where
  \<comment> \<open>\<^verbatim>\<open>for (i = brc_num - 1; i > n; i--) brc_list[i] = brc_list[i - 1]\<close>\<close>
  "brc_shift list 0 n = list"
| "brc_shift list (Suc i) n =
     (if n < Suc i then brc_shift (list[Suc i := list ! i]) i n else list)"

function brc_insert :: "int \<Rightarrow> nat \<Rightarrow> brc \<Rightarrow> brc" where
  \<comment> \<open>the loop of \<^verbatim>\<open>brc_addlist\<close> and what follows it\<close>
  "brc_insert ftime n b =
     (if n < brc_num b
      then (if ftime = brc_list b ! n then b
            else if brc_list b ! n < ftime
            then (let num = (if brc_num b < BRC_MAXNUM then brc_num b + 1 else brc_num b);
                      list = (brc_shift (brc_list b) (num - 1) n)[n := ftime]
                  in b\<lparr>brc_num := num, brc_list := list, brc_changed := True\<rparr>)
            else brc_insert ftime (n + 1) b)
      else if brc_num b < BRC_MAXNUM
      then b\<lparr>brc_list := (brc_list b)[brc_num b := ftime], brc_num := brc_num b + 1,
              brc_changed := True\<rparr>
      else b)"
  by pat_completeness auto
termination
  by (relation "measure (\<lambda>(ftime, n, b). brc_num b - n)") auto

declare brc_insert.simps [simp del]

definition brc_addlist :: "string \<Rightarrow> string \<Rightarrow> brc \<Rightarrow> brc" where
  "brc_addlist userid filename b =
     (if userid = ''guest'' then b
      else (case brc_ftime filename of
              None \<Rightarrow> b
            | Some ftime \<Rightarrow>
                (if brc_num b = 0
                 then b\<lparr>brc_list := (brc_list b)[0 := ftime], brc_num := 1, brc_changed := True\<rparr>
                 else brc_insert ftime 0 b)))"

fun brc_scan :: "int \<Rightarrow> int list \<Rightarrow> bool" where
  \<comment> \<open>the loop of \<^verbatim>\<open>brc_unread1\<close> over \<open>brc_list[0..brc_num)\<close>\<close>
  "brc_scan ftime [] = False"
| "brc_scan ftime (t # ts) = (if t < ftime then True else if ftime = t then False else brc_scan ftime ts)"

definition brc_unread1 :: "brc \<Rightarrow> int \<Rightarrow> bool" where
  "brc_unread1 b ftime = (if brc_num b = 0 then True else brc_scan ftime (take (brc_num b) (brc_list b)))"


fun brc_clear_loop :: "string \<Rightarrow> nat \<Rightarrow> int \<Rightarrow> brc \<Rightarrow> brc" where
  "brc_clear_loop userid 0 posttime b = b"
| "brc_clear_loop userid (Suc n) posttime b =
     brc_clear_loop userid n (posttime + 1)
       (brc_addlist userid (''M.'' @ show_int posttime @ ''.A'') b)"

text \<open>
  \<open>brc_clear\<close>: \<open>post\<close> is the file name of the post under the cursor, \<open>None\<close> when the directory
  file cannot be opened; the boolean result is \<^verbatim>\<open>PARTUPDATE\<close> (true) or
  \<^verbatim>\<open>DONOTHING\<close>.
\<close>

definition brc_clear :: "string \<Rightarrow> int \<Rightarrow> string option \<Rightarrow> bool \<Rightarrow> brc \<Rightarrow> brc \<times> bool" where
  "brc_clear userid now post clearall b =
     (if clearall then (brc_clear_loop userid BRC_MAXNUM (now - int BRC_MAXNUM + 1) b, True)
      else (case post of
              None \<Rightarrow> (b, False)
            | Some filename \<Rightarrow>
                (brc_clear_loop userid BRC_MAXNUM (atoi (drop 2 filename) - int BRC_MAXNUM + 1) b,
                 True)))"

definition brc_zapbuf :: "brc \<Rightarrow> int \<Rightarrow> int" where
  "brc_zapbuf b zbuf = (if 0 < zbuf \<and> 0 < brc_num b then brc_list b ! 0 else zbuf)"

lemmas [c_defs] = BRC_MAXSIZE_def BRC_MAXNUM_def BRC_STRLEN_def BRC_ITEMSIZE_def

section \<open>The list of marks\<close>

definition marks :: "brc \<Rightarrow> int list" where
  "marks b = take (brc_num b) (brc_list b)"

definition brc_ok :: "brc \<Rightarrow> bool" where
  "brc_ok b \<longleftrightarrow> length (brc_list b) = BRC_MAXNUM \<and> 0 < brc_num b \<and> brc_num b \<le> BRC_MAXNUM
     \<and> sorted_wrt (>) (marks b)"

text \<open>The abstract operation: the marks are the 60 greatest of the times marked so far.\<close>

definition newest :: "int set \<Rightarrow> int list" where
  "newest T = take BRC_MAXNUM (rev (sorted_list_of_set T))"

fun ins_desc :: "int \<Rightarrow> int list \<Rightarrow> int list" where
  "ins_desc t [] = [t]"
| "ins_desc t (x # xs) = (if t = x then x # xs else if x < t then t # x # xs else x # ins_desc t xs)"

lemma set_ins_desc [simp]: "set (ins_desc t xs) = insert t (set xs)"
  by (induction xs) auto

lemma sorted_ins_desc: "sorted_wrt (>) xs \<Longrightarrow> sorted_wrt (>) (ins_desc t xs)"
  by (induction xs) auto

lemma sorted_desc_unique:
  assumes "sorted_wrt (>) (xs :: int list)"
  shows "xs = rev (sorted_list_of_set (set xs))"
proof -
  have "sorted_wrt (<) (rev xs)"
    using assms by (simp add: sorted_wrt_rev)
  then have "sorted_list_of_set (set (rev xs)) = rev xs"
    using sorted_list_of_set.idem_if_sorted_distinct strict_sorted_iff by blast
  then show ?thesis by simp
qed

lemma take_ins_desc:
  assumes "sorted_wrt (>) xs"
  shows "take BRC_MAXNUM (ins_desc t xs) = newest (insert t (set xs))"
  using sorted_desc_unique [OF sorted_ins_desc [OF assms], of t] by (simp add: newest_def)

lemma length_marks: "brc_ok b \<Longrightarrow> length (marks b) = brc_num b"
  by (simp add: brc_ok_def marks_def)

lemma nth_marks: "i < brc_num b \<Longrightarrow> marks b ! i = brc_list b ! i"
  by (simp add: marks_def)

lemma length_brc_shift [simp]: "length (brc_shift xs i n) = length xs"
  by (induction xs i n rule: brc_shift.induct) auto

lemma nth_brc_shift:
  "i < length xs \<Longrightarrow> j < length xs \<Longrightarrow>
   brc_shift xs i n ! j = (if n < j \<and> j \<le> i then xs ! (j - 1) else xs ! j)"
proof (induction xs i n rule: brc_shift.induct)
  case (1 xs n)
  then show ?case by simp
next
  case (2 xs i n)
  show ?case
  proof (cases "n < Suc i")
    case True
    have "brc_shift xs (Suc i) n ! j
      = (if n < j \<and> j \<le> i then xs[Suc i := xs ! i] ! (j - 1) else xs[Suc i := xs ! i] ! j)"
      using 2 True by simp
    then show ?thesis
      using 2 True by (auto simp: nth_list_update)
  qed (use 2 in auto)
qed

lemma shift_insert:
  assumes "n < num" "num \<le> length xs" "num \<le> i + 1" "i \<le> num" "i < length xs"
  shows "take (i + 1) ((brc_shift xs i n)[n := t])
       = take (i + 1) (take n xs @ t # drop n (take num xs))"
proof (rule list_eq_pointwise)
  show "length (take (i + 1) ((brc_shift xs i n)[n := t]))
    = length (take (i + 1) (take n xs @ t # drop n (take num xs)))"
    using assms by simp
next
  fix j
  assume "j < length (take (i + 1) ((brc_shift xs i n)[n := t]))"
  then have j: "j \<le> i" "j < length xs" by auto
  consider "j < n" | "j = n" | k where "j = n + Suc k"
    by (metis less_imp_Suc_add linorder_neqE_nat add_Suc_right)
  then show "take (i + 1) ((brc_shift xs i n)[n := t]) ! j
    = take (i + 1) (take n xs @ t # drop n (take num xs)) ! j"
    using assms j by cases (auto simp: nth_append nth_brc_shift min_def)
qed

lemma brc_insert_frame [simp]:
  "brc_buf (brc_insert t n b) = brc_buf b" "brc_name (brc_insert t n b) = brc_name b"
  "length (brc_list (brc_insert t n b)) = length (brc_list b)"
  by (induction t n b rule: brc_insert.induct; subst brc_insert.simps; simp add: Let_def)+

lemma brc_insert_marks:
  assumes "length (brc_list b) = BRC_MAXNUM" "brc_num b \<le> BRC_MAXNUM" "n \<le> brc_num b"
  shows "marks (brc_insert t n b)
       = take BRC_MAXNUM (take n (marks b) @ ins_desc t (drop n (marks b)))
     \<and> brc_num b \<le> brc_num (brc_insert t n b) \<and> brc_num (brc_insert t n b) \<le> BRC_MAXNUM"
  using assms
proof (induction t n b rule: brc_insert.induct)
  case (1 t n b)
  let ?x = "brc_list b ! n"
  have len: "length (marks b) = brc_num b"
    using 1 by (simp add: marks_def)
  show ?case
  proof (cases "n < brc_num b")
    case less: True
    have d: "drop n (marks b) = ?x # drop (Suc n) (marks b)"
      using less len by (simp add: Cons_nth_drop_Suc [symmetric] nth_marks)
    have tk: "take (Suc n) (marks b) = take n (marks b) @ [?x]"
      using less len by (simp add: take_Suc_conv_app_nth nth_marks)
    consider "t = ?x" | "?x < t" | "t < ?x" by linarith
    then show ?thesis
    proof cases
      case 1
      then have "brc_insert t n b = b"
        using less by (subst brc_insert.simps) simp
      moreover have "ins_desc t (drop n (marks b)) = drop n (marks b)"
        using 1 by (simp add: d)
      ultimately show ?thesis
        using "1.prems" len by simp
    next
      case 2
      let ?num = "if brc_num b < BRC_MAXNUM then brc_num b + 1 else brc_num b"
      have b': "brc_insert t n b = b\<lparr>brc_num := ?num,
          brc_list := (brc_shift (brc_list b) (?num - 1) n)[n := t], brc_changed := True\<rparr>"
        using less 2 by (subst brc_insert.simps) (simp add: Let_def)
      have "take (?num - 1 + 1) ((brc_shift (brc_list b) (?num - 1) n)[n := t])
        = take (?num - 1 + 1) (take n (brc_list b) @ t # drop n (take (brc_num b) (brc_list b)))"
        using less "1.prems" by (intro shift_insert) (auto split: if_splits)
      then have "marks (brc_insert t n b)
        = take ?num (take n (brc_list b) @ t # drop n (marks b))"
        using less by (simp add: b' marks_def)
      also have "take n (brc_list b) = take n (marks b)"
        using less by (simp add: marks_def)
      also have "take ?num (take n (marks b) @ t # drop n (marks b))
        = take BRC_MAXNUM (take n (marks b) @ t # drop n (marks b))"
        using len less "1.prems" by (auto simp: not_less)
      finally have "marks (brc_insert t n b)
        = take BRC_MAXNUM (take n (marks b) @ ins_desc t (drop n (marks b)))"
        using 2 by (simp add: d)
      moreover have "brc_num (brc_insert t n b) = ?num"
        by (simp add: b')
      ultimately show ?thesis
        using "1.prems" by simp
    next
      case 3
      then have "brc_insert t n b = brc_insert t (Suc n) b"
        using less by (subst brc_insert.simps) simp
      moreover have "marks (brc_insert t (Suc n) b)
          = take BRC_MAXNUM (take (Suc n) (marks b) @ ins_desc t (drop (Suc n) (marks b)))
        \<and> brc_num b \<le> brc_num (brc_insert t (Suc n) b)
        \<and> brc_num (brc_insert t (Suc n) b) \<le> BRC_MAXNUM"
        using "1.IH" less 3 "1.prems" by simp
      ultimately show ?thesis
        using 3 by (simp add: d tk)
    qed
  next
    case False
    then have n: "n = brc_num b" using "1.prems" by simp
    have b': "brc_insert t n b = (if brc_num b < BRC_MAXNUM
      then b\<lparr>brc_list := (brc_list b)[brc_num b := t], brc_num := brc_num b + 1, brc_changed := True\<rparr>
      else b)"
      using False by (subst brc_insert.simps) simp
    have "marks (brc_insert t n b) = take BRC_MAXNUM (marks b @ [t])"
      using "1.prems" len
      by (auto simp: b' marks_def take_Suc_conv_app_nth)
    then show ?thesis
      using "1.prems" len by (auto simp: n b' [unfolded n])
  qed
qed

text \<open>Marking a file, and any sequence of files.\<close>

definition mark_times :: "string list \<Rightarrow> int set" where
  "mark_times fs = {t. \<exists>f\<in>set fs. brc_ftime f = Some t}"

lemma newest_absorb:
  assumes "finite T"
  shows "newest (insert t (set (newest T))) = newest (insert t T)"
proof -
  let ?d = "rev (sorted_list_of_set T)"
  have sd: "sorted_wrt (>) ?d"
    using assms strict_sorted_list_of_set [of T] by (simp add: sorted_wrt_rev)
  have eq: "take k (ins_desc t (take k xs)) = take k (ins_desc t xs)"
    for k and xs :: "int list"
  proof (induction xs arbitrary: k)
    case (Cons x xs)
    then show ?case by (cases k) (auto simp: take_Cons' min_def)
  qed simp
  have "newest (insert t (set (newest T))) = take BRC_MAXNUM (ins_desc t (newest T))"
    using take_ins_desc [of "newest T" t] sd by (simp add: newest_def sorted_wrt_take)
  also have "\<dots> = take BRC_MAXNUM (ins_desc t ?d)"
    by (simp add: newest_def eq)
  also have "\<dots> = newest (insert t (set ?d))"
    by (rule take_ins_desc [OF sd])
  also have "set ?d = T"
    using assms by simp
  finally show ?thesis .
qed

lemma sorted_newest: "finite T \<Longrightarrow> sorted_wrt (>) (newest T)"
  using strict_sorted_list_of_set [of T] by (simp add: newest_def sorted_wrt_rev sorted_wrt_take)

lemma brc_addlist_marks:
  assumes "brc_ok b" "userid \<noteq> ''guest''"
  shows "brc_ok (brc_addlist userid f b)
    \<and> marks (brc_addlist userid f b)
      = (case brc_ftime f of None \<Rightarrow> marks b | Some t \<Rightarrow> newest (insert t (set (marks b))))"
proof (cases "brc_ftime f")
  case None
  then show ?thesis using assms by (simp add: brc_addlist_def)
next
  case (Some t)
  have b': "brc_addlist userid f b = brc_insert t 0 b"
    using assms Some by (simp add: brc_addlist_def brc_ok_def)
  have m: "marks (brc_insert t 0 b) = take BRC_MAXNUM (ins_desc t (marks b))
      \<and> brc_num b \<le> brc_num (brc_insert t 0 b) \<and> brc_num (brc_insert t 0 b) \<le> BRC_MAXNUM"
    using brc_insert_marks [of b 0 t] assms by (simp add: brc_ok_def)
  moreover have "sorted_wrt (>) (marks b)"
    using assms by (simp add: brc_ok_def)
  ultimately show ?thesis
    using assms take_ins_desc [of "marks b" t]
    by (auto simp: b' Some brc_ok_def sorted_newest)
qed

lemma brc_ok_newest: "brc_ok b \<Longrightarrow> marks b = newest (set (marks b))"
  using sorted_desc_unique [of "marks b"] by (simp add: newest_def brc_ok_def marks_def)

lemma brc_addlists:
  assumes "brc_ok b" "userid \<noteq> ''guest''"
  shows "brc_ok (fold (brc_addlist userid) fs b)
    \<and> marks (fold (brc_addlist userid) fs b) = newest (set (marks b) \<union> mark_times fs)"
  using assms
proof (induction fs rule: rev_induct)
  case Nil
  then show ?case using brc_ok_newest [of b] by (simp add: mark_times_def)
next
  case (snoc f fs)
  let ?c = "fold (brc_addlist userid) fs b"
  have c: "brc_ok ?c" "marks ?c = newest (set (marks b) \<union> mark_times fs)"
    using snoc by auto
  have fin: "finite (set (marks b) \<union> mark_times fs)"
  proof -
    have "mark_times fs \<subseteq> set (map (\<lambda>f. the (brc_ftime f)) fs)"
      by (force simp: mark_times_def)
    then show ?thesis using finite_subset by auto
  qed
  have "mark_times (fs @ [f]) = (case brc_ftime f of None \<Rightarrow> mark_times fs | Some t \<Rightarrow> insert t (mark_times fs))"
    by (auto simp: mark_times_def split: option.splits)
  then show ?case
    using brc_addlist_marks [OF c(1) snoc.prems(2), of f] newest_absorb [OF fin] c(2)
    by (auto split: option.splits)
qed


definition brc0 :: brc where
  \<comment> \<open>a board that was never read\<close>
  "brc0 = \<lparr>brc_buf = replicate BRC_MAXSIZE NUL, brc_size = 0, brc_changed = False,
           brc_name = replicate BRC_STRLEN NUL, brc_list = 1 # replicate 59 0, brc_num = 1\<rparr>"

lemma brc_ok_brc0: "brc_ok brc0" and marks_brc0: "marks brc0 = [1]"
  by (simp_all add: brc_ok_def brc0_def marks_def c_defs)


text \<open>What is unread, in terms of the set of all the times that were ever marked.\<close>

definition unread_of :: "int set \<Rightarrow> int \<Rightarrow> bool" where
  "unread_of T t \<longleftrightarrow> t \<notin> T \<and> (\<exists>s\<in>T. s < t) \<and> card {s\<in>T. t < s} < BRC_MAXNUM"

lemma brc_scan_iff:
  "sorted_wrt (>) ts \<Longrightarrow> brc_scan t ts \<longleftrightarrow> t \<notin> set ts \<and> (\<exists>s\<in>set ts. s < t)"
  by (induction ts) auto

lemma filter_split_desc:
  "sorted_wrt (>) (ts :: int list) \<Longrightarrow> ts = filter (\<lambda>s. t < s) ts @ filter (\<lambda>s. \<not> t < s) ts"
proof (induction ts)
  case (Cons x ts)
  show ?case
  proof (cases "t < x")
    case True
    then show ?thesis using Cons by simp
  next
    case False
    then have "filter (\<lambda>s. t < s) ts = []"
      using Cons.prems by (auto simp: filter_empty_conv)
    then show ?thesis using Cons False by simp
  qed
qed simp

lemma newest_scan:
  assumes "finite T"
  shows "brc_scan t (newest T) \<longleftrightarrow> unread_of T t"
proof -
  let ?d = "rev (sorted_list_of_set T)"
  let ?hi = "filter (\<lambda>s. t < s) ?d" and ?lo = "filter (\<lambda>s. \<not> t < s) ?d"
  have sd: "sorted_wrt (>) ?d"
    using assms strict_sorted_list_of_set [of T] by (simp add: sorted_wrt_rev)
  have set: "set ?d = T" using assms by simp
  have dist: "distinct ?d" using assms by simp
  have card: "length ?hi = card {s\<in>T. t < s}"
    using distinct_card [OF distinct_filter [OF dist], of "\<lambda>s. t < s"] set by simp
  have split: "?d = ?hi @ ?lo" by (rule filter_split_desc [OF sd])
  have new: "newest T = take BRC_MAXNUM ?hi @ take (BRC_MAXNUM - length ?hi) ?lo"
    unfolding newest_def by (subst split) simp
  have lo: "sorted_wrt (>) ?lo" using sd by (rule sorted_wrt_filter)
  have scan: "brc_scan t (newest T) \<longleftrightarrow> t \<notin> set (newest T) \<and> (\<exists>s\<in>set (newest T). s < t)"
    by (rule brc_scan_iff [OF sorted_newest [OF assms]])
  show ?thesis
  proof (cases "length ?hi < BRC_MAXNUM")
    case False
    then have "newest T = take BRC_MAXNUM ?hi" by (simp add: new)
    then have "\<forall>s\<in>set (newest T). t < s" by (auto dest: in_set_takeD)
    then show ?thesis using False card by (force simp: scan unread_of_def)
  next
    case True
    then obtain k where k: "BRC_MAXNUM - length ?hi = Suc k"
      by (metis Suc_diff_Suc)
    have new': "newest T = ?hi @ take (Suc k) ?lo"
      using new True k by simp
    have lo_set: "set ?lo = {s\<in>T. s \<le> t}" using set by auto
    show ?thesis
    proof (cases ?lo)
      case Nil
      then have "\<forall>s\<in>T. t < s" using lo_set by force
      moreover have "\<forall>s\<in>set (newest T). t < s" using Nil by (simp add: new')
      ultimately show ?thesis
        unfolding scan unread_of_def by (meson order_less_asym)
    next
      case (Cons x xs)
      then have xT: "x \<in> T" "x \<le> t" using lo_set by auto
      have top: "\<forall>s\<in>T. s \<le> t \<longrightarrow> s \<le> x"
        using Cons lo lo_set by (auto simp: less_imp_le)
      have sub: "set (newest T) \<subseteq> T"
        using set_take_subset [of BRC_MAXNUM ?d] set unfolding newest_def by blast
      have xn: "x \<in> set (newest T)" using Cons by (simp add: new')
      have "brc_scan t (newest T) \<longleftrightarrow> x < t"
      proof
        assume "brc_scan t (newest T)"
        then have "t \<notin> set (newest T)" by (simp add: scan)
        then have "x \<noteq> t" using xn by blast
        then show "x < t" using xT(2) by simp
      next
        assume "x < t"
        then have "t \<notin> set (newest T)" using top sub by force
        then show "brc_scan t (newest T)" using xn \<open>x < t\<close> by (auto simp: scan)
      qed
      moreover have "unread_of T t \<longleftrightarrow> x < t"
        using xT top True card order.strict_iff_order [of x t] by (auto simp: unread_of_def)
      ultimately show ?thesis by simp
    qed
  qed
qed

lemma brc_unread1_addlists:
  assumes "brc_ok b" "userid \<noteq> ''guest''"
  shows "brc_unread1 (fold (brc_addlist userid) fs b) t \<longleftrightarrow> unread_of (set (marks b) \<union> mark_times fs) t"
proof -
  let ?b = "fold (brc_addlist userid) fs b"
  have b: "brc_ok ?b" "marks ?b = newest (set (marks b) \<union> mark_times fs)"
    using brc_addlists [OF assms] by auto
  have "mark_times fs \<subseteq> set (map (\<lambda>f. the (brc_ftime f)) fs)"
    by (force simp: mark_times_def)
  then have "finite (set (marks b) \<union> mark_times fs)"
    using finite_subset by auto
  then show ?thesis
    using newest_scan b by (simp add: brc_unread1_def brc_ok_def flip: marks_def)
qed




text \<open>Clearing a board marks the 60 seconds that end at a post.\<close>

definition clear_names :: "nat \<Rightarrow> int \<Rightarrow> string list" where
  "clear_names n t = map (\<lambda>i. ''M.'' @ show_int (t + int i) @ ''.A'') [0..<n]"

lemma clear_names_Suc:
  "clear_names (Suc n) t = (''M.'' @ show_int t @ ''.A'') # clear_names n (t + 1)"
  by (simp add: clear_names_def map_upt_Suc add.assoc del: upt_Suc)

lemma brc_clear_loop_fold:
  "brc_clear_loop userid n t b = fold (brc_addlist userid) (clear_names n t) b"
  by (induction n arbitrary: t b) (simp add: clear_names_def, simp add: clear_names_Suc)

lemma mark_times_clear: "mark_times (clear_names n t) = {t..<t + int n}"
proof -
  have "mark_times (clear_names n t) = (\<lambda>i. t + int i) ` {0..<n}"
    using atoi_show_int [of "''.A''"]
    by (auto simp: mark_times_def clear_names_def isdigit_def byte_def)
  also have "\<dots> = {t..<t + int n}"
    by (auto simp: image_iff intro!: bexI [of _ "nat (x - t)" for x])
  finally show ?thesis .
qed

lemma unread_of_clear:
  assumes "finite T"
  shows "unread_of (T \<union> {t - int BRC_MAXNUM + 1..t}) u \<longleftrightarrow> t < u \<and> u \<notin> T \<and> card {s\<in>T. u < s} < BRC_MAXNUM"
proof (cases "t < u")
  case True
  then have "{s \<in> T \<union> {t - int BRC_MAXNUM + 1..t}. u < s} = {s\<in>T. u < s}" by auto
  moreover have "t \<in> {t - int BRC_MAXNUM + 1..t}" by (simp add: c_defs)
  ultimately show ?thesis using True by (auto simp: unread_of_def)
next
  case False
  have "\<not> unread_of (T \<union> {t - int BRC_MAXNUM + 1..t}) u"
  proof (cases "u < t - int BRC_MAXNUM + 1")
    case True
    have "{t - int BRC_MAXNUM + 1..t} \<subseteq> {s \<in> T \<union> {t - int BRC_MAXNUM + 1..t}. u < s}"
      using True by auto
    then have "card {t - int BRC_MAXNUM + 1..t} \<le> card {s \<in> T \<union> {t - int BRC_MAXNUM + 1..t}. u < s}"
      using assms by (intro card_mono) auto
    then show ?thesis by (simp add: unread_of_def)
  next
    case f: False
    then show ?thesis using False by (simp add: unread_of_def)
  qed
  then show ?thesis using False by simp
qed

text \<open>Clearing the unread marks up to a post (time \<open>t\<close> in its name) makes every post up to
  that time read, and leaves every later post unread or read as it was.\<close>

theorem brc_clear_reads:
  assumes "brc_ok b" and "userid \<noteq> ''guest''" and "r = [] \<or> \<not> isdigit (hd r)"
    and "brc_clear userid now (Some (''M.'' @ show_int t @ r)) False b = (b', ok)"
  shows "ok \<and> (u \<le> t \<longrightarrow> \<not> brc_unread1 b' u)
    \<and> (t < u \<and> last (marks b) < u \<longrightarrow> brc_unread1 b' u = brc_unread1 b u)"
proof -
  have b': "ok" "b' = fold (brc_addlist userid) (clear_names BRC_MAXNUM (t - int BRC_MAXNUM + 1)) b"
    using assms(3,4) by (auto simp: brc_clear_def brc_clear_loop_fold atoi_show_int)
  have iv: "{t - int BRC_MAXNUM + 1..<t + 1} = {t - int BRC_MAXNUM + 1..t}"
    by auto
  have new: "brc_unread1 b' u \<longleftrightarrow> t < u \<and> u \<notin> set (marks b) \<and> card {s\<in>set (marks b). u < s} < BRC_MAXNUM"
    using brc_unread1_addlists [OF assms(1,2)] unread_of_clear [of "set (marks b)" t u]
    by (simp add: b' mark_times_clear iv)
  have old: "brc_unread1 b u \<longleftrightarrow> unread_of (set (marks b)) u"
    using brc_unread1_addlists [OF assms(1,2), of "[]"] by (simp add: mark_times_def)
  have "marks b \<noteq> []"
    using length_marks [OF assms(1)] assms(1) by (auto simp: brc_ok_def)
  then have "last (marks b) < u \<Longrightarrow> \<exists>s\<in>set (marks b). s < u"
    using last_in_set by blast
  then show ?thesis using b'(1) by (auto simp: new old unread_of_def)
qed

theorem brc_clear_reads_witness:
  "\<exists>b' ok. brc_clear ''sysop'' 0 (Some ''M.500.A'') False brc0 = (b', ok)
     \<and> \<not> brc_unread1 b' 300 \<and> (brc_unread1 b' 501 = brc_unread1 brc0 501)"
proof -
  obtain b' ok where c: "brc_clear ''sysop'' 0 (Some ''M.500.A'') False brc0 = (b', ok)"
    by (cases "brc_clear ''sysop'' 0 (Some ''M.500.A'') False brc0")
  have s: "''M.'' @ show_int 500 @ ''.A'' = ''M.500.A''"
    by code_simp
  have "\<not> brc_unread1 b' 300"
    using brc_clear_reads [OF brc_ok_brc0, of "''sysop''" "''.A''" 0 500 b' ok 300] c s
    by (simp add: isdigit_def byte_def)
  moreover have "brc_unread1 b' 501 = brc_unread1 brc0 501"
    using brc_clear_reads [OF brc_ok_brc0, of "''sysop''" "''.A''" 0 500 b' ok 501] c s
    by (simp add: isdigit_def byte_def marks_brc0)
  ultimately show ?thesis using c by blast
qed

section \<open>The records of the file\<close>

definition int_range :: "int \<Rightarrow> bool" where
  "int_range i \<longleftrightarrow> - 2147483648 \<le> i \<and> i < 2147483648"

lemma byte_char_of_mod: "byte (char_of (nat (i mod 256))) = nat (i mod 256)"
  by (rule byte_char_of) (simp add: nat_less_iff)

lemma length_int_bytes [simp]: "length (int_bytes i) = 4"
  by (simp add: int_bytes_def)

lemma nth_int_bytes:
  assumes "k < 4"
  shows "int (byte (int_bytes i ! k)) = i div 256 ^ k mod 256"
proof -
  have "int_bytes i ! k = char_of (nat (i div 256 ^ k mod 256))"
    using assms by (auto simp: int_bytes_def less_Suc_eq numeral_eq_Suc)
  then show ?thesis by (simp only: byte_char_of_mod)
qed

lemma base_256_sum:
  "x = 256 * y + a \<Longrightarrow> y = 256 * z + b \<Longrightarrow> z = 256 * w + c \<Longrightarrow>
   a + 256 * b + 65536 * c + 16777216 * w = (x :: int)"
  by simp

lemma int_bytes_sum:
  fixes i :: int
  shows "i mod 256 + 256 * (i div 256 mod 256) + 65536 * (i div 65536 mod 256)
     + 16777216 * (i div 16777216 mod 256) = i mod 4294967296"
proof -
  have a: "i mod 4294967296 = 256 * (i div 256 mod 16777216) + i mod 256"
    using zmod_zmult2_eq [of 16777216 i 256] by simp
  have b: "i div 256 mod 16777216 = 256 * (i div 65536 mod 65536) + i div 256 mod 256"
    using zmod_zmult2_eq [of 65536 "i div 256" 256] zdiv_zmult2_eq [of 256 i 256] by simp
  have c: "i div 65536 mod 65536 = 256 * (i div 16777216 mod 256) + i div 65536 mod 256"
    using zmod_zmult2_eq [of 256 "i div 65536" 256] zdiv_zmult2_eq [of 256 i 65536] by simp
  show ?thesis by (rule base_256_sum [OF a b c])
qed

lemma bytes_int_bytes: "int_range i \<Longrightarrow> bytes_int (int_bytes i) = i"
proof -
  assume r: "int_range i"
  have e0: "int (byte (int_bytes i ! 0)) = i mod 256"
    using nth_int_bytes [of 0 i] by simp
  have e1: "int (byte (int_bytes i ! 1)) = i div 256 mod 256"
    using nth_int_bytes [of 1 i] by simp
  have e2: "int (byte (int_bytes i ! 2)) = i div 65536 mod 256"
    using nth_int_bytes [of 2 i] by simp
  have e3: "int (byte (int_bytes i ! 3)) = i div 16777216 mod 256"
    using nth_int_bytes [of 3 i] by simp
  have "int (byte (int_bytes i ! 0)) + 256 * int (byte (int_bytes i ! 1))
      + 65536 * int (byte (int_bytes i ! 2)) + 16777216 * int (byte (int_bytes i ! 3)) = i mod 4294967296"
    unfolding e0 e1 e2 e3 by (rule int_bytes_sum)
  moreover have "i mod 4294967296 = (if 0 \<le> i then i else i + 4294967296)"
    using r mod_pos_pos_trivial [of i 4294967296] mod_pos_pos_trivial [of "i + 4294967296" 4294967296]
    by (auto simp: int_range_def)
  ultimately show ?thesis
    using r by (auto simp: bytes_int_def int_range_def Let_def)
qed

lemma length_concat_int_bytes [simp]: "length (concat (map int_bytes ts)) = 4 * length ts"
  by (induction ts) auto

lemma take_drop_int_bytes:
  "k < length ts \<Longrightarrow> take 4 (drop (4 * k) (concat (map int_bytes ts) @ r)) = int_bytes (ts ! k)"
proof (induction ts arbitrary: k)
  case (Cons t ts)
  then show ?case by (cases k) auto
qed simp

lemma read_ints_int_bytes:
  "\<forall>t\<in>set ts. int_range t \<Longrightarrow> read_ints (length ts) (concat (map int_bytes ts) @ r) = ts"
  by (rule list_eq_pointwise)
    (auto simp: read_ints_def take_drop_int_bytes bytes_int_bytes simp del: drop_append take_append)

text \<open>\<open>brc_rec (name, ts) c\<close>: the bytes \<open>c\<close> are a record with that name and those marks;
  \<open>brc_records recs d\<close>: the bytes \<open>d\<close> are the records \<open>recs\<close> one after the other.\<close>

definition brc_head :: "string \<Rightarrow> bool" where
  "brc_head name \<longleftrightarrow> name \<noteq> [] \<and> 32 \<le> schar (hd name) \<and> schar (hd name) \<le> 122
     \<and> NUL \<notin> set name \<and> length name < BRC_STRLEN"

definition brc_rec :: "string \<times> int list \<Rightarrow> string \<Rightarrow> bool" where
  "brc_rec r c \<longleftrightarrow> brc_head (fst r) \<and> 0 < length (snd r) \<and> length (snd r) \<le> BRC_MAXNUM
     \<and> (\<forall>t\<in>set (snd r). int_range t)
     \<and> (\<exists>pad. length pad = 19 - length (fst r)
          \<and> c = fst r @ NUL # pad @ [char_of (length (snd r))] @ concat (map int_bytes (snd r)))"

fun brc_records :: "(string \<times> int list) list \<Rightarrow> string \<Rightarrow> bool" where
  "brc_records [] d = (d = [])"
| "brc_records (r # rs) d = (\<exists>c e. d = c @ e \<and> brc_rec r c \<and> brc_records rs e)"

fun brc_upto :: "nat \<Rightarrow> nat \<Rightarrow> (string \<times> int list) list \<Rightarrow> string \<Rightarrow> bool" where
  \<comment> \<open>as \<open>brc_records\<close>, each record starting before \<open>sz\<close> when the first starts at \<open>p\<close>\<close>
  "brc_upto p sz [] d = (d = [] \<and> sz \<le> p)"
| "brc_upto p sz (r # rs) d =
     (p < sz \<and> (\<exists>c e. d = c @ e \<and> brc_rec r c \<and> brc_upto (p + length c) sz rs e))"

lemma length_brc_rec:
  "brc_rec (n, ts) c \<Longrightarrow> length c = 21 + 4 * length ts"
  by (auto simp: brc_rec_def brc_head_def c_defs)

lemma length_brc_rec_le: "brc_rec r c \<Longrightarrow> 0 < length c \<and> length c \<le> BRC_ITEMSIZE"
  using length_brc_rec [of "fst r" "snd r" c] by (simp add: brc_rec_def c_defs)

lemma brc_records_upto: "brc_records recs d \<Longrightarrow> brc_upto p (p + length d) recs d"
proof (induction recs arbitrary: p d)
  case (Cons r rs)
  then obtain c e where d: "d = c @ e" "brc_rec r c" "brc_records rs e" by auto
  have "brc_upto (p + length c) (p + length (c @ e)) rs e"
    using Cons.IH [OF d(3), of "p + length c"] by (simp add: add.assoc)
  moreover have "p < p + length (c @ e)"
    using length_brc_rec_le [OF d(2)] by simp
  ultimately show ?case
    unfolding d(1) brc_upto.simps using d(2) by blast
qed simp

lemma brc_records_cut:
  "brc_records recs d \<Longrightarrow> sz \<le> p + length d \<Longrightarrow> p < sz + BRC_ITEMSIZE \<Longrightarrow>
   \<exists>k e r. d = e @ r \<and> brc_upto p sz (take k recs) e \<and> p + length e < sz + BRC_ITEMSIZE"
proof (induction recs arbitrary: p d)
  case Nil
  then show ?case by auto
next
  case (Cons r rs)
  then obtain c e where d: "d = c @ e" "brc_rec r c" "brc_records rs e" by auto
  show ?case
  proof (cases "p < sz")
    case False
    then have "brc_upto p sz (take 0 (r # rs)) []" by simp
    then show ?thesis using Cons.prems(3) by (metis append_Nil list.size(3) add_0_right)
  next
    case True
    have "\<exists>k e' r. e = e' @ r \<and> brc_upto (p + length c) sz (take k rs) e'
        \<and> p + length c + length e' < sz + BRC_ITEMSIZE"
      using Cons.IH [OF d(3), of "p + length c"] Cons.prems d True length_brc_rec_le [of r c] by simp
    then obtain k e' r' where k: "e = e' @ r'" "brc_upto (p + length c) sz (take k rs) e'"
      "p + length c + length e' < sz + BRC_ITEMSIZE" by blast
    have "d = (c @ e') @ r'" using d k by simp
    moreover have "brc_upto p sz (take (Suc k) (r # rs)) (c @ e')"
      using True d(2) k(2) by auto
    moreover have "p + length (c @ e') < sz + BRC_ITEMSIZE" using k by simp
    ultimately show ?thesis by blast
  qed
qed

lemma drop_prefix: "length a = n \<Longrightarrow> drop n (a @ b) = b"
  by simp

lemma brc_more_record:
  "brc_rec r c \<Longrightarrow> length a < sz \<Longrightarrow> brc_more (a @ c @ x) sz (length a)"
  by (cases "fst r") (auto simp: brc_more_def brc_rec_def brc_head_def nth_append)

lemma brc_getrecord_rec:
  assumes "brc_rec (n, ts) c" "length nm = BRC_STRLEN"
  shows "\<exists>nm'. brc_getrecord (a @ c @ x) (length a) nm l
      = Val (nm', length ts, ts @ drop (length ts) l, length a + length c)
    \<and> cstr nm' = n \<and> length nm' = BRC_STRLEN"
proof -
  obtain pad where pad: "length pad = 19 - length n"
    and c: "c = n @ NUL # pad @ [char_of (length ts)] @ concat (map int_bytes ts)"
    and h: "brc_head n" and ts: "length ts \<le> 60" "\<forall>t\<in>set ts. int_range t"
    using assms(1) by (auto simp: brc_rec_def c_defs)
  let ?buf = "a @ c @ x"
  have n: "NUL \<notin> set n" "length n \<le> 19" using h by (auto simp: brc_head_def c_defs)
  have dr: "drop (length a) ?buf = n @ NUL # pad @ [char_of (length ts)] @ concat (map int_bytes ts) @ x"
    by (simp add: c)
  have cs: "cstr (drop (length a) ?buf) = n"
    unfolding dr by (rule cstr_append_NUL [OF n(1)])
  have lenc: "length c = 21 + 4 * length ts"
    by (rule length_brc_rec [OF assms(1)])
  have "?buf ! (length a + BRC_STRLEN) = (drop (length a) ?buf) ! BRC_STRLEN"
    by simp
  also have "\<dots> = char_of (length ts)"
    using n pad by (simp add: dr nth_append c_defs del: drop_append)
  finally have cnt: "byte (?buf ! (length a + BRC_STRLEN)) = length ts"
    using ts by (simp add: byte_char_of)
  have "drop (length a + BRC_STRLEN + 1) ?buf = drop (BRC_STRLEN + 1) (drop (length a) ?buf)"
    by (simp add: add.commute)
  also have "drop (length a) ?buf
      = (n @ NUL # pad @ [char_of (length ts)]) @ concat (map int_bytes ts) @ x"
    by (simp add: dr del: drop_append)
  also have "drop (BRC_STRLEN + 1) \<dots> = concat (map int_bytes ts) @ x"
    using n pad by (intro drop_prefix) (simp add: c_defs)
  finally have ints: "read_ints (length ts) (drop (length a + BRC_STRLEN + 1) ?buf) = ts"
    using read_ints_int_bytes [OF ts(2)] by simp
  have nm: "cstr (fst (strlcpy nm n BRC_STRLEN)) = n" "length (fst (strlcpy nm n BRC_STRLEN)) = BRC_STRLEN"
    using n assms(2) strlcpy_eq [of BRC_STRLEN nm n] length_strlcpy [of BRC_STRLEN nm n]
    by (auto simp: c_defs)
  have nul: "NUL \<in> set (drop (length a) ?buf)" by (simp add: dr del: drop_append)
  have "brc_getrecord ?buf (length a) nm l
      = Val (fst (strlcpy nm n BRC_STRLEN), length ts, ts @ drop (length ts) l, length a + length c)"
    unfolding brc_getrecord_def Let_def cs cnt
    using nul ints lenc ts by (simp add: BRC_STRLEN_def BRC_MAXNUM_def del: drop_append)
  then show ?thesis using nm by blast
qed

lemma brc_putrecord_rec:
  assumes "brc_head (cstr name)" "0 < num" "num \<le> BRC_MAXNUM" "num \<le> length l"
    "\<forall>t\<in>set (take num l). int_range t" "p + BRC_STRLEN + 1 + num * 4 \<le> length buf"
  shows "\<exists>c. brc_rec (cstr name, take num l) c \<and> length c = BRC_STRLEN + 1 + num * 4
    \<and> brc_putrecord buf p name num l = Val (take p buf @ c @ drop (p + length c) buf, p + length c)"
proof -
  let ?n = "cstr name"
  let ?pad = "take (19 - length ?n) (drop (Suc (length ?n)) (drop p buf))"
  let ?c = "?n @ NUL # ?pad @ [char_of num] @ concat (map int_bytes (take num l))"
  have n: "length ?n \<le> 19" using assms(1) by (simp add: brc_head_def c_defs)
  have room: "20 \<le> length (drop p buf)" using assms(6) by (simp add: c_defs)
  have pad: "length ?pad = 19 - length ?n" using room n by simp
  have c: "brc_rec (?n, take num l) ?c"
    unfolding brc_rec_def using assms pad by (auto simp: min_def intro!: exI [of _ ?pad])
  have lenc: "length ?c = BRC_STRLEN + 1 + num * 4"
    using length_brc_rec [OF c] assms(4) by (simp add: c_defs)
  have "take BRC_STRLEN (fst (strlcpy (drop p buf) ?n BRC_STRLEN)) = ?n @ NUL # ?pad"
    using room n Suc_diff_le [OF n] by (simp add: strlcpy_eq c_defs)
  then have "brc_putrecord buf p name num l = Val (take p buf @ ?c @ drop (p + length ?c) buf, p + length ?c)"
    unfolding brc_putrecord_def Let_def lenc using assms(2,3,6) by (simp add: add.assoc)
  then show ?thesis using c lenc by blast
qed

definition others :: "string \<Rightarrow> (string \<times> int list) list \<Rightarrow> (string \<times> int list) list" where
  "others board recs = filter (\<lambda>r. fst r \<noteq> board) recs"

lemma same_name_iff:
  "length (cstr name) < BRC_STRLEN \<Longrightarrow> length board < BRC_STRLEN \<Longrightarrow> same_name name board \<longleftrightarrow> cstr name = board"
  by (auto simp: same_name_def)

lemma brc_rec_name: "brc_rec (n, ts) c \<Longrightarrow> brc_head n \<and> length n < BRC_STRLEN"
  by (simp add: brc_rec_def brc_head_def)

lemma brc_merge_upto:
  assumes "brc_upto (length a) sz recs d" "length board < BRC_STRLEN"
    "length nm = BRC_STRLEN" "length l = BRC_MAXNUM" "p + length d \<le> length buf"
  shows "\<exists>o1. brc_records (others board recs) o1 \<and> length o1 \<le> length d
    \<and> brc_merge (a @ d @ x) sz (length a) nm l board buf p
      = Val (take p buf @ o1 @ drop (p + length o1) buf, p + length o1)"
  using assms
proof (induction recs arbitrary: a d nm l buf p)
  case Nil
  then have "\<not> brc_more (a @ d @ x) sz (length a)" by (simp add: brc_more_def)
  then show ?case using Nil by (subst brc_merge.simps) (simp add: others_def)
next
  case (Cons r recs)
  obtain n ts where r: "r = (n, ts)" by (cases r)
  obtain c e where d: "d = c @ e" "brc_rec (n, ts) c" "brc_upto (length (a @ c)) sz recs e" "length a < sz"
    using Cons.prems(1) r by auto
  have more: "brc_more (a @ d @ x) sz (length a)"
    using brc_more_record [OF d(2,4), of "e @ x"] d(1) by simp
  obtain nm' where g: "brc_getrecord (a @ d @ x) (length a) nm l
      = Val (nm', length ts, ts @ drop (length ts) l, length (a @ c))"
    and nm': "cstr nm' = n" "length nm' = BRC_STRLEN"
    using brc_getrecord_rec [OF d(2) Cons.prems(3), of a "e @ x" l] d(1) by auto
  let ?l = "ts @ drop (length ts) l"
  have ts: "0 < length ts" "length ts \<le> BRC_MAXNUM" "\<forall>t\<in>set ts. int_range t"
    using d(2) by (auto simp: brc_rec_def)
  have l': "length ?l = BRC_MAXNUM" using ts Cons.prems(4) by simp
  have sn: "same_name nm' board \<longleftrightarrow> n = board"
    using same_name_iff [of nm' board] nm' brc_rec_name [OF d(2)] Cons.prems(2) by simp
  have buf: "a @ d @ x = (a @ c) @ e @ x" using d(1) by simp
  show ?case
  proof (cases "n = board")
    case True
    have step: "brc_merge (a @ d @ x) sz (length a) nm l board buf p
        = brc_merge ((a @ c) @ e @ x) sz (length (a @ c)) nm' ?l board buf p"
      by (subst brc_merge.simps) (simp only: more [unfolded buf] g [unfolded buf] sn True buf run.case prod.case if_True if_False simp_thms)
    have "p + length e \<le> length buf" using Cons.prems(5) d(1) by simp
    then show ?thesis
      using Cons.IH [OF d(3) Cons.prems(2) nm'(2) l', of p buf] d(1) True
      unfolding step by (force simp: others_def r)
  next
    case False
    have cl: "length c = BRC_STRLEN + 1 + length ts * 4"
      using length_brc_rec [OF d(2)] by (simp add: c_defs)
    have tk: "take (length ts) ?l = ts" by simp
    obtain c' where c': "brc_rec (n, ts) c'" "length c' = length c"
      and put: "brc_putrecord buf p nm' (length ts) ?l
        = Val (take p buf @ c' @ drop (p + length c') buf, p + length c')"
      using brc_putrecord_rec [of nm' "length ts" ?l p buf] nm' ts l' brc_rec_name [OF d(2)]
        Cons.prems(5) d(1) cl unfolding tk by auto
    let ?buf = "take p buf @ c' @ drop (p + length c') buf"
    have step: "brc_merge (a @ d @ x) sz (length a) nm l board buf p
        = brc_merge ((a @ c) @ e @ x) sz (length (a @ c)) nm' ?l board ?buf (p + length c')"
      by (subst brc_merge.simps)
        (simp only: more [unfolded buf] g [unfolded buf] sn False buf put run.case prod.case if_True if_False simp_thms)
    have lb: "length ?buf = length buf" using c'(2) Cons.prems(5) d(1) by simp
    have "p + length c' + length e \<le> length ?buf"
      using Cons.prems(5) d(1) c'(2) lb by simp
    then obtain o1 where o1: "brc_records (others board recs) o1" "length o1 \<le> length e"
      and m: "brc_merge ((a @ c) @ e @ x) sz (length (a @ c)) nm' ?l board ?buf (p + length c')
        = Val (take (p + length c') ?buf @ o1 @ drop (p + length c' + length o1) ?buf,
               p + length c' + length o1)"
      using Cons.IH [OF d(3) Cons.prems(2) nm'(2) l', of "p + length c'" ?buf] by blast
    have p: "p \<le> length buf" using Cons.prems(5) by simp
    have "take (p + length c') ?buf = take p buf @ c'" using p by simp
    moreover have "drop (p + length c' + length o1) ?buf = drop (p + length (c' @ o1)) buf"
      using p by (simp add: drop_append add_ac)
    ultimately have "brc_merge (a @ d @ x) sz (length a) nm l board buf p
        = Val (take p buf @ (c' @ o1) @ drop (p + length (c' @ o1)) buf, p + length (c' @ o1))"
      unfolding step m by simp
    moreover have "brc_records (others board (r # recs)) (c' @ o1)"
      using False c'(1) o1(1) by (auto simp: others_def r)
    moreover have "length (c' @ o1) \<le> length d"
      using d(1) c'(2) o1(2) by simp
    ultimately show ?thesis by blast
  qed
qed

text \<open>The states the program keeps when it saves the board it has open.\<close>

definition brc_open :: "string \<Rightarrow> brc \<Rightarrow> bool" where
  "brc_open board b \<longleftrightarrow> brc_ok b \<and> length (brc_buf b) = BRC_MAXSIZE \<and> brc_head board
     \<and> cstr (brc_name b) = board \<and> length (brc_name b) = BRC_STRLEN \<and> (\<forall>t\<in>set (marks b). int_range t)"

definition rc_file :: "files \<Rightarrow> string \<Rightarrow> (string \<times> int list) list \<Rightarrow> string \<Rightarrow> bool" where
  "rc_file fs userid recs d \<longleftrightarrow> brc_records recs d
     \<and> (case fs (sethomefile userid ''.boardrc'') of None \<Rightarrow> d = [] | Some data \<Rightarrow> data = d)"

lemma brc_update_cut:
  assumes b: "brc_open name b" "brc_changed b" and f: "rc_file fs userid recs d"
    and bl: "length board < BRC_STRLEN"
  shows "\<exists>k o1 rest. brc_records ((name, marks b) # others board (take k recs)) o1
     \<and> length (o1 @ rest) = BRC_MAXSIZE
     \<and> (length d \<le> BRC_MAXSIZE - BRC_ITEMSIZE \<longrightarrow> take k recs = recs)
     \<and> brc_update junk True fs b userid board
       = Val (fs(sethomefile userid ''.boardrc'' \<mapsto> o1),
              b\<lparr>brc_buf := o1 @ rest, brc_size := length o1, brc_changed := False\<rparr>)"
proof -
  let ?data = "take BRC_MAXSIZE d"
  let ?tmp = "?data @ map junk [length ?data..<BRC_MAXSIZE]"
  let ?sz = "if BRC_MAXSIZE - BRC_ITEMSIZE < length ?data
    then BRC_MAXSIZE - BRC_ITEMSIZE * 2 + 1 else length ?data"
  have data: "(case fs (sethomefile userid ''.boardrc'') of None \<Rightarrow> []
      | Some data \<Rightarrow> take BRC_MAXSIZE data) = ?data"
    using f by (auto simp: rc_file_def split: option.splits)
  have recs: "brc_records recs d" using f by (simp add: rc_file_def)
  have num: "0 < brc_num b" "brc_num b \<le> BRC_MAXNUM" "length (brc_list b) = BRC_MAXNUM"
    "marks b = take (brc_num b) (brc_list b)"
    using b by (auto simp: brc_open_def brc_ok_def marks_def)
  have lenb: "length (brc_buf b) = BRC_MAXSIZE" and name: "brc_head name" "cstr (brc_name b) = name"
    using b by (auto simp: brc_open_def)
  obtain c where c: "brc_rec (name, marks b) c" "length c = BRC_STRLEN + 1 + brc_num b * 4"
    and put: "brc_putrecord (brc_buf b) 0 (brc_name b) (brc_num b) (brc_list b)
      = Val (take 0 (brc_buf b) @ c @ drop (0 + length c) (brc_buf b), 0 + length c)"
    using brc_putrecord_rec [of "brc_name b" "brc_num b" "brc_list b" 0 "brc_buf b"] num name b lenb
    by (auto simp: brc_open_def c_defs)
  have clen: "length c \<le> BRC_ITEMSIZE" using c(2) num by (simp add: c_defs)
  have "\<exists>k e x. ?tmp = e @ x \<and> brc_upto 0 ?sz (take k recs) e \<and> length e \<le> BRC_MAXSIZE - BRC_ITEMSIZE
      \<and> (length d \<le> BRC_MAXSIZE - BRC_ITEMSIZE \<longrightarrow> take k recs = recs)"
  proof (cases "length d \<le> BRC_MAXSIZE - BRC_ITEMSIZE")
    case True
    then have "?tmp = d @ map junk [length ?data..<BRC_MAXSIZE]" by simp
    moreover have "brc_upto 0 ?sz (take (length recs) recs) d"
      using True brc_records_upto [OF recs, of 0] by (simp add: c_defs)
    moreover have "length d \<le> BRC_MAXSIZE - BRC_ITEMSIZE" using True .
    ultimately show ?thesis by (metis take_all order_refl)
  next
    case False
    then have sz: "?sz = BRC_MAXSIZE - BRC_ITEMSIZE * 2 + 1" by (simp add: c_defs)
    obtain k e r where k: "d = e @ r" "brc_upto 0 ?sz (take k recs) e" "0 + length e < ?sz + BRC_ITEMSIZE"
      using brc_records_cut [OF recs, of ?sz 0] False unfolding sz by (auto simp: c_defs)
    then have le: "length e \<le> BRC_MAXSIZE - BRC_ITEMSIZE" unfolding sz by (simp add: c_defs)
    then have "?tmp = e @ (take (BRC_MAXSIZE - length e) r @ map junk [length ?data..<BRC_MAXSIZE])"
      using k(1) by (simp add: c_defs)
    then show ?thesis using k(2) le False by blast
  qed
  then obtain k e x where e: "?tmp = e @ x" "brc_upto 0 ?sz (take k recs) e"
    "length e \<le> BRC_MAXSIZE - BRC_ITEMSIZE"
    "length d \<le> BRC_MAXSIZE - BRC_ITEMSIZE \<longrightarrow> take k recs = recs" by blast
  let ?buf = "c @ drop (length c) (brc_buf b)"
  have lbuf: "length ?buf = BRC_MAXSIZE" using lenb clen by (simp add: c_defs)
  have room: "length c + length e \<le> length ?buf"
    using clen e(3) lbuf by (simp add: c_defs)
  have up: "brc_upto (length ([] :: string)) ?sz (take k recs) e" using e(2) by simp
  obtain o1 where o1: "brc_records (others board (take k recs)) o1" "length o1 \<le> length e"
    and m: "brc_merge ([] @ e @ x) ?sz (length ([] :: string)) (replicate BRC_STRLEN NUL)
        (replicate BRC_MAXNUM 0) board ?buf (length c)
      = Val (take (length c) ?buf @ o1 @ drop (length c + length o1) ?buf, length c + length o1)"
    using brc_merge_upto [OF up bl _ _ room, of "replicate BRC_STRLEN NUL" "replicate BRC_MAXNUM 0" x]
    by auto
  let ?o = "c @ o1" and ?rest = "drop (length c + length o1) ?buf"
  have "brc_update junk True fs b userid board
       = Val (fs(sethomefile userid ''.boardrc'' \<mapsto> ?o),
              b\<lparr>brc_buf := ?o @ ?rest, brc_size := length ?o, brc_changed := False\<rparr>)"
    unfolding brc_update_def data Let_def e(1) put
    using b(2) num(1) m by (simp add: e(1))
  moreover have "length (?o @ ?rest) = BRC_MAXSIZE"
    using lbuf room o1(2) by simp
  moreover have "brc_records ((name, marks b) # others board (take k recs)) ?o"
    using c(1) o1(1) by auto
  ultimately show ?thesis using e(4) by blast
qed

lemma brc_search_upto:
  assumes "brc_upto (length a) sz recs d" "length board < BRC_STRLEN"
    "length nm = BRC_STRLEN" "length l = BRC_MAXNUM"
  shows "\<exists>nm' l'. brc_search (a @ d @ x) sz (length a) nm l board
      = Val (nm', l', map_option length (map_of recs board))
    \<and> length nm' = BRC_STRLEN \<and> length l' = BRC_MAXNUM
    \<and> (\<forall>ts. map_of recs board = Some ts \<longrightarrow>
          0 < length ts \<and> length ts \<le> BRC_MAXNUM \<and> take (length ts) l' = ts \<and> cstr nm' = board)"
  using assms
proof (induction recs arbitrary: a d nm l)
  case Nil
  then have "\<not> brc_more (a @ d @ x) sz (length a)" by (simp add: brc_more_def)
  then show ?case using Nil by (subst brc_search.simps) simp
next
  case (Cons r recs)
  obtain n ts where r: "r = (n, ts)" by (cases r)
  obtain c e where d: "d = c @ e" "brc_rec (n, ts) c" "brc_upto (length (a @ c)) sz recs e" "length a < sz"
    using Cons.prems(1) r by auto
  have more: "brc_more (a @ d @ x) sz (length a)"
    using brc_more_record [OF d(2,4), of "e @ x"] d(1) by simp
  obtain nm' where g: "brc_getrecord (a @ d @ x) (length a) nm l
      = Val (nm', length ts, ts @ drop (length ts) l, length (a @ c))"
    and nm': "cstr nm' = n" "length nm' = BRC_STRLEN"
    using brc_getrecord_rec [OF d(2) Cons.prems(3), of a "e @ x" l] d(1) by auto
  let ?l = "ts @ drop (length ts) l"
  have ts: "0 < length ts" "length ts \<le> BRC_MAXNUM" using d(2) by (auto simp: brc_rec_def)
  have l': "length ?l = BRC_MAXNUM" using ts Cons.prems(4) by simp
  have sn: "same_name nm' board \<longleftrightarrow> n = board"
    using same_name_iff [of nm' board] nm' brc_rec_name [OF d(2)] Cons.prems(2) by simp
  have buf: "a @ d @ x = (a @ c) @ e @ x" using d(1) by simp
  show ?case
  proof (cases "n = board")
    case True
    have "brc_search (a @ d @ x) sz (length a) nm l board = Val (nm', ?l, Some (length ts))"
      by (subst brc_search.simps) (simp only: more g sn True run.case prod.case if_True simp_thms)
    then show ?thesis using True nm' l' ts by (simp add: r)
  next
    case False
    have step: "brc_search (a @ d @ x) sz (length a) nm l board
        = brc_search ((a @ c) @ e @ x) sz (length (a @ c)) nm' ?l board"
      by (subst brc_search.simps)
        (simp only: more [unfolded buf] g [unfolded buf] sn False buf run.case prod.case if_True if_False simp_thms)
    show ?thesis
      unfolding step using Cons.IH [OF d(3) Cons.prems(2) nm'(2) l'] False by (simp add: r)
  qed
qed

definition brc_arrays :: "brc \<Rightarrow> bool" where
  "brc_arrays b \<longleftrightarrow> length (brc_buf b) = BRC_MAXSIZE \<and> length (brc_name b) = BRC_STRLEN
     \<and> length (brc_list b) = BRC_MAXNUM"

definition board_marks :: "(string \<times> int list) list \<Rightarrow> string \<Rightarrow> int list" where
  \<comment> \<open>a board without a record counts as read up to time 1\<close>
  "board_marks recs board = (case map_of recs board of None \<Rightarrow> [1] | Some ts \<Rightarrow> ts)"

lemma brc_search_marks:
  assumes "brc_records recs d" "length board < BRC_STRLEN" "length nm = BRC_STRLEN"
    "length l = BRC_MAXNUM" "NUL \<notin> set board"
  shows "\<exists>nm' l' res. brc_search (d @ x) (length d) 0 nm l board = Val (nm', l', res)
    \<and> length nm' = BRC_STRLEN \<and> length l' = BRC_MAXNUM
    \<and> (case res of
         Some k \<Rightarrow> cstr nm' = board \<and> take k l' = board_marks recs board \<and> k = length (board_marks recs board)
           \<and> map_of recs board \<noteq> None
       | None \<Rightarrow> cstr (fst (strlcpy nm' board BRC_STRLEN)) = board
           \<and> take 1 (l'[0 := 1]) = board_marks recs board \<and> map_of recs board = None)"
proof -
  have "brc_upto (length ([] :: string)) (length d) recs d"
    using brc_records_upto [OF assms(1), of 0] by simp
  from brc_search_upto [OF this assms(2,3,4), of x]
  obtain nm' l' where s: "brc_search (d @ x) (length d) 0 nm l board
      = Val (nm', l', map_option length (map_of recs board))"
    and l: "length nm' = BRC_STRLEN" "length l' = BRC_MAXNUM"
    and ts: "\<forall>ts. map_of recs board = Some ts \<longrightarrow> take (length ts) l' = ts \<and> cstr nm' = board"
    by auto
  show ?thesis
  proof (cases "map_of recs board")
    case None
    have "cstr (fst (strlcpy nm' board BRC_STRLEN)) = board"
      using assms(2,5) l by (simp add: strlcpy_eq c_defs)
    moreover have "take 1 (l'[0 := 1]) = [1]"
      using l by (cases l') (auto simp: c_defs)
    ultimately show ?thesis using s l None by (simp add: board_marks_def)
  next
    case (Some ts')
    then show ?thesis using s l ts by (simp add: board_marks_def)
  qed
qed

lemma brc_initial_loaded:
  assumes "\<not> brc_changed b" "brc_arrays b" "brc_buf b = d @ x" "brc_size b = length d"
    "brc_records recs d" "d \<noteq> []" "length board < BRC_STRLEN" "NUL \<notin> set board"
  shows "\<exists>b' n. brc_initial junk ok fs b userid board = Val (fs, b', n)
    \<and> cstr (brc_name b') = board \<and> marks b' = board_marks recs board
    \<and> (map_of recs board = None \<longrightarrow> n = 0) \<and> (map_of recs board \<noteq> None \<longrightarrow> n = brc_num b')"
proof -
  have len: "length (brc_name b) = BRC_STRLEN" "length (brc_list b) = BRC_MAXNUM"
    using assms(2) by (auto simp: brc_arrays_def)
  obtain nm' l' res where s: "brc_search (d @ x) (length d) 0 (brc_name b) (brc_list b) board = Val (nm', l', res)"
    and res: "(case res of
         Some k \<Rightarrow> cstr nm' = board \<and> take k l' = board_marks recs board \<and> k = length (board_marks recs board)
           \<and> map_of recs board \<noteq> None
       | None \<Rightarrow> cstr (fst (strlcpy nm' board BRC_STRLEN)) = board
           \<and> take 1 (l'[0 := 1]) = board_marks recs board \<and> map_of recs board = None)"
    using brc_search_marks [OF assms(5,7) len assms(8), of x] by blast
  have "d ! 0 \<noteq> NUL"
  proof (cases recs)
    case Nil
    then show ?thesis using assms(5,6) by simp
  next
    case (Cons r rs)
    then obtain c e where "d = c @ e" "brc_rec r c" using assms(5) by auto
    then show ?thesis
      by (cases "fst r") (auto simp: brc_rec_def brc_head_def nth_append)
  qed
  then have hd: "(d @ x) ! 0 \<noteq> NUL" using assms(6) by (simp add: nth_append)
  show ?thesis
    using assms(1) res hd
    by (cases res)
      (auto simp: brc_initial_def brc_update_def Let_def assms(3,4) s marks_def split: option.splits)
qed

lemma brc_fcgi_init_loads:
  assumes "\<not> brc_changed b" "brc_arrays b" "rc_file fs userid recs d" "length d \<le> BRC_MAXSIZE"
    "length board < BRC_STRLEN" "NUL \<notin> set board"
  shows "\<exists>b' n. brc_fcgi_init junk ok fs b userid board = Val (fs, b', n)
    \<and> cstr (brc_name b') = board \<and> marks b' = board_marks recs board
    \<and> brc_arrays b' \<and> \<not> brc_changed b' \<and> brc_num b' = length (board_marks recs board)"
proof -
  let ?buf = "(brc_buf b)[0 := NUL]"
  have len: "length (brc_name b) = BRC_STRLEN" "length (brc_list b) = BRC_MAXNUM"
    "length ?buf = BRC_MAXSIZE"
    using assms(2) by (auto simp: brc_arrays_def)
  have sl: "length nm = BRC_STRLEN \<Longrightarrow> length (fst (strlcpy nm board BRC_STRLEN)) = BRC_STRLEN" for nm
    using assms(5,6) by (simp add: strlcpy_eq c_defs)
  have bm: "map_of recs board = None \<Longrightarrow> length (board_marks recs board) = 1" by (simp add: board_marks_def)
  have nul: "?buf ! 0 = NUL" using len(3) by (simp add: c_defs)
  have recs: "brc_records recs d" using assms(3) by (simp add: rc_file_def)
  obtain nm' l' res where s: "brc_search (d @ drop (length d) ?buf) (length d) 0 (brc_name b) (brc_list b) board
      = Val (nm', l', res)"
    and l: "length nm' = BRC_STRLEN" "length l' = BRC_MAXNUM"
    and res: "(case res of
         Some k \<Rightarrow> cstr nm' = board \<and> take k l' = board_marks recs board \<and> k = length (board_marks recs board)
           \<and> map_of recs board \<noteq> None
       | None \<Rightarrow> cstr (fst (strlcpy nm' board BRC_STRLEN)) = board
           \<and> take 1 (l'[0 := 1]) = board_marks recs board \<and> map_of recs board = None)"
    using brc_search_marks [OF recs assms(5) len(1,2) assms(6), of "drop (length d) ?buf"] by blast
  show ?thesis
  proof (cases "fs (sethomefile userid ''.boardrc'')")
    case None
    then have d: "d = []" using assms(3) by (simp add: rc_file_def)
    show ?thesis
      using assms(1) res nul None s [unfolded d] l sl len bm
      by (cases res)
        (auto simp: brc_fcgi_init_def brc_initial_def brc_update_def Let_def marks_def brc_arrays_def split: option.splits)
  next
    case (Some data)
    then have data: "data = d" using assms(3) by (simp add: rc_file_def)
    show ?thesis
      using assms(1,4) res nul Some s l sl len bm
      by (cases res)
        (auto simp: brc_fcgi_init_def brc_initial_def brc_update_def Let_def marks_def brc_arrays_def data split: option.splits)
  qed
qed

lemma map_of_others: "map_of (others board recs) n = (if n = board then None else map_of recs n)"
  by (induction recs) (auto simp: others_def)

text \<open>C26: when the marks of the open board are saved into a well-formed file of at most 49739
  bytes, any later process that opens a board of the user finds the marks just saved for that
  board and, for every other board, the marks the file held before.\<close>

theorem brc_save_load:
  assumes "brc_open board b" and "brc_changed b" and "rc_file fs userid recs d"
    and "length d \<le> BRC_MAXSIZE - BRC_ITEMSIZE"
    and "\<not> brc_changed b2" and "brc_arrays b2" and "length board2 < BRC_STRLEN" and "NUL \<notin> set board2"
  shows "\<exists>fs' b' b3 n. brc_update junk True fs b userid board = Val (fs', b')
    \<and> brc_fcgi_init junk2 ok fs' b2 userid board2 = Val (fs', b3, n)
    \<and> cstr (brc_name b3) = board2
    \<and> marks b3 = (if board2 = board then marks b else board_marks recs board2)"
proof -
  have bl: "length board < BRC_STRLEN" using assms(1) by (simp add: brc_open_def brc_head_def)
  let ?path = "sethomefile userid ''.boardrc''"
  obtain k o1 rest where o1: "brc_records ((board, marks b) # others board (take k recs)) o1"
    "length (o1 @ rest) = BRC_MAXSIZE" "take k recs = recs"
    and u: "brc_update junk True fs b userid board
       = Val (fs(?path \<mapsto> o1), b\<lparr>brc_buf := o1 @ rest, brc_size := length o1, brc_changed := False\<rparr>)"
    using brc_update_cut [OF assms(1-3) bl, of junk] assms(4) by blast
  have f: "rc_file (fs(?path \<mapsto> o1)) userid ((board, marks b) # others board recs) o1"
    using o1 by (simp add: rc_file_def)
  have "length o1 \<le> BRC_MAXSIZE" using o1(2) by simp
  then obtain b3 n where "brc_fcgi_init junk2 ok (fs(?path \<mapsto> o1)) b2 userid board2 = Val (fs(?path \<mapsto> o1), b3, n)"
    "cstr (brc_name b3) = board2" "marks b3 = board_marks ((board, marks b) # others board recs) board2"
    using brc_fcgi_init_loads [OF assms(5,6) f _ assms(7,8)] by blast
  then show ?thesis
    using u by (force simp: board_marks_def map_of_others)
qed

text \<open>C27: saving never leaves the 50000-byte buffer: whatever the size of a well-formed file, the
  result is a well-formed file of at most 50000 bytes that starts with the open board's marks
  and keeps the other boards' records in order, all of them when the file has at most 49739
  bytes and an initial segment otherwise.\<close>

theorem brc_update_bounds:
  assumes "brc_open board b" and "brc_changed b" and "rc_file fs userid recs d"
  shows "\<exists>k o1 b'. brc_update junk True fs b userid board
       = Val (fs(sethomefile userid ''.boardrc'' \<mapsto> o1), b')
     \<and> brc_records ((board, marks b) # others board (take k recs)) o1
     \<and> length o1 \<le> BRC_MAXSIZE \<and> length (brc_buf b') = BRC_MAXSIZE
     \<and> (length d \<le> BRC_MAXSIZE - BRC_ITEMSIZE \<longrightarrow> take k recs = recs)"
proof -
  have "length board < BRC_STRLEN" using assms(1) by (simp add: brc_open_def brc_head_def)
  then obtain k o1 rest where o1: "brc_records ((board, marks b) # others board (take k recs)) o1"
    "length (o1 @ rest) = BRC_MAXSIZE"
    "length d \<le> BRC_MAXSIZE - BRC_ITEMSIZE \<longrightarrow> take k recs = recs"
    and u: "brc_update junk True fs b userid board
       = Val (fs(sethomefile userid ''.boardrc'' \<mapsto> o1),
              b\<lparr>brc_buf := o1 @ rest, brc_size := length o1, brc_changed := False\<rparr>)"
    using brc_update_cut [OF assms, of board junk] by blast
  have "length o1 \<le> BRC_MAXSIZE" using o1(2) by simp
  with o1 u show ?thesis
    by (intro exI [of _ k] exI [of _ o1] exI) (rule conjI, assumption, simp)
qed

text \<open>Opening a board while the marks of another one are still unsaved saves those, but drops
  the record of the board that is opened: it comes up as never read whatever the file held.\<close>

theorem brc_initial_pending_loses:
  assumes "brc_open name b" and "brc_changed b" and "rc_file fs userid recs d" and "brc_arrays b"
    and "length board < BRC_STRLEN" and "NUL \<notin> set board" and "board \<noteq> name"
  shows "\<exists>fs' b' recs' d'. brc_initial junk True fs b userid board = Val (fs', b', 0)
    \<and> marks b' = [1] \<and> rc_file fs' userid recs' d' \<and> map_of recs' board = None
    \<and> map_of recs' name = Some (marks b)"
proof -
  let ?path = "sethomefile userid ''.boardrc''"
  obtain k o1 rest where o1: "brc_records ((name, marks b) # others board (take k recs)) o1"
    "length (o1 @ rest) = BRC_MAXSIZE"
    and u: "brc_update junk True fs b userid board
       = Val (fs(?path \<mapsto> o1), b\<lparr>brc_buf := o1 @ rest, brc_size := length o1, brc_changed := False\<rparr>)"
    using brc_update_cut [OF assms(1-3,5), of junk] by blast
  let ?recs = "(name, marks b) # others board (take k recs)"
  let ?b = "b\<lparr>brc_buf := o1 @ rest, brc_size := length o1, brc_changed := False\<rparr>"
  have ne: "o1 \<noteq> []" using o1(1) by (auto simp: brc_rec_def)
  have none: "map_of ?recs board = None" using assms(7) by (simp add: map_of_others)
  have arr: "brc_arrays ?b" using assms(4) o1(2) by (simp add: brc_arrays_def)
  obtain b' where "brc_initial junk True (fs(?path \<mapsto> o1)) ?b userid board = Val (fs(?path \<mapsto> o1), b', 0)"
    "marks b' = [1]"
    using brc_initial_loaded [OF _ arr _ _ o1(1) ne assms(5,6), of rest junk True "fs(?path \<mapsto> o1)" userid] none
    by (auto simp: board_marks_def)
  moreover have "brc_initial junk True fs b userid board = brc_initial junk True (fs(?path \<mapsto> o1)) ?b userid board"
    using u by (simp add: brc_initial_def brc_update_def)
  moreover have "rc_file (fs(?path \<mapsto> o1)) userid ?recs o1"
    using o1(1) by (simp add: rc_file_def)
  ultimately show ?thesis using none by (metis map_of_Cons_code(2))
qed

section \<open>Instances\<close>

definition brc1 :: brc where
  "brc1 = brc0\<lparr>brc_name := ''test'' @ replicate 16 NUL, brc_changed := True,
               brc_list := 100 # 1 # replicate 58 0, brc_num := 2\<rparr>"

definition sport_record :: string where
  "sport_record = ''sport'' @ NUL # replicate 14 NUL @ [char_of (1::nat)] @ concat (map int_bytes [5])"

definition rc1 :: files where
  "rc1 = [sethomefile ''sysop'' ''.boardrc'' \<mapsto> sport_record]"

lemma marks_brc1: "marks brc1 = [100, 1]"
  by (simp add: marks_def brc1_def numeral_eq_Suc)

lemma brc1_fields [simp]:
  "brc_buf brc1 = replicate BRC_MAXSIZE NUL" "brc_name brc1 = ''test'' @ replicate 16 NUL"
  "brc_list brc1 = 100 # 1 # replicate 58 0" "brc_num brc1 = 2" "brc_changed brc1"
  by (simp_all add: brc1_def brc0_def)

lemma brc1_changed: "brc_changed brc1"
  by simp

lemma brc1_open: "brc_open ''test'' brc1"
  by (auto simp: brc_open_def brc_ok_def marks_brc1 int_range_def brc_head_def schar_def byte_def
      cstr_def c_defs)

lemma brc_arrays_brc0: "brc_arrays brc0" and brc_arrays_brc1: "brc_arrays brc1"
  and brc0_saved: "\<not> brc_changed brc0"
  by (simp_all add: brc_arrays_def brc0_def brc1_def c_defs)

lemma sport_rec: "brc_rec (''sport'', [5]) sport_record"
  unfolding brc_rec_def sport_record_def
  by (auto simp: int_range_def brc_head_def schar_def byte_def c_defs intro!: exI [of _ "replicate 14 NUL"])

lemma rc1_file: "rc_file rc1 ''sysop'' [(''sport'', [5])] sport_record"
  using sport_rec by (simp add: rc_file_def rc1_def)

lemma rc1_length: "length sport_record \<le> BRC_MAXSIZE - BRC_ITEMSIZE"
  using length_brc_rec [OF sport_rec] by (simp add: c_defs)

theorem brc_save_load_witness:
  "\<exists>fs' b' b3 n. brc_update (\<lambda>_. NUL) True rc1 brc1 ''sysop'' ''test'' = Val (fs', b')
    \<and> brc_fcgi_init (\<lambda>_. NUL) True fs' brc0 ''sysop'' ''sport'' = Val (fs', b3, n) \<and> marks b3 = [5]"
  using brc_save_load [OF brc1_open brc1_changed rc1_file rc1_length brc0_saved brc_arrays_brc0,
      of "''sport''" "\<lambda>_. NUL" "\<lambda>_. NUL" True]
  by (auto simp: board_marks_def BRC_STRLEN_def)

theorem brc_update_bounds_witness:
  "\<exists>k o1 b'. brc_update (\<lambda>_. NUL) True rc1 brc1 ''sysop'' ''test''
       = Val (rc1(sethomefile ''sysop'' ''.boardrc'' \<mapsto> o1), b')
     \<and> length o1 \<le> BRC_MAXSIZE
     \<and> brc_records ((''test'', [100, 1]) # others ''test'' (take k [(''sport'', [5])])) o1"
  using brc_update_bounds [OF brc1_open brc1_changed rc1_file, of "\<lambda>_. NUL"]
  unfolding marks_brc1 by blast

theorem brc_initial_pending_loses_witness:
  "\<exists>fs' b'. brc_initial (\<lambda>_. NUL) True rc1 brc1 ''sysop'' ''sport'' = Val (fs', b', 0) \<and> marks b' = [1]"
  using brc_initial_pending_loses [OF brc1_open brc1_changed rc1_file brc_arrays_brc1,
      of "''sport''" "\<lambda>_. NUL"]
  by (auto simp: BRC_STRLEN_def)

end
