(* ===== verification/UserCache.thy ===== *)
theory UserCache
  imports CStrings "HOL-Library.Monad_Syntax"
begin

text \<open>
  The shared tables of users, \<^verbatim>\<open>lib/ucache.c\<close>, with \<^verbatim>\<open>kick_web_user\<close> and \<^verbatim>\<open>bbskill\<close> of
  \<^verbatim>\<open>lib/stuffs.c\<close> and the mode tests of \<^verbatim>\<open>lib/modetype.c\<close>: the cache of all accounts (names,
  password records, a hash of doubly linked chains threaded through index arrays) and the cache
  of the sessions that are online. MAXUSERS and USHM_SIZE are the lengths of the tables, so that
  both build configurations are covered. A table index is one less than the number the code
  hands out and 0 is the end of a chain. The result \<open>None\<close> means that the C function has no
  defined result: it never returns (a chain with a cycle) or it reads or writes outside the
  tables. Locks, \<^verbatim>\<open>attach_shm\<close>, \<^verbatim>\<open>kill\<close> and \<^verbatim>\<open>time\<close> are arguments: their results are what the
  operating system gives. A \<^verbatim>\<open>char *\<close> argument is the memory it points to, NUL included.
\<close>

unbundle bit_operations_syntax

section \<open>Data\<close>

definition BBSNET :: int where "BBSNET = 33"
definition WWW :: int where "WWW = 0x40000000"
definition IDLE_TIMEOUT :: int where "IDLE_TIMEOUT = 15 * 60"
definition SIGHUP :: int where "SIGHUP = 1"

record userec =
  pw_uid :: int
  pw_userlevel :: u32
  pw_numlogins :: int
  pw_numposts :: int
  pw_stay :: int
  pw_nummedals :: int
  pw_money :: int
  pw_bet :: int
  pw_flags :: string
  pw_passwd :: string
  pw_nummails :: int
  pw_gender :: char
  pw_birth :: "int \<times> int \<times> int"
  pw_signature :: int
  pw_userdefine :: int
  pw_prefs :: int
  pw_noteline :: int
  pw_firstlogin :: int
  pw_lastlogin :: int
  pw_lastlogout :: int
  pw_dateforbet :: int
  pw_notedate :: int
  pw_userid :: string
  pw_lasthost :: string
  pw_username :: string
  pw_email :: string
  pw_reserved :: string

record user_info =
  ui_utmpkey :: int
  ui_active :: int
  ui_uid :: int
  ui_pid :: int
  ui_invisible :: int
  ui_sockactive :: int
  ui_sockaddr :: int
  ui_destuid :: int
  ui_mode :: int
  ui_pager :: int
  ui_in_chat :: int
  ui_fnum :: int
  ui_ext_idle :: int
  ui_chatid :: string
  ui_from :: string
  ui_currbrdnum :: int
  ui_idle_time :: int
  ui_userid :: string
  ui_realname :: string
  ui_username :: string
  ui_friend :: "int list"
  ui_reject :: "int list"

record ucache =
  uc_userid :: "string list"
  uc_number :: nat
  uc_uptime :: int
  uc_next :: "nat list"
  uc_prev :: "nat list"
  uc_hash :: "int \<Rightarrow> nat"
  uc_passwd :: "userec list"
  uc_status :: "int list"

record utmpfile =
  ut_uinfo :: "user_info list"
  ut_usersum :: int
  ut_max_login_num :: int
  ut_total_num :: int

definition MAXFRIENDS :: nat where "MAXFRIENDS = 300"
definition MAXREJECTS :: nat where "MAXREJECTS = 32"

definition no_user :: userec where
  \<comment> \<open>\<^verbatim>\<open>memset(user, 0, sizeof(*user))\<close>\<close>
  "no_user = \<lparr>pw_uid = 0, pw_userlevel = 0, pw_numlogins = 0, pw_numposts = 0, pw_stay = 0,
     pw_nummedals = 0, pw_money = 0, pw_bet = 0, pw_flags = replicate 2 NUL,
     pw_passwd = replicate 14 NUL, pw_nummails = 0, pw_gender = NUL, pw_birth = (0, 0, 0),
     pw_signature = 0, pw_userdefine = 0, pw_prefs = 0, pw_noteline = 0, pw_firstlogin = 0,
     pw_lastlogin = 0, pw_lastlogout = 0, pw_dateforbet = 0, pw_notedate = 0,
     pw_userid = replicate 16 NUL, pw_lasthost = replicate 40 NUL, pw_username = replicate 40 NUL,
     pw_email = replicate 40 NUL, pw_reserved = replicate 8 NUL\<rparr>"

definition no_info :: user_info where
  "no_info = \<lparr>ui_utmpkey = 0, ui_active = 0, ui_uid = 0, ui_pid = 0, ui_invisible = 0,
     ui_sockactive = 0, ui_sockaddr = 0, ui_destuid = 0, ui_mode = 0, ui_pager = 0,
     ui_in_chat = 0, ui_fnum = 0, ui_ext_idle = 0, ui_chatid = replicate 10 NUL,
     ui_from = replicate 60 NUL, ui_currbrdnum = 0, ui_idle_time = 0, ui_userid = replicate 20 NUL,
     ui_realname = replicate 20 NUL, ui_username = replicate 40 NUL,
     ui_friend = replicate MAXFRIENDS 0, ui_reject = replicate MAXREJECTS 0\<rparr>"

datatype 'a outcome = Exits int | Returns 'a

section \<open>The cache of all accounts\<close>

definition letter_index :: "char \<Rightarrow> int" where
  "letter_index c = (if islower c then int (byte c) - 97 else if isupper c then int (byte c) - 65 else 0)"

definition uhashkey :: "string \<Rightarrow> (int \<times> int \<times> int) option" where
  \<comment> \<open>the key and the two letter indices; \<open>None\<close> where the scan leaves the memory of \<open>userid\<close>\<close>
  "uhashkey userid =
     (if length userid < 2 \<or> NUL \<notin> set (drop 2 userid) then None
      else Some (c_mod (sum_list (map (\<lambda>c. schar (toupper c)) (cstr (drop 2 userid)))) 256,
                 letter_index (userid ! 0), letter_index (userid ! 1)))"

definition hash_ref :: "string \<Rightarrow> int option" where
  \<comment> \<open>the offset of \<^verbatim>\<open>hash[a1][a2][key]\<close> in the array; a negative key of the first row is outside it\<close>
  "hash_ref userid = do {
     (key, a1, a2) \<leftarrow> uhashkey userid;
     let i = (a1 * 26 + a2) * 256 + key;
     if i < 0 then None else Some i }"

definition mem_ncasecmp :: "nat \<Rightarrow> string \<Rightarrow> string \<Rightarrow> bool" where
  \<comment> \<open>\<^verbatim>\<open>!strncasecmp(s, t, n)\<close>\<close>
  "mem_ncasecmp n s t \<longleftrightarrow> map tolower (take n (cstr s)) = map tolower (take n (cstr t))"

definition cmpuids :: "string \<Rightarrow> userec \<Rightarrow> bool" where
  "cmpuids uid up = mem_ncasecmp 16 uid (pw_userid up)"

partial_function (option) walk :: "nat list \<Rightarrow> (nat \<Rightarrow> bool) \<Rightarrow> nat \<Rightarrow> nat option" where
  \<comment> \<open>follow a chain from \<open>i\<close> to the first number with \<open>p\<close>; 0 when the chain ends\<close>
  "walk nxt p i =
     (if i = 0 then Some 0
      else if length nxt < i then None
      else if p i then Some i
      else walk nxt p (nxt ! (i - 1)))"

partial_function (option) chain_last :: "nat list \<Rightarrow> nat \<Rightarrow> nat option" where
  "chain_last nxt i =
     (if i = 0 \<or> length nxt < i then None
      else if nxt ! (i - 1) = 0 then Some i
      else chain_last nxt (nxt ! (i - 1)))"

declare walk.simps [code] chain_last.simps [code]

definition fillucache :: "userec \<Rightarrow> nat \<Rightarrow> ucache \<Rightarrow> (ucache \<times> bool) option" where
  "fillucache uentp count uc =
     (if count < length (uc_userid uc) then
        let uc = uc\<lparr>uc_userid := (uc_userid uc)[count :=
                    fst (strlcpy (uc_userid uc ! count) (cstr (pw_userid uentp)) (IDLEN + 1))]\<rparr>;
            count = count + 1
        in if cstr (pw_userid uentp) \<noteq> [] then do {
             h \<leftarrow> hash_ref (pw_userid uentp);
             if uc_hash uc h = 0 then Some (uc\<lparr>uc_hash := (uc_hash uc)(h := count)\<rparr>, True)
             else do {
               i \<leftarrow> chain_last (uc_next uc) (uc_hash uc h);
               Some (uc\<lparr>uc_next := (uc_next uc)[i - 1 := count],
                        uc_prev := (uc_prev uc)[count - 1 := i]\<rparr>, True) } }
           else Some (uc, False)
      else Some (uc, False))"

definition del_uidshm :: "nat \<Rightarrow> string \<Rightarrow> ucache \<Rightarrow> (ucache \<times> bool) option" where
  "del_uidshm num userid uc =
     (if num = 0 \<or> length (uc_userid uc) < num then Some (uc, False)
      else do {
        h \<leftarrow> hash_ref userid;
        i \<leftarrow> walk (uc_next uc) ((=) num) (uc_hash uc h);
        if i = 0 then Some (uc, False)
        else let nxt = uc_next uc; prv = uc_prev uc; n = nxt ! (i - 1); p = prv ! (i - 1);
                 uc = (if n \<noteq> 0 then
                         if p \<noteq> 0 then uc\<lparr>uc_next := nxt[p - 1 := n], uc_prev := prv[n - 1 := p]\<rparr>
                         else uc\<lparr>uc_hash := (uc_hash uc)(h := n), uc_prev := prv[n - 1 := 0]\<rparr>
                       else if p \<noteq> 0 then uc\<lparr>uc_next := nxt[p - 1 := 0]\<rparr>
                       else uc\<lparr>uc_hash := (uc_hash uc)(h := 0)\<rparr>)
             in Some (uc\<lparr>uc_next := (uc_next uc)[i - 1 := 0], uc_prev := (uc_prev uc)[i - 1 := 0],
                         uc_userid := (uc_userid uc)[i - 1 := (uc_userid uc ! (i - 1))[0 := NUL]]\<rparr>,
                      True) })"

fun fill_all :: "userec list \<Rightarrow> nat \<Rightarrow> nat \<Rightarrow> ucache \<Rightarrow> (ucache \<times> nat) option" where
  \<comment> \<open>the loop of \<open>load_ucache\<close>: record, its index, the index of the last one filled\<close>
  "fill_all [] i lst uc = Some (uc, lst)"
| "fill_all (r # recs) i lst uc = do {
     (uc, filled) \<leftarrow> fillucache r i uc;
     fill_all recs (i + 1) (if filled then i else lst) uc }"

definition load_ucache ::
  "bool \<Rightarrow> bool \<Rightarrow> bool \<Rightarrow> userec list option \<Rightarrow> int \<Rightarrow> ucache \<Rightarrow> (ucache \<times> int) outcome option" where
  \<comment> \<open>whether the lock, the segment and PASSFILE were opened; the records \<^verbatim>\<open>get_records\<close> read\<close>
  "load_ucache locked attached opened recs now uc =
     (if \<not> locked then Some (Returns (uc, -1))
      else if \<not> attached then Some (Exits 1)
      else if \<not> opened then Some (Exits (-1))
      else case recs of
        None \<Rightarrow> Some (Returns (uc, -1))
      | Some recs \<Rightarrow>
          if length recs \<noteq> length (uc_userid uc) then Some (Returns (uc, -1))
          else let n = length (uc_userid uc);
                   uc = uc\<lparr>uc_passwd := recs, uc_userid := replicate n (replicate (IDLEN + 1) NUL),
                           uc_hash := (\<lambda>_. 0), uc_next := replicate n 0, uc_prev := replicate n 0\<rparr>
               in do {
                 (uc, lst) \<leftarrow> fill_all recs 0 0 uc;
                 Some (Returns (uc\<lparr>uc_number := lst + 1, uc_uptime := now\<rparr>, 0)) })"

definition substitut_record :: "userec \<Rightarrow> nat \<Rightarrow> ucache \<Rightarrow> ucache" where
  "substitut_record rptr num uc = uc\<lparr>uc_passwd := (uc_passwd uc)[num - 1 := rptr]\<rparr>"

definition resolve_ucache :: "ucache option \<Rightarrow> ucache option \<Rightarrow> bool \<Rightarrow> ucache option \<times> int" where
  \<comment> \<open>the pointer of this process, what \<^verbatim>\<open>attach_shm2\<close> gives and whether it had to create it;
     the pointer keeps a freshly created segment although the result is -1\<close>
  "resolve_ucache uidshm seg iscreate =
     (case uidshm of
        Some uc \<Rightarrow> (Some uc, 0)
      | None \<Rightarrow> (case seg of
            None \<Rightarrow> (None, -1)
          | Some uc \<Rightarrow> (Some uc, if iscreate then -1 else 0)))"

definition setuserid :: "nat \<Rightarrow> string \<Rightarrow> ucache \<Rightarrow> ucache option" where
  "setuserid num userid uc =
     (if 0 < num \<and> num \<le> length (uc_userid uc) then
        let uc = uc\<lparr>uc_number := (if uc_number uc < num then num else uc_number uc),
                    uc_userid := (uc_userid uc)[num - 1 :=
                      fst (strlcpy (uc_userid uc ! (num - 1)) (cstr userid) (IDLEN + 1))]\<rparr>
        in if cstr userid \<noteq> ''new'' then do {
             h \<leftarrow> hash_ref userid;
             if uc_hash uc h = 0 then
               Some (uc\<lparr>uc_hash := (uc_hash uc)(h := num), uc_next := (uc_next uc)[num - 1 := 0],
                        uc_prev := (uc_prev uc)[num - 1 := 0]\<rparr>)
             else do {
               i \<leftarrow> chain_last (uc_next uc) (uc_hash uc h);
               Some (uc\<lparr>uc_next := (uc_next uc)[i - 1 := num, num - 1 := 0],
                        uc_prev := (uc_prev uc)[num - 1 := i]\<rparr>) } }
           else Some uc
      else Some uc)"

definition first_free_name :: "ucache \<Rightarrow> nat option" where
  "first_free_name uc = find (\<lambda>i. uc_userid uc ! i ! 0 = NUL) [0..<uc_number uc]"

definition searchnewuser :: "bool \<Rightarrow> ucache \<Rightarrow> nat" where
  \<comment> \<open>the flag: \<open>resolve_ucache\<close> gave 0\<close>
  "searchnewuser ok uc =
     (if \<not> ok then 0
      else case first_free_name uc of
        Some i \<Rightarrow> i + 1
      | None \<Rightarrow> if uc_number uc < length (uc_userid uc) then uc_number uc + 1 else 0)"

definition getuserid :: "bool \<Rightarrow> nat \<Rightarrow> string \<Rightarrow> nat \<Rightarrow> ucache \<Rightarrow> string \<times> int" where
  "getuserid ok uid dst len uc =
     (if \<not> ok then (dst, -1) else (fst (strlcpy dst (cstr (uc_userid uc ! (uid - 1))) len), 0))"

definition searchuser :: "bool \<Rightarrow> string \<Rightarrow> ucache \<Rightarrow> nat option" where
  "searchuser ok userid uc =
     (if \<not> ok then Some 0
      else do {
        h \<leftarrow> hash_ref userid;
        walk (uc_next uc) (\<lambda>i. mem_ncasecmp (IDLEN + 1) userid (uc_userid uc ! (i - 1))) (uc_hash uc h) })"

definition getuserec :: "bool \<Rightarrow> string \<Rightarrow> userec \<Rightarrow> ucache \<Rightarrow> (userec \<times> nat) option" where
  \<comment> \<open>also \<open>getuser\<close>, whose target is the global \<open>lookupuser\<close>\<close>
  "getuserec ok userid u uc = do {
     uid \<leftarrow> searchuser ok userid uc;
     Some (if uid = 0 then (u, 0) else (uc_passwd uc ! (uid - 1), uid)) }"

definition dosearchuser :: "bool \<Rightarrow> string \<Rightarrow> userec \<Rightarrow> ucache \<Rightarrow> (userec \<times> userec \<times> nat) option" where
  \<comment> \<open>the global \<open>lookupuser\<close>, the caller's record and \<open>*unum\<close>, which is also the result\<close>
  "dosearchuser ok userid lookupuser uc = do {
     (lookupuser, num) \<leftarrow> getuserec ok userid lookupuser uc;
     Some (if num \<noteq> 0 \<and> cmpuids userid lookupuser then (lookupuser, lookupuser, num)
           else (lookupuser, no_user, 0)) }"

definition getuserbyuid :: "bool \<Rightarrow> userec \<Rightarrow> nat \<Rightarrow> ucache \<Rightarrow> userec \<times> int" where
  "getuserbyuid ok u uid uc = (if \<not> ok then (u, -1) else (uc_passwd uc ! (uid - 1), int uid))"

definition allusers :: "bool \<Rightarrow> ucache \<Rightarrow> nat" where
  "allusers ok uc =
     (if \<not> ok then 0
      else length (filter (\<lambda>u. pw_numlogins u \<noteq> 0 \<and> pw_userid u ! 0 \<noteq> NUL) (uc_passwd uc)))"

section \<open>The cache of sessions\<close>

definition is_web_user :: "int \<Rightarrow> bool" where
  "is_web_user mode \<longleftrightarrow> mode AND WWW \<noteq> 0"

definition get_raw_mode :: "int \<Rightarrow> int" where
  "get_raw_mode mode = mode AND 0xffff"

definition get_web_mode :: "int \<Rightarrow> int" where
  "get_web_mode mode = mode OR WWW"

definition int32 :: "int \<Rightarrow> int" where
  \<comment> \<open>conversion to a 32-bit int\<close>
  "int32 = signed_take_bit 31"

definition int_at :: "nat \<Rightarrow> string \<Rightarrow> int" where
  \<comment> \<open>the int stored at an offset, least significant byte first\<close>
  "int_at off mem = int32 (\<Sum>k\<leftarrow>[0..<4]. int (byte (mem ! (off + k))) * 256 ^ k)"

definition kick_web_user :: "int \<Rightarrow> user_info \<Rightarrow> ucache \<Rightarrow> ucache \<times> user_info \<times> int" where
  "kick_web_user now user uc =
     (if ui_uid user < 1 \<or> int (length (uc_status uc)) < ui_uid user then (uc, user, -1)
      else let k = nat (ui_uid user - 1);
               start = int_at 32 (ui_from user);
               up = uc_passwd uc ! k;
               recent = start;
               recent = (if recent < pw_lastlogout up then pw_lastlogout up else recent);
               recent = (if recent < pw_lastlogin up then pw_lastlogin up else recent);
               stay = int32 (now - recent);
               stay = (if stay < 0 then 0 else stay);
               up = up\<lparr>pw_lastlogout := now, pw_stay := (pw_stay up + stay) mod 2 ^ 32\<rparr>
           in (uc\<lparr>uc_status := (uc_status uc)[k := uc_status uc ! k - 1],
                  uc_passwd := (uc_passwd uc)[k := up]\<rparr>, no_info, 0))"

definition bbskill ::
  "(int \<Rightarrow> int \<Rightarrow> int) \<Rightarrow> int \<Rightarrow> user_info \<Rightarrow> int \<Rightarrow> ucache \<Rightarrow> ucache \<times> user_info \<times> int" where
  "bbskill kill now user sig uc =
     (if 0 < ui_pid user then
        if \<not> is_web_user (ui_mode user) then (uc, user, kill (ui_pid user) sig)
        else if sig = SIGHUP then kick_web_user now user uc
        else (uc, user, 0)
      else (uc, user, -1))"

definition get_online :: "utmpfile \<Rightarrow> int" where
  "get_online ut = ut_total_num ut"

definition refresh_slot ::
  "(int \<Rightarrow> int \<Rightarrow> int) \<Rightarrow> int \<Rightarrow> user_info \<Rightarrow> ucache \<Rightarrow> (user_info \<times> ucache \<times> int) option" where
  \<comment> \<open>the body of the loop of \<open>refresh_utmp\<close>: the slot, the cache, what is added to \<open>count\<close>\<close>
  "refresh_slot kill now u uc =
     (if ui_active u \<noteq> 0 \<and> ui_pid u \<noteq> 0 then
        let (uc, u, r) = bbskill kill now u 0 uc in
        if r = -1 then Some (no_info, uc, 0)
        else if ui_mode u \<noteq> BBSNET \<and> IDLE_TIMEOUT < now - ui_idle_time u
        then let (uc, u, r) = bbskill kill now u SIGHUP uc in Some (no_info, uc, 0)
        else if ui_uid u < 1 \<or> int (length (uc_status uc)) < ui_uid u then None
        else let k = nat (ui_uid u - 1)
             in Some (u, uc\<lparr>uc_status := (uc_status uc)[k := uc_status uc ! k + 1]\<rparr>, 1)
      else Some (u, uc, 0))"

fun refresh_slots ::
  "(int \<Rightarrow> int \<Rightarrow> int) \<Rightarrow> int \<Rightarrow> user_info list \<Rightarrow> ucache \<Rightarrow> (user_info list \<times> ucache \<times> int) option" where
  "refresh_slots kill now [] uc = Some ([], uc, 0)"
| "refresh_slots kill now (u # us) uc = do {
     (u, uc, c) \<leftarrow> refresh_slot kill now u uc;
     (us, uc, cs) \<leftarrow> refresh_slots kill now us uc;
     Some (u # us, uc, c + cs) }"

definition refresh_utmp ::
  "bool \<Rightarrow> bool \<Rightarrow> bool \<Rightarrow> (int \<Rightarrow> int \<Rightarrow> int) \<Rightarrow> int \<Rightarrow> utmpfile \<times> ucache \<Rightarrow> ((utmpfile \<times> ucache) \<times> int) option" where
  \<comment> \<open>the flags: \<open>resolve_ucache\<close> gave 0, the lock of the sessions and of the accounts was taken\<close>
  "refresh_utmp ok utmp_locked ucache_locked kill now s =
     (case s of (ut, uc) \<Rightarrow>
        if \<not> ok \<or> \<not> utmp_locked \<or> \<not> ucache_locked then Some ((ut, uc), -1)
        else do {
          (us, uc, count) \<leftarrow> refresh_slots kill now (ut_uinfo ut)
             (uc\<lparr>uc_status := replicate (length (uc_status uc)) 0\<rparr>);
          Some ((ut\<lparr>ut_uinfo := us, ut_total_num := count, ut_usersum := int (allusers True uc)\<rparr>, uc),
                count) })"

definition free_slot :: "user_info \<Rightarrow> bool" where
  "free_slot u \<longleftrightarrow> ui_active u = 0 \<or> ui_pid u = 0"

definition getnewutmpent ::
  "bool \<Rightarrow> bool \<Rightarrow> user_info \<Rightarrow> utmpfile \<times> ucache \<Rightarrow> ((utmpfile \<times> ucache) \<times> int) option" where
  "getnewutmpent ok locked up s =
     (case s of (ut, uc) \<Rightarrow>
        if \<not> ok \<or> \<not> locked then Some (s, -1)
        else let ut = (if ut_max_login_num ut < get_online ut
                       then ut\<lparr>ut_max_login_num := get_online ut\<rparr> else ut)
        in case find (\<lambda>i. free_slot (ut_uinfo ut ! i)) [0..<length (ut_uinfo ut)] of
             None \<Rightarrow> Some ((ut, uc), -2)
           | Some i \<Rightarrow>
               if ui_uid up < 1 \<or> int (length (uc_status uc)) < ui_uid up then None
               else let k = nat (ui_uid up - 1) in
                 Some ((ut\<lparr>ut_uinfo := (ut_uinfo ut)[i := up], ut_total_num := ut_total_num ut + 1\<rparr>,
                        uc\<lparr>uc_status := (uc_status uc)[k := uc_status uc ! k + 1]\<rparr>), int i + 1))"

fun apply_infos :: "('s \<Rightarrow> user_info \<Rightarrow> 's \<times> int) \<Rightarrow> user_info list \<Rightarrow> 's \<Rightarrow> 's \<times> int" where
  "apply_infos fptr [] s = (s, 0)"
| "apply_infos fptr (u # us) s =
     (case fptr s u of (s, r) \<Rightarrow> if r = QUIT then (s, QUIT) else apply_infos fptr us s)"

fun last_active :: "user_info list \<Rightarrow> nat \<Rightarrow> nat" where
  \<comment> \<open>the loop that lowers \<open>max\<close>\<close>
  "last_active us 0 = 0"
| "last_active us (Suc m) = (if ui_active (us ! Suc m) = 0 then last_active us m else Suc m)"

definition apply_ulist :: "('s \<Rightarrow> user_info \<Rightarrow> 's \<times> int) \<Rightarrow> utmpfile \<Rightarrow> 's \<Rightarrow> 's \<times> int" where
  \<comment> \<open>the callback sees a copy of each entry and changes the state \<open>'s\<close>\<close>
  "apply_ulist fptr ut s =
     (let mx = last_active (ut_uinfo ut) (length (ut_uinfo ut) - 1)
      in apply_infos fptr (take (mx + 1) (ut_uinfo ut)) s)"

definition search_ulist ::
  "(int \<Rightarrow> user_info \<Rightarrow> bool) \<Rightarrow> int \<Rightarrow> utmpfile \<Rightarrow> user_info \<Rightarrow> user_info \<times> int" where
  "search_ulist fptr farg ut uentp =
     (case find (\<lambda>i. fptr farg (ut_uinfo ut ! i)) [0..<length (ut_uinfo ut)] of
        None \<Rightarrow> (uentp, 0)
      | Some i \<Rightarrow> (ut_uinfo ut ! i, int i + 1))"

fun search_nth :: "(user_info \<Rightarrow> bool) \<Rightarrow> int \<Rightarrow> int \<Rightarrow> int \<Rightarrow> user_info list \<Rightarrow> user_info \<Rightarrow> user_info \<times> int" where
  \<comment> \<open>the loop of \<open>search_ulistn\<close> with its \<open>i\<close> and \<open>j\<close>; \<open>*uentp\<close> ends as the last entry looked at\<close>
  "search_nth p unum i j [] uentp = (uentp, 0)"
| "search_nth p unum i j (u # us) uentp =
     (if p u then if j = unum then (u, i + 1) else search_nth p unum (i + 1) (j + 1) us u
      else search_nth p unum (i + 1) j us u)"

definition search_ulistn ::
  "(int \<Rightarrow> user_info \<Rightarrow> bool) \<Rightarrow> int \<Rightarrow> int \<Rightarrow> utmpfile \<Rightarrow> user_info \<Rightarrow> user_info \<times> int" where
  "search_ulistn fptr farg unum ut uentp = search_nth (fptr farg) unum 0 1 (ut_uinfo ut) uentp"

definition update_ulist :: "user_info \<Rightarrow> int \<Rightarrow> utmpfile \<Rightarrow> utmpfile" where
  "update_ulist uentp uent ut =
     (if 0 < uent \<and> uent \<le> int (length (ut_uinfo ut))
      then ut\<lparr>ut_uinfo := (ut_uinfo ut)[nat uent - 1 := uentp]\<rparr> else ut)"

definition who_callme ::
  "(int \<Rightarrow> user_info \<Rightarrow> bool) \<Rightarrow> int \<Rightarrow> int \<Rightarrow> utmpfile \<Rightarrow> user_info \<Rightarrow> user_info \<times> int" where
  "who_callme fptr farg me ut uentp =
     search_nth (\<lambda>u. fptr farg u \<and> ui_destuid u = me) 1 0 1 (ut_uinfo ut) uentp"

definition count_online :: "nat \<Rightarrow> utmpfile \<Rightarrow> nat" where
  \<comment> \<open>MAXACTIVE, which is 150 less than the number of slots\<close>
  "count_online maxactive ut =
     length (filter (\<lambda>u. ui_active u \<noteq> 0) (take maxactive (ut_uinfo ut)))"


section \<open>Chains as lists\<close>

text \<open>
  \<open>lseg nxt prv p i xs j\<close>: following \<^verbatim>\<open>next\<close> from the number \<open>i\<close> passes through \<open>xs\<close> and arrives
  at \<open>j\<close>, and \<^verbatim>\<open>prev\<close> of each number is the one before it, \<open>p\<close> for the first.
\<close>

fun lseg :: "nat list \<Rightarrow> nat list \<Rightarrow> nat \<Rightarrow> nat \<Rightarrow> nat list \<Rightarrow> nat \<Rightarrow> bool" where
  "lseg nxt prv p i [] j \<longleftrightarrow> i = j"
| "lseg nxt prv p i (x # xs) j \<longleftrightarrow> i = x \<and> 0 < x \<and> x \<le> length nxt \<and> prv ! (x - 1) = p
     \<and> lseg nxt prv x (nxt ! (x - 1)) xs j"

lemma lseg_append:
  "lseg nxt prv p i (xs @ ys) j \<longleftrightarrow>
     (\<exists>k. lseg nxt prv p i xs k \<and> lseg nxt prv (last (p # xs)) k ys j)"
  by (induction xs arbitrary: p i) auto

lemma lseg_frame:
  "lseg nxt prv p i xs j \<Longrightarrow> length nxt' = length nxt
   \<Longrightarrow> (\<And>x. x \<in> set xs \<Longrightarrow> nxt' ! (x - 1) = nxt ! (x - 1) \<and> prv' ! (x - 1) = prv ! (x - 1))
   \<Longrightarrow> lseg nxt' prv' p i xs j"
  by (induction xs arbitrary: p i) auto

lemma lseg_range: "lseg nxt prv p i xs j \<Longrightarrow> x \<in> set xs \<Longrightarrow> 0 < x \<and> x \<le> length nxt"
  by (induction xs arbitrary: p i) auto

lemma upd_pred:
  assumes "0 < x" "0 < y" "x \<noteq> y"
  shows "(zs[y - 1 := v]) ! (x - 1) = zs ! (x - 1)"
proof -
  from assms have "y - 1 \<noteq> x - 1" by linarith
  then show ?thesis by simp
qed

lemma lseg_upd:
  assumes "lseg nxt prv p i xs j" "y \<notin> set xs" "0 < y"
  shows "lseg (nxt[y - 1 := v]) prv p i xs j" "lseg nxt (prv[y - 1 := v]) p i xs j"
proof -
  have "x \<in> set xs \<Longrightarrow> 0 < x \<and> x \<noteq> y" for x using lseg_range [OF assms(1)] assms(2) by blast
  then have "(zs[y - 1 := v]) ! (x - 1) = zs ! (x - 1)" if "x \<in> set xs" for x :: nat and zs :: "nat list"
    using that upd_pred [OF _ assms(3), of x zs v] by blast
  then show "lseg (nxt[y - 1 := v]) prv p i xs j" "lseg nxt (prv[y - 1 := v]) p i xs j"
    by (intro lseg_frame [OF assms(1)] conjI refl length_list_update; blast)+
qed

lemma lseg_end:
  assumes "lseg nxt prv p i (us @ [l]) j" "l \<notin> set us"
  shows "lseg (nxt[l - 1 := k]) prv p i (us @ [l]) k"
  using assms lseg_upd(1) [of nxt prv p i us l l k] by (auto simp: lseg_append)

lemma lseg_head:
  assumes "lseg nxt prv p i (y # ys) j" "y \<notin> set ys" "length prv = length nxt"
  shows "lseg nxt (prv[y - 1 := q]) q i (y # ys) j"
  using assms lseg_upd(2) [of nxt prv y "nxt ! (y - 1)" ys j y q] by auto

lemma lseg_snoc:
  assumes "lseg nxt prv p i xs 0" "num \<notin> set xs" "distinct xs" "0 < num" "num \<le> length nxt"
    "length prv = length nxt"
  shows "xs \<noteq> [] \<Longrightarrow> lseg (nxt[last xs - 1 := num, num - 1 := 0]) (prv[num - 1 := last xs]) p i (xs @ [num]) 0"
    and "lseg (nxt[num - 1 := 0]) (prv[num - 1 := p]) p num [num] 0"
proof -
  assume "xs \<noteq> []"
  then obtain us l where xs: "xs = us @ [l]" by (metis rev_exhaust)
  have "lseg (nxt[l - 1 := num]) prv p i (us @ [l]) num"
    using lseg_end [of nxt prv p i us l 0 num] assms(1,3) by (simp add: xs)
  then have "lseg (nxt[l - 1 := num, num - 1 := 0]) (prv[num - 1 := l]) p i (us @ [l]) num"
    using assms(2,4) lseg_upd [of _ _ p i "us @ [l]" num num] by (simp add: xs)
  then show "lseg (nxt[last xs - 1 := num, num - 1 := 0]) (prv[num - 1 := last xs]) p i (xs @ [num]) 0"
    using assms(4-6) by (subst lseg_append) (auto simp: xs)
qed (use assms in simp)

lemma lseg_remove:
  assumes l: "lseg nxt prv 0 i (xs @ num # ys) 0" and d: "distinct (xs @ num # ys)"
    and len: "length prv = length nxt"
    and n: "n = nxt ! (num - 1)" and p: "p = prv ! (num - 1)"
    and nxt': "nxt' = (if p \<noteq> 0 then nxt[p - 1 := n] else nxt)"
    and prv': "prv' = (if n \<noteq> 0 then prv[n - 1 := p] else prv)"
  shows "p = last (0 # xs)" "n = (case ys of [] \<Rightarrow> 0 | y # ys \<Rightarrow> y)"
    and "lseg nxt' prv' 0 (if p = 0 then n else i) (xs @ ys) 0"
proof -
  from l obtain k where a: "lseg nxt prv 0 i xs num" and k: "lseg nxt prv (last (0 # xs)) num [num] n"
      and b: "lseg nxt prv num n ys 0"
    unfolding lseg_append n by auto
  have num: "0 < num" "num \<le> length nxt" and pl: "p = last (0 # xs)" using k by (auto simp: p)
  show "p = last (0 # xs)" by fact
  show ny: "n = (case ys of [] \<Rightarrow> 0 | y # ys \<Rightarrow> y)" using b by (auto split: list.splits)
  have rng: "x \<in> set xs \<Longrightarrow> 0 < x" for x using lseg_range [OF a] by blast
  have p0: "p = 0 \<longleftrightarrow> xs = []" using rng [of "last xs"] by (auto simp: pl)
  have ys: "lseg nxt prv' p n ys 0"
  proof (cases ys)
    case Nil with b show ?thesis by simp
  next
    case (Cons y ys')
    with b d len lseg_head [of nxt prv num n y ys' 0 p] ny show ?thesis by (auto simp: prv')
  qed
  show "lseg nxt' prv' 0 (if p = 0 then n else i) (xs @ ys) 0"
  proof (cases "xs = []")
    case True
    with ys p0 show ?thesis by (simp add: nxt')
  next
    case False
    then obtain us l where xs: "xs = us @ [l]" by (metis rev_exhaust)
    have lp: "p = l" "0 < p" using pl rng [of l] by (auto simp: xs)
    have "lseg (nxt[l - 1 := n]) prv 0 i (us @ [l]) n"
      using lseg_end [of nxt prv 0 i us l num n] a d by (simp add: xs)
    then have "lseg nxt' prv' 0 i xs n"
      using d ny lp lseg_upd(2) [of "nxt[l - 1 := n]" prv 0 i xs n n p] by (auto simp: nxt' prv' xs split: list.splits)
    moreover have "lseg nxt' prv' p n ys 0"
      using lseg_upd(1) [OF ys, of p n] d lp by (auto simp: nxt' xs)
    ultimately show ?thesis using p0 False pl by (auto simp: lseg_append)
  qed
qed

lemma walk_lseg:
  "lseg nxt prv p i xs 0 \<Longrightarrow> walk nxt P i = Some (case find P xs of None \<Rightarrow> 0 | Some x \<Rightarrow> x)"
proof (induction xs arbitrary: p i)
  case Nil
  then show ?case by (subst walk.simps) simp
next
  case (Cons x xs)
  then show ?case by (subst walk.simps) (auto simp: Cons.IH)
qed

lemma chain_last_lseg: "lseg nxt prv p i xs 0 \<Longrightarrow> xs \<noteq> [] \<Longrightarrow> chain_last nxt i = Some (last xs)"
proof (induction xs arbitrary: p i)
  case (Cons x xs)
  then show ?case
  proof (cases xs)
    case Nil
    with Cons show ?thesis by (subst chain_last.simps) auto
  next
    case (Cons y ys)
    with Cons.prems have "nxt ! (x - 1) \<noteq> 0" by auto
    with Cons.prems Cons Cons.IH [of x "nxt ! (x - 1)"] show ?thesis
      by (subst chain_last.simps) auto
  qed
qed simp


section \<open>The cache as a directory of names\<close>

text \<open>
  \<open>represents uc D\<close>: the chains of the cache hold exactly the numbers of the directory \<open>D\<close>, each
  in the chain of its name.
\<close>

definition good_name :: "string \<Rightarrow> bool" where
  \<comment> \<open>the memory holds a string of two characters or more that the hash accepts\<close>
  "good_name s \<longleftrightarrow> NUL \<in> set s \<and> 2 \<le> length (cstr s) \<and> hash_ref s \<noteq> None"

definition linked :: "ucache \<Rightarrow> (int \<Rightarrow> nat list) \<Rightarrow> (nat \<Rightarrow> string option) \<Rightarrow> bool" where
  "linked uc L D \<longleftrightarrow>
     length (uc_next uc) = length (uc_userid uc) \<and> length (uc_prev uc) = length (uc_userid uc)
     \<and> (\<forall>b\<in>set (uc_userid uc). length b = IDLEN + 1)
     \<and> (\<forall>h. lseg (uc_next uc) (uc_prev uc) 0 (uc_hash uc h) (L h) 0 \<and> distinct (L h))
     \<and> (\<forall>h h'. h \<noteq> h' \<longrightarrow> set (L h) \<inter> set (L h') = {})
     \<and> (\<forall>h num. num \<in> set (L h) \<longrightarrow> good_name (uc_userid uc ! (num - 1))
          \<and> hash_ref (uc_userid uc ! (num - 1)) = Some h
          \<and> D num = Some (cstr (uc_userid uc ! (num - 1))))
     \<and> (\<forall>num. D num \<noteq> None \<longrightarrow> (\<exists>h. num \<in> set (L h)))
     \<and> (\<forall>num. 0 < num \<longrightarrow> num \<le> length (uc_userid uc) \<longrightarrow> D num = None \<longrightarrow>
          uc_next uc ! (num - 1) = 0 \<and> uc_prev uc ! (num - 1) = 0)"

definition represents :: "ucache \<Rightarrow> (nat \<Rightarrow> string option) \<Rightarrow> bool" where
  "represents uc D \<longleftrightarrow> (\<exists>L. linked uc L D)"

lemma cstr_split: "NUL \<in> set s \<Longrightarrow> \<exists>r. s = cstr s @ NUL # r"
  by (induction s) (auto simp: cstr_def)

lemma hash_ref_cstr:
  assumes "NUL \<in> set s" "2 \<le> length (cstr s)"
  shows "hash_ref s = hash_ref (cstr s @ [NUL])"
proof -
  obtain r where s: "s = cstr s @ NUL # r" using cstr_split [OF assms(1)] by blast
  obtain a b t where ab: "cstr s = a # b # t" using assms(2) by (metis Suc_le_length_iff numeral_2_eq_2)
  have "NUL \<notin> set t" using NUL_notin_cstr [of s] by (simp add: ab)
  then have "hash_ref (a # b # t @ NUL # r) = hash_ref (a # b # t @ [NUL])"
    by (simp add: hash_ref_def uhashkey_def)
  moreover have "s = a # b # t @ NUL # r" using s ab by simp
  ultimately have "hash_ref s = hash_ref (a # b # t @ [NUL])" by simp
  then show ?thesis by (simp only: ab append_Cons)
qed

lemma letter_index_tolower: "letter_index (tolower c) = letter_index c"
  by (auto simp: letter_index_def isupper_def islower_def byte_tolower)

lemma hash_ref_case:
  assumes "map tolower s = map tolower t" "2 \<le> length s" "NUL \<notin> set s" "NUL \<notin> set t"
  shows "hash_ref (s @ [NUL]) = hash_ref (t @ [NUL])"
proof -
  obtain a b u where s: "s = a # b # u" using assms(2) by (metis Suc_le_length_iff numeral_2_eq_2)
  from assms(1) obtain a' b' u' where t: "t = a' # b' # u'" by (auto simp: s)
  have ab: "tolower a = tolower a'" "tolower b = tolower b'" "map tolower u = map tolower u'"
    using assms(1) by (simp_all add: s t)
  have "letter_index a = letter_index a'" "letter_index b = letter_index b'"
    using ab letter_index_tolower by metis+
  moreover have "map (\<lambda>c. schar (toupper c)) u = map (\<lambda>c. schar (toupper c)) u'"
  proof -
    have "map (schar \<circ> toupper) (map tolower u) = map (schar \<circ> toupper) (map tolower u')" using ab by simp
    then show ?thesis by (simp add: toupper_tolower comp_def)
  qed
  ultimately show ?thesis using assms(3,4) by (simp add: hash_ref_def uhashkey_def s t)
qed

lemma stored_name:
  assumes "length b = IDLEN + 1" "NUL \<notin> set t"
  shows "length (fst (strlcpy b t (IDLEN + 1))) = IDLEN + 1" "NUL \<in> set (fst (strlcpy b t (IDLEN + 1)))"
    "cstr (fst (strlcpy b t (IDLEN + 1))) = take IDLEN t"
  using assms strlcpy_eq [of "IDLEN + 1" b t] length_strlcpy [of "IDLEN + 1" b t]
  by (simp_all add: NUL_notin_take)

lemma linkedD:
  assumes "linked uc L D"
  shows "length (uc_next uc) = length (uc_userid uc)" "length (uc_prev uc) = length (uc_userid uc)"
    "\<And>b. b \<in> set (uc_userid uc) \<Longrightarrow> length b = IDLEN + 1"
    "\<And>h. lseg (uc_next uc) (uc_prev uc) 0 (uc_hash uc h) (L h) 0" "\<And>h. distinct (L h)"
    "\<And>h h'. h \<noteq> h' \<Longrightarrow> set (L h) \<inter> set (L h') = {}"
    "\<And>h num. num \<in> set (L h) \<Longrightarrow> good_name (uc_userid uc ! (num - 1))
          \<and> hash_ref (uc_userid uc ! (num - 1)) = Some h
          \<and> D num = Some (cstr (uc_userid uc ! (num - 1)))"
    "\<And>num. D num \<noteq> None \<Longrightarrow> \<exists>h. num \<in> set (L h)"
    "\<And>num. 0 < num \<Longrightarrow> num \<le> length (uc_userid uc) \<Longrightarrow> D num = None \<Longrightarrow>
          uc_next uc ! (num - 1) = 0 \<and> uc_prev uc ! (num - 1) = 0"
  using assms unfolding linked_def by blast+

lemma linked_num:
  assumes "linked uc L D" "num \<in> set (L h)"
  shows "0 < num" "num \<le> length (uc_userid uc)"
  using lseg_range [OF linkedD(4) [OF assms(1)] assms(2)] linkedD(1) [OF assms(1)] by auto

lemma walk_linked:
  "linked uc L D \<Longrightarrow> walk (uc_next uc) P (uc_hash uc h) = Some (case find P (L h) of None \<Rightarrow> 0 | Some x \<Rightarrow> x)"
  by (rule walk_lseg) (rule linkedD(4))

lemma matching_hash:
  assumes "good_name s" "NUL \<in> set q" "mem_ncasecmp (IDLEN + 1) q s" "length (cstr s) \<le> IDLEN"
  shows "map tolower (cstr q) = map tolower (cstr s)" "hash_ref q = hash_ref s"
proof -
  have eq: "map tolower (take (IDLEN + 1) (cstr q)) = map tolower (cstr s)"
    using assms(3,4) by (simp add: mem_ncasecmp_def)
  from arg_cong [OF this, of length] have "length (cstr q) \<le> IDLEN" using assms(4) by simp
  with eq show low: "map tolower (cstr q) = map tolower (cstr s)" by simp
  have len: "length (cstr q) = length (cstr s)" using arg_cong [OF low, of length] by simp
  show "hash_ref q = hash_ref s"
    using hash_ref_case [OF low] assms(1,2) hash_ref_cstr [of s] hash_ref_cstr [of q] len
    by (simp add: good_name_def)
qed

lemma linked_length:
  assumes "linked uc L D" "num \<in> set (L h)"
  shows "length (cstr (uc_userid uc ! (num - 1))) \<le> IDLEN"
proof -
  let ?s = "uc_userid uc ! (num - 1)"
  have "NUL \<in> set ?s" using linkedD(7) [OF assms] by (simp add: good_name_def)
  then obtain r where "?s = cstr ?s @ NUL # r" using cstr_split by blast
  then have "length ?s = length (cstr ?s) + Suc (length r)" by (metis length_Cons length_append)
  moreover have "?s \<in> set (uc_userid uc)" using linked_num [OF assms] by simp
  then have "length ?s = IDLEN + 1" by (rule linkedD(3) [OF assms(1)])
  ultimately show ?thesis by linarith
qed

definition same_id :: "string \<Rightarrow> string \<Rightarrow> bool" where
  "same_id q s \<longleftrightarrow> map tolower q = map tolower s"

lemma searchuser_linked:
  assumes l: "linked uc L D" and q: "good_name q"
  shows "\<exists>n. searchuser True q uc = Some n
     \<and> (if n = 0 then \<forall>num s. D num = Some s \<longrightarrow> \<not> same_id (cstr q) s
        else \<exists>s. D n = Some s \<and> same_id (cstr q) s)"
proof -
  let ?P = "\<lambda>i. mem_ncasecmp (IDLEN + 1) q (uc_userid uc ! (i - 1))"
  obtain h where h: "hash_ref q = Some h" and nul: "NUL \<in> set q" using q by (auto simp: good_name_def)
  have run: "searchuser True q uc = Some (case find ?P (L h) of None \<Rightarrow> 0 | Some x \<Rightarrow> x)"
    using walk_linked [OF l] h by (simp add: searchuser_def)
  have match: "?P num \<longleftrightarrow> same_id (cstr q) (cstr (uc_userid uc ! (num - 1)))"
    if "num \<in> set (L h')" for num h'
    using matching_hash(1) [of "uc_userid uc ! (num - 1)" q] linkedD(7) [OF l that] nul linked_length [OF l that]
    by (auto simp: same_id_def mem_ncasecmp_def take_map [symmetric])
  show ?thesis
  proof (cases "find ?P (L h)")
    case None
    have "\<not> same_id (cstr q) s" if D: "D num = Some s" for num s
    proof
      assume same: "same_id (cstr q) s"
      obtain h' where h': "num \<in> set (L h')" using linkedD(8) [OF l, of num] D by auto
      note f = linkedD(7) [OF l h']
      from same f D have P: "?P num" using match [OF h'] by simp
      have "hash_ref q = hash_ref (uc_userid uc ! (num - 1))"
        using matching_hash(2) [OF _ nul P linked_length [OF l h']] f by blast
      with f h have "h' = h" by simp
      with h' P None show False by (auto simp: find_None_iff)
    qed
    with run None show ?thesis by auto
  next
    case (Some n)
    then have n: "n \<in> set (L h)" "?P n" by (auto simp: find_Some_iff)
    with run Some match [OF n(1)] linked_num [OF l n(1)] linkedD(7) [OF l n(1)] show ?thesis by auto
  qed
qed


section \<open>The operations on the directory\<close>

lemma stored_good:
  assumes "length b = IDLEN + 1" "good_name userid" "length (cstr userid) \<le> IDLEN"
    and "b' = fst (strlcpy b (cstr userid) (IDLEN + 1))"
  shows "length b' = IDLEN + 1" "cstr b' = cstr userid" "good_name b'" "hash_ref b' = hash_ref userid"
proof -
  note st = stored_name [OF assms(1) NUL_notin_cstr [of userid], folded assms(4)]
  show "length b' = IDLEN + 1" by (rule st)
  show c: "cstr b' = cstr userid" using st(3) assms(3) by simp
  show "hash_ref b' = hash_ref userid"
    using hash_ref_cstr [of b'] hash_ref_cstr [of userid] st(2) assms(2) by (simp add: c good_name_def)
  then show "good_name b'" using st(2) assms(2) by (simp add: good_name_def c)
qed

lemma hash_0_iff: "linked uc L D \<Longrightarrow> uc_hash uc h = 0 \<longleftrightarrow> L h = []"
  using linkedD(4) [of uc L D h] by (cases "L h") auto

lemma linked_D_None:
  assumes "linked uc L D" "D num = None"
  shows "num \<notin> set (L h)"
  using linkedD(7) [OF assms(1), of num h] assms(2) by auto

lemma linked_append:
  assumes l: "linked uc L D" and num: "0 < num" "num \<le> length (uc_userid uc)" "D num = None"
    and id: "good_name userid" "length (cstr userid) \<le> IDLEN" "hash_ref userid = Some h"
    and uc': "uc_userid uc' = (uc_userid uc)[num - 1 :=
        fst (strlcpy (uc_userid uc ! (num - 1)) (cstr userid) (IDLEN + 1))]"
      "uc_next uc' = (if L h = [] then (uc_next uc)[num - 1 := 0] else (uc_next uc)[last (L h) - 1 := num, num - 1 := 0])"
      "uc_prev uc' = (uc_prev uc)[num - 1 := last (0 # L h)]"
      "uc_hash uc' = (if L h = [] then (uc_hash uc)(h := num) else uc_hash uc)"
  shows "linked uc' (L(h := L h @ [num])) (D(num \<mapsto> cstr userid))"
proof -
  let ?L = "L(h := L h @ [num])"
  note free = linked_D_None [OF l num(3)]
  have b: "length (uc_userid uc ! (num - 1)) = IDLEN + 1" using linkedD(3) [OF l] num by simp
  note st = stored_good [OF b id(1,2) refl]
  have len: "length (uc_next uc') = length (uc_userid uc')" "length (uc_prev uc') = length (uc_userid uc')"
      "length (uc_userid uc') = length (uc_userid uc)"
    using linkedD(1,2) [OF l] by (simp_all add: uc')
  have nl: "num \<le> length (uc_next uc)" "length (uc_prev uc) = length (uc_next uc)"
    using num(2) linkedD(1,2) [OF l] by auto
  have seg: "lseg (uc_next uc') (uc_prev uc') 0 (uc_hash uc' h') (?L h') 0" for h'
  proof (cases "h' = h")
    case True
    show ?thesis
    proof (cases "L h = []")
      case True with \<open>h' = h\<close> num nl show ?thesis by (simp add: uc')
    next
      case False
      show ?thesis
        using lseg_snoc(1) [OF linkedD(4) [OF l] free linkedD(5) [OF l] num(1) nl False] False \<open>h' = h\<close>
        by (simp add: uc')
    qed
  next
    case False
    have "lseg (uc_next uc) (uc_prev uc) 0 (uc_hash uc h') (L h') 0" by (rule linkedD(4) [OF l])
    moreover have "last (L h) \<notin> set (L h') \<and> 0 < last (L h)" if "L h \<noteq> []"
      using linkedD(6) [OF l False] that linked_num(1) [OF l, of "last (L h)" h] last_in_set [OF that] by blast
    ultimately show ?thesis
      using False num(1) free [of h'] by (auto simp: uc' simp del: One_nat_def intro!: lseg_upd)
  qed
  have dis: "set (?L h1) \<inter> set (?L h2) = {}" if "h1 \<noteq> h2" for h1 h2
    using linkedD(6) [OF l that] free that by auto
  have same: "uc_userid uc' ! (k - 1) = uc_userid uc ! (k - 1)" if "0 < k" "k \<noteq> num" for k
    using that num(1) upd_pred [of k num] by (simp add: uc')
  have new: "uc_userid uc' ! (num - 1) = fst (strlcpy (uc_userid uc ! (num - 1)) (cstr userid) (IDLEN + 1))"
    using num by (simp add: uc')
  have nm: "good_name (uc_userid uc' ! (k - 1)) \<and> hash_ref (uc_userid uc' ! (k - 1)) = Some h'
      \<and> (D(num \<mapsto> cstr userid)) k = Some (cstr (uc_userid uc' ! (k - 1)))" if "k \<in> set (?L h')" for k h'
  proof (cases "k = num")
    case True
    with that free have "h' = h" by (auto split: if_splits)
    with True st id(3) show ?thesis by (simp add: new del: One_nat_def)
  next
    case False
    with that have k: "k \<in> set (L h')" by (auto split: if_splits)
    show ?thesis using linkedD(7) [OF l k] same [OF linked_num(1) [OF l k] False] False by simp
  qed
  have in_L: "\<exists>h'. k \<in> set (?L h')" if "(D(num \<mapsto> cstr userid)) k \<noteq> None" for k
  proof (cases "k = num")
    case True then show ?thesis by (intro exI [of _ h]) simp
  next
    case False
    with that linkedD(8) [OF l, of k] obtain h' where "k \<in> set (L h')" by auto
    then show ?thesis by (intro exI [of _ h']) auto
  qed
  have zero: "uc_next uc' ! (k - 1) = 0 \<and> uc_prev uc' ! (k - 1) = 0"
    if k: "0 < k" "k \<le> length (uc_userid uc')" "(D(num \<mapsto> cstr userid)) k = None" for k
  proof -
    have kn: "k \<noteq> num" "D k = None" using k(3) by (auto split: if_splits)
    have "L h \<noteq> [] \<Longrightarrow> k \<noteq> last (L h)" using linked_D_None [OF l kn(2), of h] by (metis last_in_set)
    moreover have "L h \<noteq> [] \<Longrightarrow> 0 < last (L h)" using linked_num(1) [OF l, of "last (L h)" h] by simp
    ultimately show ?thesis
      using linkedD(9) [OF l k(1) _ kn(2)] k(1,2) kn(1) num(1)
      by (simp add: uc' upd_pred del: One_nat_def)
  qed
  have "\<forall>b\<in>set (uc_userid uc'). length b = IDLEN + 1"
    using linkedD(3) [OF l] st(1) set_update_subset_insert [of "uc_userid uc" "num - 1"] by (auto simp: uc')
  moreover have "distinct (?L h')" for h' using linkedD(5) [OF l] free by simp
  ultimately show ?thesis unfolding linked_def using len seg dis nm in_L zero by blast
qed


lemma linked_remove:
  assumes l: "linked uc L D" and mem: "num \<in> set (L h)"
    and n: "n = uc_next uc ! (num - 1)" and p: "p = uc_prev uc ! (num - 1)"
    and uc': "uc_userid uc' = (uc_userid uc)[num - 1 := (uc_userid uc ! (num - 1))[0 := NUL]]"
      "uc_next uc' = (if p \<noteq> 0 then (uc_next uc)[p - 1 := n] else uc_next uc)[num - 1 := 0]"
      "uc_prev uc' = (if n \<noteq> 0 then (uc_prev uc)[n - 1 := p] else uc_prev uc)[num - 1 := 0]"
      "uc_hash uc' = (if p = 0 then (uc_hash uc)(h := n) else uc_hash uc)"
  shows "linked uc' (L(h := remove1 num (L h))) (D(num := None))"
proof -
  let ?L = "L(h := remove1 num (L h))"
  let ?nx = "if p \<noteq> 0 then (uc_next uc)[p - 1 := n] else uc_next uc"
  let ?pv = "if n \<noteq> 0 then (uc_prev uc)[n - 1 := p] else uc_prev uc"
  note num = linked_num [OF l mem]
  obtain xs ys where Lh: "L h = xs @ num # ys" using split_list [OF mem] by blast
  note d = linkedD(5) [OF l, of h, unfolded Lh]
  have rem: "remove1 num (L h) = xs @ ys" using d by (simp add: Lh remove1_append)
  have len: "length (uc_next uc') = length (uc_userid uc')" "length (uc_prev uc') = length (uc_userid uc')"
      "length (uc_userid uc') = length (uc_userid uc)"
    using linkedD(1,2) [OF l] by (simp_all add: uc')
  have pl: "length (uc_prev uc) = length (uc_next uc)" using linkedD(1,2) [OF l] by simp
  note rm = lseg_remove [OF linkedD(4) [OF l, of h, unfolded Lh] d pl n p refl refl]
  have p_in: "p \<noteq> 0 \<Longrightarrow> p \<in> set xs" using rm(1) by (cases xs rule: rev_cases) auto
  have n_in: "n \<noteq> 0 \<Longrightarrow> n \<in> set ys" using rm(2) by (cases ys) auto
  have away: "k \<noteq> p \<and> k \<noteq> n \<and> k \<noteq> num" if "k \<in> set (L h')" "h' \<noteq> h" for k h'
    using linkedD(6) [OF l that(2)] that(1) p_in n_in linked_num(1) [OF l that(1)] mem
    by (auto simp: Lh)
  have seg: "lseg (uc_next uc') (uc_prev uc') 0 (uc_hash uc' h') (?L h') 0" for h'
  proof (cases "h' = h")
    case True
    have "lseg (?nx[num - 1 := 0]) (?pv[num - 1 := 0]) 0 (if p = 0 then n else uc_hash uc h) (xs @ ys) 0"
      using lseg_upd(2) [OF lseg_upd(1) [OF rm(3), of num 0], of num 0] d num(1) by simp
    with True show ?thesis by (simp add: rem uc' split: if_splits)
  next
    case False
    have seg0: "lseg (uc_next uc) (uc_prev uc) 0 (uc_hash uc h') (L h') 0" by (rule linkedD(4) [OF l])
    have "lseg ?nx ?pv 0 (uc_hash uc h') (L h') 0"
      using seg0 away [OF _ False] by (auto simp del: One_nat_def intro!: lseg_upd)
    then have "lseg (?nx[num - 1 := 0]) (?pv[num - 1 := 0]) 0 (uc_hash uc h') (L h') 0"
      using num(1) away [OF _ False] by (intro lseg_upd) blast+
    moreover have "uc_hash uc' h' = uc_hash uc h'" "?L h' = L h'" using False by (simp_all add: uc')
    ultimately show ?thesis by (simp only: uc'(2,3))
  qed
  have sub: "set (?L h') \<subseteq> set (L h')" for h' using set_remove1_subset [of num "L h"] by auto
  have not_num: "k \<noteq> num" if "k \<in> set (?L h')" for k h'
    using that linkedD(5) [OF l, of h] linkedD(6) [OF l, of h' h] mem by (auto split: if_splits)
  have dis: "set (?L h1) \<inter> set (?L h2) = {}" if "h1 \<noteq> h2" for h1 h2
    using linkedD(6) [OF l that] sub [of h1] sub [of h2] by blast
  have nm: "good_name (uc_userid uc' ! (k - 1)) \<and> hash_ref (uc_userid uc' ! (k - 1)) = Some h'
      \<and> (D(num := None)) k = Some (cstr (uc_userid uc' ! (k - 1)))" if k: "k \<in> set (?L h')" for k h'
  proof -
    have kL: "k \<in> set (L h')" using k sub by blast
    have "uc_userid uc' ! (k - 1) = uc_userid uc ! (k - 1)"
      using upd_pred [OF linked_num(1) [OF l kL] num(1) not_num [OF k]] by (simp add: uc')
    with linkedD(7) [OF l kL] not_num [OF k] show ?thesis by simp
  qed
  have in_L: "\<exists>h'. k \<in> set (?L h')" if "(D(num := None)) k \<noteq> None" for k
  proof -
    have kn: "k \<noteq> num" using that by (auto split: if_splits)
    with that linkedD(8) [OF l, of k] obtain h' where "k \<in> set (L h')" by auto
    with kn show ?thesis by (intro exI [of _ h']) auto
  qed
  have zero: "uc_next uc' ! (k - 1) = 0 \<and> uc_prev uc' ! (k - 1) = 0"
    if k: "0 < k" "k \<le> length (uc_userid uc')" "(D(num := None)) k = None" for k
  proof (cases "k = num")
    case True
    with num len linkedD(1,2) [OF l] show ?thesis by (auto simp: uc')
  next
    case False
    with k(3) have Dk: "D k = None" by simp
    then have "k \<noteq> p \<and> k \<noteq> n"
      using linked_D_None [OF l Dk, of h] p_in n_in k(1) by (auto simp: Lh)
    then have kk: "p \<noteq> 0 \<Longrightarrow> (uc_next uc)[p - 1 := n] ! (k - 1) = uc_next uc ! (k - 1)"
        "n \<noteq> 0 \<Longrightarrow> (uc_prev uc)[n - 1 := p] ! (k - 1) = uc_prev uc ! (k - 1)"
        "(zs[num - 1 := 0]) ! (k - 1) = zs ! (k - 1)" for zs :: "nat list"
      using k(1) num(1) False by (auto intro!: upd_pred)
    show ?thesis
      using linkedD(9) [OF l k(1) _ Dk] k(2) len(3) kk
      by (cases "p = 0"; cases "n = 0") (simp_all add: uc' del: One_nat_def)
  qed
  have b: "length ((uc_userid uc ! (num - 1))[0 := NUL]) = IDLEN + 1" using linkedD(3) [OF l] num by simp
  have "\<forall>b\<in>set (uc_userid uc'). length b = IDLEN + 1"
    unfolding uc' using linkedD(3) [OF l] b set_update_subset_insert by (metis insertE subsetD)
  moreover have "distinct (?L h')" for h' using linkedD(5) [OF l] by simp
  ultimately show ?thesis unfolding linked_def using len seg dis nm in_L zero by blast
qed

lemma linked_del:
  assumes l: "linked uc L D" and mem: "num \<in> set (L h)" and h: "hash_ref userid = Some h"
  shows "\<exists>uc'. del_uidshm num userid uc = Some (uc', True)
    \<and> linked uc' (L(h := remove1 num (L h))) (D(num := None)) \<and> uc_passwd uc' = uc_passwd uc
    \<and> uc_status uc' = uc_status uc \<and> length (uc_userid uc') = length (uc_userid uc)"
proof -
  note num = linked_num [OF l mem]
  have "find ((=) num) (L h) = Some num"
    using mem find_Some_D [of "(=) num" "L h"] by (cases "find ((=) num) (L h)") (auto simp: find_None_iff)
  then have w: "walk (uc_next uc) ((=) num) (uc_hash uc h) = Some num"
    using walk_linked [OF l, of "(=) num" h] by simp
  have run: "\<exists>uc'. del_uidshm num userid uc = Some (uc', True)
    \<and> uc_userid uc' = (uc_userid uc)[num - 1 := (uc_userid uc ! (num - 1))[0 := NUL]]
    \<and> uc_next uc' = (if uc_prev uc ! (num - 1) \<noteq> 0 then (uc_next uc)[uc_prev uc ! (num - 1) - 1 :=
         uc_next uc ! (num - 1)] else uc_next uc)[num - 1 := 0]
    \<and> uc_prev uc' = (if uc_next uc ! (num - 1) \<noteq> 0 then (uc_prev uc)[uc_next uc ! (num - 1) - 1 :=
         uc_prev uc ! (num - 1)] else uc_prev uc)[num - 1 := 0]
    \<and> uc_hash uc' = (if uc_prev uc ! (num - 1) = 0 then (uc_hash uc)(h := uc_next uc ! (num - 1)) else uc_hash uc)
    \<and> uc_passwd uc' = uc_passwd uc \<and> uc_status uc' = uc_status uc"
    using num h w by (simp add: del_uidshm_def Let_def)
  then obtain uc' where del: "del_uidshm num userid uc = Some (uc', True)"
    and eqs: "uc_userid uc' = (uc_userid uc)[num - 1 := (uc_userid uc ! (num - 1))[0 := NUL]]"
      "uc_next uc' = (if uc_prev uc ! (num - 1) \<noteq> 0 then (uc_next uc)[uc_prev uc ! (num - 1) - 1 :=
         uc_next uc ! (num - 1)] else uc_next uc)[num - 1 := 0]"
      "uc_prev uc' = (if uc_next uc ! (num - 1) \<noteq> 0 then (uc_prev uc)[uc_next uc ! (num - 1) - 1 :=
         uc_prev uc ! (num - 1)] else uc_prev uc)[num - 1 := 0]"
      "uc_hash uc' = (if uc_prev uc ! (num - 1) = 0 then (uc_hash uc)(h := uc_next uc ! (num - 1)) else uc_hash uc)"
    and rest: "uc_passwd uc' = uc_passwd uc" "uc_status uc' = uc_status uc"
    by blast
  from del rest linked_remove [OF l mem refl refl eqs] show ?thesis by (auto simp: eqs(1))
qed


lemma setuserid_linked:
  assumes l: "linked uc L D" and num: "0 < num" "num \<le> length (uc_userid uc)" "D num = None"
    and id: "good_name userid" "length (cstr userid) \<le> IDLEN" "hash_ref userid = Some h"
    and new: "cstr userid \<noteq> ''new''"
  shows "\<exists>uc'. setuserid num userid uc = Some uc' \<and> linked uc' (L(h := L h @ [num])) (D(num \<mapsto> cstr userid))
    \<and> uc_passwd uc' = uc_passwd uc \<and> uc_status uc' = uc_status uc
    \<and> length (uc_userid uc') = length (uc_userid uc)"
proof -
  have last: "L h \<noteq> [] \<Longrightarrow> chain_last (uc_next uc) (uc_hash uc h) = Some (last (L h))"
    by (rule chain_last_lseg [OF linkedD(4) [OF l]])
  note set = num id(3) new hash_0_iff [OF l, of h] last
  have "\<exists>uc'. setuserid num userid uc = Some uc' \<and>
    uc_userid uc' = (uc_userid uc)[num - 1 := fst (strlcpy (uc_userid uc ! (num - 1)) (cstr userid) (IDLEN + 1))] \<and>
    uc_next uc' = (if L h = [] then (uc_next uc)[num - 1 := 0] else (uc_next uc)[last (L h) - 1 := num, num - 1 := 0]) \<and>
    uc_prev uc' = (uc_prev uc)[num - 1 := last (0 # L h)] \<and>
    uc_hash uc' = (if L h = [] then (uc_hash uc)(h := num) else uc_hash uc) \<and>
    uc_passwd uc' = uc_passwd uc \<and> uc_status uc' = uc_status uc"
    using set by (simp add: setuserid_def Let_def)
  then obtain uc' where run: "setuserid num userid uc = Some uc'" and eqs:
    "uc_userid uc' = (uc_userid uc)[num - 1 := fst (strlcpy (uc_userid uc ! (num - 1)) (cstr userid) (IDLEN + 1))]"
    "uc_next uc' = (if L h = [] then (uc_next uc)[num - 1 := 0] else (uc_next uc)[last (L h) - 1 := num, num - 1 := 0])"
    "uc_prev uc' = (uc_prev uc)[num - 1 := last (0 # L h)]"
    "uc_hash uc' = (if L h = [] then (uc_hash uc)(h := num) else uc_hash uc)"
    and rest: "uc_passwd uc' = uc_passwd uc" "uc_status uc' = uc_status uc" by blast
  from run rest linked_append [OF l num id eqs] show ?thesis by (auto simp: eqs(1))
qed

lemma fillucache_linked:
  assumes l: "linked uc L D" and i: "i < length (uc_userid uc)" "D (Suc i) = None"
    and id: "good_name (pw_userid r)" "length (cstr (pw_userid r)) \<le> IDLEN" "hash_ref (pw_userid r) = Some h"
  shows "\<exists>uc'. fillucache r i uc = Some (uc', True)
    \<and> linked uc' (L(h := L h @ [Suc i])) (D(Suc i \<mapsto> cstr (pw_userid r)))
    \<and> uc_passwd uc' = uc_passwd uc \<and> length (uc_userid uc') = length (uc_userid uc)"
proof -
  have last: "L h \<noteq> [] \<Longrightarrow> chain_last (uc_next uc) (uc_hash uc h) = Some (last (L h))"
    by (rule chain_last_lseg [OF linkedD(4) [OF l]])
  have ne: "cstr (pw_userid r) \<noteq> []" using id(1) by (auto simp: good_name_def)
  have z: "uc_next uc ! i = 0" "uc_prev uc ! i = 0"
    using linkedD(9) [OF l, of "Suc i"] i by auto
  have lh: "L h \<noteq> [] \<Longrightarrow> last (L h) - 1 \<noteq> i"
    using linked_D_None [OF l i(2), of h] linked_num(1) [OF l, of "last (L h)" h] last_in_set [of "L h"]
    by (metis Suc_pred' diff_Suc_1 One_nat_def)
  have same: "(uc_next uc)[i := 0] = uc_next uc" "(uc_prev uc)[i := 0] = uc_prev uc"
    "L h \<noteq> [] \<Longrightarrow> (uc_next uc)[last (L h) - 1 := Suc i, i := 0] = (uc_next uc)[last (L h) - 1 := Suc i]"
    using z lh list_update_id [of "uc_next uc" i] list_update_id [of "uc_prev uc" i]
    by (simp_all add: list_update_swap)
  have "\<exists>uc'. fillucache r i uc = Some (uc', True) \<and>
    uc_userid uc' = (uc_userid uc)[Suc i - 1 := fst (strlcpy (uc_userid uc ! (Suc i - 1)) (cstr (pw_userid r)) (IDLEN + 1))] \<and>
    uc_next uc' = (if L h = [] then (uc_next uc)[Suc i - 1 := 0] else (uc_next uc)[last (L h) - 1 := Suc i, Suc i - 1 := 0]) \<and>
    uc_prev uc' = (uc_prev uc)[Suc i - 1 := last (0 # L h)] \<and>
    uc_hash uc' = (if L h = [] then (uc_hash uc)(h := Suc i) else uc_hash uc) \<and>
    uc_passwd uc' = uc_passwd uc"
    using i(1) id(3) ne hash_0_iff [OF l, of h] last same by (simp add: fillucache_def Let_def)
  then obtain uc' where run: "fillucache r i uc = Some (uc', True)" and eqs:
    "uc_userid uc' = (uc_userid uc)[Suc i - 1 := fst (strlcpy (uc_userid uc ! (Suc i - 1)) (cstr (pw_userid r)) (IDLEN + 1))]"
    "uc_next uc' = (if L h = [] then (uc_next uc)[Suc i - 1 := 0] else (uc_next uc)[last (L h) - 1 := Suc i, Suc i - 1 := 0])"
    "uc_prev uc' = (uc_prev uc)[Suc i - 1 := last (0 # L h)]"
    "uc_hash uc' = (if L h = [] then (uc_hash uc)(h := Suc i) else uc_hash uc)"
    and rest: "uc_passwd uc' = uc_passwd uc" by blast
  have "0 < Suc i" "Suc i \<le> length (uc_userid uc)" using i by auto
  from run rest linked_append [OF l this i(2) id eqs] show ?thesis by (auto simp: eqs(1))
qed

lemma fillucache_empty:
  assumes l: "linked uc L D" and i: "i < length (uc_userid uc)" "D (Suc i) = None"
    and id: "cstr (pw_userid r) = []"
  shows "\<exists>uc'. fillucache r i uc = Some (uc', False) \<and> linked uc' L D
    \<and> uc_passwd uc' = uc_passwd uc \<and> length (uc_userid uc') = length (uc_userid uc)"
proof -
  let ?b = "fst (strlcpy (uc_userid uc ! i) (cstr (pw_userid r)) (IDLEN + 1))"
  let ?uc = "uc\<lparr>uc_userid := (uc_userid uc)[i := ?b]\<rparr>"
  have b: "length ?b = IDLEN + 1"
    using linkedD(3) [OF l] i length_strlcpy [of "IDLEN + 1" "uc_userid uc ! i"] by simp
  have other: "uc_userid ?uc ! (k - 1) = uc_userid uc ! (k - 1)" if "k \<in> set (L h)" for k h
  proof -
    have "k \<noteq> Suc i" "0 < k" using linked_D_None [OF l i(2)] linked_num(1) [OF l that] that by auto
    then have "k - 1 \<noteq> i" by linarith
    then show ?thesis by simp
  qed
  have nm: "good_name (uc_userid ?uc ! (k - 1)) \<and> hash_ref (uc_userid ?uc ! (k - 1)) = Some h
      \<and> D k = Some (cstr (uc_userid ?uc ! (k - 1)))" if "k \<in> set (L h)" for k h
    using linkedD(7) [OF l that] other [OF that] by presburger
  have len: "\<forall>b\<in>set (uc_userid ?uc). length b = IDLEN + 1"
    using linkedD(3) [OF l] b set_update_subset_insert [of "uc_userid uc" i ?b] by auto
  have "linked ?uc L D" unfolding linked_def
  proof (intro conjI allI impI)
    show "length (uc_next ?uc) = length (uc_userid ?uc)" "length (uc_prev ?uc) = length (uc_userid ?uc)"
      using linkedD(1,2) [OF l] by simp_all
    show "\<forall>b\<in>set (uc_userid ?uc). length b = IDLEN + 1" by (rule len)
    show "lseg (uc_next ?uc) (uc_prev ?uc) 0 (uc_hash ?uc h) (L h) 0" for h
      using linkedD(4) [OF l] by simp
    show "uc_next ?uc ! (k - 1) = 0" "uc_prev ?uc ! (k - 1) = 0"
      if "0 < k" "k \<le> length (uc_userid ?uc)" "D k = None" for k
      using linkedD(9) [OF l that(1) _ that(3)] that(2) by simp_all
  qed (use nm linkedD(5,6,8) [OF l] in blast)+
  moreover have "fillucache r i uc = Some (?uc, False)"
    using i(1) id by (simp add: fillucache_def)
  ultimately show ?thesis by auto
qed


lemma stored_length:
  assumes "linked uc L D" "D num = Some s"
  shows "0 < num" "num \<le> length (uc_userid uc)" "length s \<le> IDLEN"
    "good_name (uc_userid uc ! (num - 1))" "s = cstr (uc_userid uc ! (num - 1))"
proof -
  obtain h where h: "num \<in> set (L h)" using linkedD(8) [OF assms(1), of num] assms(2) by auto
  show "0 < num" "num \<le> length (uc_userid uc)" by (rule linked_num [OF assms(1) h])+
  have f: "good_name (uc_userid uc ! (num - 1)) \<and> s = cstr (uc_userid uc ! (num - 1))"
    using linkedD(7) [OF assms(1) h] assms(2) by simp
  then show "good_name (uc_userid uc ! (num - 1))" "s = cstr (uc_userid uc ! (num - 1))" by auto
  then show "length s \<le> IDLEN" using linked_length [OF assms(1) h] by simp
qed

definition record_ok :: "userec \<Rightarrow> bool" where
  "record_ok r \<longleftrightarrow> cstr (pw_userid r) = [] \<or> good_name (pw_userid r) \<and> length (cstr (pw_userid r)) \<le> IDLEN"

definition record_name :: "userec \<Rightarrow> string option" where
  "record_name r = (if cstr (pw_userid r) = [] then None else Some (cstr (pw_userid r)))"

definition directory_of :: "userec list \<Rightarrow> nat \<Rightarrow> string option" where
  \<comment> \<open>number \<open>k\<close> has the name of the record \<open>k - 1\<close>\<close>
  "directory_of recs num =
     (if 0 < num \<and> num \<le> length recs then record_name (recs ! (num - 1)) else None)"

lemma directory_of_snoc:
  "directory_of (recs @ [r]) = (directory_of recs)(Suc (length recs) := record_name r)"
  by (rule ext) (auto simp: directory_of_def nth_append)

definition last_filled :: "userec list \<Rightarrow> nat" where
  \<comment> \<open>the index of the last record with a name, 0 if there is none\<close>
  "last_filled recs = foldl (\<lambda>l i. if cstr (pw_userid (recs ! i)) \<noteq> [] then i else l) 0 [0..<length recs]"

lemma last_filled_snoc:
  "last_filled (recs @ [r]) = (if cstr (pw_userid r) \<noteq> [] then length recs else last_filled recs)"
proof -
  have "foldl (\<lambda>l i. if cstr (pw_userid ((recs @ [r]) ! i)) \<noteq> [] then i else l) 0 [0..<length recs] = last_filled recs"
    unfolding last_filled_def by (rule foldl_cong) (auto simp: nth_append)
  then show ?thesis by (simp add: last_filled_def)
qed

lemma fill_all_linked:
  assumes "linked uc L (directory_of done)" "length done + length recs = length (uc_userid uc)"
    "\<forall>r\<in>set recs. record_ok r"
  shows "\<exists>uc' L'. fill_all recs (length done) (last_filled done) uc = Some (uc', last_filled (done @ recs))
    \<and> linked uc' L' (directory_of (done @ recs)) \<and> uc_passwd uc' = uc_passwd uc
    \<and> length (uc_userid uc') = length (uc_userid uc)"
  using assms
proof (induction recs arbitrary: "done" uc L)
  case Nil
  then show ?case by (auto intro!: exI [of _ L])
next
  case (Cons r recs)
  have i: "length done < length (uc_userid uc)" "directory_of done (Suc (length done)) = None"
    using Cons.prems(2) by (simp_all add: directory_of_def)
  let ?lst = "last_filled (done @ [r])"
  have step: "\<exists>uc1 L1 b. fillucache r (length done) uc = Some (uc1, b)
      \<and> (if b then length done else last_filled done) = ?lst
      \<and> linked uc1 L1 (directory_of (done @ [r])) \<and> uc_passwd uc1 = uc_passwd uc
      \<and> length (uc_userid uc1) = length (uc_userid uc)"
  proof (cases "cstr (pw_userid r) = []")
    case True
    have "directory_of (done @ [r]) = directory_of done"
      using True i(2) by (auto simp: directory_of_snoc record_name_def)
    moreover from fillucache_empty [OF Cons.prems(1) i True] obtain uc1 where
      "fillucache r (length done) uc = Some (uc1, False)" "linked uc1 L (directory_of done)"
      "uc_passwd uc1 = uc_passwd uc" "length (uc_userid uc1) = length (uc_userid uc)" by blast
    ultimately show ?thesis using True
      by (intro exI [of _ uc1] exI [of _ L] exI [of _ False]) (simp add: last_filled_snoc)
  next
    case False
    then have g: "good_name (pw_userid r)" "length (cstr (pw_userid r)) \<le> IDLEN"
      using Cons.prems(3) by (auto simp: record_ok_def)
    then obtain h where h: "hash_ref (pw_userid r) = Some h" by (auto simp: good_name_def)
    have "directory_of (done @ [r]) = (directory_of done)(Suc (length done) \<mapsto> cstr (pw_userid r))"
      using False by (simp add: directory_of_snoc record_name_def)
    moreover from fillucache_linked [OF Cons.prems(1) i g h] obtain uc1 where
      "fillucache r (length done) uc = Some (uc1, True)"
      "linked uc1 (L(h := L h @ [Suc (length done)])) ((directory_of done)(Suc (length done) \<mapsto> cstr (pw_userid r)))"
      "uc_passwd uc1 = uc_passwd uc" "length (uc_userid uc1) = length (uc_userid uc)" by blast
    ultimately show ?thesis using False
      by (intro exI [of _ uc1] exI [of _ "L(h := L h @ [Suc (length done)])"] exI [of _ True])
        (simp add: last_filled_snoc)
  qed
  then obtain uc1 L1 b where s: "fillucache r (length done) uc = Some (uc1, b)"
      "(if b then length done else last_filled done) = ?lst"
      "linked uc1 L1 (directory_of (done @ [r]))" "uc_passwd uc1 = uc_passwd uc"
      "length (uc_userid uc1) = length (uc_userid uc)" by blast
  have "length (done @ [r]) + length recs = length (uc_userid uc1)" using Cons.prems(2) s(5) by simp
  from Cons.IH [OF s(3) this] Cons.prems(3) s show ?case by simp
qed

lemma linked_empty:
  assumes "length (uc_userid uc) = n" "\<forall>b\<in>set (uc_userid uc). length b = IDLEN + 1"
    "uc_hash uc = (\<lambda>_. 0)" "uc_next uc = replicate n 0" "uc_prev uc = replicate n 0"
  shows "linked uc (\<lambda>_. []) (directory_of [])"
  using assms by (auto simp: linked_def directory_of_def)

lemma load_ucache_linked:
  assumes "length recs = length (uc_userid uc)" "\<forall>r\<in>set recs. record_ok r"
  shows "\<exists>uc'. load_ucache True True True (Some recs) now uc = Some (Returns (uc', 0))
    \<and> represents uc' (directory_of recs) \<and> uc_passwd uc' = recs
    \<and> uc_number uc' = last_filled recs + 1 \<and> length (uc_userid uc') = length (uc_userid uc)"
proof -
  let ?n = "length (uc_userid uc)"
  let ?uc = "uc\<lparr>uc_passwd := recs, uc_userid := replicate ?n (replicate (IDLEN + 1) NUL),
     uc_hash := (\<lambda>_. 0), uc_next := replicate ?n 0, uc_prev := replicate ?n 0\<rparr>"
  have e: "linked ?uc (\<lambda>_. []) (directory_of [])" by (rule linked_empty [where n = ?n]) auto
  have z: "last_filled [] = 0" by (simp add: last_filled_def)
  have "length [] + length recs = length (uc_userid ?uc)" using assms(1) by simp
  from fill_all_linked [OF e this assms(2)] obtain uc1 L1 where
    run: "fill_all recs 0 0 ?uc = Some (uc1, last_filled recs)"
    and l: "linked uc1 L1 (directory_of recs)" "uc_passwd uc1 = recs" "length (uc_userid uc1) = ?n"
    unfolding list.size(3) z append_Nil by auto
  let ?r = "uc1\<lparr>uc_number := last_filled recs + 1, uc_uptime := now\<rparr>"
  have "linked ?r L1 (directory_of recs)" using l(1) by (simp add: linked_def)
  then show ?thesis
    using run l assms(1) by (intro exI [of _ ?r]) (auto simp: load_ucache_def represents_def Let_def)
qed


section \<open>The contract of a directory and its clients\<close>

text \<open>
  What the accounts code relies on: a table of names by number, with adding a name at a free
  number, removing the name of a number, and finding the number of a name.
\<close>

definition unique_by :: "(string \<Rightarrow> string \<Rightarrow> bool) \<Rightarrow> (nat \<Rightarrow> string option) \<Rightarrow> bool" where
  "unique_by same D \<longleftrightarrow> (\<forall>a b s t. D a = Some s \<longrightarrow> D b = Some t \<longrightarrow> same s t \<longrightarrow> a = b)"

locale name_directory =
  fixes rep :: "'s \<Rightarrow> (nat \<Rightarrow> string option) \<Rightarrow> bool"
    and slots :: "'s \<Rightarrow> nat"
    and query :: "string \<Rightarrow> bool"
    and storable :: "string \<Rightarrow> bool"
    and same :: "string \<Rightarrow> string \<Rightarrow> bool"
    and add :: "nat \<Rightarrow> string \<Rightarrow> 's \<Rightarrow> 's option"
    and del :: "nat \<Rightarrow> string \<Rightarrow> 's \<Rightarrow> ('s \<times> bool) option"
    and look :: "string \<Rightarrow> 's \<Rightarrow> nat option"
  assumes look_law: "rep s D \<Longrightarrow> query q \<Longrightarrow> \<exists>n. look q s = Some n
       \<and> (if n = 0 then \<forall>num t. D num = Some t \<longrightarrow> \<not> same (cstr q) t else \<exists>t. D n = Some t \<and> same (cstr q) t)"
    and add_law: "rep s D \<Longrightarrow> 0 < num \<Longrightarrow> num \<le> slots s \<Longrightarrow> D num = None \<Longrightarrow> storable name
       \<Longrightarrow> \<exists>s'. add num name s = Some s' \<and> rep s' (D(num \<mapsto> cstr name))"
    and del_law: "rep s D \<Longrightarrow> D num = Some t \<Longrightarrow> query name \<Longrightarrow> same (cstr name) t
       \<Longrightarrow> \<exists>s'. del num name s = Some (s', True) \<and> rep s' (D(num := None))"
    and num_law: "rep s D \<Longrightarrow> D 0 = None"
    and same_sym: "same a b \<Longrightarrow> same b a"
    and same_trans: "same a b \<Longrightarrow> same b c \<Longrightarrow> same a c"
begin

lemma look_eq:
  assumes "rep s D" "query q" "unique_by same D" "D n = Some t" "same (cstr q) t"
  shows "look q s = Some n"
proof -
  obtain m where m: "look q s = Some m"
    "if m = 0 then \<forall>num t. D num = Some t \<longrightarrow> \<not> same (cstr q) t else \<exists>t. D m = Some t \<and> same (cstr q) t"
    using look_law [OF assms(1,2)] by blast
  with assms(4,5) obtain t' where "D m = Some t'" "same (cstr q) t'" by (auto split: if_splits)
  with assms(3-5) same_sym same_trans have "m = n" unfolding unique_by_def by blast
  with m show ?thesis by simp
qed

lemma look_none:
  assumes "rep s D" "query q" "\<And>num t. D num = Some t \<Longrightarrow> \<not> same (cstr q) t"
  shows "look q s = Some 0"
  using look_law [OF assms(1,2)] assms(3) by (auto split: if_splits)

lemma look_cong:
  assumes "rep s D" "rep s' D'" "query q" "unique_by same D" "unique_by same D'"
    "\<And>n t. same (cstr q) t \<Longrightarrow> D n = Some t \<longleftrightarrow> D' n = Some t"
  shows "look q s' = look q s"
proof (cases "\<exists>n t. D n = Some t \<and> same (cstr q) t")
  case True
  then obtain n t where "D n = Some t" "same (cstr q) t" by blast
  with assms look_eq [of s D q n t] look_eq [of s' D' q n t] show ?thesis by simp
next
  case False
  then have "look q s = Some 0" "look q s' = Some 0"
    using look_none [OF assms(1,3)] look_none [OF assms(2,3)] assms(6) by blast+
  then show ?thesis by simp
qed

lemma add_look:
  assumes r: "rep s D" "unique_by same D" and num: "0 < num" "num \<le> slots s" "D num = None"
    and name: "storable name" "\<And>k t. D k = Some t \<Longrightarrow> \<not> same (cstr name) t"
  shows "\<exists>s'. add num name s = Some s' \<and> rep s' (D(num \<mapsto> cstr name))
    \<and> (\<forall>q. query q \<longrightarrow> look q s' = (if same (cstr q) (cstr name) then Some num else look q s))"
proof -
  obtain s' where s': "add num name s = Some s'" "rep s' (D(num \<mapsto> cstr name))"
    using add_law [OF r(1) num name(1)] by blast
  have u: "unique_by same (D(num \<mapsto> cstr name))"
    using r(2) name(2) same_sym unfolding unique_by_def by (auto split: if_splits) blast+
  have "look q s' = (if same (cstr q) (cstr name) then Some num else look q s)" if q: "query q" for q
  proof (cases "same (cstr q) (cstr name)")
    case True
    with look_eq [OF s'(2) q u, of num] show ?thesis by simp
  next
    case False
    have "D n = Some t \<longleftrightarrow> (D(num \<mapsto> cstr name)) n = Some t" if "same (cstr q) t" for n t
      using that False num(3) by auto
    with look_cong [OF r(1) s'(2) q r(2) u] False show ?thesis by simp
  qed
  with s' show ?thesis by blast
qed

lemma del_look:
  assumes r: "rep s D" "unique_by same D" and num: "D num = Some t"
    and name: "query name" "same (cstr name) t"
  shows "\<exists>s'. del num name s = Some (s', True) \<and> rep s' (D(num := None))
    \<and> (\<forall>q. query q \<longrightarrow> look q s' = (if same (cstr q) t then Some 0 else look q s))"
proof -
  obtain s' where s': "del num name s = Some (s', True)" "rep s' (D(num := None))"
    using del_law [OF r(1) num name] by blast
  have u: "unique_by same (D(num := None))" using r(2) unfolding unique_by_def by (auto split: if_splits)
  have "look q s' = (if same (cstr q) t then Some 0 else look q s)" if q: "query q" for q
  proof (cases "same (cstr q) t")
    case True
    have "\<not> same (cstr q) t'" if "(D(num := None)) k = Some t'" for k t'
    proof
      assume "same (cstr q) t'"
      with True same_sym same_trans have "same t t'" by blast
      with r(2) num that show False unfolding unique_by_def by (auto split: if_splits)
    qed
    with look_none [OF s'(2) q] True show ?thesis by simp
  next
    case False
    have "D n = Some t' \<longleftrightarrow> (D(num := None)) n = Some t'" if "same (cstr q) t'" for n t'
      using that False num by auto
    with look_cong [OF r(1) s'(2) q r(2) u] False show ?thesis by simp
  qed
  with s' show ?thesis by blast
qed

end

definition storable_name :: "string \<Rightarrow> bool" where
  "storable_name s \<longleftrightarrow> good_name s \<and> length (cstr s) \<le> IDLEN \<and> cstr s \<noteq> ''new''"

interpretation uidshm: name_directory represents "\<lambda>uc. length (uc_userid uc)" good_name storable_name
  same_id setuserid del_uidshm "searchuser True"
proof
  fix uc D q
  assume "represents uc D" "good_name q"
  then show "\<exists>n. searchuser True q uc = Some n \<and> (if n = 0 then \<forall>num t. D num = Some t \<longrightarrow> \<not> same_id (cstr q) t
      else \<exists>t. D n = Some t \<and> same_id (cstr q) t)"
    using searchuser_linked unfolding represents_def by blast
next
  fix uc D num name
  assume a: "represents uc D" "0 < num" "num \<le> length (uc_userid uc)" "D num = None" "storable_name name"
  then obtain L where "linked uc L D" by (auto simp: represents_def)
  moreover obtain h where "hash_ref name = Some h" using a(5) by (auto simp: storable_name_def good_name_def)
  ultimately show "\<exists>uc'. setuserid num name uc = Some uc' \<and> represents uc' (D(num \<mapsto> cstr name))"
    using a setuserid_linked [of uc L D num name h] unfolding represents_def storable_name_def by blast
next
  fix uc D num t name
  assume a: "represents uc D" "D num = Some t" "good_name name" "same_id (cstr name) t"
  then obtain L where l: "linked uc L D" by (auto simp: represents_def)
  obtain h where h: "num \<in> set (L h)" using linkedD(8) [OF l, of num] a(2) by auto
  note st = stored_length [OF l a(2)]
  have m: "mem_ncasecmp (IDLEN + 1) name (uc_userid uc ! (num - 1))"
    using a(4) by (auto simp: same_id_def mem_ncasecmp_def take_map [symmetric] st(5))
  have len: "length (cstr (uc_userid uc ! (num - 1))) \<le> IDLEN" using st(3,5) by simp
  have "hash_ref name = Some h"
    using matching_hash(2) [OF st(4) _ m len] a(3) linkedD(7) [OF l h] by (simp add: good_name_def)
  from linked_del [OF l h this] show "\<exists>uc'. del_uidshm num name uc = Some (uc', True) \<and> represents uc' (D(num := None))"
    unfolding represents_def by blast
next
  fix uc D
  assume "represents uc D"
  then obtain L where l: "linked uc L D" by (auto simp: represents_def)
  have "0 \<notin> set (L h)" for h using linked_num(1) [OF l, of 0 h] by blast
  with linkedD(8) [OF l, of 0] show "D 0 = None" by blast
qed (auto simp: same_id_def)

abbreviation unique_names :: "(nat \<Rightarrow> string option) \<Rightarrow> bool" where
  "unique_names \<equiv> unique_by same_id"


section \<open>Counting sessions\<close>

definition sessions :: "user_info list \<Rightarrow> int \<Rightarrow> int" where
  \<comment> \<open>the slots in use of a user\<close>
  "sessions us uid = int (length (filter (\<lambda>u. \<not> free_slot u \<and> ui_uid u = uid) us))"

definition web_kick :: "int \<Rightarrow> user_info \<Rightarrow> bool" where
  \<comment> \<open>a web session that \<open>refresh_utmp\<close> removes because it is idle\<close>
  "web_kick now u \<longleftrightarrow> \<not> free_slot u \<and> 0 < ui_pid u \<and> is_web_user (ui_mode u) \<and> ui_mode u \<noteq> BBSNET
     \<and> IDLE_TIMEOUT < now - ui_idle_time u"

definition web_kicks :: "int \<Rightarrow> user_info list \<Rightarrow> int \<Rightarrow> int" where
  "web_kicks now us uid = int (length (filter (\<lambda>u. web_kick now u \<and> ui_uid u = uid) us))"

definition in_use :: "user_info list \<Rightarrow> int" where
  "in_use us = int (length (filter (\<lambda>u. \<not> free_slot u) us))"

definition uids_ok :: "utmpfile \<times> ucache \<Rightarrow> bool" where
  "uids_ok s \<longleftrightarrow> (\<forall>u\<in>set (ut_uinfo (fst s)). \<not> free_slot u \<longrightarrow>
     1 \<le> ui_uid u \<and> ui_uid u \<le> int (length (uc_status (snd s))))"

lemma free_no_info [simp]: "free_slot no_info"
  by (simp add: free_slot_def no_info_def)

lemma refresh_slot_eq:
  assumes "\<not> free_slot u \<Longrightarrow> 1 \<le> ui_uid u \<and> ui_uid u \<le> int (length (uc_status uc))"
  shows "\<exists>u' uc' c. refresh_slot kill now u uc = Some (u', uc', c)
    \<and> c = in_use [u'] \<and> (u' = u \<or> free_slot u') \<and> length (uc_status uc') = length (uc_status uc)
    \<and> (\<forall>k<length (uc_status uc). uc_status uc' ! k =
         uc_status uc ! k + sessions [u'] (int k + 1) - web_kicks now [u] (int k + 1))"
proof (cases "free_slot u")
  case True
  then show ?thesis
    by (auto simp: refresh_slot_def free_slot_def in_use_def sessions_def web_kicks_def web_kick_def)
next
  case False
  then have ap: "ui_active u \<noteq> 0" "ui_pid u \<noteq> 0" by (auto simp: free_slot_def)
  note uid = assms [OF False]
  obtain r where b0: "bbskill kill now u 0 uc = (uc, u, r)"
    and rw: "0 < ui_pid u \<Longrightarrow> is_web_user (ui_mode u) \<Longrightarrow> r = 0" and rp: "\<not> 0 < ui_pid u \<Longrightarrow> r = -1"
  proof
    let ?r = "if 0 < ui_pid u then if is_web_user (ui_mode u) then 0 else kill (ui_pid u) 0 else -1"
    show "bbskill kill now u 0 uc = (uc, u, ?r)" by (simp add: bbskill_def SIGHUP_def)
  qed auto
  consider (gone) "r = -1" | (idle) "r \<noteq> -1" "ui_mode u \<noteq> BBSNET \<and> IDLE_TIMEOUT < now - ui_idle_time u"
    | (stays) "r \<noteq> -1" "\<not> (ui_mode u \<noteq> BBSNET \<and> IDLE_TIMEOUT < now - ui_idle_time u)" by blast
  then show ?thesis
  proof cases
    case gone
    then have "\<not> web_kick now u" using rw by (auto simp: web_kick_def)
    with gone ap b0 show ?thesis
      by (simp add: refresh_slot_def in_use_def sessions_def web_kicks_def)
  next
    case idle
    then have pid: "0 < ui_pid u" using rp by auto
    show ?thesis
    proof (cases "is_web_user (ui_mode u)")
      case True
      then have w: "web_kick now u" using idle pid False by (simp add: web_kick_def)
      define k where "k = nat (ui_uid u - 1)"
      have k: "k < length (uc_status uc)" "int k + 1 = ui_uid u" using uid by (auto simp: k_def)
      obtain uc' where kw: "bbskill kill now u SIGHUP uc = (uc', no_info, 0)"
        and st: "uc_status uc' = (uc_status uc)[k := uc_status uc ! k - 1]"
        using True pid uid by (auto simp: bbskill_def kick_web_user_def Let_def k_def)
      have "uc_status uc' ! j = uc_status uc ! j + sessions [no_info] (int j + 1) - web_kicks now [u] (int j + 1)"
        if "j < length (uc_status uc)" for j
        using that w k by (auto simp: st nth_list_update sessions_def web_kicks_def)
      then show ?thesis
        using idle ap b0 kw by (auto simp: refresh_slot_def in_use_def st)
    next
      case False
      then have "bbskill kill now u SIGHUP uc = (uc, u, kill (ui_pid u) SIGHUP)" "\<not> web_kick now u"
        using pid by (auto simp: bbskill_def web_kick_def)
      then show ?thesis
        using idle ap b0 by (simp add: refresh_slot_def in_use_def sessions_def web_kicks_def)
    qed
  next
    case stays
    then have w: "\<not> web_kick now u" by (auto simp: web_kick_def)
    define k where "k = nat (ui_uid u - 1)"
    have k: "k < length (uc_status uc)" "int k + 1 = ui_uid u" using uid by (auto simp: k_def)
    let ?uc = "uc\<lparr>uc_status := (uc_status uc)[k := uc_status uc ! k + 1]\<rparr>"
    have "uc_status ?uc ! j = uc_status uc ! j + sessions [u] (int j + 1) - web_kicks now [u] (int j + 1)"
      if "j < length (uc_status uc)" for j
      using that w k False by (auto simp: nth_list_update sessions_def web_kicks_def)
    moreover have "refresh_slot kill now u uc = Some (u, ?uc, 1)"
      using stays ap b0 uid by (auto simp: refresh_slot_def Let_def k_def)
    ultimately show ?thesis using False by (simp add: in_use_def)
  qed
qed

lemma count_Cons:
  "sessions (u # us) k = sessions [u] k + sessions us k" "in_use (u # us) = in_use [u] + in_use us"
  "web_kicks now (u # us) k = web_kicks now [u] k + web_kicks now us k"
  by (simp_all add: sessions_def in_use_def web_kicks_def)

lemma refresh_slots_eq:
  assumes "\<forall>u\<in>set us. \<not> free_slot u \<longrightarrow> 1 \<le> ui_uid u \<and> ui_uid u \<le> int (length (uc_status uc))"
  shows "\<exists>us' uc' c. refresh_slots kill now us uc = Some (us', uc', c) \<and> c = in_use us'
    \<and> list_all2 (\<lambda>u u'. u' = u \<or> free_slot u') us us' \<and> length (uc_status uc') = length (uc_status uc)
    \<and> (\<forall>k<length (uc_status uc). uc_status uc' ! k =
         uc_status uc ! k + sessions us' (int k + 1) - web_kicks now us (int k + 1))"
  using assms
proof (induction us arbitrary: uc)
  case Nil
  then show ?case by (simp add: in_use_def sessions_def web_kicks_def)
next
  case (Cons u us)
  then have "\<not> free_slot u \<Longrightarrow> 1 \<le> ui_uid u \<and> ui_uid u \<le> int (length (uc_status uc))" by simp
  from refresh_slot_eq [OF this] obtain u' uc1 c where
    s: "refresh_slot kill now u uc = Some (u', uc1, c)" "c = in_use [u']" "u' = u \<or> free_slot u'"
      "length (uc_status uc1) = length (uc_status uc)"
      "\<forall>k<length (uc_status uc). uc_status uc1 ! k =
         uc_status uc ! k + sessions [u'] (int k + 1) - web_kicks now [u] (int k + 1)" by blast
  from Cons.IH [of uc1] Cons.prems s(4) obtain us' uc2 cs where
    t: "refresh_slots kill now us uc1 = Some (us', uc2, cs)" "cs = in_use us'"
      "list_all2 (\<lambda>u u'. u' = u \<or> free_slot u') us us'" "length (uc_status uc2) = length (uc_status uc1)"
      "\<forall>k<length (uc_status uc1). uc_status uc2 ! k =
         uc_status uc1 ! k + sessions us' (int k + 1) - web_kicks now us (int k + 1)" by auto
  have "refresh_slots kill now (u # us) uc = Some (u' # us', uc2, c + cs)" using s(1) t(1) by simp
  moreover have "c + cs = in_use (u' # us')" using s(2) t(2) count_Cons(2) [of u' us'] by simp
  moreover have "uc_status uc2 ! k =
      uc_status uc ! k + sessions (u' # us') (int k + 1) - web_kicks now (u # us) (int k + 1)"
    if "k < length (uc_status uc)" for k
    using s(4,5) t(5) that count_Cons(1) [of u' us' "int k + 1"] count_Cons(3) [of now u us "int k + 1"] by simp
  ultimately show ?case using s(3,4) t(3,4) by simp
qed


section \<open>Properties\<close>

text \<open>Reading the password file. When every record has an empty name or one of 2 to 12
  characters that the hash accepts, \<open>load_ucache\<close> returns 0, and after it \<open>searchuser\<close> returns
  on every query of two characters or more: 0 when no record has this name (letter case aside),
  otherwise the number of a record that has it, whose record \<open>getuserec\<close> copies.\<close>
theorem load_then_search:
  assumes "length recs = length (uc_userid uc)" "\<forall>r\<in>set recs. record_ok r"
  shows "\<exists>uc'. load_ucache True True True (Some recs) now uc = Some (Returns (uc', 0))
    \<and> (\<forall>q u. good_name q \<longrightarrow> (\<exists>n. searchuser True q uc' = Some n
        \<and> (if n = 0 then getuserec True q u uc' = Some (u, 0)
             \<and> (\<forall>r\<in>set recs. cstr (pw_userid r) = [] \<or> \<not> same_id (cstr q) (cstr (pw_userid r)))
           else n \<le> length recs \<and> same_id (cstr q) (cstr (pw_userid (recs ! (n - 1))))
             \<and> getuserec True q u uc' = Some (recs ! (n - 1), n))))"
proof -
  obtain uc' where l: "load_ucache True True True (Some recs) now uc = Some (Returns (uc', 0))"
      "represents uc' (directory_of recs)" "uc_passwd uc' = recs"
    using load_ucache_linked [OF assms] by blast
  have "\<exists>n. searchuser True q uc' = Some n
        \<and> (if n = 0 then getuserec True q u uc' = Some (u, 0)
             \<and> (\<forall>r\<in>set recs. cstr (pw_userid r) = [] \<or> \<not> same_id (cstr q) (cstr (pw_userid r)))
           else n \<le> length recs \<and> same_id (cstr q) (cstr (pw_userid (recs ! (n - 1))))
             \<and> getuserec True q u uc' = Some (recs ! (n - 1), n))" if q: "good_name q" for q u
  proof -
    obtain n where n: "searchuser True q uc' = Some n"
      "if n = 0 then \<forall>num t. directory_of recs num = Some t \<longrightarrow> \<not> same_id (cstr q) t
       else \<exists>t. directory_of recs n = Some t \<and> same_id (cstr q) t"
      using uidshm.look_law [OF l(2) q] by blast
    show ?thesis
    proof (cases "n = 0")
      case True
      have "cstr (pw_userid r) = [] \<or> \<not> same_id (cstr q) (cstr (pw_userid r))" if r: "r \<in> set recs" for r
      proof -
        obtain i where "i < length recs" "r = recs ! i" using r by (metis in_set_conv_nth)
        then have "directory_of recs (Suc i) = record_name r" by (simp add: directory_of_def)
        with n(2) True show ?thesis by (auto simp: record_name_def)
      qed
      with n(1) True show ?thesis by (simp add: getuserec_def)
    next
      case False
      with n show ?thesis
        by (auto simp: getuserec_def l(3) directory_of_def record_name_def split: if_splits)
    qed
  qed
  with l(1) show ?thesis by blast
qed

text \<open>C22: registering a user. On a cache whose names are unique, putting a new name of 2 to 12
  characters other than "new" at a number that has none makes \<open>searchuser\<close> return this number
  for the name in any letter case, and leaves the result of every other search as it was.\<close>
theorem register_then_search:
  assumes "represents uc D" "unique_names D" "0 < num" "num \<le> length (uc_userid uc)" "D num = None"
    and "storable_name name" "\<And>k t. D k = Some t \<Longrightarrow> \<not> same_id (cstr name) t"
  shows "\<exists>uc'. setuserid num name uc = Some uc' \<and> represents uc' (D(num \<mapsto> cstr name))
    \<and> (\<forall>q. good_name q \<longrightarrow> searchuser True q uc' =
         (if same_id (cstr q) (cstr name) then Some num else searchuser True q uc))"
  by (rule uidshm.add_look [OF assms])

text \<open>Deleting a user. \<open>del_uidshm\<close> on a number and its name returns true and unlinks the
  number: the name is found no more, every other search has the result it had.\<close>
theorem delete_then_search:
  assumes "represents uc D" "unique_names D" "D num = Some t" "good_name name" "same_id (cstr name) t"
  shows "\<exists>uc'. del_uidshm num name uc = Some (uc', True) \<and> represents uc' (D(num := None))
    \<and> (\<forall>q. good_name q \<longrightarrow> searchuser True q uc' =
         (if same_id (cstr q) t then Some 0 else searchuser True q uc))"
  by (rule uidshm.del_look [OF assms])

lemma renamed_row:
  assumes l: "linked uc L D" and Lh: "L h = xs @ num # ys" and h': "h' \<noteq> h"
  shows "lseg (if L h' = [] then (uc_next uc)[num - 1 := 0] else (uc_next uc)[last (L h') - 1 := num, num - 1 := 0])
    (uc_prev uc) 0 (uc_hash uc h) (xs @ [num]) 0"
proof -
  have d: "num \<notin> set xs" using linkedD(5) [OF l, of h] by (simp add: Lh)
  obtain k where k: "lseg (uc_next uc) (uc_prev uc) 0 (uc_hash uc h) (xs @ [num]) k"
    using linkedD(4) [OF l, of h] lseg_append [of _ _ _ _ "xs @ [num]" ys] by (auto simp: Lh)
  have k': "lseg (if L h' = [] then uc_next uc else (uc_next uc)[last (L h') - 1 := num]) (uc_prev uc) 0
      (uc_hash uc h) (xs @ [num]) k"
  proof (cases "L h' = []")
    case False
    then have "last (L h') \<in> set (L h')" by simp
    then have "last (L h') \<notin> set (xs @ [num])" "0 < last (L h')"
      using linkedD(6) [OF l h'] linked_num(1) [OF l, of "last (L h')" h'] by (auto simp: Lh)
    with lseg_upd(1) [OF k] False show ?thesis by simp
  qed (use k in simp)
  from lseg_end [OF k' d, of 0] show ?thesis by (cases "L h' = []") simp_all
qed

lemma renamed_no_match:
  assumes l: "linked uc L D" and u: "unique_names D" and Lh: "L h = xs @ num # ys"
    and id: "storable_name name" "hash_ref name = Some h'" "h' \<noteq> h"
    and y: "y \<in> set ys" and i: "i \<in> set (xs @ [num])"
    and uid: "userids = (uc_userid uc)[num - 1 := fst (strlcpy (uc_userid uc ! (num - 1)) (cstr name) (IDLEN + 1))]"
  shows "\<not> mem_ncasecmp (IDLEN + 1) (uc_userid uc ! (y - 1)) (userids ! (i - 1))"
proof
  let ?q = "uc_userid uc ! (y - 1)" and ?b = "fst (strlcpy (uc_userid uc ! (num - 1)) (cstr name) (IDLEN + 1))"
  assume m: "mem_ncasecmp (IDLEN + 1) ?q (userids ! (i - 1))"
  have mem: "num \<in> set (L h)" "y \<in> set (L h)" using y by (auto simp: Lh)
  note num = linked_num [OF l mem(1)] and q = linkedD(7) [OF l mem(2)]
  have nul: "NUL \<in> set ?q" using q by (simp add: good_name_def)
  show False
  proof (cases "i = num")
    case True
    have b: "length (uc_userid uc ! (num - 1)) = IDLEN + 1" using linkedD(3) [OF l] num by simp
    have id': "good_name name" "length (cstr name) \<le> IDLEN" using id(1) by (auto simp: storable_name_def)
    note st = stored_good [OF b id' refl]
    have eq: "userids ! (num - 1) = ?b" using num by (simp add: uid)
    have len: "length (cstr ?b) \<le> IDLEN" using st(2) id' by simp
    from matching_hash(2) [OF st(3) nul m [unfolded True eq] len] q st(4) id(2,3) show False by simp
  next
    case False
    then have ix: "i \<in> set (L h)" "i \<noteq> y" using i y linkedD(5) [OF l, of h] by (auto simp: Lh)
    note iq = linkedD(7) [OF l ix(1)]
    have "userids ! (i - 1) = uc_userid uc ! (i - 1)"
      unfolding uid by (rule upd_pred [OF linked_num(1) [OF l ix(1)] num(1) False])
    with m have m': "mem_ncasecmp (IDLEN + 1) ?q (uc_userid uc ! (i - 1))" by simp
    have g: "good_name (uc_userid uc ! (i - 1))" using iq by simp
    from matching_hash(1) [OF g nul m' linked_length [OF l ix(1)]]
    have "same_id (cstr ?q) (cstr (uc_userid uc ! (i - 1)))" by (simp add: same_id_def)
    with u q iq ix(2) show False unfolding unique_by_def by metis
  qed
qed

text \<open>Renaming without unlinking. \<open>setuserid\<close> on a number that is in a chain, with a name of
  another hash, cuts the chain after it: the accounts behind it, still in the table, are not found
  by their own names any more.\<close>
theorem rename_cuts_chain:
  assumes l: "linked uc L D" and u: "unique_names D" and Lh: "L h = xs @ num # ys"
    and id: "storable_name name" "hash_ref name = Some h'" "h' \<noteq> h"
    and y: "y \<in> set ys"
  shows "searchuser True (uc_userid uc ! (y - 1)) uc = Some y
    \<and> (\<exists>uc'. setuserid num name uc = Some uc' \<and> uc_userid uc' ! (y - 1) = uc_userid uc ! (y - 1)
         \<and> searchuser True (uc_userid uc ! (y - 1)) uc' = Some 0)"
proof -
  have mem: "num \<in> set (L h)" "y \<in> set (L h)" "y \<noteq> num"
    using y linkedD(5) [OF l, of h] by (auto simp: Lh)
  note num = linked_num [OF l mem(1)] and ynum = linked_num [OF l mem(2)] and q = linkedD(7) [OF l mem(2)]
  let ?q = "uc_userid uc ! (y - 1)"
  let ?b = "fst (strlcpy (uc_userid uc ! (num - 1)) (cstr name) (IDLEN + 1))"
  let ?nx = "if L h' = [] then (uc_next uc)[num - 1 := 0] else (uc_next uc)[last (L h') - 1 := num, num - 1 := 0]"
  have last: "L h' \<noteq> [] \<Longrightarrow> chain_last (uc_next uc) (uc_hash uc h') = Some (last (L h'))"
    by (rule chain_last_lseg [OF linkedD(4) [OF l]])
  have "\<exists>uc'. setuserid num name uc = Some uc' \<and> uc_userid uc' = (uc_userid uc)[num - 1 := ?b]
      \<and> uc_next uc' = ?nx \<and> uc_hash uc' h = uc_hash uc h"
    using num id hash_0_iff [OF l, of h'] last
    by (simp add: setuserid_def Let_def storable_name_def)
  then obtain uc' where run: "setuserid num name uc = Some uc'" and uid: "uc_userid uc' = (uc_userid uc)[num - 1 := ?b]"
    and nx: "uc_next uc' = ?nx" and hs: "uc_hash uc' h = uc_hash uc h" by blast
  have "find (\<lambda>i. mem_ncasecmp (IDLEN + 1) ?q (uc_userid uc' ! (i - 1))) (xs @ [num]) = None"
    using renamed_no_match [OF l u Lh id y _ uid] unfolding find_None_iff_all by blast
  with walk_lseg [OF renamed_row [OF l Lh id(3), folded nx hs]] q
  have "searchuser True ?q uc' = Some 0" by (simp only: searchuser_def) simp
  moreover have "represents uc D" using l by (auto simp: represents_def)
  then have "searchuser True ?q uc = Some y"
    using uidshm.look_eq [of uc D ?q y] u q by (simp add: same_id_def)
  moreover have "uc_userid uc' ! (y - 1) = ?q"
    unfolding uid by (rule upd_pred [OF ynum(1) num(1) mem(3)])
  ultimately show ?thesis using run by blast
qed


text \<open>The periodic recount. When every slot in use has a user number inside the table,
  \<open>refresh_utmp\<close> returns the number of slots still in use, keeps every other slot as it was, and
  leaves for each user the count of the sessions that are left, less the web sessions that it has
  just removed for being idle: these were taken off a count that had been set to 0.\<close>
theorem refresh_recounts:
  assumes "uids_ok (ut, uc)"
  shows "\<exists>ut' uc'. refresh_utmp True True True kill now (ut, uc) = Some ((ut', uc'), in_use (ut_uinfo ut'))
    \<and> ut_total_num ut' = in_use (ut_uinfo ut') \<and> ut_usersum ut' = int (allusers True uc')
    \<and> list_all2 (\<lambda>u u'. u' = u \<or> free_slot u') (ut_uinfo ut) (ut_uinfo ut')
    \<and> map int [0..<length (uc_status uc')] = map int [0..<length (uc_status uc)]
    \<and> uc_status uc' = map (\<lambda>k. sessions (ut_uinfo ut') (int k + 1) - web_kicks now (ut_uinfo ut) (int k + 1))
        [0..<length (uc_status uc)]"
proof -
  let ?uc = "uc\<lparr>uc_status := replicate (length (uc_status uc)) 0\<rparr>"
  have "\<forall>u\<in>set (ut_uinfo ut). \<not> free_slot u \<longrightarrow> 1 \<le> ui_uid u \<and> ui_uid u \<le> int (length (uc_status ?uc))"
    using assms by (simp add: uids_ok_def)
  from refresh_slots_eq [OF this, of kill now] obtain us' uc' where
    r: "refresh_slots kill now (ut_uinfo ut) ?uc = Some (us', uc', in_use us')"
      "list_all2 (\<lambda>u u'. u' = u \<or> free_slot u') (ut_uinfo ut) us'" "length (uc_status uc') = length (uc_status uc)"
      "\<forall>k<length (uc_status uc). uc_status uc' ! k =
         sessions us' (int k + 1) - web_kicks now (ut_uinfo ut) (int k + 1)" by auto
  then have "uc_status uc' = map (\<lambda>k. sessions us' (int k + 1) - web_kicks now (ut_uinfo ut) (int k + 1))
        [0..<length (uc_status uc)]" by (intro nth_equalityI) auto
  with r show ?thesis by (simp add: refresh_utmp_def)
qed

definition balanced :: "utmpfile \<times> ucache \<Rightarrow> bool" where
  "balanced s \<longleftrightarrow> ut_total_num (fst s) = in_use (ut_uinfo (fst s))
     \<and> uc_status (snd s) = map (\<lambda>k. sessions (ut_uinfo (fst s)) (int k + 1)) [0..<length (uc_status (snd s))]"

lemma counts_insert:
  assumes "i < length us" "free_slot (us ! i)" "\<not> free_slot up"
  shows "in_use (us[i := up]) = in_use us + 1"
    "sessions (us[i := up]) k = sessions us k + (if ui_uid up = k then 1 else 0)"
proof -
  have us: "us = take i us @ us ! i # drop (Suc i) us" using id_take_nth_drop [OF assms(1)] .
  have up: "us[i := up] = take i us @ up # drop (Suc i) us" using upd_conv_take_nth_drop [OF assms(1)] .
  show "in_use (us[i := up]) = in_use us + 1"
    unfolding up by (subst (3) us) (simp add: in_use_def assms)
  show "sessions (us[i := up]) k = sessions us k + (if ui_uid up = k then 1 else 0)"
    unfolding up by (subst (3) us) (simp add: sessions_def assms)
qed

text \<open>C23: a new session. When the counts agree with the slots, \<open>getnewutmpent\<close> either answers -2,
  with every slot in use and nothing changed but the record of the highest number of sessions, or
  puts the session in the lowest free slot, answers its number, and the counts agree again.\<close>
theorem new_session_slot:
  assumes "balanced (ut, uc)" "\<not> free_slot up" "1 \<le> ui_uid up" "ui_uid up \<le> int (length (uc_status uc))"
  shows "\<exists>ut' uc' r. getnewutmpent True True up (ut, uc) = Some ((ut', uc'), r) \<and> balanced (ut', uc')
    \<and> ut_max_login_num ut' = max (ut_max_login_num ut) (ut_total_num ut)
    \<and> (if r = -2 then list_all (\<lambda>u. \<not> free_slot u) (ut_uinfo ut) \<and> ut_uinfo ut' = ut_uinfo ut \<and> uc' = uc
       else \<exists>i. r = int i + 1 \<and> i < length (ut_uinfo ut) \<and> free_slot (ut_uinfo ut ! i)
         \<and> list_all (\<lambda>u. \<not> free_slot u) (take i (ut_uinfo ut)) \<and> ut_uinfo ut' = (ut_uinfo ut)[i := up])"
proof -
  let ?us = "ut_uinfo ut"
  define ut1 where "ut1 = (if ut_max_login_num ut < get_online ut
     then ut\<lparr>ut_max_login_num := get_online ut\<rparr> else ut)"
  have ut1: "ut_uinfo ut1 = ?us" "ut_total_num ut1 = ut_total_num ut"
    "ut_max_login_num ut1 = max (ut_max_login_num ut) (ut_total_num ut)"
    by (auto simp: ut1_def get_online_def)
  define k where "k = nat (ui_uid up - 1)"
  have k: "k < length (uc_status uc)" "int k + 1 = ui_uid up" using assms(3,4) by (auto simp: k_def)
  show ?thesis
  proof (cases "find (\<lambda>i. free_slot (?us ! i)) [0..<length ?us]")
    case None
    then have "list_all (\<lambda>u. \<not> free_slot u) ?us" by (auto simp: find_None_iff list_all_length)
    moreover have "getnewutmpent True True up (ut, uc) = Some ((ut1, uc), -2)"
      using None by (simp add: getnewutmpent_def Let_def ut1_def [symmetric] ut1)
    moreover have "balanced (ut1, uc)" using assms(1) by (simp add: balanced_def ut1)
    ultimately show ?thesis using ut1 by (intro exI [of _ ut1] exI [of _ uc] exI [of _ "-2"]) simp
  next
    case (Some i)
    then have i: "i < length ?us" "free_slot (?us ! i)" "\<forall>j<i. \<not> free_slot (?us ! j)"
      by (auto simp: find_Some_iff)
    let ?ut = "ut1\<lparr>ut_uinfo := ?us[i := up], ut_total_num := ut_total_num ut + 1\<rparr>"
    let ?uc = "uc\<lparr>uc_status := (uc_status uc)[k := uc_status uc ! k + 1]\<rparr>"
    have run: "getnewutmpent True True up (ut, uc) = Some ((?ut, ?uc), int i + 1)"
      using Some assms(3,4) by (simp add: getnewutmpent_def Let_def ut1_def [symmetric] ut1 k_def)
    have st: "uc_status uc = map (\<lambda>k. sessions ?us (int k + 1)) [0..<length (uc_status uc)]"
      using assms(1) by (simp add: balanced_def)
    have st': "uc_status uc ! j = sessions ?us (int j + 1)" if "j < length (uc_status uc)" for j
      using that by (subst st) simp
    have bal: "balanced (?ut, ?uc)"
      using assms(1) counts_insert [OF i(1,2) assms(2)] k st'
      by (auto simp: balanced_def nth_list_update intro!: nth_equalityI)
    have "list_all (\<lambda>u. \<not> free_slot u) (take i ?us)"
      using i(1,3) by (simp add: list_all_length)
    with run bal i ut1 show ?thesis
      by (intro exI [of _ ?ut] exI [of _ ?uc] exI [of _ "int i + 1"]) simp
  qed
qed

section \<open>Concrete runs\<close>

definition name_buf :: "string \<Rightarrow> string" where
  "name_buf s = s @ replicate (16 - length s) NUL"

definition demo_rec :: "string \<Rightarrow> userec" where
  "demo_rec s = no_user\<lparr>pw_userid := name_buf s, pw_numlogins := 1\<rparr>"

definition demo_recs :: "userec list" where
  "demo_recs = [demo_rec ''ab12'', demo_rec ''zed'', no_user, demo_rec ''ab21'']"

definition demo_cache :: ucache where
  "demo_cache = \<lparr>uc_userid = replicate 4 (replicate 13 NUL), uc_number = 0, uc_uptime = 0,
     uc_next = replicate 4 0, uc_prev = replicate 4 0, uc_hash = (\<lambda>_. 0),
     uc_passwd = replicate 4 no_user, uc_status = replicate 4 0\<rparr>"

lemma name_buf_facts:
  assumes "NUL \<notin> set s" "2 \<le> length s" "length s < 16"
  shows "cstr (name_buf s) = s" "hash_ref (name_buf s) = hash_ref (s @ [NUL])"
    "good_name (name_buf s) \<longleftrightarrow> hash_ref (s @ [NUL]) \<noteq> None"
proof -
  obtain m where "16 - length s = Suc m" using assms(3) by (metis Suc_diff_Suc)
  then have b: "name_buf s = s @ NUL # replicate m NUL" by (simp add: name_buf_def)
  show c: "cstr (name_buf s) = s" using assms(1) by (simp add: b)
  show h: "hash_ref (name_buf s) = hash_ref (s @ [NUL])"
    using hash_ref_cstr [of "name_buf s"] assms(2) by (simp add: c) (simp add: b)
  show "good_name (name_buf s) \<longleftrightarrow> hash_ref (s @ [NUL]) \<noteq> None"
    using assms(2) by (simp add: good_name_def h c) (simp add: b)
qed

lemmas name_eval = hash_ref_def uhashkey_def cstr_def letter_index_def islower_def
  isupper_def byte_def toupper_def schar_def c_mod_nonneg

lemma demo_hash:
  "hash_ref (''ab12'' @ [NUL]) = Some 355" "hash_ref (''ab21'' @ [NUL]) = Some 355"
  "hash_ref (''zed'' @ [NUL]) = Some 167492" "hash_ref (''AB21'' @ [NUL]) = Some 355"
  "hash_ref (''guest'' @ [NUL]) \<noteq> None"
  by (simp_all add: name_eval)

lemma demo_facts:
  "cstr (name_buf ''ab12'') = ''ab12''" "cstr (name_buf ''ab21'') = ''ab21''" "cstr (name_buf ''zed'') = ''zed''"
  "cstr (name_buf ''AB21'') = ''AB21''" "cstr (name_buf ''guest'') = ''guest''"
  "hash_ref (name_buf ''ab12'') = Some 355" "hash_ref (name_buf ''ab21'') = Some 355"
  "hash_ref (name_buf ''zed'') = Some 167492"
  "good_name (name_buf ''ab12'')" "good_name (name_buf ''zed'')" "good_name (name_buf ''AB21'')"
  "good_name (name_buf ''ab21'')" "good_name (name_buf ''guest'')"
  using demo_hash by (simp_all add: name_buf_facts del: append.simps)

lemma demo_same:
  "same_id ''AB21'' ''ab21''" "\<not> same_id ''guest'' ''ab12''" "\<not> same_id ''guest'' ''zed''"
  "\<not> same_id ''guest'' ''ab21''" "\<not> same_id ''ab12'' ''ab21''" "\<not> same_id ''ab12'' ''zed''"
  "\<not> same_id ''zed'' ''ab21''"
  by code_simp+

lemma same_id_refl [simp]: "same_id s s"
  by (simp add: same_id_def)

lemma same_id_sym: "same_id s t = same_id t s"
  by (auto simp: same_id_def)

lemma demo_records_ok: "\<forall>r\<in>set demo_recs. record_ok r"
  by (auto simp: demo_recs_def demo_rec_def record_ok_def no_user_def demo_facts IDLEN_def cstr_def [of "NUL # _"] numeral_eq_Suc)

lemma demo_length: "length demo_recs = length (uc_userid demo_cache)"
  by (simp add: demo_recs_def demo_cache_def)

lemma demo_directory: "directory_of demo_recs = [1 \<mapsto> ''ab12'', 2 \<mapsto> ''zed'', 4 \<mapsto> ''ab21'']"
proof (rule ext)
  fix n :: nat
  consider "n = 0" | "n = 1" | "n = 2" | "n = 3" | "n = 4" | "4 < n" by linarith
  then show "directory_of demo_recs n = [1 \<mapsto> ''ab12'', 2 \<mapsto> ''zed'', 4 \<mapsto> ''ab21''] n"
    by cases (simp_all add: directory_of_def demo_recs_def demo_rec_def record_name_def demo_facts no_user_def
        cstr_def [of "NUL # _"] cstr_def [of "replicate _ _"] numeral_eq_Suc)
qed

lemma demo_unique: "unique_names (directory_of demo_recs)"
  unfolding unique_by_def demo_directory using demo_same same_id_sym by (auto split: if_splits)

lemma demo_loaded:
  "\<exists>uc. represents uc (directory_of demo_recs) \<and> length (uc_userid uc) = 4"
  using load_ucache_linked [OF demo_length demo_records_ok] by (auto simp: demo_cache_def)

lemma demo_chain: "\<exists>uc. linked uc ((\<lambda>_. [])(355 := [1, 2])) [1 \<mapsto> ''ab12'', 2 \<mapsto> ''ab21'']"
proof -
  have e: "linked demo_cache (\<lambda>_. []) Map.empty"
  proof -
    have "directory_of [] = Map.empty" by (rule ext) (auto simp: directory_of_def)
    with linked_empty [of demo_cache 4] show ?thesis by (simp add: demo_cache_def IDLEN_def)
  qed
  have ab: "cstr (name_buf ''ab12'') = ''ab12''" "hash_ref (name_buf ''ab12'') = Some 355" "good_name (name_buf ''ab12'')"
    "cstr (name_buf ''ab21'') = ''ab21''" "hash_ref (name_buf ''ab21'') = Some 355" "good_name (name_buf ''ab21'')"
    by (rule demo_facts)+
  from setuserid_linked [OF e, of 1 "name_buf ''ab12''" 355] obtain uc1
    where 1: "linked uc1 ((\<lambda>_. [])(355 := [1])) [1 \<mapsto> ''ab12'']" "length (uc_userid uc1) = 4"
    by (auto simp: ab demo_cache_def IDLEN_def)
  from setuserid_linked [OF 1(1), of 2 "name_buf ''ab21''" 355] 1(2) show ?thesis
    by (auto simp: ab IDLEN_def)
qed

theorem load_then_search_witness:
  "\<exists>uc n. load_ucache True True True (Some demo_recs) 7 demo_cache = Some (Returns (uc, 0))
     \<and> searchuser True (name_buf ''AB21'') uc = Some n \<and> n \<noteq> 0"
proof -
  have q: "good_name (name_buf ''AB21'')" by (simp add: demo_facts)
  from load_then_search [OF demo_length demo_records_ok, of 7] obtain uc where
    u: "load_ucache True True True (Some demo_recs) 7 demo_cache = Some (Returns (uc, 0))"
    and s: "\<forall>q u. good_name q \<longrightarrow> (\<exists>n. searchuser True q uc = Some n
        \<and> (if n = 0 then getuserec True q u uc = Some (u, 0)
             \<and> (\<forall>r\<in>set demo_recs. cstr (pw_userid r) = [] \<or> \<not> same_id (cstr q) (cstr (pw_userid r)))
           else n \<le> length demo_recs \<and> same_id (cstr q) (cstr (pw_userid (demo_recs ! (n - 1))))
             \<and> getuserec True q u uc = Some (demo_recs ! (n - 1), n)))" by blast
  from s q obtain n where n: "searchuser True (name_buf ''AB21'') uc = Some n"
    "n = 0 \<Longrightarrow> \<forall>r\<in>set demo_recs. cstr (pw_userid r) = [] \<or> \<not> same_id ''AB21'' (cstr (pw_userid r))"
    using demo_facts(4) by (metis (no_types, lifting))
  have "n \<noteq> 0"
    using n(2) by (auto simp: demo_recs_def demo_rec_def demo_facts demo_same)
  with u n(1) show ?thesis by blast
qed

theorem register_then_search_witness:
  "\<exists>uc uc'. represents uc (directory_of demo_recs) \<and> setuserid 3 (name_buf ''guest'') uc = Some uc'
     \<and> searchuser True (name_buf ''guest'') uc' = Some 3"
proof -
  obtain uc where uc: "represents uc (directory_of demo_recs)" "length (uc_userid uc) = 4" using demo_loaded by blast
  have g: "storable_name (name_buf ''guest'')" "good_name (name_buf ''guest'')"
    by (simp_all add: storable_name_def demo_facts IDLEN_def)
  have new: "\<not> same_id (cstr (name_buf ''guest'')) t" if "directory_of demo_recs k = Some t" for k t
    using that by (auto simp: demo_directory demo_facts demo_same split: if_splits)
  have f: "directory_of demo_recs 3 = None" by (simp add: demo_directory)
  from register_then_search [OF uc(1) demo_unique _ _ f g(1) new] uc g(2) show ?thesis
    by force
qed

theorem delete_then_search_witness:
  "\<exists>uc uc'. represents uc (directory_of demo_recs) \<and> del_uidshm 4 (name_buf ''AB21'') uc = Some (uc', True)
     \<and> searchuser True (name_buf ''ab21'') uc' = Some 0"
proof -
  obtain uc where uc: "represents uc (directory_of demo_recs)" "length (uc_userid uc) = 4" using demo_loaded by blast
  have g: "good_name (name_buf ''AB21'')" "good_name (name_buf ''ab21'')"
    by (simp_all add: demo_facts)
  have s: "same_id (cstr (name_buf ''AB21'')) ''ab21''" "same_id (cstr (name_buf ''ab21'')) ''ab21''"
    by (simp_all add: demo_facts demo_same)
  have f: "directory_of demo_recs 4 = Some ''ab21''" by (simp add: demo_directory)
  from delete_then_search [OF uc(1) demo_unique f g(1) s(1)] uc g(2) s(2) show ?thesis by force
qed

theorem rename_cuts_chain_witness:
  "\<exists>uc uc'. searchuser True (uc_userid uc ! 1) uc = Some 2
     \<and> setuserid 1 (name_buf ''zed'') uc = Some uc' \<and> searchuser True (uc_userid uc ! 1) uc' = Some 0"
proof -
  obtain uc where l: "linked uc ((\<lambda>_. [])(355 := [1, 2])) [1 \<mapsto> ''ab12'', 2 \<mapsto> ''ab21'']" using demo_chain by blast
  have u: "unique_names [1 \<mapsto> ''ab12'', 2 \<mapsto> ''ab21'']"
    using demo_same same_id_sym by (auto simp: unique_by_def split: if_splits)
  have g: "storable_name (name_buf ''zed'')" "hash_ref (name_buf ''zed'') = Some 167492"
    by (simp_all add: storable_name_def demo_facts IDLEN_def)
  from rename_cuts_chain [OF l u, of 355 "[]" 1 "[2]" "name_buf ''zed''" 167492 2] g show ?thesis by auto
qed

definition demo_info :: "int \<Rightarrow> int \<Rightarrow> int \<Rightarrow> user_info" where
  "demo_info uid mode idle = no_info\<lparr>ui_active := 1, ui_pid := 9, ui_uid := uid, ui_mode := mode, ui_idle_time := idle\<rparr>"

definition demo_utmp :: utmpfile where
  "demo_utmp = \<lparr>ut_uinfo = [demo_info 1 0 5000, no_info, demo_info 2 WWW 100], ut_usersum = 0,
     ut_max_login_num = 0, ut_total_num = 2\<rparr>"

theorem refresh_recounts_witness:
  "\<exists>ut uc. refresh_utmp True True True (\<lambda>_ _. 0) 5000 (demo_utmp, demo_cache) = Some ((ut, uc), in_use (ut_uinfo ut))
     \<and> uc_status uc ! 1 = sessions (ut_uinfo ut) 2 - 1"
proof -
  have "uids_ok (demo_utmp, demo_cache)"
    by (simp add: uids_ok_def demo_utmp_def demo_info_def demo_cache_def)
  moreover have "web_kicks 5000 (ut_uinfo demo_utmp) 2 = 1"
    by (simp add: web_kicks_def web_kick_def demo_utmp_def demo_info_def free_slot_def no_info_def
        is_web_user_def WWW_def BBSNET_def IDLE_TIMEOUT_def)
  ultimately show ?thesis
    using refresh_recounts [of demo_utmp demo_cache "\<lambda>_ _. 0" 5000] by (auto simp: demo_cache_def numeral_eq_Suc)
qed

theorem new_session_slot_witness:
  "\<exists>ut uc r. getnewutmpent True True (demo_info 2 0 0)
       (demo_utmp, demo_cache\<lparr>uc_status := [1, 1, 0, 0]\<rparr>) = Some ((ut, uc), r) \<and> balanced (ut, uc)"
proof -
  have "balanced (demo_utmp, demo_cache\<lparr>uc_status := [1, 1, 0, 0]\<rparr>)"
    by (simp add: balanced_def demo_utmp_def demo_info_def free_slot_def no_info_def sessions_def in_use_def
        upt_conv_Cons)
  then show ?thesis
    using new_session_slot [of demo_utmp "demo_cache\<lparr>uc_status := [1, 1, 0, 0]\<rparr>" "demo_info 2 0 0"]
    by (auto simp: demo_info_def free_slot_def no_info_def)
qed

end
