(* ===== verification/Screen.thy ===== *)
theory Screen
  imports Prelude "HOL-Library.Monad_Syntax"
begin

text \<open>
  The screen of a telnet session, \<^verbatim>\<open>src/screen.c\<close>: a picture of the lines that should be shown, the
  range of each line that changed, and \<open>refresh\<close>, which brings the terminal up to date. What is
  sent goes through \<^verbatim>\<open>ochar\<close>, \<^verbatim>\<open>output\<close> and \<^verbatim>\<open>oflush\<close> of \<^verbatim>\<open>src/io.c\<close>: the calls are recorded in order
  in \<open>tty\<close>, and the theory \<^verbatim>\<open>Output\<close> says what they do. \<open>None\<close> is a write outside a line.
  The fields \<^verbatim>\<open>smod\<close>, \<^verbatim>\<open>emod\<close>, \<^verbatim>\<open>sso\<close>, \<^verbatim>\<open>eso\<close> are unsigned chars: what is stored there is
  reduced by \<open>u8\<close>. The two bits of \<^verbatim>\<open>mode\<close> are two booleans.
\<close>

section \<open>Data\<close>

datatype treq = Ochar char | Output string | Oflush

definition LINELEN :: nat where "LINELEN = 1024"
definition WRAPMARGIN :: nat where "WRAPMARGIN = 255"

definition TERM_CMD_CL :: string where "TERM_CMD_CL = [ESC, CHR ''['', CHR ''H'', ESC, CHR ''['', CHR ''J'']"
definition TERM_CMD_CE :: string where "TERM_CMD_CE = [ESC, CHR ''['', CHR ''K'']"
definition TERM_CMD_SR :: string where "TERM_CMD_SR = [ESC, CHR ''M'']"
definition TERM_CMD_SO :: string where "TERM_CMD_SO = [ESC, CHR ''['', CHR ''7'', CHR ''m'']"
definition TERM_CMD_SE :: string where "TERM_CMD_SE = [ESC, CHR ''['', CHR ''m'']"

record screenline =
  sl_oldlen :: nat
  sl_len :: nat
  sl_modified :: bool
  sl_standout :: bool
  sl_smod :: nat
  sl_emod :: nat
  sl_sso :: nat
  sl_eso :: nat
  sl_data :: string

record screen =
  dumb_term :: bool
  automargins :: bool
  iscolor :: bool
  showansi :: bool
  t_lines :: nat
  t_columns :: nat
  scr_lns :: nat
  scr_cols :: nat
  cur_ln :: nat
  cur_col :: nat
  roll :: nat
  scrollcnt :: int
  tc_col :: nat
  tc_line :: nat
  docls :: bool
  downfrom :: nat
  standing :: bool
  inansi :: bool
  picture :: "screenline list"
  saved_tmp :: "string list"
  saved_temp :: "string list"
  tty :: "treq list"

definition u8 :: "nat \<Rightarrow> nat" where
  "u8 n = n mod 256"

definition isprint2 :: "char \<Rightarrow> bool" where
  "isprint2 c \<longleftrightarrow> hibit c \<or> isprint c"

definition emit :: "treq list \<Rightarrow> screen \<Rightarrow> screen" where
  "emit rs s = s\<lparr>tty := tty s @ rs\<rparr>"

definition term_cmd :: "string \<Rightarrow> screen \<Rightarrow> screen" where
  "term_cmd cmd s = emit [Output cmd] s"

definition row :: "screen \<Rightarrow> nat \<Rightarrow> nat" where
  \<comment> \<open>where the picture keeps line \<open>i\<close>, as a remainder or by the loops that subtract\<close>
  "row s i = (i + roll s) mod scr_lns s"

definition upd_line :: "nat \<Rightarrow> (screenline \<Rightarrow> screenline) \<Rightarrow> screen \<Rightarrow> screen" where
  "upd_line j f s = s\<lparr>picture := (picture s)[j := f (picture s ! j)]\<rparr>"

section \<open>Definitions\<close>

definition ansi_param :: "char \<Rightarrow> bool" where
  \<comment> \<open>\<^verbatim>\<open>strchr("[0123456789; ", c)\<close> for a character of a string\<close>
  "ansi_param c \<longleftrightarrow> c \<in> set ''[0123456789; ''"

fun num_ans_loop :: "bool \<Rightarrow> string \<Rightarrow> nat" where
  "num_ans_loop ansi [] = 0"
| "num_ans_loop ansi (c # str) =
     (if c = ESC then Suc (num_ans_loop True str)
      else if ansi then Suc (num_ans_loop (ansi_param c) str)
      else num_ans_loop False str)"

definition num_ans_chr :: "string \<Rightarrow> nat" where
  "num_ans_chr str = num_ans_loop False str"

fun seek_loop :: "string \<Rightarrow> int \<Rightarrow> nat \<Rightarrow> nat" where
  \<comment> \<open>the escape state of the loop has no effect on its result\<close>
  "seek_loop [] num i = i"
| "seek_loop (c # str) num i = (if num = 0 then i else seek_loop str (num - 1) (Suc i))"

definition seekthestr :: "string \<Rightarrow> int \<Rightarrow> nat" where
  "seekthestr str num = seek_loop str num 0"

definition empty_line :: screenline where
  "empty_line = \<lparr>sl_oldlen = 0, sl_len = 0, sl_modified = False, sl_standout = False, sl_smod = 0,
     sl_emod = 0, sl_sso = 0, sl_eso = 0, sl_data = replicate LINELEN NUL\<rparr>"

definition init_screen :: "nat \<Rightarrow> nat \<Rightarrow> screen \<Rightarrow> screen" where
  "init_screen slns scols s =
     s\<lparr>scr_lns := slns, scr_cols := min scols LINELEN, picture := replicate slns empty_line,
       docls := True, downfrom := 0, roll := 0\<rparr>"

definition initscr :: "screen \<Rightarrow> screen" where
  "initscr s =
     (let s = (if \<not> dumb_term s \<and> picture s = [] then s\<lparr>t_columns := WRAPMARGIN\<rparr> else s)
      in init_screen (t_lines s) WRAPMARGIN s)"

definition do_move :: "nat \<Rightarrow> nat \<Rightarrow> screen \<Rightarrow> screen" where
  "do_move col line s =
     emit (map Ochar (take 15 ([ESC, CHR ''[''] @ show_int (int line + 1) @ '';'' @ show_int (int col + 1) @ ''H''))) s"

definition rel_move :: "nat \<Rightarrow> nat \<Rightarrow> nat \<Rightarrow> nat \<Rightarrow> screen \<Rightarrow> screen" where
  "rel_move was_col was_ln new_col new_ln s =
     (if t_lines s \<le> new_ln \<or> t_columns s \<le> new_col then s
      else let s = s\<lparr>tc_col := new_col, tc_line := new_ln\<rparr> in
        if new_col = 0 \<and> new_ln = was_ln + 1 then
          (let s = emit [Ochar LF] s in if was_col \<noteq> 0 then emit [Ochar CR] s else s)
        else if new_col = 0 \<and> new_ln = was_ln then
          (if was_col \<noteq> 0 then emit [Ochar CR] s else s)
        else if was_col = new_col \<and> was_ln = new_ln then s
        else if was_col = new_col + 1 \<and> new_ln = was_ln then emit [Ochar (CHR 0x08)] s
        else do_move new_col new_ln s)"

definition sub_bytes :: "string \<Rightarrow> nat \<Rightarrow> nat \<Rightarrow> string" where
  \<comment> \<open>the bytes from \<open>i\<close> up to \<open>j\<close> of a buffer, none when the size is negative\<close>
  "sub_bytes buf i j = take (j - i) (drop i buf)"

definition standoutput :: "string \<Rightarrow> nat \<Rightarrow> nat \<Rightarrow> nat \<Rightarrow> nat \<Rightarrow> screen \<Rightarrow> screen" where
  "standoutput buf ds de sso eso s =
     (if eso \<le> ds \<or> de \<le> sso then emit [Output (sub_bytes buf ds de)] s
      else let st_start = max sso ds; st_end = min eso de;
               s = (if ds < sso then emit [Output (sub_bytes buf ds sso)] s else s);
               s = term_cmd TERM_CMD_SO s;
               s = emit [Output (sub_bytes buf st_start st_end)] s;
               s = term_cmd TERM_CMD_SE s
           in if eso < de then emit [Output (sub_bytes buf eso de)] s else s)"

definition next_tc_line :: "screen \<Rightarrow> screen" where
  "next_tc_line s =
     s\<lparr>tc_line := (if t_lines s \<le> tc_line s + 1 then t_lines s - 1 else tc_line s + 1)\<rparr>"

definition redo_line :: "nat \<Rightarrow> screen \<Rightarrow> screen" where
  \<comment> \<open>the body of the loop of \<open>redoscr\<close>\<close>
  "redo_line i s =
     (let j = row s i; sl = picture s ! j in
      if sl_len sl = 0 then s
      else let s = rel_move (tc_col s) (tc_line s) 0 i s;
               s = (if sl_standout sl then standoutput (sl_data sl) 0 (sl_len sl) (sl_sso sl) (sl_eso sl) s
                    else emit [Output (take (sl_len sl) (sl_data sl))] s);
               s = s\<lparr>tc_col := tc_col s + sl_len sl\<rparr>;
               s = (if t_columns s \<le> tc_col s then
                      if \<not> automargins s then next_tc_line (s\<lparr>tc_col := tc_col s - t_columns s\<rparr>)
                      else s\<lparr>tc_col := t_columns s - 1\<rparr>
                    else s)
           in upd_line j (\<lambda>sl. sl\<lparr>sl_modified := False, sl_oldlen := sl_len sl\<rparr>) s)"

definition redoscr :: "screen \<Rightarrow> screen" where
  "redoscr s =
     (if dumb_term s then s
      else let s = term_cmd TERM_CMD_CL s;
               s = s\<lparr>tc_col := 0, tc_line := 0\<rparr>;
               s = fold redo_line [0..<scr_lns s] s;
               s = rel_move (tc_col s) (tc_line s) (cur_col s) (cur_ln s) s
           in emit [Oflush] (s\<lparr>docls := False, scrollcnt := 0\<rparr>))"

definition refresh_modified :: "nat \<Rightarrow> nat \<Rightarrow> screen \<Rightarrow> screen" where
  \<comment> \<open>sending the changed range of line \<open>i\<close>, kept in row \<open>j\<close>\<close>
  "refresh_modified i j s =
     (let s = upd_line j (\<lambda>sl. sl\<lparr>sl_modified := False,
                sl_emod := (if sl_len sl \<le> sl_emod sl then u8 (sl_len sl - 1) else sl_emod sl)\<rparr>) s;
          sl = picture s ! j;
          s = rel_move (tc_col s) (tc_line s) (sl_smod sl) i s;
          s = (if sl_standout sl then standoutput (sl_data sl) (sl_smod sl) (sl_emod sl + 1) (sl_sso sl) (sl_eso sl) s
               else emit [Output (sub_bytes (sl_data sl) (sl_smod sl) (sl_emod sl + 1))] s);
          s = s\<lparr>tc_col := sl_emod sl + 1\<rparr>
      in if t_columns s \<le> tc_col s then
           if automargins s then next_tc_line (s\<lparr>tc_col := tc_col s - t_columns s\<rparr>)
           else s\<lparr>tc_col := t_columns s - 1\<rparr>
         else s)"

definition refresh_line :: "nat \<Rightarrow> screen \<Rightarrow> screen" where
  \<comment> \<open>the body of the loop of \<open>refresh\<close>\<close>
  "refresh_line i s =
     (let j = row s i;
          s = (if sl_modified (picture s ! j) \<and> sl_smod (picture s ! j) < sl_len (picture s ! j)
               then refresh_modified i j s else s);
          sl = picture s ! j;
          s = (if sl_len sl < sl_oldlen sl
               then term_cmd TERM_CMD_CE (rel_move (tc_col s) (tc_line s) (sl_len sl) i s) else s)
      in upd_line j (\<lambda>sl. sl\<lparr>sl_oldlen := sl_len sl\<rparr>) s)"

definition refresh :: "bool \<Rightarrow> screen \<Rightarrow> screen" where
  \<comment> \<open>the flag: \<^verbatim>\<open>inbuf_empty()\<close>\<close>
  "refresh idle s =
     (if \<not> idle then s
      else if docls s \<or> int (scr_lns s) - 3 \<le> \<bar>scrollcnt s\<bar> then redoscr s
      else let s = (if scrollcnt s < 0 then
                      (emit (replicate (nat (- scrollcnt s)) (Output TERM_CMD_SR))
                        (rel_move (tc_col s) (tc_line s) 0 0 s))\<lparr>scrollcnt := 0\<rparr> else s);
               s = (if 0 < scrollcnt s then
                      (emit (replicate (nat (scrollcnt s)) (Ochar LF))
                        (rel_move (tc_col s) (tc_line s) 0 (t_lines s - 1) s))\<lparr>scrollcnt := 0\<rparr> else s);
               s = fold refresh_line [0..<scr_lns s] s
           in emit [Oflush] (rel_move (tc_col s) (tc_line s) (cur_col s) (cur_ln s) s))"

definition move :: "nat \<Rightarrow> nat \<Rightarrow> screen \<Rightarrow> screen" where
  "move y x s = s\<lparr>cur_col := x, cur_ln := y\<rparr>"

definition getyx :: "screen \<Rightarrow> nat \<times> nat" where
  "getyx s = (cur_ln s, cur_col s)"

definition wipe :: "screenline \<Rightarrow> screenline" where
  "wipe sl = sl\<lparr>sl_modified := False, sl_standout := False, sl_len := 0\<rparr>"

definition clear :: "screen \<Rightarrow> screen" where
  "clear s =
     (if dumb_term s then s
      else move 0 0 (s\<lparr>roll := 0, docls := True, downfrom := 0,
             picture := map (\<lambda>sl. (wipe sl)\<lparr>sl_oldlen := 0\<rparr>) (take (scr_lns s) (picture s))
                        @ drop (scr_lns s) (picture s)\<rparr>))"

definition clear_whole_line :: "nat \<Rightarrow> screen \<Rightarrow> screen option" where
  "clear_whole_line i s =
     (if length (picture s) \<le> i then None
      else Some (upd_line i (\<lambda>sl. (wipe sl)\<lparr>sl_oldlen := 79\<rparr>) s))"

definition pad_line :: "nat \<Rightarrow> nat \<Rightarrow> screenline \<Rightarrow> screenline option" where
  \<comment> \<open>\<^verbatim>\<open>memset(slp->data + slp->len, ' ', n)\<close> when \<open>len < col\<close>\<close>
  "pad_line col n sl =
     (if col \<le> sl_len sl then Some sl
      else if LINELEN < sl_len sl + n then None
      else Some (sl\<lparr>sl_data := take (sl_len sl) (sl_data sl) @ replicate n SPC
             @ drop (sl_len sl + n) (sl_data sl)\<rparr>))"

definition clrtoeol :: "screen \<Rightarrow> screen option" where
  "clrtoeol s =
     (if dumb_term s then Some s
      else let j = row s (cur_ln s); sl = picture s ! j;
               sl = (if cur_col s \<le> sl_sso sl then sl\<lparr>sl_standout := False\<rparr> else sl)
           in do {
             sl \<leftarrow> pad_line (cur_col s) (cur_col s - sl_len sl + 1) sl;
             Some (s\<lparr>standing := False, picture := (picture s)[j := sl\<lparr>sl_len := cur_col s\<rparr>]\<rparr>) })"

definition clrtobot :: "screen \<Rightarrow> screen" where
  "clrtobot s =
     (if dumb_term s then s
      else fold (\<lambda>i s. upd_line (row s i)
             (\<lambda>sl. (wipe sl)\<lparr>sl_oldlen := (if 0 < sl_oldlen sl then 255 else sl_oldlen sl)\<rparr>) s)
             [cur_ln s..<scr_lns s] s)"

definition outc_dumb :: "char \<Rightarrow> screen \<Rightarrow> screen" where
  "outc_dumb c s =
     (let (s, c) = (if isprint2 c then (s, c)
                    else if c = LF then (emit [Ochar CR] s, c)
                    else if c \<noteq> ESC \<or> \<not> showansi s then (s, CHR ''*'') else (s, c))
      in emit [Ochar c] s)"

definition next_line :: "screen \<Rightarrow> nat" where
  "next_line s = (if cur_ln s < scr_lns s then cur_ln s + 1 else cur_ln s)"

definition outc_newline :: "screen \<Rightarrow> screen option" where
  "outc_newline s =
     (let j = row s (cur_ln s); col = cur_col s; sl = picture s ! j;
          sl = (if standing s then sl\<lparr>sl_eso := u8 (max (sl_eso sl) col)\<rparr> else sl)
      in do {
        sl \<leftarrow> pad_line col (col - sl_len sl + 1) sl;
        Some (s\<lparr>standing := False, picture := (picture s)[j := sl\<lparr>sl_len := col\<rparr>],
               cur_col := 0, cur_ln := next_line s\<rparr>) })"

definition outc_print :: "char \<Rightarrow> screen \<Rightarrow> screen option" where
  \<comment> \<open>storing a character: the part of \<open>outc\<close> after its tests\<close>
  "outc_print c s =
     (let j = row s (cur_ln s); col = cur_col s; sl = picture s ! j
      in do {
        sl \<leftarrow> pad_line col (col - sl_len sl) sl;
        (if LINELEN \<le> col then None else Some ());
        let sl = (if \<not> sl_modified sl then sl\<lparr>sl_smod := u8 col, sl_emod := u8 col\<rparr>
                  else let sl = (if sl_emod sl < col then sl\<lparr>sl_emod := u8 col\<rparr> else sl)
                       in if col < sl_smod sl then sl\<lparr>sl_smod := u8 col\<rparr> else sl);
        let sl = sl\<lparr>sl_modified := True, sl_data := (sl_data sl)[col := c]\<rparr>;
        let col = col + 1;
        let sl = (if sl_len sl < col then sl\<lparr>sl_len := col\<rparr> else sl);
        Some (if scr_cols s \<le> col then
                if standing s \<and> sl_standout sl
                then s\<lparr>standing := False,
                       picture := (picture s)[j := sl\<lparr>sl_eso := u8 (max (sl_eso sl) col)\<rparr>],
                       cur_ln := next_line s, cur_col := 0\<rparr>
                else s\<lparr>picture := (picture s)[j := sl], cur_ln := next_line s, cur_col := 0\<rparr>
              else s\<lparr>picture := (picture s)[j := sl], cur_col := col\<rparr>) })"

definition outc :: "char \<Rightarrow> screen \<Rightarrow> (screen \<times> nat) option" where
  "outc c s =
     (if inansi s then Some (if c = CHR ''m'' then s\<lparr>inansi := False\<rparr> else s, 0)
      else if c = ESC \<and> \<not> iscolor s then Some (s\<lparr>inansi := True\<rparr>, 0)
      else if dumb_term s then Some (outc_dumb c s, 1)
      else if \<not> isprint2 c \<and> (c = LF \<or> c = CR) then do { s \<leftarrow> outc_newline s; Some (s, 1) }
      else do {
        s \<leftarrow> outc_print (if \<not> isprint2 c \<and> (c \<noteq> ESC \<or> \<not> showansi s) then CHR ''*'' else c) s;
        Some (s, 1) })"

fun outs :: "string \<Rightarrow> screen \<Rightarrow> screen option" where
  "outs [] s = Some s"
| "outs (c # str) s = do { (s, _) \<leftarrow> outc c s; outs str s }"

fun outns_ansi :: "string \<Rightarrow> nat \<Rightarrow> screen \<Rightarrow> screen option" where
  "outns_ansi [] n s = Some s"
| "outns_ansi (c # str) n s =
     (if n = 0 then Some s else do { (s, k) \<leftarrow> outc c s; outns_ansi str (n - k) s })"

definition outns :: "string \<Rightarrow> nat \<Rightarrow> bool \<Rightarrow> screen \<Rightarrow> screen option" where
  "outns str n ansi s =
     (if \<not> ansi then outs (take n str) s
      else do { s \<leftarrow> outns_ansi str n s; outs [ESC, CHR ''['', CHR ''m''] s })"

section \<open>Formatted output\<close>

datatype parg = Pstr "string option" | Pint int

datatype pitem = Plain char | Conv bool bool int char
  \<comment> \<open>a conversion: \<^verbatim>\<open>sgn > 0\<close>, \<^verbatim>\<open>sgn2\<close>, the width \<^verbatim>\<open>val\<close>, the letter\<close>

function parse_fmt :: "string \<Rightarrow> pitem list" where
  "parse_fmt [] = []"
| "parse_fmt (c # fmt) =
     (if c \<noteq> CHR ''%'' then Plain c # parse_fmt fmt
      else let minus = takeWhile (\<lambda>c. c = CHR ''-'') fmt;
               dot = (minus = [] \<and> fmt \<noteq> [] \<and> hd fmt = CHR ''.'');
               fmt = (if dot then tl fmt else drop (length minus) fmt);
               ds = takeWhile isdigit fmt;
               fmt = drop (length ds) fmt
           in case fmt of
                [] \<Rightarrow> []
              | c # fmt \<Rightarrow> Conv (even (length minus)) (\<not> dot) (digits_value 0 ds) c # parse_fmt fmt)"
  by pat_completeness auto
termination
proof (relation "measure length")
  fix c fmt and minus :: string and dot and fmt' ds fmt'' d rest
  assume a: "minus = takeWhile (\<lambda>c. c = CHR ''-'') fmt"
    "dot = (minus = [] \<and> fmt \<noteq> [] \<and> hd fmt = CHR ''.'')"
    "fmt' = (if dot then tl fmt else drop (length minus) fmt)"
    "ds = takeWhile isdigit fmt'" "fmt'' = drop (length ds) fmt'" "fmt'' = d # rest"
  have "length fmt'' = Suc (length rest)" using a(6) by simp
  moreover have "length fmt'' \<le> length fmt'" unfolding a(5) by simp
  moreover have "length fmt' \<le> length fmt" unfolding a(3) by simp
  ultimately show "(rest, c # fmt) \<in> measure length" by simp
qed auto

definition dec :: "nat list" where
  "dec = [1000000000, 100000000, 10000000, 1000000, 100000, 10000, 1000, 100, 10, 1]"

fun digit_loop :: "nat list \<Rightarrow> nat \<Rightarrow> bool \<Rightarrow> string" where
  \<comment> \<open>the loop that prints the digits, with its \<^verbatim>\<open>hd\<close>; the last place is always printed\<close>
  "digit_loop [] i h = []"
| "digit_loop (d # ds) i h =
     (let count = i div d; i = i mod d; h = (if ds = [] then False else h)
      in if h \<and> count = 0 then digit_loop ds i h
         else char_of (48 + count) # digit_loop ds i False)"

definition num_places :: "nat \<Rightarrow> nat" where
  \<comment> \<open>\<^verbatim>\<open>len\<close> before the sign\<close>
  "num_places i = (if i = 0 then 1 else length (dropWhile (\<lambda>d. i < d) dec))"

definition blanks :: "int \<Rightarrow> string" where
  "blanks n = replicate (nat n) SPC"

definition prints_s :: "bool \<Rightarrow> bool \<Rightarrow> int \<Rightarrow> string option \<Rightarrow> screen \<Rightarrow> screen option" where
  "prints_s sg sgn2 val bp s =
     (let bp = (case bp of None \<Rightarrow> ''(null)'' | Some b \<Rightarrow> b); slen = int (length bp) in
      if val \<noteq> 0 then
        if \<not> sgn2 then outns bp (nat (if val \<le> slen then val else slen)) True s
        else if val \<le> slen then outns bp (nat val) False s
        else if sg then do { s \<leftarrow> outs (blanks (val - slen)) s; outs bp s }
        else do { s \<leftarrow> outs bp s; outs (blanks (val - slen)) s }
      else outs bp s)"

definition prints_d :: "bool \<Rightarrow> int \<Rightarrow> int \<Rightarrow> screen \<Rightarrow> screen option" where
  \<comment> \<open>negating the least int is undefined\<close>
  "prints_d sg val i s =
     (if i = - (2 ^ 31) then None
      else let negi = (i < 0); i = nat \<bar>i\<bar>; len = int (num_places i) + (if negi then 1 else 0) in do {
        s \<leftarrow> (if len \<le> val \<and> sg then outs (blanks (val - len)) s else Some s);
        s \<leftarrow> (if negi then outs ''-'' s else Some s);
        s \<leftarrow> outs (digit_loop dec i True) s;
        (if len \<le> val \<and> \<not> sg then outs (blanks (val - len)) s else Some s) })"

fun prints_items :: "pitem list \<Rightarrow> parg list \<Rightarrow> screen \<Rightarrow> screen option" where
  \<comment> \<open>a missing argument or one of the wrong type is undefined\<close>
  "prints_items [] args s = Some s"
| "prints_items (Plain c # its) args s = do { (s, _) \<leftarrow> outc c s; prints_items its args s }"
| "prints_items (Conv sg sgn2 val c # its) args s =
     (if c = CHR ''s'' then (case args of
        Pstr bp # args \<Rightarrow> do { s \<leftarrow> prints_s sg sgn2 val bp s; prints_items its args s } | _ \<Rightarrow> None)
      else if c = CHR ''d'' then (case args of
        Pint i # args \<Rightarrow> do { s \<leftarrow> prints_d sg val i s; prints_items its args s } | _ \<Rightarrow> None)
      else if c = CHR ''c'' then (case args of
        Pint i # args \<Rightarrow> do { (s, _) \<leftarrow> outc (char_of (nat (i mod 256))) s; prints_items its args s } | _ \<Rightarrow> None)
      else do { (s, _) \<leftarrow> outc c s; prints_items its args s })"

definition prints :: "string \<Rightarrow> parg list \<Rightarrow> screen \<Rightarrow> screen option" where
  "prints fmt args s = prints_items (parse_fmt fmt) args s"

definition scroll :: "screen \<Rightarrow> screen option" where
  "scroll s =
     (if dumb_term s then prints [LF] [] s
      else let s = s\<lparr>scrollcnt := scrollcnt s + 1,
                     roll := (if scr_lns s \<le> roll s + 1 then roll s + 1 - scr_lns s else roll s + 1)\<rparr>
           in clrtoeol (move (scr_lns s - 1) 0 s))"

definition standout :: "screen \<Rightarrow> screen" where
  "standout s =
     (if dumb_term s \<or> standing s then s
      else upd_line (row s (cur_ln s))
             (\<lambda>sl. sl\<lparr>sl_sso := u8 (cur_col s), sl_eso := u8 (cur_col s), sl_standout := True\<rparr>)
             (s\<lparr>standing := True\<rparr>))"

definition standend :: "screen \<Rightarrow> screen" where
  "standend s =
     (if dumb_term s \<or> \<not> standing s then s
      else upd_line (row s (cur_ln s)) (\<lambda>sl. sl\<lparr>sl_eso := u8 (max (sl_eso sl) (cur_col s))\<rparr>)
             (s\<lparr>standing := False\<rparr>))"

definition line_text :: "screenline \<Rightarrow> string" where
  \<comment> \<open>what the two save functions keep of a line\<close>
  "line_text sl = take (sl_len sl) (cstr (sl_data sl))"

definition saveline :: "bool \<Rightarrow> nat \<Rightarrow> nat \<Rightarrow> screen \<Rightarrow> screen option" where
  \<comment> \<open>the flag: \<^verbatim>\<open>inbuf_empty()\<close>; the line is taken without \<^verbatim>\<open>roll\<close>, the buffers have 256 bytes\<close>
  "saveline idle line mode s =
     (if mode = 0 \<or> mode = 2 then
        if length (picture s) \<le> line \<or> 256 \<le> length (cstr (sl_data (picture s ! line)))
           \<or> 256 \<le> sl_len (picture s ! line) then None
        else Some (s\<lparr>saved_tmp := (saved_tmp s)[mode div 2 := line_text (picture s ! line)]\<rparr>)
      else if mode = 1 \<or> mode = 3 then
        (let (y, x) = getyx s in do {
           s \<leftarrow> clrtoeol (move line 0 s);
           let s = refresh idle s;
           s \<leftarrow> prints ''%s'' [Pstr (Some (saved_tmp s ! ((mode - 1) div 2)))] s;
           Some (refresh idle (move y x s)) })
      else Some s)"

definition saveline_buf :: "nat \<Rightarrow> nat \<Rightarrow> screen \<Rightarrow> screen option" where
  "saveline_buf line mode s =
     (if mode = 0 then
        if length (picture s) \<le> line \<or> length (saved_temp s) \<le> line
           \<or> LINELEN \<le> sl_len (picture s ! line) then None
        else Some (s\<lparr>saved_temp := (saved_temp s)[line := line_text (picture s ! line)]\<rparr>)
      else if mode = 1 then
        (if length (saved_temp s) \<le> line then None
         else let (y, x) = getyx s in do {
           s \<leftarrow> clear_whole_line line (move line 0 s);
           s \<leftarrow> prints ''%s'' [Pstr (Some (saved_temp s ! line))] s;
           Some (move y x s) })
      else Some s)"


section \<open>Well-formed screens\<close>

definition line_ok :: "nat \<Rightarrow> screenline \<Rightarrow> bool" where
  "line_ok cols sl \<longleftrightarrow> length (sl_data sl) = LINELEN \<and> sl_len sl \<le> cols
     \<and> drop cols (sl_data sl) = replicate (LINELEN - cols) NUL
     \<and> sl_smod sl < 256 \<and> sl_emod sl < 256 \<and> sl_sso sl < 256 \<and> sl_eso sl < 256
     \<and> (sl_modified sl \<longrightarrow> sl_smod sl \<le> sl_emod sl \<and> sl_emod sl < cols)"

definition screen_ok :: "screen \<Rightarrow> bool" where
  "screen_ok s \<longleftrightarrow> 0 < scr_lns s \<and> length (picture s) = scr_lns s \<and> roll s < scr_lns s
     \<and> 0 < scr_cols s \<and> scr_cols s < 256 \<and> cur_ln s \<le> scr_lns s \<and> cur_col s < scr_cols s
     \<and> length (saved_tmp s) = 2 \<and> length (saved_temp s) = 6
     \<and> (\<forall>sl\<in>set (picture s). line_ok (scr_cols s) sl)"

lemma screen_okD:
  assumes "screen_ok s"
  shows "0 < scr_lns s" "length (picture s) = scr_lns s" "roll s < scr_lns s" "0 < scr_cols s"
    "scr_cols s < 256" "cur_ln s \<le> scr_lns s" "cur_col s < scr_cols s"
    "\<And>sl. sl \<in> set (picture s) \<Longrightarrow> line_ok (scr_cols s) sl"
    "length (saved_tmp s) = 2" "length (saved_temp s) = 6"
  using assms by (auto simp: screen_ok_def)

lemma row_lt: "screen_ok s \<Longrightarrow> row s i < length (picture s)"
  by (simp add: row_def screen_okD(1,2))

lemma row_line_ok: "screen_ok s \<Longrightarrow> line_ok (scr_cols s) (picture s ! row s i)"
  using screen_okD(8) row_lt nth_mem by blast

lemma picture_upd_ok:
  assumes "\<forall>sl\<in>set pic. line_ok c sl" "line_ok c sl'"
  shows "\<forall>sl\<in>set (pic[j := sl']). line_ok c sl"
  using assms set_update_subset_insert [of pic j sl'] by auto

definition geometry :: "screen \<Rightarrow> nat \<times> nat \<times> nat \<times> nat \<times> nat \<times> nat \<times> nat \<times> nat" where
  \<comment> \<open>what sending leaves alone\<close>
  "geometry s = (scr_lns s, scr_cols s, roll s, cur_ln s, cur_col s, length (picture s),
     length (saved_tmp s), length (saved_temp s))"

lemma screen_ok_frame:
  assumes "screen_ok s" "geometry s' = geometry s" "\<forall>sl\<in>set (picture s'). line_ok (scr_cols s) sl"
  shows "screen_ok s'"
  using assms by (simp add: screen_ok_def geometry_def)

lemma emit_frame [simp]:
  "geometry (emit rs s) = geometry s" "picture (emit rs s) = picture s" "scr_cols (emit rs s) = scr_cols s"
  "saved_tmp (emit rs s) = saved_tmp s" "dumb_term (emit rs s) = dumb_term s" "inansi (emit rs s) = inansi s"
  "standing (emit rs s) = standing s" "cur_ln (emit rs s) = cur_ln s" "cur_col (emit rs s) = cur_col s"
  "row (emit rs s) = row s" "showansi (emit rs s) = showansi s" "iscolor (emit rs s) = iscolor s"
  "saved_temp (emit rs s) = saved_temp s" "roll (emit rs s) = roll s" "scr_lns (emit rs s) = scr_lns s"
  by (simp_all add: emit_def geometry_def row_def fun_eq_iff)

definition same_view :: "screen \<Rightarrow> screen \<Rightarrow> bool" where
  \<comment> \<open>the two states differ at most in what was sent and where the terminal's cursor is\<close>
  "same_view s s' \<longleftrightarrow> geometry s' = geometry s \<and> picture s' = picture s \<and> dumb_term s' = dumb_term s
     \<and> inansi s' = inansi s \<and> standing s' = standing s \<and> showansi s' = showansi s \<and> iscolor s' = iscolor s
     \<and> saved_tmp s' = saved_tmp s \<and> saved_temp s' = saved_temp s"

lemma same_view_refl [simp]: "same_view s s"
  by (simp add: same_view_def)

lemma same_view_trans [trans]: "same_view s s' \<Longrightarrow> same_view s' s'' \<Longrightarrow> same_view s s''"
  by (simp add: same_view_def)

lemma same_view_emit [simp]: "same_view s (emit rs s') \<longleftrightarrow> same_view s s'"
  by (simp add: same_view_def)

lemma same_view_tc [simp]:
  "same_view s (s'\<lparr>tc_col := a\<rparr>) \<longleftrightarrow> same_view s s'" "same_view s (s'\<lparr>tc_line := b\<rparr>) \<longleftrightarrow> same_view s s'"
  "same_view s (s'\<lparr>scrollcnt := c\<rparr>) \<longleftrightarrow> same_view s s'" "same_view s (s'\<lparr>docls := d\<rparr>) \<longleftrightarrow> same_view s s'"
  by (simp_all add: same_view_def geometry_def)

lemma same_view_rel_move [simp]: "same_view s (rel_move a b c d s') \<longleftrightarrow> same_view s s'"
  by (simp add: rel_move_def do_move_def Let_def)

lemma same_view_standoutput [simp]: "same_view s (standoutput b i j k l s') \<longleftrightarrow> same_view s s'"
  by (simp add: standoutput_def term_cmd_def Let_def)

lemma same_view_next_tc [simp]: "same_view s (next_tc_line s') \<longleftrightarrow> same_view s s'"
  by (simp add: next_tc_line_def)

lemma same_view_term_cmd [simp]: "same_view s (term_cmd c s') \<longleftrightarrow> same_view s s'"
  by (simp add: term_cmd_def)

definition line_shown :: "screenline \<Rightarrow> nat \<times> string \<times> bool \<times> nat \<times> nat" where
  \<comment> \<open>the part of a line that sending it does not change\<close>
  "line_shown sl = (sl_len sl, sl_data sl, sl_standout sl, sl_sso sl, sl_eso sl)"

definition same_shown :: "screen \<Rightarrow> screen \<Rightarrow> bool" where
  "same_shown s s' \<longleftrightarrow> geometry s' = geometry s \<and> map line_shown (picture s') = map line_shown (picture s)
     \<and> dumb_term s' = dumb_term s \<and> inansi s' = inansi s \<and> standing s' = standing s
     \<and> showansi s' = showansi s \<and> iscolor s' = iscolor s \<and> saved_tmp s' = saved_tmp s
     \<and> saved_temp s' = saved_temp s \<and> (screen_ok s \<longrightarrow> screen_ok s')"

lemma same_shown_refl [simp]: "same_shown s s"
  by (simp add: same_shown_def)

lemma same_shown_trans: "same_shown s s' \<Longrightarrow> same_shown s' s'' \<Longrightarrow> same_shown s s''"
  by (simp add: same_shown_def)

lemma same_view_ok: "same_view s s' \<Longrightarrow> screen_ok s \<Longrightarrow> screen_ok s'"
  by (rule screen_ok_frame) (auto simp: same_view_def screen_okD(8))

lemma same_view_shown: "same_view s s' \<Longrightarrow> same_shown s s'"
  using same_view_ok by (simp add: same_view_def same_shown_def)

lemma same_shown_upd:
  assumes "\<And>sl. line_shown (f sl) = line_shown sl" "\<And>sl. line_ok (scr_cols s) sl \<Longrightarrow> line_ok (scr_cols s) (f sl)"
  shows "same_shown s (upd_line j f s)"
proof -
  let ?s = "upd_line j f s"
  have pic: "map line_shown (picture ?s) = map line_shown (picture s)"
    by (cases "j < length (picture s)") (simp_all add: upd_line_def assms(1) map_list_update_same)
  have "screen_ok ?s" if ok: "screen_ok s"
  proof (cases "j < length (picture s)")
    case True
    then have l: "line_ok (scr_cols s) (f (picture s ! j))"
      using screen_okD(8) [OF ok] assms(2) by simp
    have "\<forall>sl\<in>set ((picture s)[j := f (picture s ! j)]). line_ok (scr_cols s) sl"
      by (rule picture_upd_ok) (use screen_okD(8) [OF ok] l in auto)
    then have "\<forall>sl\<in>set (picture ?s). line_ok (scr_cols s) sl" by (simp add: upd_line_def)
    then show ?thesis using ok by (intro screen_ok_frame [OF ok]) (simp_all add: upd_line_def geometry_def)
  next
    case False
    then show ?thesis using ok by (simp add: upd_line_def list_update_beyond not_less)
  qed
  with pic show ?thesis by (simp add: same_shown_def upd_line_def geometry_def)
qed

lemma same_shown_redo_line: "same_shown s (redo_line i s)"
proof (cases "sl_len (picture s ! row s i) = 0")
  case True
  then show ?thesis by (simp add: redo_line_def Let_def)
next
  case False
  let ?f = "\<lambda>sl. sl\<lparr>sl_modified := False, sl_oldlen := sl_len sl\<rparr>"
  obtain s' where r: "redo_line i s = upd_line (row s i) ?f s'" and v: "same_view s s'"
    using False by (simp add: redo_line_def Let_def split: if_splits)
  have "same_shown s' (upd_line (row s i) ?f s')"
    by (rule same_shown_upd) (auto simp: line_shown_def line_ok_def)
  with same_view_shown [OF v] show ?thesis unfolding r by (rule same_shown_trans)
qed

lemma same_shown_fold:
  assumes "\<And>i s. same_shown s (f i s)"
  shows "same_shown s (fold f is s)"
  by (induction "is" arbitrary: s) (auto intro: same_shown_trans assms)

lemma same_shown_redoscr: "same_shown s (redoscr s)"
proof (cases "dumb_term s")
  case False
  let ?s = "(term_cmd TERM_CMD_CL s)\<lparr>tc_col := 0, tc_line := 0\<rparr>"
  have "same_view s ?s" by simp
  then have "same_shown s (fold redo_line [0..<scr_lns ?s] ?s)"
    using same_shown_fold [of redo_line, OF same_shown_redo_line] by (blast intro: same_view_shown same_shown_trans)
  moreover have "same_view s' ((emit [Oflush] ((rel_move a b c d s')\<lparr>docls := False, scrollcnt := 0\<rparr>)))" for s' a b c d
    by simp
  ultimately show ?thesis
    using False unfolding redoscr_def Let_def if_not_P [OF False]
    by (blast intro: same_view_shown same_shown_trans)
qed (simp add: redoscr_def)


lemma same_shown_refresh_modified: "same_shown s (refresh_modified i j s)"
proof -
  let ?f = "\<lambda>sl. sl\<lparr>sl_modified := False,
      sl_emod := (if sl_len sl \<le> sl_emod sl then u8 (sl_len sl - 1) else sl_emod sl)\<rparr>"
  have u: "same_shown s (upd_line j ?f s)"
    by (rule same_shown_upd) (auto simp: line_shown_def line_ok_def u8_def)
  have "same_view (upd_line j ?f s) (refresh_modified i j s)"
    by (simp add: refresh_modified_def Let_def)
  with u show ?thesis by (blast intro: same_view_shown same_shown_trans)
qed

lemma same_shown_refresh_line: "same_shown s (refresh_line i s)"
proof -
  let ?j = "row s i"
  define s1 where "s1 = (if sl_modified (picture s ! ?j) \<and> sl_smod (picture s ! ?j) < sl_len (picture s ! ?j)
      then refresh_modified i ?j s else s)"
  have a: "same_shown s s1" by (simp add: s1_def same_shown_refresh_modified)
  define s2 where "s2 = (if sl_len (picture s1 ! ?j) < sl_oldlen (picture s1 ! ?j)
      then term_cmd TERM_CMD_CE (rel_move (tc_col s1) (tc_line s1) (sl_len (picture s1 ! ?j)) i s1) else s1)"
  have b: "same_view s1 s2" by (simp add: s2_def)
  have c: "same_shown s2 (upd_line ?j (\<lambda>sl. sl\<lparr>sl_oldlen := sl_len sl\<rparr>) s2)"
    by (rule same_shown_upd) (auto simp: line_shown_def line_ok_def)
  have "refresh_line i s = upd_line ?j (\<lambda>sl. sl\<lparr>sl_oldlen := sl_len sl\<rparr>) s2"
    by (simp only: refresh_line_def Let_def s1_def s2_def)
  with a b c show ?thesis by (metis same_view_shown same_shown_trans)
qed

lemma same_shown_refresh: "same_shown s (refresh idle s)"
proof (cases "idle \<and> \<not> (docls s \<or> int (scr_lns s) - 3 \<le> \<bar>scrollcnt s\<bar>)")
  case False
  then show ?thesis by (auto simp: refresh_def same_shown_redoscr)
next
  case True
  define s1 where "s1 = (if scrollcnt s < 0 then
       (emit (replicate (nat (- scrollcnt s)) (Output TERM_CMD_SR))
          (rel_move (tc_col s) (tc_line s) 0 0 s))\<lparr>scrollcnt := 0\<rparr> else s)"
  define s2 where "s2 = (if 0 < scrollcnt s1 then
       (emit (replicate (nat (scrollcnt s1)) (Ochar LF))
          (rel_move (tc_col s1) (tc_line s1) 0 (t_lines s1 - 1) s1))\<lparr>scrollcnt := 0\<rparr> else s1)"
  define s3 where "s3 = fold refresh_line [0..<scr_lns s2] s2"
  have "same_view s s1" by (simp add: s1_def)
  moreover have "same_view s1 s2" by (simp add: s2_def)
  moreover have "same_shown s2 s3"
    unfolding s3_def by (rule same_shown_fold) (rule same_shown_refresh_line)
  moreover have "refresh idle s = emit [Oflush] (rel_move (tc_col s3) (tc_line s3) (cur_col s3) (cur_ln s3) s3)"
    using True by (simp add: refresh_def Let_def s1_def s2_def s3_def)
  moreover have "same_view s3 (emit [Oflush] (rel_move (tc_col s3) (tc_line s3) (cur_col s3) (cur_ln s3) s3))"
    by simp
  ultimately show ?thesis by (metis same_view_shown same_shown_trans)
qed

section \<open>Every operation keeps the screen well formed\<close>

lemma pad_line_ok:
  assumes "length (sl_data sl) = LINELEN" "col < cols" "cols < 256" "n \<le> col - sl_len sl + 1"
  shows "\<exists>sl'. pad_line col n sl = Some sl' \<and> length (sl_data sl') = LINELEN
    \<and> drop cols (sl_data sl') = drop cols (sl_data sl) \<and> sl' = sl\<lparr>sl_data := sl_data sl'\<rparr>"
  using assms by (cases "col \<le> sl_len sl") (auto simp: pad_line_def LINELEN_def)

lemma update_row_ok:
  assumes "screen_ok s" "line_ok (scr_cols s) sl" "cur_ln s' \<le> scr_lns s" "cur_col s' < scr_cols s"
    "scr_lns s' = scr_lns s" "scr_cols s' = scr_cols s" "roll s' = roll s" "picture s' = (picture s)[j := sl]"
    "saved_tmp s' = saved_tmp s" "saved_temp s' = saved_temp s"
  shows "screen_ok s'"
  using assms picture_upd_ok [of "picture s" "scr_cols s" sl j] by (auto simp: screen_ok_def)

lemma next_line_le: "screen_ok s \<Longrightarrow> next_line s \<le> scr_lns s"
  using screen_okD(6) [of s] by (simp add: next_line_def)

lemma clrtoeol_ok:
  assumes "screen_ok s"
  shows "\<exists>s'. clrtoeol s = Some s' \<and> screen_ok s'"
proof (cases "dumb_term s")
  case False
  let ?sl = "picture s ! row s (cur_ln s)"
  let ?sl1 = "if cur_col s \<le> sl_sso ?sl then ?sl\<lparr>sl_standout := False\<rparr> else ?sl"
  note ok = row_line_ok [OF assms, of "cur_ln s"]
  have "length (sl_data ?sl1) = LINELEN" using ok by (simp add: line_ok_def)
  moreover have c: "cur_col s < scr_cols s" "scr_cols s < 256" using screen_okD [OF assms] by auto
  ultimately obtain sl' where p: "pad_line (cur_col s) (cur_col s - sl_len ?sl + 1) ?sl1 = Some sl'"
      and l: "length (sl_data sl') = LINELEN" "sl' = ?sl1\<lparr>sl_data := sl_data sl'\<rparr>"
        "drop (scr_cols s) (sl_data sl') = drop (scr_cols s) (sl_data ?sl1)"
    using pad_line_ok [of ?sl1 "cur_col s" "scr_cols s" "cur_col s - sl_len ?sl + 1"] by (auto split: if_splits)
  have len1: "sl_len ?sl1 = sl_len ?sl" by simp
  have "line_ok (scr_cols s) (sl'\<lparr>sl_len := cur_col s\<rparr>)"
    using ok l(1,3) c(1) by (subst l(2)) (auto simp: line_ok_def)
  then have "screen_ok (s\<lparr>standing := False, picture := (picture s)[row s (cur_ln s) := sl'\<lparr>sl_len := cur_col s\<rparr>]\<rparr>)"
    using screen_okD [OF assms] by (intro update_row_ok [OF assms]) auto
  then show ?thesis using False p by (simp add: clrtoeol_def Let_def len1)
qed (use assms in \<open>simp add: clrtoeol_def\<close>)

lemma outc_newline_ok:
  assumes "screen_ok s"
  shows "\<exists>s'. outc_newline s = Some s' \<and> screen_ok s'"
proof -
  let ?sl = "picture s ! row s (cur_ln s)"
  let ?sl1 = "if standing s then ?sl\<lparr>sl_eso := u8 (max (sl_eso ?sl) (cur_col s))\<rparr> else ?sl"
  note ok = row_line_ok [OF assms, of "cur_ln s"]
  have "length (sl_data ?sl1) = LINELEN" using ok by (simp add: line_ok_def)
  moreover have c: "cur_col s < scr_cols s" "scr_cols s < 256" using screen_okD [OF assms] by auto
  ultimately obtain sl' where p: "pad_line (cur_col s) (cur_col s - sl_len ?sl1 + 1) ?sl1 = Some sl'"
      and l: "length (sl_data sl') = LINELEN" "sl' = ?sl1\<lparr>sl_data := sl_data sl'\<rparr>"
        "drop (scr_cols s) (sl_data sl') = drop (scr_cols s) (sl_data ?sl1)"
    using pad_line_ok [of ?sl1 "cur_col s" "scr_cols s" "cur_col s - sl_len ?sl1 + 1"] by (auto simp del: One_nat_def)
  have "line_ok (scr_cols s) (sl'\<lparr>sl_len := cur_col s\<rparr>)"
    using ok l(1,3) c(1) by (subst l(2)) (auto simp: line_ok_def u8_def)
  then have "screen_ok (s\<lparr>standing := False, picture := (picture s)[row s (cur_ln s) := sl'\<lparr>sl_len := cur_col s\<rparr>],
               cur_col := 0, cur_ln := next_line s\<rparr>)"
    using screen_okD [OF assms] next_line_le [OF assms] by (intro update_row_ok [OF assms]) auto
  then show ?thesis using p by (simp add: outc_newline_def Let_def)
qed

definition stored :: "char \<Rightarrow> nat \<Rightarrow> screenline \<Rightarrow> screenline" where
  \<comment> \<open>a line after a character was stored at a column, the gap before it being padded\<close>
  "stored c col sl = sl\<lparr>
     sl_smod := (if sl_modified sl then min (sl_smod sl) col else col),
     sl_emod := (if sl_modified sl then max (sl_emod sl) col else col),
     sl_modified := True,
     sl_data := (take (sl_len sl) (sl_data sl) @ replicate (col - sl_len sl) SPC
                 @ drop (max (sl_len sl) col) (sl_data sl))[col := c],
     sl_len := max (sl_len sl) (col + 1)\<rparr>"

lemma stored_ok:
  assumes "line_ok cols sl" "col < cols" "cols < 256"
  shows "line_ok cols (stored c col sl)"
proof -
  have "cols + max (sl_len sl) col - (sl_len sl + (col - sl_len sl)) = cols" by linarith
  with assms show ?thesis by (auto simp: line_ok_def stored_def LINELEN_def)
qed

lemma outc_print_eq:
  fixes c :: char
  assumes "screen_ok s"
  defines "j \<equiv> row s (cur_ln s)"
  defines "sl \<equiv> stored c (cur_col s) (picture s ! j)"
  shows "outc_print c s = Some
    (if cur_col s + 1 < scr_cols s then s\<lparr>picture := (picture s)[j := sl], cur_col := cur_col s + 1\<rparr>
     else if standing s \<and> sl_standout sl
     then s\<lparr>standing := False, picture := (picture s)[j := sl\<lparr>sl_eso := u8 (max (sl_eso sl) (cur_col s + 1))\<rparr>],
            cur_ln := next_line s, cur_col := 0\<rparr>
     else s\<lparr>picture := (picture s)[j := sl], cur_ln := next_line s, cur_col := 0\<rparr>)"
proof -
  let ?sl = "picture s ! j" and ?col = "cur_col s"
  note ok = row_line_ok [OF assms(1), of "cur_ln s", folded j_def]
  have c: "?col < scr_cols s" "scr_cols s < 256" using screen_okD [OF assms(1)] by auto
  have u: "u8 ?col = ?col" using c by (simp add: u8_def)
  have lin: "?col < LINELEN" using c by (simp add: LINELEN_def)
  let ?p = "?sl\<lparr>sl_data := take (sl_len ?sl) (sl_data ?sl) @ replicate (?col - sl_len ?sl) SPC
     @ drop (max (sl_len ?sl) ?col) (sl_data ?sl)\<rparr>"
  have pad: "pad_line ?col (?col - sl_len ?sl) ?sl = Some ?p"
    using ok lin by (auto simp: pad_line_def line_ok_def max_def)
  have eq: "(let sl' = (if \<not> sl_modified ?p then ?p\<lparr>sl_smod := ?col, sl_emod := ?col\<rparr>
         else let sl' = (if sl_emod ?p < ?col then ?p\<lparr>sl_emod := ?col\<rparr> else ?p)
              in if ?col < sl_smod sl' then sl'\<lparr>sl_smod := ?col\<rparr> else sl');
       sl' = sl'\<lparr>sl_modified := True, sl_data := (sl_data sl')[?col := c]\<rparr>
       in if sl_len sl' < ?col + 1 then sl'\<lparr>sl_len := ?col + 1\<rparr> else sl') = sl"
    by (simp add: sl_def stored_def max_def min_def Let_def)
  show ?thesis
    using lin eq unfolding outc_print_def Let_def j_def [symmetric] u
    by (simp add: pad not_less Let_def)
qed

lemma outc_print_ok:
  assumes "screen_ok s"
  shows "\<exists>s'. outc_print c s = Some s' \<and> screen_ok s'"
proof -
  let ?sl = "stored c (cur_col s) (picture s ! row s (cur_ln s))"
  have c: "cur_col s < scr_cols s" "scr_cols s < 256" using screen_okD [OF assms] by auto
  have l: "line_ok (scr_cols s) ?sl" by (rule stored_ok [OF row_line_ok [OF assms] c])
  then have l': "line_ok (scr_cols s) (?sl\<lparr>sl_eso := u8 n\<rparr>)" for n by (simp add: line_ok_def u8_def)
  note geo = screen_okD [OF assms] next_line_le [OF assms]
  let ?j = "row s (cur_ln s)"
  have "screen_ok (s\<lparr>picture := (picture s)[?j := ?sl], cur_col := cur_col s + 1\<rparr>)" if "cur_col s + 1 < scr_cols s"
    by (rule update_row_ok [OF assms l]) (use that geo in auto)
  moreover have "screen_ok (s\<lparr>standing := False, picture := (picture s)[?j := ?sl\<lparr>sl_eso := u8 n\<rparr>],
      cur_ln := next_line s, cur_col := 0\<rparr>)" for n
    by (rule update_row_ok [OF assms l']) (use geo in auto)
  moreover have "screen_ok (s\<lparr>picture := (picture s)[?j := ?sl], cur_ln := next_line s, cur_col := 0\<rparr>)"
    by (rule update_row_ok [OF assms l]) (use geo in auto)
  ultimately show ?thesis unfolding outc_print_eq [OF assms]
    by (cases "cur_col s + 1 < scr_cols s"; cases "standing s \<and> sl_standout ?sl") simp_all
qed

lemma outc_ok:
  assumes "screen_ok s"
  shows "\<exists>s' k. outc c s = Some (s', k) \<and> screen_ok s'"
proof -
  have v: "same_view s (outc_dumb c s)" by (simp add: outc_dumb_def Let_def)
  have a: "screen_ok (s\<lparr>inansi := b\<rparr>)" for b
    by (rule screen_ok_frame [OF assms]) (use screen_okD(8) [OF assms] in \<open>auto simp: geometry_def\<close>)
  have p: "\<exists>s' k. outc_print d s \<bind> (\<lambda>s. Some (s, 1)) = Some (s', k) \<and> screen_ok s'" for d
    using outc_print_ok [OF assms, of d] by auto
  have n: "\<exists>s' k. outc_newline s \<bind> (\<lambda>s. Some (s, 1)) = Some (s', k) \<and> screen_ok s'"
    using outc_newline_ok [OF assms] by auto
  show ?thesis
  proof (cases "inansi s \<or> c = ESC \<and> \<not> iscolor s \<or> dumb_term s")
    case True
    then show ?thesis using same_view_ok [OF v assms] a assms by (auto simp: outc_def)
  next
    case False
    define b d where "b = (\<not> isprint2 c \<and> (c = LF \<or> c = CR))"
      and "d = (if \<not> isprint2 c \<and> (c \<noteq> ESC \<or> \<not> showansi s) then CHR ''*'' else c)"
    from False have "outc c s = (if b then outc_newline s \<bind> (\<lambda>s. Some (s, 1))
      else outc_print d s \<bind> (\<lambda>s. Some (s, 1)))"
      by (auto simp: outc_def b_def d_def)
    then show ?thesis using n p [of d] by (cases b) (auto simp del: One_nat_def)
  qed
qed

lemma outs_ok: "screen_ok s \<Longrightarrow> \<exists>s'. outs str s = Some s' \<and> screen_ok s'"
proof (induction str arbitrary: s)
  case (Cons c str)
  then show ?case using outc_ok [OF Cons.prems, of c] by force
qed simp

lemma outns_ansi_ok: "screen_ok s \<Longrightarrow> \<exists>s'. outns_ansi str n s = Some s' \<and> screen_ok s'"
proof (induction str arbitrary: s n)
  case (Cons c str)
  then show ?case using outc_ok [OF Cons.prems, of c] by force
qed simp

lemma bind_ok:
  assumes "\<exists>s'. x = Some s' \<and> P s'" "\<And>s'. P s' \<Longrightarrow> \<exists>r. f s' = Some r \<and> Q r"
  shows "\<exists>r. Option.bind x f = Some r \<and> Q r"
  using assms by fastforce

lemma outns_ok: "screen_ok s \<Longrightarrow> \<exists>s'. outns str n ansi s = Some s' \<and> screen_ok s'"
  unfolding outns_def by (cases ansi) (auto intro: outs_ok bind_ok [OF outns_ansi_ok])

lemma prints_s_ok: "screen_ok s \<Longrightarrow> \<exists>s'. prints_s sg sgn2 val bp s = Some s' \<and> screen_ok s'"
  by (simp add: prints_s_def Let_def outns_ok outs_ok bind_ok [OF outs_ok])

lemma prints_d_ok:
  assumes "screen_ok s" "- (2 ^ 31) < i"
  shows "\<exists>s'. prints_d sg val i s = Some s' \<and> screen_ok s'"
proof -
  have step: "screen_ok s \<Longrightarrow> \<exists>s'. (if b then outs t s else Some s) = Some s' \<and> screen_ok s'" for b t s
    using outs_ok by simp
  have i: "(i = - (2 ^ 31)) = False" using assms(2) by simp
  show ?thesis unfolding prints_d_def Let_def i if_False
    by (rule bind_ok [OF step [OF assms(1)]], rule bind_ok [OF step], assumption,
        rule bind_ok [OF outs_ok], assumption, rule step)
qed

fun args_ok :: "pitem list \<Rightarrow> parg list \<Rightarrow> bool" where
  \<comment> \<open>the arguments a format needs, in order\<close>
  "args_ok [] args \<longleftrightarrow> True"
| "args_ok (Plain c # its) args \<longleftrightarrow> args_ok its args"
| "args_ok (Conv sg sgn2 val c # its) args \<longleftrightarrow>
     (if c = CHR ''s'' then (case args of Pstr bp # args \<Rightarrow> args_ok its args | _ \<Rightarrow> False)
      else if c = CHR ''d'' then (case args of Pint i # args \<Rightarrow> - (2 ^ 31) < i \<and> args_ok its args | _ \<Rightarrow> False)
      else if c = CHR ''c'' then (case args of Pint i # args \<Rightarrow> args_ok its args | _ \<Rightarrow> False)
      else args_ok its args)"

lemma prints_items_ok:
  "args_ok its args \<Longrightarrow> screen_ok s \<Longrightarrow> \<exists>s'. prints_items its args s = Some s' \<and> screen_ok s'"
proof (induction its args arbitrary: s rule: args_ok.induct)
  case (2 c its args)
  then show ?case using outc_ok [OF 2(3), of c] by force
next
  case (3 sg sgn2 val c its args)
  consider (s) bp as where "c = CHR ''s''" "args = Pstr bp # as" "args_ok its as"
    | (d) i as where "c = CHR ''d''" "args = Pint i # as" "- (2 ^ 31) < i" "args_ok its as"
    | (c) i as where "c = CHR ''c''" "args = Pint i # as" "args_ok its as"
    | (other) "c \<noteq> CHR ''s''" "c \<noteq> CHR ''d''" "c \<noteq> CHR ''c''" "args_ok its args"
    using 3(5) by (auto split: if_splits list.splits parg.splits)
  then show ?case
  proof cases
    case s
    have "\<exists>s'. prints_items its as s1 = Some s' \<and> screen_ok s'" if "screen_ok s1" for s1
      using 3(1) s that by blast
    with s show ?thesis using bind_ok [OF prints_s_ok [OF 3(6)], of "prints_items its as" screen_ok] by simp
  next
    case d
    have "\<exists>s'. prints_items its as s1 = Some s' \<and> screen_ok s'" if "screen_ok s1" for s1
      using 3(2) d that by blast
    with d show ?thesis
      using bind_ok [OF prints_d_ok [OF 3(6) d(3)], of "prints_items its as" screen_ok] by simp
  next
    case c
    obtain s1 k where "outc (char_of (nat (i mod 256))) s = Some (s1, k)" "screen_ok s1"
      using outc_ok [OF 3(6)] by blast
    moreover from this 3(3) c have "\<exists>s'. prints_items its as s1 = Some s' \<and> screen_ok s'" by blast
    ultimately show ?thesis using c by simp
  next
    case other
    obtain s1 k where "outc c s = Some (s1, k)" "screen_ok s1"
      using outc_ok [OF 3(6)] by blast
    moreover from this 3(4) other have "\<exists>s'. prints_items its args s1 = Some s' \<and> screen_ok s'" by blast
    ultimately show ?thesis using other by simp
  qed
qed simp


datatype scr_op =
  Initscr | Move nat nat | Clear | ClrToEol | ClrToBot | PutC char | Prints string "parg list" | Scroll
  | Standout | Standend | Refresh bool | Redoscr | ClearWholeLine nat | SaveLine bool nat nat | SaveLineBuf nat nat

fun scr_exec :: "scr_op \<Rightarrow> screen \<Rightarrow> screen option" where
  "scr_exec Initscr s = Some (move 0 0 (initscr s))"
| "scr_exec (Move y x) s = Some (move y x s)"
| "scr_exec Clear s = Some (clear s)"
| "scr_exec ClrToEol s = clrtoeol s"
| "scr_exec ClrToBot s = Some (clrtobot s)"
| "scr_exec (PutC c) s = do { (s, _) \<leftarrow> outc c s; Some s }"
| "scr_exec (Prints fmt args) s = prints fmt args s"
| "scr_exec Scroll s = scroll s"
| "scr_exec Standout s = Some (standout s)"
| "scr_exec Standend s = Some (standend s)"
| "scr_exec (Refresh idle) s = Some (refresh idle s)"
| "scr_exec Redoscr s = Some (redoscr s)"
| "scr_exec (ClearWholeLine i) s = clear_whole_line i s"
| "scr_exec (SaveLine idle line mode) s = saveline idle line mode s"
| "scr_exec (SaveLineBuf line mode) s = saveline_buf line mode s"

fun scr_run :: "scr_op list \<Rightarrow> screen \<Rightarrow> screen option" where
  "scr_run [] s = Some s"
| "scr_run (a # as) s = do { s \<leftarrow> scr_exec a s; scr_run as s }"

fun call_ok :: "nat \<Rightarrow> nat \<Rightarrow> scr_op \<Rightarrow> bool" where
  \<comment> \<open>what a caller has to respect on a screen of some lines and columns\<close>
  "call_ok lns cols Initscr \<longleftrightarrow> False"
| "call_ok lns cols (Move y x) \<longleftrightarrow> y < lns \<and> x < cols"
| "call_ok lns cols (Prints fmt args) \<longleftrightarrow> args_ok (parse_fmt fmt) args"
| "call_ok lns cols (ClearWholeLine i) \<longleftrightarrow> i < lns"
| "call_ok lns cols (SaveLine idle line mode) \<longleftrightarrow> line < lns"
| "call_ok lns cols (SaveLineBuf line mode) \<longleftrightarrow> line < lns \<and> line < 6"
| "call_ok lns cols _ \<longleftrightarrow> True"

definition same_size :: "screen \<Rightarrow> screen \<Rightarrow> bool" where
  "same_size s s' \<longleftrightarrow> scr_lns s' = scr_lns s \<and> scr_cols s' = scr_cols s"

lemma move_ok: "screen_ok s \<Longrightarrow> y < scr_lns s \<Longrightarrow> x < scr_cols s \<Longrightarrow> screen_ok (move y x s)"
  by (simp add: screen_ok_def move_def)

lemma upd_line_ok:
  assumes "screen_ok s" "\<And>sl. line_ok (scr_cols s) sl \<Longrightarrow> line_ok (scr_cols s) (f sl)" "j < length (picture s)"
  shows "screen_ok (upd_line j f s)"
  using screen_okD [OF assms(1)] assms(2,3)
  by (intro update_row_ok [OF assms(1), where j = j and sl = "f (picture s ! j)"]) (auto simp: upd_line_def)

lemma wipe_ok: "line_ok cols sl \<Longrightarrow> line_ok cols ((wipe sl)\<lparr>sl_oldlen := n\<rparr>)"
  by (simp add: line_ok_def wipe_def)

lemma clear_ok: "screen_ok s \<Longrightarrow> screen_ok (clear s)"
  by (auto simp: screen_ok_def clear_def move_def wipe_ok)

lemma clrtobot_ok:
  assumes "screen_ok s"
  shows "screen_ok (clrtobot s)"
proof -
  have "screen_ok s \<Longrightarrow> screen_ok (fold (\<lambda>i s. upd_line (row s i)
      (\<lambda>sl. (wipe sl)\<lparr>sl_oldlen := (if 0 < sl_oldlen sl then 255 else sl_oldlen sl)\<rparr>) s) is s)" for "is"
  proof (induction "is" arbitrary: s)
    case (Cons i "is")
    have "screen_ok (upd_line (row s i)
        (\<lambda>sl. (wipe sl)\<lparr>sl_oldlen := (if 0 < sl_oldlen sl then 255 else sl_oldlen sl)\<rparr>) s)"
      by (rule upd_line_ok [OF Cons.prems]) (rule wipe_ok, assumption, rule row_lt [OF Cons.prems])
    with Cons.IH show ?case by simp
  qed simp
  with assms show ?thesis by (simp add: clrtobot_def)
qed

lemma standing_ok: "screen_ok s \<Longrightarrow> screen_ok (s\<lparr>standing := b\<rparr>)"
  by (simp add: screen_ok_def)

lemma standout_ok:
  assumes "screen_ok s"
  shows "screen_ok (standout s)"
proof -
  have "screen_ok (upd_line (row s (cur_ln s))
      (\<lambda>sl. sl\<lparr>sl_sso := u8 (cur_col s), sl_eso := u8 (cur_col s), sl_standout := True\<rparr>) (s\<lparr>standing := True\<rparr>))"
    by (rule upd_line_ok [OF standing_ok [OF assms]]) (simp_all add: line_ok_def u8_def row_lt [OF assms])
  with assms show ?thesis by (simp add: standout_def)
qed

lemma standend_ok:
  assumes "screen_ok s"
  shows "screen_ok (standend s)"
proof -
  have "screen_ok (upd_line (row s (cur_ln s))
      (\<lambda>sl. sl\<lparr>sl_eso := u8 (max (sl_eso sl) (cur_col s))\<rparr>) (s\<lparr>standing := False\<rparr>))"
    by (rule upd_line_ok [OF standing_ok [OF assms]]) (simp_all add: line_ok_def u8_def row_lt [OF assms])
  with assms show ?thesis by (simp add: standend_def)
qed

lemma refresh_ok: "screen_ok s \<Longrightarrow> screen_ok (refresh idle s)"
  using same_shown_refresh by (simp add: same_shown_def)

lemma redoscr_ok: "screen_ok s \<Longrightarrow> screen_ok (redoscr s)"
  using same_shown_redoscr by (simp add: same_shown_def)

lemma prints_ok: "args_ok (parse_fmt fmt) args \<Longrightarrow> screen_ok s \<Longrightarrow> \<exists>s'. prints fmt args s = Some s' \<and> screen_ok s'"
  by (simp add: prints_def prints_items_ok)

lemma parse_plain [simp]: "parse_fmt [LF] = [Plain LF]" "parse_fmt ''%s'' = [Conv True True 0 (CHR ''s'')]"
  by (simp_all add: isdigit_def byte_def)

lemma scroll_ok:
  assumes "screen_ok s"
  shows "\<exists>s'. scroll s = Some s' \<and> screen_ok s'"
proof (cases "dumb_term s")
  case True
  then show ?thesis using prints_ok [of "[LF]" "[]"] assms by (simp add: scroll_def)
next
  case False
  let ?s = "s\<lparr>scrollcnt := scrollcnt s + 1,
      roll := (if scr_lns s \<le> roll s + 1 then roll s + 1 - scr_lns s else roll s + 1)\<rparr>"
  have "screen_ok (move (scr_lns ?s - 1) 0 ?s)" using assms by (auto simp: screen_ok_def move_def)
  with clrtoeol_ok False show ?thesis by (simp add: scroll_def)
qed

lemma length_cstr_NUL: "length (cstr (a @ NUL # b)) \<le> length a"
  by (induction a) (auto simp: cstr_def)

lemma length_cstr_data:
  assumes "line_ok cols sl" "cols < 256"
  shows "length (cstr (sl_data sl)) < 256"
proof -
  have "Suc (LINELEN - cols - 1) = LINELEN - cols" using assms(2) by (simp add: LINELEN_def)
  then have "drop cols (sl_data sl) = replicate (Suc (LINELEN - cols - 1)) NUL"
    using assms(1) by (simp only: line_ok_def)
  then have "sl_data sl = take cols (sl_data sl) @ NUL # replicate (LINELEN - cols - 1) NUL"
    by (metis append_take_drop_id replicate_Suc)
  with length_cstr_NUL [of "take cols (sl_data sl)"] have "length (cstr (sl_data sl)) \<le> length (take cols (sl_data sl))"
    by metis
  with assms(2) show ?thesis by simp
qed


lemma outs_append: "outs (a @ b) s = outs a s \<bind> outs b"
proof (induction a arbitrary: s)
  case (Cons c a)
  then show ?case by (simp add: Option.bind_assoc split_beta cong: Option.bind_cong)
qed simp

definition d_text :: "bool \<Rightarrow> int \<Rightarrow> int \<Rightarrow> string" where
  \<comment> \<open>the characters \<open>prints_d\<close> puts out\<close>
  "d_text sg val i =
     (let len = int (num_places (nat \<bar>i\<bar>)) + (if i < 0 then 1 else 0) in
      (if len \<le> val \<and> sg then blanks (val - len) else []) @ (if i < 0 then ''-'' else [])
      @ digit_loop dec (nat \<bar>i\<bar>) True @ (if len \<le> val \<and> \<not> sg then blanks (val - len) else []))"

lemma prints_d_eq: "prints_d sg val i s = (if i = - (2 ^ 31) then None else outs (d_text sg val i) s)"
proof -
  have step: "(if b then outs t s else Some s) = outs (if b then t else []) s" for b t s by simp
  show ?thesis unfolding prints_d_def d_text_def Let_def step outs_append by simp
qed

lemma same_size_refl [simp]: "same_size s s"
  by (simp add: same_size_def)

lemma same_size_trans: "same_size s s' \<Longrightarrow> same_size s' s'' \<Longrightarrow> same_size s s''"
  by (simp add: same_size_def)

lemma same_size_upd [simp]: "same_size s (upd_line j f s') \<longleftrightarrow> same_size s s'"
  "same_size s (move y x s') \<longleftrightarrow> same_size s s'"
  by (simp_all add: same_size_def upd_line_def move_def)

lemma same_size_shown: "same_shown s s' \<Longrightarrow> same_size s s'"
  by (simp add: same_shown_def geometry_def same_size_def)

lemmas same_size_sent = same_size_shown [OF same_shown_refresh] same_size_shown [OF same_shown_redoscr]

lemma same_size_fields [simp]:
  "same_size s (s'\<lparr>standing := b\<rparr>) \<longleftrightarrow> same_size s s'"
  "same_size s (s'\<lparr>inansi := b\<rparr>) \<longleftrightarrow> same_size s s'"
  "same_size s (s'\<lparr>picture := pic\<rparr>) \<longleftrightarrow> same_size s s'"
  "same_size s (s'\<lparr>cur_col := n\<rparr>) \<longleftrightarrow> same_size s s'"
  "same_size s (s'\<lparr>cur_ln := n\<rparr>) \<longleftrightarrow> same_size s s'"
  "same_size s (s'\<lparr>saved_tmp := t\<rparr>) \<longleftrightarrow> same_size s s'"
  "same_size s (s'\<lparr>saved_temp := t\<rparr>) \<longleftrightarrow> same_size s s'"
  "same_size s (s'\<lparr>roll := n\<rparr>) \<longleftrightarrow> same_size s s'"
  "same_size s (s'\<lparr>scrollcnt := i\<rparr>) \<longleftrightarrow> same_size s s'"
  "same_size s (s'\<lparr>docls := b\<rparr>) \<longleftrightarrow> same_size s s'"
  "same_size s (s'\<lparr>downfrom := n\<rparr>) \<longleftrightarrow> same_size s s'"
  "same_size s (emit rs s') \<longleftrightarrow> same_size s s'"
  by (simp_all add: same_size_def emit_def)

lemma clrtoeol_size: "clrtoeol s = Some s' \<Longrightarrow> same_size s s'"
  by (auto simp: clrtoeol_def Let_def bind_eq_Some_conv split: if_splits)

lemma outc_newline_size: "outc_newline s = Some s' \<Longrightarrow> same_size s s'"
  by (auto simp: outc_newline_def Let_def bind_eq_Some_conv)

lemma outc_print_size: "outc_print c s = Some s' \<Longrightarrow> same_size s s'"
  unfolding outc_print_def Let_def bind_eq_Some_conv by (elim exE conjE) (auto split: if_splits)

lemma outc_dumb_size: "same_size s (outc_dumb c s)"
  by (simp add: outc_dumb_def Let_def)

lemma outc_size: "outc c s = Some (s', k) \<Longrightarrow> same_size s s'"
  using outc_newline_size outc_print_size outc_dumb_size
  by (auto simp: outc_def bind_eq_Some_conv split: if_splits)

lemma outs_size: "outs t s = Some s' \<Longrightarrow> same_size s s'"
  by (induction t arbitrary: s) (auto simp: bind_eq_Some_conv dest: outc_size intro: same_size_trans)

lemma outns_ansi_size: "outns_ansi t n s = Some s' \<Longrightarrow> same_size s s'"
  by (induction t arbitrary: s n)
    (auto simp: bind_eq_Some_conv dest: outc_size intro: same_size_trans split: if_splits)

lemma outns_size: "outns t n ansi s = Some s' \<Longrightarrow> same_size s s'"
  by (auto simp: outns_def bind_eq_Some_conv simp del: outs.simps dest: outs_size outns_ansi_size
      intro: same_size_trans split: if_splits)

lemma prints_s_size: "prints_s sg sgn2 val bp s = Some s' \<Longrightarrow> same_size s s'"
  unfolding prints_s_def Let_def
  by (auto simp: bind_eq_Some_conv dest: outs_size outns_size intro: same_size_trans split: if_splits)

lemma prints_d_size: "prints_d sg val i s = Some s' \<Longrightarrow> same_size s s'"
  using outs_size by (auto simp: prints_d_eq split: if_splits)

lemma prints_items_size: "prints_items its args s = Some s' \<Longrightarrow> same_size s s'"
proof (induction its args s rule: prints_items.induct)
  case (2 c its args s)
  then show ?case by (auto simp: bind_eq_Some_conv dest: outc_size intro: same_size_trans)
next
  case (3 sg sgn2 val c its args s)
  from 3(5) consider
      (s) bp as s1 where "c = CHR ''s''" "args = Pstr bp # as" "prints_s sg sgn2 val bp s = Some s1" "prints_items its as s1 = Some s'"
    | (d) i as s1 where "c = CHR ''d''" "args = Pint i # as" "prints_d sg val i s = Some s1" "prints_items its as s1 = Some s'"
    | (c) i as s1 k where "c = CHR ''c''" "args = Pint i # as" "outc (char_of (nat (i mod 256))) s = Some (s1, k)" "prints_items its as s1 = Some s'"
    | (other) s1 k where "c \<noteq> CHR ''s''" "c \<noteq> CHR ''d''" "c \<noteq> CHR ''c''" "outc c s = Some (s1, k)" "prints_items its args s1 = Some s'"
    by (auto simp: bind_eq_Some_conv split: if_splits list.splits parg.splits)
  then show ?case
  proof cases
    case s
    with 3(1) show ?thesis by (blast dest: prints_s_size intro: same_size_trans)
  next
    case d
    with 3(2) show ?thesis by (blast dest: prints_d_size intro: same_size_trans)
  next
    case c
    with 3(3) show ?thesis by (blast dest: outc_size intro: same_size_trans)
  next
    case other
    with 3(4) show ?thesis by (blast dest: outc_size intro: same_size_trans)
  qed
qed simp

lemma prints_size: "prints fmt args s = Some s' \<Longrightarrow> same_size s s'"
  by (auto simp: prints_def dest: prints_items_size)

lemma clrtobot_size: "same_size s (clrtobot s)"
proof -
  have "same_size s (fold (\<lambda>i s. upd_line (row s i) f s) is s)" for f "is"
  proof (induction "is" arbitrary: s)
    case (Cons i "is")
    show ?case using Cons [of "upd_line (row s i) f s"] by (simp add: same_size_def upd_line_def)
  qed simp
  then show ?thesis by (simp add: clrtobot_def)
qed

lemma scroll_size: "scroll s = Some s' \<Longrightarrow> same_size s s'"
  by (auto simp: scroll_def Let_def split: if_splits dest!: prints_size clrtoeol_size)
    (simp_all add: same_size_def move_def)

lemma saveline_size:
  assumes "saveline idle line mode s = Some s'"
  shows "same_size s s'"
proof (cases "mode = 1 \<or> mode = 3")
  case True
  with assms obtain s1 s2 where s: "clrtoeol (move line 0 s) = Some s1"
    "prints ''%s'' [Pstr (Some (saved_tmp (refresh idle s1) ! ((mode - 1) div 2)))] (refresh idle s1) = Some s2"
    "s' = refresh idle (move (cur_ln s) (cur_col s) s2)"
    by (auto simp: saveline_def bind_eq_Some_conv getyx_def Let_def)
  have "same_size s s1" using clrtoeol_size [OF s(1)] by (simp add: same_size_def move_def)
  moreover have "same_size s1 (refresh idle s1)" "same_size s2 s'"
    using same_size_sent(1) [of s1 idle] same_size_sent(1) [of "move (cur_ln s) (cur_col s) s2" idle]
    by (simp_all add: s(3) same_size_def move_def)
  moreover have "same_size (refresh idle s1) s2" by (rule prints_size [OF s(2)])
  ultimately show ?thesis by (simp add: same_size_def)
next
  case False
  with assms show ?thesis by (auto simp: saveline_def split: if_splits)
qed

lemma saveline_buf_size:
  assumes "saveline_buf line mode s = Some s'"
  shows "same_size s s'"
proof (cases "mode = 1")
  case True
  with assms obtain s1 s2 where s: "clear_whole_line line (move line 0 s) = Some s1"
    "prints ''%s'' [Pstr (Some (saved_temp s1 ! line))] s1 = Some s2" "s' = move (cur_ln s) (cur_col s) s2"
    by (auto simp: saveline_buf_def bind_eq_Some_conv getyx_def split: if_splits)
  have "same_size s s1" using s(1) by (auto simp: clear_whole_line_def same_size_def move_def upd_line_def split: if_splits)
  moreover have "same_size s1 s2" by (rule prints_size [OF s(2)])
  ultimately show ?thesis by (simp add: s(3) same_size_def move_def)
next
  case False
  with assms show ?thesis by (auto simp: saveline_buf_def split: if_splits)
qed

lemma scr_exec_size: "scr_exec a s = Some s' \<Longrightarrow> a \<noteq> Initscr \<Longrightarrow> same_size s s'"
  by (cases a) (auto simp: clear_def standout_def standend_def clear_whole_line_def clrtobot_size bind_eq_Some_conv
      dest: clrtoeol_size outc_size prints_size scroll_size saveline_size saveline_buf_size
      split: if_splits intro: same_size_sent)


lemma saved_ok: "screen_ok s \<Longrightarrow> screen_ok (s\<lparr>saved_tmp := (saved_tmp s)[i := t]\<rparr>)"
  "screen_ok s \<Longrightarrow> screen_ok (s\<lparr>saved_temp := (saved_temp s)[i := t]\<rparr>)"
  by (simp_all add: screen_ok_def)

lemma restore_cursor_ok:
  "screen_ok s \<Longrightarrow> screen_ok s' \<Longrightarrow> same_size s s' \<Longrightarrow> screen_ok (move (cur_ln s) (cur_col s) s')"
  by (simp add: screen_ok_def same_size_def move_def)

lemma saveline_ok:
  assumes "screen_ok s" "line < scr_lns s"
  shows "\<exists>s'. saveline idle line mode s = Some s' \<and> screen_ok s'"
proof (cases "mode = 1 \<or> mode = 3")
  case True
  have m: "screen_ok (move line 0 s)" using assms screen_okD(4) by (auto intro: move_ok)
  then obtain s1 where s1: "clrtoeol (move line 0 s) = Some s1" "screen_ok s1" using clrtoeol_ok by blast
  have r: "screen_ok (refresh idle s1)" by (rule refresh_ok [OF s1(2)])
  have ao: "args_ok (parse_fmt ''%s'') [Pstr b]" for b by simp
  obtain s2 where s2: "prints ''%s'' [Pstr (Some (saved_tmp (refresh idle s1) ! ((mode - 1) div 2)))] (refresh idle s1) = Some s2"
    "screen_ok s2" using prints_ok [OF ao r] by blast
  have "same_size s s2"
    using clrtoeol_size [OF s1(1)] same_size_sent(1) [of s1 idle] prints_size [OF s2(1)]
    by (simp add: same_size_def move_def)
  then have "screen_ok (refresh idle (move (cur_ln s) (cur_col s) s2))"
    using assms(1) s2(2) by (blast intro: refresh_ok restore_cursor_ok)
  with True s1 s2 show ?thesis by (auto simp: saveline_def getyx_def Let_def)
next
  case False
  let ?sl = "picture s ! line"
  have l: "line_ok (scr_cols s) ?sl" "line < length (picture s)"
    using screen_okD [OF assms(1)] assms(2) by auto
  have c: "scr_cols s < 256" using screen_okD [OF assms(1)] by simp
  have "\<not> (length (picture s) \<le> line \<or> 256 \<le> length (cstr (sl_data ?sl)) \<or> 256 \<le> sl_len ?sl)"
    using l c length_cstr_data [OF l(1) c] by (auto simp: line_ok_def)
  with False assms(1) show ?thesis by (auto simp: saveline_def saved_ok)
qed

lemma saveline_buf_ok:
  assumes "screen_ok s" "line < scr_lns s" "line < 6"
  shows "\<exists>s'. saveline_buf line mode s = Some s' \<and> screen_ok s'"
proof (cases "mode = 1")
  case True
  have m: "screen_ok (move line 0 s)" using assms screen_okD(4) by (auto intro: move_ok)
  let ?s1 = "upd_line line (\<lambda>sl. (wipe sl)\<lparr>sl_oldlen := 79\<rparr>) (move line 0 s)"
  have lt: "line < length (picture (move line 0 s))" using assms(2) screen_okD(2) [OF assms(1)] by (simp add: move_def)
  have s1: "clear_whole_line line (move line 0 s) = Some ?s1" "screen_ok ?s1"
    using lt by (auto simp: clear_whole_line_def intro!: upd_line_ok [OF m] wipe_ok)
  have ao: "args_ok (parse_fmt ''%s'') [Pstr b]" for b by simp
  obtain s2 where s2: "prints ''%s'' [Pstr (Some (saved_temp ?s1 ! line))] ?s1 = Some s2" "screen_ok s2"
    using prints_ok [OF ao s1(2)] by blast
  have "same_size s s2" using prints_size [OF s2(1)] by (simp add: same_size_def upd_line_def move_def)
  then have "screen_ok (move (cur_ln s) (cur_col s) s2)"
    using assms(1) s2(2) by (blast intro: restore_cursor_ok)
  with True s1 s2 screen_okD(10) [OF assms(1)] assms(3) show ?thesis by (auto simp: saveline_buf_def getyx_def)
next
  case False
  have "line_ok (scr_cols s) (picture s ! line)" and lt: "line < length (picture s)"
    using screen_okD [OF assms(1)] assms(2) by auto
  then have "sl_len (picture s ! line) < 256" using screen_okD(5) [OF assms(1)] by (simp add: line_ok_def)
  with lt have "\<not> (length (picture s) \<le> line \<or> length (saved_temp s) \<le> line \<or> LINELEN \<le> sl_len (picture s ! line))"
    using screen_okD [OF assms(1)] assms(3) by (auto simp: line_ok_def LINELEN_def)
  with False assms(1) show ?thesis by (auto simp: saveline_buf_def saved_ok)
qed

lemma scr_exec_ok:
  assumes "screen_ok s" "call_ok (scr_lns s) (scr_cols s) a"
  shows "\<exists>s'. scr_exec a s = Some s' \<and> screen_ok s' \<and> same_size s s'"
proof -
  have ne: "a \<noteq> Initscr" using assms(2) by auto
  have "\<exists>s'. scr_exec a s = Some s' \<and> screen_ok s'"
  proof (cases a)
    case (PutC c)
    then show ?thesis using outc_ok [OF assms(1), of c] by force
  next
    case (ClearWholeLine i)
    then have "i < length (picture s)" using assms screen_okD(2) by simp
    with ClearWholeLine show ?thesis
      by (auto simp: clear_whole_line_def intro!: upd_line_ok [OF assms(1)] wipe_ok)
  qed (use assms in \<open>auto intro!: move_ok clear_ok clrtoeol_ok clrtobot_ok prints_ok scroll_ok standout_ok
      standend_ok refresh_ok redoscr_ok saveline_ok saveline_buf_ok\<close>)
  with scr_exec_size [OF _ ne] show ?thesis by blast
qed

lemma scr_run_ok:
  "screen_ok s \<Longrightarrow> list_all (call_ok (scr_lns s) (scr_cols s)) as \<Longrightarrow> \<exists>s'. scr_run as s = Some s' \<and> screen_ok s' \<and> same_size s s'"
proof (induction "as" arbitrary: s)
  case (Cons a "as")
  then obtain s1 where s1: "scr_exec a s = Some s1" "screen_ok s1" "same_size s s1"
    using scr_exec_ok by fastforce
  then have "list_all (call_ok (scr_lns s1) (scr_cols s1)) as" using Cons.prems by (simp add: same_size_def)
  with Cons.IH [OF s1(2)] s1 show ?case by (auto intro: same_size_trans)
qed simp

lemma init_ok:
  assumes "0 < t_lines s" "length (saved_tmp s) = 2" "length (saved_temp s) = 6"
  shows "screen_ok (move 0 0 (initscr s))" "scr_lns (move 0 0 (initscr s)) = t_lines s"
    "scr_cols (move 0 0 (initscr s)) = WRAPMARGIN"
  using assms by (auto simp: screen_ok_def initscr_def init_screen_def move_def line_ok_def empty_line_def
      WRAPMARGIN_def LINELEN_def Let_def)


section \<open>Printed numbers\<close>

definition digit :: "nat \<Rightarrow> char" where
  "digit d = char_of (48 + d)"

fun zdigits :: "nat \<Rightarrow> nat \<Rightarrow> string" where
  \<comment> \<open>the last \<open>k\<close> decimal digits\<close>
  "zdigits 0 n = []"
| "zdigits (Suc k) n = zdigits k (n div 10) @ [digit (n mod 10)]"

lemma length_zdigits [simp]: "length (zdigits k n) = k"
  by (induction k arbitrary: n) auto

lemma zdigits_first:
  "zdigits (Suc k) n = digit (n div 10 ^ k mod 10) # zdigits k (n mod 10 ^ k)"
proof (induction k arbitrary: n)
  case (Suc k)
  have e: "n div 10 div 10 ^ k = n div 10 ^ Suc k" by (simp add: div_mult2_eq)
  have "n mod 10 ^ Suc k div 10 = n div 10 mod 10 ^ k"
    using mod_mult2_eq [of n 10 "10 ^ k"] by simp
  moreover have "n mod 10 ^ Suc k mod 10 = n mod 10" by (simp add: mod_mod_cancel)
  ultimately have last: "zdigits (Suc k) (n mod 10 ^ Suc k) = zdigits k (n div 10 mod 10 ^ k) @ [digit (n mod 10)]"
    by (simp only: zdigits.simps)
  have "zdigits (Suc (Suc k)) n = zdigits (Suc k) (n div 10) @ [digit (n mod 10)]" by (rule zdigits.simps)
  also have "\<dots> = digit (n div 10 ^ Suc k mod 10) # zdigits k (n div 10 mod 10 ^ k) @ [digit (n mod 10)]"
    by (simp only: Suc.IH e append_Cons)
  finally show ?case by (simp only: last)
qed simp

lemma nat_digits_zdigits: "10 ^ k \<le> n \<Longrightarrow> n < 10 ^ Suc k \<Longrightarrow> nat_digits n = zdigits (Suc k) n"
proof (induction k arbitrary: n)
  case 0
  then show ?case by (subst nat_digits.simps) (simp add: digit_def)
next
  case (Suc k)
  have "10 ^ k \<le> n div 10" using Suc.prems(1) by (simp add: less_eq_div_iff_mult_less_eq mult.commute)
  moreover have "n div 10 < 10 ^ Suc k" using Suc.prems(2) by (simp add: div_less_iff_less_mult mult.commute)
  ultimately have "nat_digits (n div 10) = zdigits (Suc k) (n div 10)" by (rule Suc.IH)
  moreover have "\<not> n < 10" using Suc.prems(1) by (metis le_trans not_less power_Suc one_le_power mult_le_mono2 mult_1_right one_le_numeral)
  ultimately show ?case by (subst nat_digits.simps) (simp add: digit_def)
qed

lemma nat_digits_small: "n < 10 \<Longrightarrow> nat_digits n = zdigits 1 n"
  by (subst nat_digits.simps) (simp add: digit_def)

definition powers :: "nat \<Rightarrow> nat list" where
  "powers k = map (\<lambda>j. 10 ^ j) (rev [0..<k])"

lemma powers_Suc [simp]: "powers (Suc k) = 10 ^ k # powers k"
  by (simp add: powers_def)

lemma powers_0 [simp]: "powers 0 = []" "powers k = [] \<longleftrightarrow> k = 0" "length (powers k) = k"
  by (simp_all add: powers_def)

lemma dec_powers: "dec = powers 10"
  by (simp add: dec_def powers_def upt_conv_Cons)

lemma digit_loop_False: "n < 10 ^ k \<Longrightarrow> digit_loop (powers k) n False = zdigits k n"
proof (induction k arbitrary: n)
  case (Suc k)
  have "n mod 10 ^ k < 10 ^ k" by simp
  note Suc.IH [OF this]
  moreover have "n div 10 ^ k < 10" using Suc.prems by (simp add: div_less_iff_less_mult)
  ultimately show ?case unfolding zdigits_first by (simp add: Let_def digit_def)
qed simp

lemma digit_loop_True: "n < 10 ^ Suc k \<Longrightarrow> digit_loop (powers (Suc k)) n True = nat_digits n"
proof (induction k arbitrary: n)
  case 0
  then show ?case by (simp add: nat_digits_small digit_def)
next
  case (Suc k)
  show ?case
  proof (cases "n < 10 ^ Suc k")
    case True
    then have "n div 10 ^ Suc k = 0" "n mod 10 ^ Suc k = n" by simp_all
    then have "digit_loop (powers (Suc (Suc k))) n True = digit_loop (powers (Suc k)) n True"
      by (subst powers_Suc, subst digit_loop.simps) (simp add: Let_def del: power_Suc powers_Suc)
    with Suc.IH [OF True] show ?thesis by simp
  next
    case False
    have m: "n mod 10 ^ Suc k < 10 ^ Suc k" by simp
    have d: "n div 10 ^ Suc k < 10" "n div 10 ^ Suc k \<noteq> 0"
      using Suc.prems False by (simp_all add: div_less_iff_less_mult div_eq_0_iff del: power_Suc)
        (simp add: mult.commute)
    then have "digit_loop (powers (Suc (Suc k))) n True
        = digit (n div 10 ^ Suc k) # digit_loop (powers (Suc k)) (n mod 10 ^ Suc k) False"
      by (subst powers_Suc, subst digit_loop.simps) (simp add: Let_def digit_def del: power_Suc powers_Suc)
    also have "\<dots> = zdigits (Suc (Suc k)) n"
      unfolding digit_loop_False [OF m] using d zdigits_first [of "Suc k" n] by simp
    also have "\<dots> = nat_digits n" using nat_digits_zdigits [of "Suc k" n] False Suc.prems by simp
    finally show ?thesis .
  qed
qed

lemma num_places_powers:
  "n < 10 ^ Suc k \<Longrightarrow> 0 < n \<Longrightarrow> length (dropWhile (\<lambda>d. n < d) (powers (Suc k))) = length (nat_digits n)"
proof (induction k)
  case 0
  then show ?case by (simp add: nat_digits_small)
next
  case (Suc k)
  show ?case
  proof (cases "n < 10 ^ Suc k")
    case True
    with Suc show ?thesis by (subst powers_Suc) simp
  next
    case False
    then have "nat_digits n = zdigits (Suc (Suc k)) n" using Suc.prems nat_digits_zdigits [of "Suc k" n] by simp
    with False show ?thesis by (subst powers_Suc) simp
  qed
qed

lemma num_places_eq: "n < 10 ^ 10 \<Longrightarrow> num_places n = length (nat_digits n)"
  using num_places_powers [of n 9] by (cases "n = 0") (simp_all add: num_places_def dec_powers nat_digits_small)

definition padded :: "bool \<Rightarrow> int \<Rightarrow> string \<Rightarrow> string" where
  \<comment> \<open>a field of a minimal width, filled on the left, or on the right\<close>
  "padded left w t = (if left then pad_left (nat w) t else pad_right (nat w) t)"

lemma d_text_eq:
  assumes "\<bar>i\<bar> < 10 ^ 10"
  shows "d_text sg val i = padded sg val (show_int i)"
proof -
  let ?n = "nat \<bar>i\<bar>" and ?sign = "if i < 0 then ''-'' else []"
  have n: "?n < 10 ^ 10" using assms by (simp add: nat_less_iff)
  have dig: "digit_loop dec ?n True = nat_digits ?n"
    using digit_loop_True [of ?n 9] n by (simp add: dec_powers)
  have show_: "show_int i = ?sign @ nat_digits ?n" by (simp add: show_int_def)
  have len: "int (num_places ?n) + (if i < 0 then 1 else 0) = int (length (show_int i))"
    by (simp add: num_places_eq [OF n] show_)
  have "nat (val - int k) = nat val - k" for k by arith
  then have bl: "blanks (val - int k) = replicate (nat val - k) SPC" for k by (simp add: blanks_def)
  have fill: "(if int (length t) \<le> val \<and> b then blanks (val - int (length t)) else []) =
      (if b then replicate (nat val - length t) SPC else [])" for t :: string and b
    by (cases "int (length t) \<le> val") (simp_all add: bl)
  show ?thesis
    unfolding d_text_def Let_def len dig fill by (simp add: padded_def pad_left_def pad_right_def show_)
qed


fun render :: "pitem list \<Rightarrow> parg list \<Rightarrow> string option" where
  \<comment> \<open>the text of a format: a string is cut or filled to its width, a number filled to its width\<close>
  "render [] args = Some []"
| "render (Plain c # its) args = map_option (Cons c) (render its args)"
| "render (Conv sg sgn2 val c # its) args =
     (if c = CHR ''s'' then (case args of
        Pstr bp # args \<Rightarrow>
          (let t = (case bp of None \<Rightarrow> ''(null)'' | Some b \<Rightarrow> b);
               t = (if val = 0 then t else padded sg val (take (nat val) t))
           in map_option (\<lambda>r. t @ r) (render its args)) | _ \<Rightarrow> None)
      else if c = CHR ''d'' then (case args of
        Pint i # args \<Rightarrow> map_option (\<lambda>r. padded sg val (show_int i) @ r) (render its args) | _ \<Rightarrow> None)
      else if c = CHR ''c'' then (case args of
        Pint i # args \<Rightarrow> map_option (Cons (char_of (nat (i mod 256)))) (render its args) | _ \<Rightarrow> None)
      else map_option (Cons c) (render its args))"

fun int_args :: "parg list \<Rightarrow> bool" where
  \<comment> \<open>the numbers are ints other than the least\<close>
  "int_args [] \<longleftrightarrow> True"
| "int_args (Pint i # args) \<longleftrightarrow> \<bar>i\<bar> < 2 ^ 31 \<and> int_args args"
| "int_args (Pstr b # args) \<longleftrightarrow> int_args args"

fun no_dot :: "pitem \<Rightarrow> bool" where
  "no_dot (Plain c) \<longleftrightarrow> True"
| "no_dot (Conv sg sgn2 val c) \<longleftrightarrow> sgn2 \<and> 0 \<le> val"

lemma prints_s_eq:
  assumes "0 \<le> val"
  shows "prints_s sg True val bp s =
    (let t = (case bp of None \<Rightarrow> ''(null)'' | Some b \<Rightarrow> b) in
     outs (if val = 0 then t else padded sg val (take (nat val) t)) s)"
proof -
  have bl: "blanks (val - int (length t)) = replicate (nat val - length t) SPC" for t :: string
    using assms by (simp add: blanks_def nat_diff_distrib')
  define t where "t = (case bp of None \<Rightarrow> ''(null)'' | Some b \<Rightarrow> b)"
  show ?thesis
  proof (cases "val \<le> int (length t)")
    case True
    then have "nat val \<le> length t" by simp
    then show ?thesis using True
      by (auto simp: prints_s_def t_def [symmetric] Let_def outns_def padded_def pad_left_def pad_right_def)
  next
    case False
    then have "take (nat val) t = t" by simp
    then show ?thesis using False
      by (auto simp: prints_s_def t_def [symmetric] Let_def padded_def pad_left_def pad_right_def outs_append bl)
  qed
qed

lemma bind_outs: "outs t s \<bind> (\<lambda>s. Option.bind (render its args) (\<lambda>r. outs r s))
    = Option.bind (map_option (\<lambda>r. t @ r) (render its args)) (\<lambda>r. outs r s)"
  by (cases "render its args"; cases "outs t s") (simp_all add: outs_append)

lemma bind_outc: "outc c s \<bind> (\<lambda>(s, _). Option.bind (render its args) (\<lambda>r. outs r s))
    = Option.bind (map_option (Cons c) (render its args)) (\<lambda>r. outs r s)"
  by (cases "render its args"; cases "outc c s") (simp_all add: split_beta)

lemma prints_items_render:
  "list_all no_dot its \<Longrightarrow> int_args args \<Longrightarrow> prints_items its args s = Option.bind (render its args) (\<lambda>t. outs t s)"
proof (induction its args arbitrary: s rule: render.induct)
  case (2 c its args)
  then show ?case by (simp add: bind_outc [symmetric] cong: Option.bind_cong)
next
  case (3 sg sgn2 val c its args)
  then have v: "sgn2" "0 \<le> val" "list_all no_dot its" by auto
  show ?case
  proof (cases "c = CHR ''s'' \<or> c = CHR ''d'' \<or> c = CHR ''c''")
    case False
    with 3 show ?thesis by (simp add: bind_outc [symmetric] cong: Option.bind_cong)
  next
    case cv: True
    show ?thesis
    proof (cases args)
      case Nil
      with cv show ?thesis by auto
    next
      case (Cons a as)
      show ?thesis
      proof (cases a)
        case (Pstr bp)
        show ?thesis
        proof (cases "c = CHR ''s''")
          case True
          have ih: "prints_items its as = (\<lambda>s1. Option.bind (render its as) (\<lambda>t. outs t s1))"
            by (rule ext) (use 3 True Cons Pstr v in simp)
          show ?thesis using True Cons Pstr v
            by (simp add: prints_s_eq Let_def ih bind_outs)
        next
          case False
          with cv Cons Pstr show ?thesis by auto
        qed
      next
        case (Pint i)
        have i: "\<bar>i\<bar> < 10 ^ 10" "i \<noteq> - (2 ^ 31)" "int_args as" using 3(6) Cons Pint by auto
        consider (s) "c = CHR ''s''" | (d) "c = CHR ''d''" | (c) "c = CHR ''c''" using cv by blast
        then show ?thesis
        proof cases
          case s
          with Cons Pint show ?thesis by simp
        next
          case d
          have ih: "prints_items its as = (\<lambda>s1. Option.bind (render its as) (\<lambda>t. outs t s1))"
            by (rule ext) (use 3 d Cons Pint i v in simp)
          have "prints_d sg val i s = outs (padded sg val (show_int i)) s"
            using i(2) by (simp only: prints_d_eq d_text_eq [OF i(1)] if_False)
          with d Cons Pint show ?thesis by (simp add: ih bind_outs)
        next
          case c
          have ih: "prints_items its as = (\<lambda>s1. Option.bind (render its as) (\<lambda>t. outs t s1))"
            by (rule ext) (use 3 c Cons Pint i v in simp)
          from c Cons Pint show ?thesis by (simp add: ih bind_outc)
        qed
      qed
    qed
  qed
qed simp


section \<open>Text at the end of a line\<close>

definition kept :: "screen \<Rightarrow> char \<Rightarrow> bool" where
  \<comment> \<open>the characters the screen stores as they are\<close>
  "kept s c \<longleftrightarrow> isprint2 c \<and> (c = ESC \<longrightarrow> iscolor s) \<or> c = ESC \<and> iscolor s \<and> showansi s"

definition cur_line :: "screen \<Rightarrow> screenline" where
  "cur_line s = picture s ! row s (cur_ln s)"

definition settings :: "screen \<Rightarrow> bool \<times> bool \<times> bool \<times> bool \<times> nat \<times> nat \<times> nat \<times> nat \<times> string list \<times> string list" where
  "settings s = (dumb_term s, inansi s, iscolor s, showansi s, scr_lns s, scr_cols s, roll s, cur_ln s,
     saved_tmp s, saved_temp s)"

lemma settingsD:
  assumes "settings s' = settings s"
  shows "dumb_term s' = dumb_term s" "inansi s' = inansi s" "kept s' = kept s" "scr_lns s' = scr_lns s"
    "scr_cols s' = scr_cols s" "roll s' = roll s" "cur_ln s' = cur_ln s" "row s' = row s"
    "saved_tmp s' = saved_tmp s" "saved_temp s' = saved_temp s"
  using assms by (auto simp: settings_def kept_def row_def fun_eq_iff)

lemma outc_kept:
  assumes "screen_ok s" "\<not> dumb_term s" "\<not> inansi s" "kept s c" "sl_len (cur_line s) = cur_col s"
    and "cur_col s + 1 < scr_cols s"
  shows "\<exists>s'. outc c s = Some (s', 1) \<and> settings s' = settings s \<and> cur_col s' = cur_col s + 1
    \<and> picture s' = (picture s)[row s (cur_ln s) := cur_line s'] \<and> sl_len (cur_line s') = cur_col s + 1
    \<and> take (cur_col s + 1) (sl_data (cur_line s')) = take (cur_col s) (sl_data (cur_line s)) @ [c]"
proof -
  let ?j = "row s (cur_ln s)" and ?k = "cur_col s"
  let ?sl = "stored c ?k (picture s ! ?j)"
  let ?s = "s\<lparr>picture := (picture s)[?j := ?sl], cur_col := ?k + 1\<rparr>"
  have jl: "?j < length (picture s)" by (rule row_lt [OF assms(1)])
  have cl: "cur_line ?s = ?sl" using jl by (simp add: cur_line_def row_def)
  have len: "length (sl_data (cur_line s)) = LINELEN" "?k < LINELEN"
    using row_line_ok [OF assms(1), of "cur_ln s"] screen_okD(5) [OF assms(1)] assms(6)
    by (auto simp: line_ok_def cur_line_def LINELEN_def)
  have "outc c s = Some (?s, 1)"
    using assms(2-4,6) outc_print_eq [OF assms(1), of c] by (auto simp: outc_def kept_def isprint2_def hibit_def isprint_def byte_def)
  moreover have "take (?k + 1) (sl_data ?sl) = take ?k (sl_data (cur_line s)) @ [c]"
  proof -
    have "sl_data ?sl = (sl_data (cur_line s))[?k := c]"
      using assms(5) by (simp add: stored_def cur_line_def)
    then show ?thesis using len by (simp add: take_Suc_conv_app_nth)
  qed
  moreover have "sl_len ?sl = ?k + 1" using assms(5) by (simp add: stored_def cur_line_def)
  moreover have "settings ?s = settings s" "cur_col ?s = ?k + 1" by (simp_all add: settings_def)
  moreover have "picture ?s = (picture s)[?j := cur_line ?s]" unfolding cl by simp
  ultimately show ?thesis unfolding cl by (intro exI [of _ ?s]) (simp only: cl simp_thms)
qed

lemma outs_kept:
  assumes "screen_ok s" "\<not> dumb_term s" "\<not> inansi s" "list_all (kept s) t" "sl_len (cur_line s) = cur_col s"
    and "cur_col s + length t < scr_cols s"
  shows "\<exists>s'. outs t s = Some s' \<and> settings s' = settings s \<and> cur_col s' = cur_col s + length t
    \<and> picture s' = (picture s)[row s (cur_ln s) := cur_line s'] \<and> sl_len (cur_line s') = cur_col s + length t
    \<and> take (sl_len (cur_line s')) (sl_data (cur_line s')) = take (cur_col s) (sl_data (cur_line s)) @ t"
  using assms
proof (induction t arbitrary: s)
  case Nil
  then show ?case by (simp add: cur_line_def)
next
  case (Cons c t)
  then have "kept s c" "cur_col s + 1 < scr_cols s" by auto
  from outc_kept [OF Cons.prems(1-3) this(1) Cons.prems(5) this(2)] obtain s1 where
    s1: "outc c s = Some (s1, 1)" "settings s1 = settings s" "cur_col s1 = cur_col s + 1"
      "picture s1 = (picture s)[row s (cur_ln s) := cur_line s1]" "sl_len (cur_line s1) = cur_col s1"
      "take (cur_col s1) (sl_data (cur_line s1)) = take (cur_col s) (sl_data (cur_line s)) @ [c]" by auto
  note d = settingsD [OF s1(2)]
  have ok: "screen_ok s1" using outc_ok [OF Cons.prems(1), of c] s1(1) by simp
  have "\<not> dumb_term s1" "\<not> inansi s1" "list_all (kept s1) t" "cur_col s1 + length t < scr_cols s1"
    using Cons.prems d s1(3) by simp_all
  from Cons.IH [OF ok this(1-3) s1(5) this(4)] obtain s2 where
    s2: "outs t s1 = Some s2" "settings s2 = settings s1" "cur_col s2 = cur_col s1 + length t"
      "picture s2 = (picture s1)[row s1 (cur_ln s1) := cur_line s2]" "sl_len (cur_line s2) = cur_col s1 + length t"
      "take (sl_len (cur_line s2)) (sl_data (cur_line s2)) = take (cur_col s1) (sl_data (cur_line s1)) @ t" by blast
  have "picture s2 = (picture s)[row s (cur_ln s) := cur_line s2]"
    using s2(4) s1(4) d by simp
  with s1 s2 show ?case by simp
qed

lemma same_shown_line:
  assumes "same_shown s s'" "i < length (picture s)"
  shows "line_shown (picture s' ! i) = line_shown (picture s ! i)"
proof -
  have "map line_shown (picture s') = map line_shown (picture s)" using assms(1) by (simp add: same_shown_def)
  then have "map line_shown (picture s') ! i = map line_shown (picture s) ! i" by simp
  moreover have "length (picture s') = length (picture s)" using \<open>map line_shown _ = _\<close> by (metis length_map)
  ultimately show ?thesis using assms(2) by simp
qed

lemma same_shown_settings: "same_shown s s' \<Longrightarrow> settings s' = settings s \<and> cur_col s' = cur_col s"
  by (simp add: same_shown_def geometry_def settings_def)

lemma refresh_settings: "settings (refresh idle s) = settings s" "cur_col (refresh idle s) = cur_col s"
  using same_shown_settings [OF same_shown_refresh] by auto

lemma refresh_shown: "i < length (picture s) \<Longrightarrow> line_shown (picture (refresh idle s) ! i) = line_shown (picture s ! i)"
  by (rule same_shown_line [OF same_shown_refresh])

lemma refresh_length [simp]: "length (picture (refresh idle s)) = length (picture s)"
  using same_shown_refresh [of s idle] by (simp add: same_shown_def geometry_def)

lemma line_text_shown: "line_shown sl = line_shown sl' \<Longrightarrow> line_text sl = line_text sl'"
  by (simp add: line_shown_def line_text_def)

lemma cstr_take:
  assumes "take n d = t" "NUL \<notin> set t"
  shows "take (length t) (cstr d) = t"
proof -
  have "d = t @ drop n d" using assms(1) append_take_drop_id by metis
  moreover have "takeWhile (\<lambda>c. c \<noteq> NUL) (t @ r) = t @ takeWhile (\<lambda>c. c \<noteq> NUL) r" for r
    using assms(2) by (intro takeWhile_append2) auto
  ultimately show ?thesis unfolding cstr_def by (metis append_eq_conv_conj)
qed

lemma kept_not_NUL: "kept s c \<Longrightarrow> c \<noteq> NUL"
  by (auto simp: kept_def isprint2_def hibit_def isprint_def byte_def)


lemma prints_string: "prints ''%s'' [Pstr (Some t)] s = outs t s"
proof -
  have "prints_items [] [] = Some" by (rule ext) simp
  then show ?thesis unfolding prints_def parse_plain(2) by (simp add: prints_s_eq Let_def)
qed

lemma clrtoeol_line:
  assumes "screen_ok s" "\<not> dumb_term s" "cur_col s = 0"
  shows "\<exists>s'. clrtoeol s = Some s' \<and> settings s' = settings s \<and> cur_col s' = 0
    \<and> picture s' = (picture s)[row s (cur_ln s) := cur_line s'] \<and> sl_len (cur_line s') = 0"
proof -
  have "row s (cur_ln s) < length (picture s)" by (rule row_lt [OF assms(1)])
  with assms(2,3) show ?thesis
    by (simp add: clrtoeol_def Let_def pad_line_def settings_def cur_line_def row_def)
qed

lemma move_fields [simp]:
  "kept (move y x s) = kept s" "dumb_term (move y x s) = dumb_term s" "inansi (move y x s) = inansi s"
  "scr_cols (move y x s) = scr_cols s" "saved_tmp (move y x s) = saved_tmp s"
  by (simp_all add: kept_def move_def fun_eq_iff)

lemma restore_line:
  assumes ok: "screen_ok s" "\<not> dumb_term s" "\<not> inansi s" "roll s = 0" "line < scr_lns s" "mode = 1 \<or> mode = 3"
    and t: "saved_tmp s ! ((mode - 1) div 2) = t" "list_all (kept s) t" "length t < scr_cols s"
  shows "\<exists>s'. saveline idle line mode s = Some s' \<and> line_text (picture s' ! line) = t
    \<and> cur_ln s' = cur_ln s \<and> cur_col s' = cur_col s
    \<and> (\<forall>i. i < scr_lns s \<and> i \<noteq> line \<longrightarrow> line_shown (picture s' ! i) = line_shown (picture s ! i))"
proof -
  let ?s0 = "move line 0 s"
  have m: "screen_ok ?s0" using ok screen_okD(4) by (auto intro: move_ok)
  have r0: "row ?s0 (cur_ln ?s0) = line" using ok by (simp add: row_def move_def)
  obtain s1 where s1: "clrtoeol ?s0 = Some s1" "settings s1 = settings ?s0" "cur_col s1 = 0"
      "picture s1 = (picture s)[line := cur_line s1]" "sl_len (cur_line s1) = 0"
    using clrtoeol_line [OF m] ok(2) r0 by (auto simp: move_def)
  note d1 = settingsD [OF s1(2)]
  have ok1: "screen_ok s1" using clrtoeol_ok [OF m] s1(1) by auto
  let ?r = "refresh idle s1"
  note dr = settingsD [OF refresh_settings(1) [of idle s1]]
  have okr: "screen_ok ?r" by (rule refresh_ok [OF ok1])
  have cur: "row ?r (cur_ln ?r) = line" "cur_ln ?r = line" "cur_col ?r = 0"
    using dr d1 r0 refresh_settings(2) s1(3) by (simp_all add: move_def)
  have line: "line < length (picture s1)" "length (picture s1) = scr_lns s"
    using screen_okD(2) [OF ok1] d1 ok(5) by (simp_all add: move_def)
  have same: "scr_cols ?r = scr_cols s" "\<not> dumb_term ?r" "\<not> inansi ?r" "kept ?r = kept s" "saved_tmp ?r = saved_tmp s"
    unfolding dr d1 move_fields by (rule refl ok)+
  have len0: "sl_len (cur_line ?r) = cur_col ?r"
  proof -
    have "picture s1 ! line = cur_line s1" using line by (subst s1(4)) (simp add: s1(4))
    then have "line_shown (cur_line ?r) = line_shown (cur_line s1)"
      using refresh_shown [OF line(1), of idle] cur(1) by (simp only: cur_line_def [of ?r])
    then have "sl_len (cur_line ?r) = sl_len (cur_line s1)" by (simp only: line_shown_def prod.inject)
    with s1(5) cur(3) show ?thesis by (simp only:)
  qed
  have "list_all (kept ?r) t" "cur_col ?r + length t < scr_cols ?r" using same t cur by simp_all
  from outs_kept [OF okr same(2,3) this(1) len0 this(2)] obtain s2 where
    s2: "outs t ?r = Some s2" "settings s2 = settings ?r" "picture s2 = (picture ?r)[line := cur_line s2]"
      "take (sl_len (cur_line s2)) (sl_data (cur_line s2)) = t" using cur by auto
  let ?s3 = "move (cur_ln s) (cur_col s) s2" and ?s4 = "refresh idle (move (cur_ln s) (cur_col s) s2)"
  have run: "saveline idle line mode s = Some ?s4"
    using ok(6) s1(1) s2(1) same(5) t(1) by (auto simp: saveline_def getyx_def Let_def prints_string)
  have p3: "length (picture ?s3) = scr_lns s" "picture ?s3 ! line = cur_line s2"
    "i < scr_lns s \<Longrightarrow> i \<noteq> line \<Longrightarrow> picture ?s3 ! i = picture ?r ! i" for i
    using line s2(3) by (auto simp: move_def)
  have "NUL \<notin> set t" using t(2) kept_not_NUL by (auto simp: list_all_iff)
  have "length (sl_data (cur_line s2)) = LINELEN" "sl_len (cur_line s2) \<le> LINELEN"
    using outs_ok [OF okr, of t] s2(1,2) row_line_ok [of s2 "cur_ln s2"] screen_okD(5) [of s2]
    by (auto simp: cur_line_def line_ok_def LINELEN_def)
  then have lt: "length t = sl_len (cur_line s2)" using s2(4) by auto
  have "line_text (cur_line s2) = t"
    using cstr_take [OF s2(4) \<open>NUL \<notin> set t\<close>] by (simp add: line_text_def lt)
  then have "line_text (picture ?s4 ! line) = t"
    using refresh_shown [of line ?s3 idle] line_text_shown p3 ok(5) by metis
  moreover have "line_shown (picture ?s4 ! i) = line_shown (picture s ! i)" if "i < scr_lns s" "i \<noteq> line" for i
    using that refresh_shown [of i ?s3 idle] p3 refresh_shown [of i s1 idle] line s1(4) by simp
  moreover have "cur_ln ?s4 = cur_ln s" "cur_col ?s4 = cur_col s"
    using settingsD(7) [OF refresh_settings(1) [of idle ?s3]] refresh_settings(2) [of idle ?s3] by (simp_all add: move_def)
  ultimately show ?thesis using run by blast
qed

section \<open>Properties\<close>

text \<open>C33: no call writes outside a line. After \<open>initscr\<close> on a terminal of at least one line, any
  sequence of calls whose arguments are in range (cursor positions, line numbers, arguments that
  fit their formats) is defined and leaves the screen well formed: no line is longer than the 255
  columns, the changed range of a line lies inside it.\<close>
theorem screen_calls_safe:
  assumes "0 < t_lines s" "length (saved_tmp s) = 2" "length (saved_temp s) = 6"
    and "list_all (call_ok (t_lines s) WRAPMARGIN) as"
  shows "\<exists>s'. scr_run (Initscr # as) s = Some s' \<and> screen_ok s'"
proof -
  let ?s = "move 0 0 (initscr s)"
  have "list_all (call_ok (scr_lns ?s) (scr_cols ?s)) as" using assms(4) init_ok(2,3) [OF assms(1-3)] by simp
  from scr_run_ok [OF init_ok(1) [OF assms(1-3)] this] show ?thesis by auto
qed

text \<open>C34: formatted output. For formats without a precision and with int arguments other than the
  least one, \<open>prints\<close> does exactly what putting out the formatted text character by character does:
  a number is written in decimal and filled to its width on the left, or on the right after a
  minus, and a string is filled or cut to its width.\<close>
theorem prints_format:
  assumes "list_all no_dot (parse_fmt fmt)" "int_args args"
  shows "prints fmt args s = Option.bind (render (parse_fmt fmt) args) (\<lambda>t. outs t s)"
  unfolding prints_def by (rule prints_items_render [OF assms])

text \<open>Saving and restoring a line. On a screen that has not been scrolled, restoring a saved
  line puts the saved text back whatever was written in between, with the cursor where it was and
  every other line as it is.\<close>
theorem saveline_restores:
  assumes s: "screen_ok s" "line < scr_lns s" "mode = 0 \<or> mode = 2"
    and s2: "screen_ok s2" "\<not> dumb_term s2" "\<not> inansi s2" "roll s2 = 0" "scr_lns s2 = scr_lns s"
    and tx: "list_all (kept s2) (line_text (picture s ! line))" "length (line_text (picture s ! line)) < scr_cols s2"
  shows "\<exists>s1. saveline idle line mode s = Some s1 \<and> (saved_tmp s2 = saved_tmp s1 \<longrightarrow>
    (\<exists>s3. saveline idle' line (mode + 1) s2 = Some s3 \<and> line_text (picture s3 ! line) = line_text (picture s ! line)
      \<and> cur_ln s3 = cur_ln s2 \<and> cur_col s3 = cur_col s2
      \<and> (\<forall>i. i < scr_lns s \<and> i \<noteq> line \<longrightarrow> line_shown (picture s3 ! i) = line_shown (picture s2 ! i))))"
proof -
  let ?t = "line_text (picture s ! line)"
  let ?s1 = "s\<lparr>saved_tmp := (saved_tmp s)[mode div 2 := ?t]\<rparr>"
  have "line_ok (scr_cols s) (picture s ! line)" "line < length (picture s)" "scr_cols s < 256"
    using screen_okD [OF s(1)] s(2) by auto
  moreover from this have "length (cstr (sl_data (picture s ! line))) < 256" using length_cstr_data by blast
  ultimately have run: "saveline idle line mode s = Some ?s1"
    using s(3) by (auto simp: saveline_def line_ok_def)
  have "\<exists>s3. saveline idle' line (mode + 1) s2 = Some s3 \<and> line_text (picture s3 ! line) = ?t
      \<and> cur_ln s3 = cur_ln s2 \<and> cur_col s3 = cur_col s2
      \<and> (\<forall>i. i < scr_lns s2 \<and> i \<noteq> line \<longrightarrow> line_shown (picture s3 ! i) = line_shown (picture s2 ! i))"
    if "saved_tmp s2 = saved_tmp ?s1"
  proof (rule restore_line [OF s2(1-4) _ _ _ tx])
    show "line < scr_lns s2" "mode + 1 = 1 \<or> mode + 1 = 3" using s s2(5) by auto
    show "saved_tmp s2 ! ((mode + 1 - 1) div 2) = ?t" using that s(3) screen_okD(9) [OF s(1)] by auto
  qed
  with run s2(5) show ?thesis by auto
qed

definition demo_screen :: screen where
  "demo_screen = \<lparr>dumb_term = False, automargins = True, iscolor = True, showansi = True, t_lines = 24,
     t_columns = 255, scr_lns = 0, scr_cols = 0, cur_ln = 0, cur_col = 0, roll = 0, scrollcnt = 0,
     tc_col = 0, tc_line = 0, docls = False, downfrom = 0, standing = False, inansi = False, picture = [],
     saved_tmp = replicate 2 [], saved_temp = replicate 6 [], tty = []\<rparr>"

theorem screen_calls_safe_witness:
  "\<exists>s. scr_run [Initscr, Move 23 250, Prints ''%5d'' [Pint (-7)], Scroll, Refresh True] demo_screen = Some s \<and> screen_ok s"
  by (rule screen_calls_safe)
    (simp_all add: demo_screen_def WRAPMARGIN_def isdigit_def byte_def)

lemma demo_fmt: "parse_fmt ''%5d'' = [Conv True True 5 (CHR ''d'')]"
  by (simp add: isdigit_def byte_def)

theorem prints_format_witness:
  "prints ''%5d'' [Pint (-7)] demo_screen = outs ''   -7'' demo_screen"
proof -
  have "render (parse_fmt ''%5d'') [Pint (-7)] = Some ''   -7''"
    unfolding demo_fmt by code_simp
  moreover have "prints ''%5d'' [Pint (-7)] demo_screen
      = Option.bind (render (parse_fmt ''%5d'') [Pint (-7)]) (\<lambda>t. outs t demo_screen)"
    by (rule prints_format) (simp_all add: demo_fmt del: parse_fmt.simps)
  ultimately show ?thesis by (simp only: bind.simps option.simps Option.bind.simps)
qed

theorem saveline_restores_witness:
  "\<exists>s s1 s3. saveline True 3 0 s = Some s1 \<and> saveline True 3 1 s1 = Some s3
     \<and> line_text (picture s3 ! 3) = line_text (picture s ! 3)"
proof -
  let ?s = "move 0 0 (initscr demo_screen)"
  have ok: "screen_ok ?s" by (rule init_ok(1)) (simp_all add: demo_screen_def)
  have f: "\<not> dumb_term ?s" "\<not> inansi ?s" "roll ?s = 0" "3 < scr_lns ?s" "picture ?s ! 3 = empty_line" "0 < scr_cols ?s"
    by (simp_all add: move_def initscr_def init_screen_def demo_screen_def Let_def WRAPMARGIN_def LINELEN_def)
  have e: "line_text empty_line = []" by (simp add: line_text_def empty_line_def)
  let ?s1 = "?s\<lparr>saved_tmp := (saved_tmp ?s)[0 := []]\<rparr>"
  have s1: "screen_ok ?s1" by (rule saved_ok(1) [OF ok])
  have "\<exists>s1. saveline True 3 0 ?s = Some s1 \<and> (saved_tmp ?s1 = saved_tmp s1 \<longrightarrow>
    (\<exists>s3. saveline True 3 (0 + 1) ?s1 = Some s3 \<and> line_text (picture s3 ! 3) = line_text (picture ?s ! 3)
      \<and> cur_ln s3 = cur_ln ?s1 \<and> cur_col s3 = cur_col ?s1
      \<and> (\<forall>i. i < scr_lns ?s \<and> i \<noteq> 3 \<longrightarrow> line_shown (picture s3 ! i) = line_shown (picture ?s1 ! i))))"
    by (rule saveline_restores [OF ok f(4) _ s1]) (use f e in simp_all)
  moreover have "saveline True 3 0 ?s = Some ?s1"
    using f screen_okD(2) [OF ok] length_cstr_data [of 255 empty_line] e
    by (simp add: saveline_def empty_line_def line_ok_def LINELEN_def)
  ultimately show ?thesis by auto
qed

end
