(* ===== verification/TermOutput.thy ===== *)
theory TermOutput
  imports Screen
begin

text \<open>
  What the terminal is sent: the output buffer of \<^verbatim>\<open>src/io.c\<close> (\<open>oflush\<close>, \<open>put_raw_ch\<close>, \<open>ochar\<close>,
  \<open>output\<close>) and the conversion between the GB2312 and Big5 codes of \<^verbatim>\<open>src/convert.c\<close>. The
  requests that the screen records are carried out by \<open>play\<close>. \<open>None\<close> is a write past the
  buffer or a read outside the table segment. What \<^verbatim>\<open>write_stdout\<close> was given is kept in
  order; its result is not looked at by the callers.
\<close>

section \<open>Code conversion\<close>

definition G2B_COUNT :: nat where "G2B_COUNT = 7614"
definition B2G_COUNT :: nat where "B2G_COUNT = 13973"

datatype convst = CONVERT_BEG | CONVERT_GOT | CONVERT_STR

record conv =
  cv_status :: convst
  cv_got :: int
  cv_second :: int

definition do_resolve_gbkbig5_table :: "nat list option \<Rightarrow> nat \<Rightarrow> nat \<Rightarrow> nat \<Rightarrow> nat list option" where
  \<comment> \<open>the mapped file, if it can be opened; a file that is too short is read past its end\<close>
  "do_resolve_gbkbig5_table file count d1 d2 =
     (case file of
        None \<Rightarrow> Some (concat (replicate count [d1, d2]))
      | Some m \<Rightarrow> if length m < count * 2 then None else Some (take (count * 2) m))"

definition resolve_gbkbig5_table :: "bool \<Rightarrow> nat list option \<Rightarrow> nat list option \<Rightarrow> (nat list option \<times> int) option" where
  \<comment> \<open>whether \<^verbatim>\<open>attach_shm\<close> gave a segment, the two files; the segment with both tables\<close>
  "resolve_gbkbig5_table attached b2g_file g2b_file =
     (if \<not> attached then Some (None, -1)
      else do {
        b2g \<leftarrow> do_resolve_gbkbig5_table b2g_file B2G_COUNT 0xA1 0xF5;
        g2b \<leftarrow> do_resolve_gbkbig5_table g2b_file G2B_COUNT 0xA1 0xBC;
        Some (Some (b2g @ g2b), 0) })"

definition tab_at :: "nat list \<Rightarrow> int \<Rightarrow> int option" where
  \<comment> \<open>a byte of the segment that holds both tables\<close>
  "tab_at tab i = (if i < 0 \<or> int (length tab) \<le> i then None else Some (int (tab ! nat i)))"

definition tab_pair :: "nat list \<Rightarrow> int \<Rightarrow> conv \<Rightarrow> (conv \<times> int) option" where
  "tab_pair tab i cv = do {
     second \<leftarrow> tab_at tab (i + 1);
     r \<leftarrow> tab_at tab i;
     Some (cv\<lparr>cv_second := second\<rparr>, r) }"

definition convert_g2b :: "nat list \<Rightarrow> int \<Rightarrow> conv \<Rightarrow> (conv \<times> int) option" where
  "convert_g2b tab ch cv =
     (if cv_status cv \<noteq> CONVERT_STR \<and> ch < 0 then Some (cv, -1)
      else case cv_status cv of
        CONVERT_BEG \<Rightarrow>
          if ch < 0xA1 \<or> 0xA9 < ch \<and> ch < 0xB0 \<or> 0xF7 < ch then Some (cv, ch)
          else Some (cv\<lparr>cv_got := ch, cv_status := CONVERT_GOT\<rparr>, -1)
      | CONVERT_GOT \<Rightarrow>
          (let got = cv_got cv; cv = cv\<lparr>cv_status := CONVERT_STR\<rparr> in
           if ch < 0xA0 \<or> ch = 0xFF then Some (cv\<lparr>cv_second := ch\<rparr>, got)
           else let locate = (if 0xA0 < got \<and> got < 0xAA then ((got - 0xA1) * 94 + (ch - 0xA1)) * 2
                              else ((got - 0xB0 + 9) * 94 + (ch - 0xA1)) * 2)
                in tab_pair tab (int B2G_COUNT * 2 + locate) cv)
      | CONVERT_STR \<Rightarrow> Some (cv\<lparr>cv_status := CONVERT_BEG\<rparr>, cv_second cv))"

definition convert_b2g :: "nat list \<Rightarrow> int \<Rightarrow> conv \<Rightarrow> (conv \<times> int) option" where
  "convert_b2g tab ch cv =
     (if cv_status cv \<noteq> CONVERT_STR \<and> ch < 0 then Some (cv, -1)
      else case cv_status cv of
        CONVERT_BEG \<Rightarrow>
          if ch < 0xA1 \<or> ch = 0xFF then Some (cv, ch)
          else Some (cv\<lparr>cv_got := ch, cv_status := CONVERT_GOT\<rparr>, -1)
      | CONVERT_GOT \<Rightarrow>
          (let got = cv_got cv; cv = cv\<lparr>cv_status := CONVERT_STR\<rparr> in
           if 0x40 \<le> ch \<and> ch \<le> 0x7E then tab_pair tab (((got - 0xA1) * 157 + (ch - 0x40)) * 2) cv
           else if 0xA1 \<le> ch \<and> ch \<le> 0xFE then tab_pair tab (((got - 0xA1) * 157 + (ch - 0xA1) + 63) * 2) cv
           else Some (cv\<lparr>cv_second := ch\<rparr>, got))
      | CONVERT_STR \<Rightarrow> Some (cv\<lparr>cv_status := CONVERT_BEG\<rparr>, cv_second cv))"

section \<open>The output buffer\<close>

definition IOBUFSIZE :: nat where "IOBUFSIZE = 4096"

record outst =
  ob_buf :: string
  ob_writes :: "string list"
  ob_convcode :: bool
  ob_conv :: conv

definition switch_code :: "screen \<Rightarrow> outst \<Rightarrow> screen \<times> outst \<times> bool" where
  "switch_code s ob = (redoscr s, ob\<lparr>ob_convcode := \<not> ob_convcode ob\<rparr>, \<not> ob_convcode ob)"

definition oflush :: "outst \<Rightarrow> outst" where
  "oflush ob = (if ob_buf ob = [] then ob else ob\<lparr>ob_writes := ob_writes ob @ [ob_buf ob], ob_buf := []\<rparr>)"

definition put_raw_ch :: "char \<Rightarrow> outst \<Rightarrow> outst option" where
  "put_raw_ch ch ob =
     (if IOBUFSIZE \<le> length (ob_buf ob) then None
      else let ob = ob\<lparr>ob_buf := ob_buf ob @ [ch]\<rparr>
           in Some (if length (ob_buf ob) = IOBUFSIZE then oflush ob else ob))"

partial_function (option) ochar_loop :: "nat list \<Rightarrow> int \<Rightarrow> outst \<Rightarrow> outst option" where
  "ochar_loop tab ch ob =
     (if 0 < ch then do {
        ob \<leftarrow> put_raw_ch (char_of (nat ch)) ob;
        (cv, ch) \<leftarrow> convert_g2b tab (-1) (ob_conv ob);
        ochar_loop tab ch (ob\<lparr>ob_conv := cv\<rparr>) }
      else Some ob)"

definition ochar :: "nat list \<Rightarrow> char \<Rightarrow> outst \<Rightarrow> outst option" where
  "ochar tab ch ob =
     (if ob_convcode ob then do {
        (cv, ch) \<leftarrow> convert_g2b tab (int (byte ch)) (ob_conv ob);
        ochar_loop tab ch (ob\<lparr>ob_conv := cv\<rparr>) }
      else put_raw_ch ch ob)"

fun ochars :: "nat list \<Rightarrow> string \<Rightarrow> outst \<Rightarrow> outst option" where
  "ochars tab [] ob = Some ob"
| "ochars tab (c # str) ob = do { ob \<leftarrow> ochar tab c ob; ochars tab str ob }"

function output_raw :: "string \<Rightarrow> outst \<Rightarrow> outst option" where
  "output_raw str ob =
     (if str = [] then Some ob
      else if IOBUFSIZE < length (ob_buf ob) then None
      else let len = IOBUFSIZE - length (ob_buf ob) in
        if len < length str
        then output_raw (drop len str) (oflush (ob\<lparr>ob_buf := ob_buf ob @ take len str\<rparr>))
        else Some (ob\<lparr>ob_buf := ob_buf ob @ str\<rparr>))"
  by pat_completeness auto
termination
  by (relation "measure (\<lambda>(str, ob). 2 * length str + (if ob_buf ob = [] then 0 else 1))")
    (auto simp: oflush_def IOBUFSIZE_def)

declare output_raw.simps [simp del]

definition output_str :: "nat list \<Rightarrow> string \<Rightarrow> outst \<Rightarrow> outst option" where
  "output_str tab str ob = (if ob_convcode ob then ochars tab str ob else output_raw str ob)"

fun play :: "nat list \<Rightarrow> treq list \<Rightarrow> outst \<Rightarrow> outst option" where
  "play tab [] ob = Some ob"
| "play tab (Ochar c # rs) ob = do { ob \<leftarrow> ochar tab c ob; play tab rs ob }"
| "play tab (Output str # rs) ob = do { ob \<leftarrow> output_str tab str ob; play tab rs ob }"
| "play tab (Oflush # rs) ob = play tab rs (oflush ob)"

section \<open>The bytes sent\<close>

definition sent :: "outst \<Rightarrow> string" where
  \<comment> \<open>what was written and what waits in the buffer\<close>
  "sent ob = concat (ob_writes ob) @ ob_buf ob"

fun req_bytes :: "treq \<Rightarrow> string" where
  "req_bytes (Ochar c) = [c]"
| "req_bytes (Output str) = str"
| "req_bytes Oflush = []"

lemma sent_oflush [simp]: "sent (oflush ob) = sent ob"
  by (simp add: sent_def oflush_def)

lemma oflush_fields [simp]: "ob_convcode (oflush ob) = ob_convcode ob" "ob_conv (oflush ob) = ob_conv ob"
  "ob_buf (oflush ob) = []"
  by (simp_all add: oflush_def)

lemma put_raw_ch_sent:
  assumes "length (ob_buf ob) < IOBUFSIZE"
  shows "\<exists>ob'. put_raw_ch ch ob = Some ob' \<and> sent ob' = sent ob @ [ch] \<and> length (ob_buf ob') < IOBUFSIZE
    \<and> length (ob_buf ob') \<le> length (ob_buf ob) + 1 \<and> ob_convcode ob' = ob_convcode ob \<and> ob_conv ob' = ob_conv ob"
  using assms by (auto simp: put_raw_ch_def Let_def sent_def IOBUFSIZE_def oflush_def)

lemma output_raw_sent:
  "length (ob_buf ob) \<le> IOBUFSIZE \<Longrightarrow> \<exists>ob'. output_raw str ob = Some ob' \<and> sent ob' = sent ob @ str
     \<and> length (ob_buf ob') \<le> IOBUFSIZE \<and> length (ob_buf ob') \<le> length (ob_buf ob) + length str
     \<and> ob_convcode ob' = ob_convcode ob"
proof (induction str ob rule: output_raw.induct)
  case (1 str ob)
  let ?len = "IOBUFSIZE - length (ob_buf ob)"
  let ?ob = "oflush (ob\<lparr>ob_buf := ob_buf ob @ take ?len str\<rparr>)"
  show ?case
  proof (cases "str \<noteq> [] \<and> ?len < length str")
    case True
    then have "\<exists>ob'. output_raw (drop ?len str) ?ob = Some ob' \<and> sent ob' = sent ?ob @ drop ?len str
      \<and> length (ob_buf ob') \<le> IOBUFSIZE \<and> length (ob_buf ob') \<le> length (ob_buf ?ob) + length (drop ?len str)
      \<and> ob_convcode ob' = ob_convcode ?ob"
      using "1.IH" "1.prems" by (simp add: not_less)
    moreover have "sent ?ob = sent ob @ take ?len str" unfolding sent_oflush by (simp add: sent_def)
    then have "sent ?ob @ drop ?len str = sent ob @ str" by simp
    moreover have "output_raw str ob = output_raw (drop ?len str) ?ob"
      using True "1.prems" by (subst output_raw.simps) (simp add: Let_def not_less)
    ultimately show ?thesis by (auto intro: order_trans)
  next
    case False
    then show ?thesis using "1.prems" by (subst output_raw.simps) (auto simp: sent_def Let_def not_less)
  qed
qed

lemma play_sent:
  "\<not> ob_convcode ob \<Longrightarrow> length (ob_buf ob) \<le> IOBUFSIZE \<Longrightarrow> play tab rs ob = Some ob'
   \<Longrightarrow> sent ob' = sent ob @ concat (map req_bytes rs) \<and> length (ob_buf ob') \<le> IOBUFSIZE"
proof (induction tab rs ob rule: play.induct)
  case (2 tab c rs ob)
  from 2(4) obtain ob1 where ob1: "put_raw_ch c ob = Some ob1" "play tab rs ob1 = Some ob'"
    using 2(2) by (auto simp: ochar_def bind_eq_Some_conv)
  then have "length (ob_buf ob) < IOBUFSIZE" by (simp add: put_raw_ch_def split: if_splits)
  from put_raw_ch_sent [OF this, of c] ob1 have
    "sent ob1 = sent ob @ [c]" "length (ob_buf ob1) \<le> IOBUFSIZE" "\<not> ob_convcode ob1" using 2(2) by auto
  with 2(1) [of ob1] ob1 2(2) show ?case by (simp add: ochar_def)
next
  case (3 tab str rs ob)
  from output_raw_sent [OF 3(3), of str] obtain ob1 where ob1: "output_raw str ob = Some ob1"
    "sent ob1 = sent ob @ str" "length (ob_buf ob1) \<le> IOBUFSIZE" "\<not> ob_convcode ob1" using 3(2) by auto
  with 3 show ?case by (simp add: output_str_def)
qed (auto simp: IOBUFSIZE_def)

lemma play_defined:
  "\<not> ob_convcode ob \<Longrightarrow> length (ob_buf ob) + length (concat (map req_bytes rs)) < IOBUFSIZE
   \<Longrightarrow> \<exists>ob'. play tab rs ob = Some ob'"
proof (induction tab rs ob rule: play.induct)
  case (2 tab c rs ob)
  then have "length (ob_buf ob) < IOBUFSIZE" by simp
  from put_raw_ch_sent [OF this, of c] 2 show ?case by (auto simp: ochar_def)
next
  case (3 tab str rs ob)
  then have "length (ob_buf ob) \<le> IOBUFSIZE" by simp
  from output_raw_sent [OF this, of str] 3 show ?case by (auto simp: output_str_def)
qed auto


section \<open>Conversion of a text\<close>

definition g2b_single :: "char \<Rightarrow> bool" where
  \<comment> \<open>a byte that is sent as it is\<close>
  "g2b_single c \<longleftrightarrow> byte c < 0xA1 \<or> 0xA9 < byte c \<and> byte c < 0xB0 \<or> 0xF7 < byte c"

definition g2b_index :: "char \<Rightarrow> char \<Rightarrow> nat" where
  \<comment> \<open>the place of a two-byte character in the segment\<close>
  "g2b_index c d = 2 * B2G_COUNT
     + ((if byte c < 0xAA then byte c - 0xA1 else byte c - 0xB0 + 9) * 94 + byte d) * 2 - 2 * 0xA1"

definition g2b_char :: "nat list \<Rightarrow> char \<Rightarrow> char \<Rightarrow> string" where
  "g2b_char tab c d =
     (if byte d < 0xA0 \<or> byte d = 0xFF then c # (if d = NUL then [] else [d])
      else [char_of (tab ! g2b_index c d), char_of (tab ! (g2b_index c d + 1))])"

fun g2b_text :: "nat list \<Rightarrow> string \<Rightarrow> string" where
  "g2b_text tab [] = []"
| "g2b_text tab [c] = (if g2b_single c \<and> c \<noteq> NUL then [c] else [])"
| "g2b_text tab (c # d # s) =
     (if g2b_single c then (if c = NUL then [] else [c]) @ g2b_text tab (d # s)
      else g2b_char tab c d @ g2b_text tab s)"

definition tab_ok :: "nat list \<Rightarrow> bool" where
  "tab_ok tab \<longleftrightarrow> length tab = 2 * (B2G_COUNT + G2B_COUNT) \<and> list_all (\<lambda>b. 0 < b \<and> b < 256) tab"

lemma sent_conv [simp]: "sent (ob\<lparr>ob_conv := cv\<rparr>) = sent ob"
  by (simp add: sent_def)

lemma char_byte [simp]: "char_of (nat (int (byte c))) = c"
  by simp

lemma loop_stop: "ch \<le> 0 \<Longrightarrow> ochar_loop tab ch ob = Some ob"
  by (subst ochar_loop.simps) simp

lemma loop_single:
  assumes "length (ob_buf ob) < IOBUFSIZE" "cv_status (ob_conv ob) = CONVERT_BEG" "0 < ch"
  shows "\<exists>ob'. ochar_loop tab ch ob = Some ob' \<and> sent ob' = sent ob @ [char_of (nat ch)]
    \<and> length (ob_buf ob') < IOBUFSIZE \<and> ob_conv ob' = ob_conv ob \<and> ob_convcode ob' = ob_convcode ob"
proof -
  obtain ob' where p: "put_raw_ch (char_of (nat ch)) ob = Some ob'" "sent ob' = sent ob @ [char_of (nat ch)]"
    "length (ob_buf ob') < IOBUFSIZE" "ob_conv ob' = ob_conv ob" "ob_convcode ob' = ob_convcode ob"
    using put_raw_ch_sent [OF assms(1)] by blast
  have "convert_g2b tab (-1) (ob_conv ob) = Some (ob_conv ob, -1)" using assms(2) by (simp add: convert_g2b_def)
  with p assms(3) show ?thesis by (subst ochar_loop.simps) (simp add: loop_stop)
qed

lemma loop_pair:
  assumes "length (ob_buf ob) < IOBUFSIZE" "cv_status (ob_conv ob) = CONVERT_STR" "0 < ch"
    and "0 \<le> cv_second (ob_conv ob)"
  shows "\<exists>ob'. ochar_loop tab ch ob = Some ob'
    \<and> sent ob' = sent ob @ char_of (nat ch) # (if cv_second (ob_conv ob) = 0 then [] else [char_of (nat (cv_second (ob_conv ob)))])
    \<and> length (ob_buf ob') < IOBUFSIZE \<and> cv_status (ob_conv ob') = CONVERT_BEG \<and> ob_convcode ob' = ob_convcode ob"
proof -
  let ?cv = "(ob_conv ob)\<lparr>cv_status := CONVERT_BEG\<rparr>" and ?second = "cv_second (ob_conv ob)"
  obtain ob1 where p: "put_raw_ch (char_of (nat ch)) ob = Some ob1" "sent ob1 = sent ob @ [char_of (nat ch)]"
    "length (ob_buf ob1) < IOBUFSIZE" "ob_conv ob1 = ob_conv ob" "ob_convcode ob1 = ob_convcode ob"
    using put_raw_ch_sent [OF assms(1)] by blast
  let ?ob = "ob1\<lparr>ob_conv := ?cv\<rparr>"
  have c: "convert_g2b tab (-1) (ob_conv ob) = Some (?cv, ?second)" using assms(2) by (simp add: convert_g2b_def)
  have run: "ochar_loop tab ch ob = ochar_loop tab ?second ?ob"
    using p c assms(3) by (subst ochar_loop.simps) simp
  show ?thesis
  proof (cases "?second = 0")
    case True
    with p show ?thesis unfolding run by (simp add: loop_stop sent_def)
  next
    case False
    then have s: "0 < ?second" using assms(4) by simp
    have l: "length (ob_buf ?ob) < IOBUFSIZE" "cv_status (ob_conv ?ob) = CONVERT_BEG" using p by simp_all
    from loop_single [OF l s, of tab] obtain ob' where o: "ochar_loop tab ?second ?ob = Some ob'"
      "sent ob' = sent ?ob @ [char_of (nat ?second)]" "length (ob_buf ob') < IOBUFSIZE"
      "ob_conv ob' = ob_conv ?ob" "ob_convcode ob' = ob_convcode ?ob" by blast
    have "sent ?ob = sent ob1" by (simp add: sent_def)
    with o p s show ?thesis unfolding run by simp
  qed
qed

definition ready :: "outst \<Rightarrow> bool" where
  "ready ob \<longleftrightarrow> ob_convcode ob \<and> length (ob_buf ob) < IOBUFSIZE \<and> cv_status (ob_conv ob) = CONVERT_BEG"

lemma ochar_single:
  assumes "ready ob" "g2b_single c"
  shows "\<exists>ob'. ochar tab c ob = Some ob' \<and> sent ob' = sent ob @ (if c = NUL then [] else [c]) \<and> ready ob'"
proof -
  have "convert_g2b tab (int (byte c)) (ob_conv ob) = Some (ob_conv ob, int (byte c))"
    using assms by (auto simp: convert_g2b_def ready_def g2b_single_def)
  then have run: "ochar tab c ob = ochar_loop tab (int (byte c)) ob"
    using assms(1) by (simp add: ochar_def ready_def)
  show ?thesis
  proof (cases "c = NUL")
    case True
    with assms(1) show ?thesis unfolding run by (simp add: loop_stop)
  next
    case False
    then have "0 < int (byte c)" using byte_0_iff [of c] by simp
    with loop_single [of ob "int (byte c)" tab] assms(1) False show ?thesis unfolding run by (auto simp: ready_def)
  qed
qed

lemma ochar_first:
  assumes "ready ob" "\<not> g2b_single c"
  shows "ochar tab c ob = Some (ob\<lparr>ob_conv := (ob_conv ob)\<lparr>cv_got := int (byte c), cv_status := CONVERT_GOT\<rparr>\<rparr>)"
proof -
  have "convert_g2b tab (int (byte c)) (ob_conv ob)
      = Some ((ob_conv ob)\<lparr>cv_got := int (byte c), cv_status := CONVERT_GOT\<rparr>, -1)"
    using assms by (auto simp: convert_g2b_def ready_def g2b_single_def)
  then show ?thesis using assms(1) by (simp add: ochar_def ready_def loop_stop)
qed

lemma convert_pair:
  assumes "tab_ok tab" "\<not> g2b_single c" "cv_status cv = CONVERT_GOT" "cv_got cv = int (byte c)"
    and "\<not> (byte d < 0xA0 \<or> byte d = 0xFF)"
  shows "convert_g2b tab (int (byte d)) cv = Some (cv\<lparr>cv_status := CONVERT_STR,
      cv_second := int (tab ! (g2b_index c d + 1))\<rparr>, int (tab ! g2b_index c d))"
    and "g2b_index c d + 1 < length tab"
proof -
  have c: "0xA1 \<le> byte c" "byte c \<le> 0xA9 \<or> 0xB0 \<le> byte c" "byte c \<le> 0xF7" using assms(2) by (auto simp: g2b_single_def)
  have d: "0xA0 \<le> byte d" "byte d \<le> 0xFE" using assms(5) byte_lt [of d] by presburger+
  let ?a = "if byte c < 0xAA then byte c - 0xA1 else byte c - 0xB0 + 9"
  have a: "?a \<le> 80" using c by auto
  have l: "length tab = 43174" "B2G_COUNT = 13973" using assms(1) by (simp_all add: tab_ok_def B2G_COUNT_def G2B_COUNT_def)
  have idx: "int (g2b_index c d) = 2 * int B2G_COUNT + (int ?a * 94 + (int (byte d) - 0xA1)) * 2"
    using d by (simp add: g2b_index_def l(2))
  show lt: "g2b_index c d + 1 < length tab" using idx a d by (simp add: l g2b_index_def)
  have loc: "(if 0xA0 < int (byte c) \<and> int (byte c) < 0xAA then ((int (byte c) - 0xA1) * 94 + (int (byte d) - 0xA1)) * 2
       else ((int (byte c) - 0xB0 + 9) * 94 + (int (byte d) - 0xA1)) * 2) = (int ?a * 94 + (int (byte d) - 0xA1)) * 2"
    using c by auto
  have "int B2G_COUNT * 2 + (int ?a * 94 + (int (byte d) - 0xA1)) * 2 = int (g2b_index c d)" using idx by simp
  then have pair: "tab_pair tab (int B2G_COUNT * 2 + (int ?a * 94 + (int (byte d) - 0xA1)) * 2) cv'
      = Some (cv'\<lparr>cv_second := int (tab ! (g2b_index c d + 1))\<rparr>, int (tab ! g2b_index c d))" for cv'
    using lt by (simp add: tab_pair_def tab_at_def nat_add_distrib)
  have n: "\<not> (int (byte d) < 0xA0 \<or> int (byte d) = 0xFF)" using assms(5) by simp
  show "convert_g2b tab (int (byte d)) cv = Some (cv\<lparr>cv_status := CONVERT_STR,
      cv_second := int (tab ! (g2b_index c d + 1))\<rparr>, int (tab ! g2b_index c d))"
    unfolding convert_g2b_def Let_def assms(3,4) loc pair using n by simp
qed

lemma ochar_second:
  assumes t: "tab_ok tab" and r: "ready ob" and c: "\<not> g2b_single c"
    and ob1: "ob1 = ob\<lparr>ob_conv := (ob_conv ob)\<lparr>cv_got := int (byte c), cv_status := CONVERT_GOT\<rparr>\<rparr>"
  shows "\<exists>ob'. ochar tab d ob1 = Some ob' \<and> sent ob' = sent ob @ g2b_char tab c d \<and> ready ob'"
proof -
  have o: "ob_convcode ob1" "length (ob_buf ob1) < IOBUFSIZE" "sent ob1 = sent ob"
    using r by (simp_all add: ready_def ob1 sent_def)
  have cv: "cv_status (ob_conv ob1) = CONVERT_GOT" "cv_got (ob_conv ob1) = int (byte c)" by (simp_all add: ob1)
  obtain sec first where conv: "convert_g2b tab (int (byte d)) (ob_conv ob1) =
        Some ((ob_conv ob1)\<lparr>cv_status := CONVERT_STR, cv_second := sec\<rparr>, first)" and pos: "0 < first" "0 \<le> sec"
    and out: "char_of (nat first) # (if sec = 0 then [] else [char_of (nat sec)]) = g2b_char tab c d"
  proof (cases "byte d < 0xA0 \<or> byte d = 0xFF")
    case True
    show ?thesis
    proof (rule that)
      show "convert_g2b tab (int (byte d)) (ob_conv ob1) = Some ((ob_conv ob1)\<lparr>cv_status := CONVERT_STR,
          cv_second := int (byte d)\<rparr>, int (byte c))"
        using True cv by (auto simp: convert_g2b_def Let_def)
      show "0 < int (byte c)" using c by (auto simp: g2b_single_def)
      show "char_of (nat (int (byte c))) # (if int (byte d) = 0 then [] else [char_of (nat (int (byte d)))]) = g2b_char tab c d"
        using True by (auto simp: g2b_char_def byte_0_iff)
    qed simp
  next
    case False
    note p = convert_pair [OF t c cv False]
    have e: "0 < tab ! g2b_index c d" "0 < tab ! (g2b_index c d + 1)"
      using t p(2) by (simp_all add: tab_ok_def list_all_length)
    show ?thesis
      by (rule that [OF p(1)]) (use e False in \<open>auto simp: g2b_char_def\<close>)
  qed
  let ?ob = "ob1\<lparr>ob_conv := (ob_conv ob1)\<lparr>cv_status := CONVERT_STR, cv_second := sec\<rparr>\<rparr>"
  have run: "ochar tab d ob1 = ochar_loop tab first ?ob" using o(1) conv by (simp add: ochar_def)
  have "length (ob_buf ?ob) < IOBUFSIZE" "cv_status (ob_conv ?ob) = CONVERT_STR" "0 \<le> cv_second (ob_conv ?ob)"
    using o pos by simp_all
  from loop_pair [OF this(1,2) pos(1) this(3), of tab] obtain ob' where
    "ochar_loop tab first ?ob = Some ob'" "sent ob' = sent ?ob @ char_of (nat first) # (if sec = 0 then [] else [char_of (nat sec)])"
    "length (ob_buf ob') < IOBUFSIZE" "cv_status (ob_conv ob') = CONVERT_BEG" "ob_convcode ob' = ob_convcode ?ob"
    by auto
  then show ?thesis unfolding run out using o by (auto simp: ready_def)
qed

lemma ochars_text:
  "tab_ok tab \<Longrightarrow> ready ob \<Longrightarrow> \<exists>ob'. ochars tab s ob = Some ob' \<and> sent ob' = sent ob @ g2b_text tab s"
proof (induction tab s arbitrary: ob rule: g2b_text.induct)
  case (2 tab c)
  then show ?case
    using ochar_single [OF 2(2), of c tab] ochar_first [OF 2(2), of c tab]
    by (cases "g2b_single c") (auto simp: sent_def)
next
  case (3 tab c d s)
  show ?case
  proof (cases "g2b_single c")
    case True
    from ochar_single [OF 3(4) True, of tab] obtain ob1 where
      "ochar tab c ob = Some ob1" "sent ob1 = sent ob @ (if c = NUL then [] else [c])" "ready ob1" by blast
    with 3(1) [OF True 3(3), of ob1] True show ?thesis by auto
  next
    case False
    from ochar_second [OF 3(3,4) False refl, of d] obtain ob2 where
      "ochar tab d (ob\<lparr>ob_conv := (ob_conv ob)\<lparr>cv_got := int (byte c), cv_status := CONVERT_GOT\<rparr>\<rparr>) = Some ob2"
      "sent ob2 = sent ob @ g2b_char tab c d" "ready ob2" by blast
    with 3(2) [OF False 3(3), of ob2] False ochar_first [OF 3(4) False, of tab] show ?thesis by auto
  qed
qed simp


section \<open>Properties\<close>

lemma play_append: "play tab (rs @ rs') ob = Option.bind (play tab rs ob) (play tab rs')"
proof (induction tab rs ob rule: play.induct)
  case (2 tab c rs ob)
  then show ?case by (cases "ochar tab c ob") auto
next
  case (3 tab str rs ob)
  then show ?case by (cases "output_str tab str ob") auto
qed simp_all

lemma ochar_loop_code:
  assumes "ochar_loop tab ch o1 = Some o2"
  shows "ob_convcode o2 = ob_convcode o1"
proof (rule ochar_loop.raw_induct [where P = "\<lambda>tab ch o1 o2. ob_convcode o2 = ob_convcode o1", OF _ assms])
  fix f tab ch o1 o2
  assume ih: "\<And>tab ch o1 o2. f tab ch o1 = Some o2 \<Longrightarrow> ob_convcode o2 = ob_convcode o1"
    and run: "(if 0 < ch then do {
        ob \<leftarrow> put_raw_ch (char_of (nat ch)) o1;
        (cv, ch) \<leftarrow> convert_g2b tab (-1) (ob_conv ob);
        f tab ch (ob\<lparr>ob_conv := cv\<rparr>) }
      else Some o1) = Some o2"
  show "ob_convcode o2 = ob_convcode o1"
  proof (cases "0 < ch")
    case True
    with run obtain ob cv c where "put_raw_ch (char_of (nat ch)) o1 = Some ob" "f tab c (ob\<lparr>ob_conv := cv\<rparr>) = Some o2"
      by (auto simp: bind_eq_Some_conv)
    then show ?thesis using ih [of tab c "ob\<lparr>ob_conv := cv\<rparr>" o2]
      by (auto simp: put_raw_ch_def Let_def split: if_splits)
  qed (use run in simp)
qed

text \<open>C35: the output buffer, without code conversion. A sequence of requests whose bytes do not
  reach the end of the buffer is carried out, and after a flush exactly the bytes that waited and
  the bytes of the requests, in order, have been written. A longer sequence writes the same bytes
  whenever it is defined at all.\<close>
theorem output_stream:
  assumes "\<not> ob_convcode ob" "length (ob_buf ob) \<le> IOBUFSIZE"
  shows "(length (ob_buf ob) + length (concat (map req_bytes rs)) < IOBUFSIZE \<longrightarrow> play tab rs ob \<noteq> None)
    \<and> (\<forall>ob'. play tab (rs @ [Oflush]) ob = Some ob' \<longrightarrow>
      concat (ob_writes ob') = concat (ob_writes ob) @ ob_buf ob @ concat (map req_bytes rs) \<and> ob_buf ob' = [])"
proof (intro conjI allI impI)
  show "length (ob_buf ob) + length (concat (map req_bytes rs)) < IOBUFSIZE \<Longrightarrow> play tab rs ob \<noteq> None"
    using play_defined [OF assms(1)] by blast
  fix ob'
  assume "play tab (rs @ [Oflush]) ob = Some ob'"
  then obtain ob1 where p: "play tab rs ob = Some ob1" "ob' = oflush ob1"
    by (auto simp: play_append bind_eq_Some_conv)
  have "sent (oflush ob1) = sent ob @ concat (map req_bytes rs)" using play_sent [OF assms p(1)] by simp
  with p(2) show "concat (ob_writes ob') = concat (ob_writes ob) @ ob_buf ob @ concat (map req_bytes rs)"
    and "ob_buf ob' = []" by (simp_all add: sent_def)
qed

text \<open>An output that ends exactly at the end of the buffer leaves it full, and the next
  character is written past it.\<close>
theorem exact_fill_overruns:
  assumes "\<not> ob_convcode ob" "str \<noteq> []" "length (ob_buf ob) + length str = IOBUFSIZE"
  shows "play tab [Output str] ob \<noteq> None \<and> play tab [Output str, Ochar c] ob = None"
proof -
  have "output_raw str ob = Some (ob\<lparr>ob_buf := ob_buf ob @ str\<rparr>)"
    using assms by (subst output_raw.simps) (auto simp: Let_def)
  with assms show ?thesis by (simp add: output_str_def ochar_def put_raw_ch_def)
qed

text \<open>Code conversion. With a table without zero bytes, sending a text byte by byte never
  overruns the buffer and sends the text with each two-byte character replaced by its entry of
  the table, wherever the pieces of the text begin and end.\<close>
theorem convert_stream:
  assumes "tab_ok tab" "ob_convcode ob" "length (ob_buf ob) < IOBUFSIZE" "cv_status (ob_conv ob) = CONVERT_BEG"
  shows "\<exists>ob'. play tab (map Output ts) ob = Some ob' \<and> sent ob' = sent ob @ g2b_text tab (concat ts)"
proof -
  have code: "ochars tab s ob = Some ob' \<Longrightarrow> ob_convcode ob' = ob_convcode ob" for s ob ob'
  proof (induction s arbitrary: ob)
    case (Cons c s)
    then show ?case
      by (auto simp: ochar_def bind_eq_Some_conv put_raw_ch_def Let_def dest!: ochar_loop_code split: if_splits)
  qed simp
  have app: "ochars tab (a @ b) ob = Option.bind (ochars tab a ob) (ochars tab b)" for a b ob
  proof (induction a arbitrary: ob)
    case (Cons c a)
    then show ?case by (cases "ochar tab c ob") auto
  qed simp
  have "ob_convcode ob \<Longrightarrow> play tab (map Output ts) ob = ochars tab (concat ts) ob" for ob
  proof (induction ts arbitrary: ob)
    case (Cons t ts)
    then show ?case by (cases "ochars tab t ob") (auto simp: output_str_def app code)
  qed simp
  with ochars_text [OF assms(1), of ob "concat ts"] assms(2-4) show ?thesis by (simp add: ready_def)
qed

definition demo_out :: outst where
  "demo_out = \<lparr>ob_buf = [], ob_writes = [], ob_convcode = False,
     ob_conv = \<lparr>cv_status = CONVERT_BEG, cv_got = 0, cv_second = 0\<rparr>\<rparr>"

theorem output_stream_witness:
  "\<exists>ob. play [] [Ochar (CHR ''a''), Output ''bc'', Oflush] demo_out = Some ob \<and> concat (ob_writes ob) = ''abc''"
proof -
  let ?rs = "[Ochar (CHR ''a''), Output ''bc'']"
  have o: "\<not> ob_convcode demo_out" "length (ob_buf demo_out) \<le> IOBUFSIZE" by (simp_all add: demo_out_def)
  have d: "play [] ((?rs @ [Oflush]) @ []) demo_out \<noteq> None"
    using output_stream [OF o, of "?rs @ [Oflush]" "[]"] by (simp add: demo_out_def IOBUFSIZE_def)
  then obtain ob where ob: "play [] (?rs @ [Oflush]) demo_out = Some ob" by auto
  with output_stream [OF o, of ?rs "[]"] have "concat (ob_writes ob) = ''abc''" by (simp add: demo_out_def)
  with ob show ?thesis by auto
qed

theorem exact_fill_overruns_witness:
  "play [] [Output (replicate 4096 SPC), Ochar SPC] demo_out = None"
proof -
  have "replicate 4096 SPC \<noteq> []" by simp
  moreover have "length (ob_buf demo_out) + length (replicate 4096 SPC) = IOBUFSIZE"
    by (simp add: demo_out_def IOBUFSIZE_def)
  ultimately show ?thesis using exact_fill_overruns [of demo_out "replicate 4096 SPC" "[]" SPC]
    by (simp only: demo_out_def outst.simps simp_thms)
qed

theorem convert_stream_witness:
  "\<exists>ob. play (replicate 43174 9) (map Output [[CHR ''x'', CHR 0xA1], [CHR 0xA2]]) (demo_out\<lparr>ob_convcode := True\<rparr>) = Some ob
     \<and> sent ob = [CHR ''x'', char_of (9::nat), char_of (9::nat)]"
proof -
  let ?tab = "replicate 43174 (9::nat)" and ?ob = "demo_out\<lparr>ob_convcode := True\<rparr>"
  have tab: "tab_ok ?tab" by (simp add: tab_ok_def B2G_COUNT_def G2B_COUNT_def list_all_length)
  have "ob_convcode ?ob" "length (ob_buf ?ob) < IOBUFSIZE" "cv_status (ob_conv ?ob) = CONVERT_BEG" "sent ?ob = []"
    by (simp_all add: demo_out_def IOBUFSIZE_def sent_def)
  with convert_stream [OF tab, of ?ob "[[CHR ''x'', CHR 0xA1], [CHR 0xA2]]"]
  have "\<exists>ob. play ?tab (map Output [[CHR ''x'', CHR 0xA1], [CHR 0xA2]]) ?ob = Some ob
      \<and> sent ob = g2b_text ?tab [CHR ''x'', CHR 0xA1, CHR 0xA2]" by simp
  moreover have "g2b_text ?tab [CHR ''x'', CHR 0xA1, CHR 0xA2] = [CHR ''x'', char_of (9::nat), char_of (9::nat)]"
    by (simp add: g2b_single_def byte_def g2b_char_def g2b_index_def B2G_COUNT_def)
  ultimately show ?thesis by simp
qed

end
