(* ===== verification/TermInput.thy ===== *)
theory TermInput
  imports TermOutput UserCache
begin

text \<open>
  Keys and lines typed at the terminal: the input half of \<^verbatim>\<open>src/io.c\<close>. \<open>get_raw_ch\<close> takes bytes out
  of the input buffer and fills it from the network; \<open>igetch\<close> makes keys of them (telnet
  negotiation, escape sequences, line ends), \<open>igetkey\<close> lets messages be answered in between, and
  \<open>getdata\<close> edits one line. What \<^verbatim>\<open>select\<close> and \<^verbatim>\<open>read\<close> report each time the buffer is empty is a
  list of events; when it is used up, or the connection is closed (\<^verbatim>\<open>abort_bbs\<close>), there is no
  result. \<^verbatim>\<open>flushf\<close> and \<^verbatim>\<open>msg_reply\<close> are functions of other files: arguments.
\<close>

unbundle bit_operations_syntax

section \<open>Data\<close>

definition I_TIMEOUT :: int where "I_TIMEOUT = -2"
definition I_OTHERDATA :: int where "I_OTHERDATA = -333"
definition IAC :: int where "IAC = 255"
definition SB :: int where "SB = 250"
definition SE :: int where "SE = 240"
definition KEY_ESC :: int where "KEY_ESC = 27"
definition KEY_UP :: int where "KEY_UP = 0x0101"
definition KEY_DOWN :: int where "KEY_DOWN = 0x0102"
definition KEY_RIGHT :: int where "KEY_RIGHT = 0x0103"
definition KEY_LEFT :: int where "KEY_LEFT = 0x0104"
definition KEY_HOME :: int where "KEY_HOME = 0x0201"
definition KEY_DEL :: int where "KEY_DEL = 0x0203"
definition KEY_END :: int where "KEY_END = 0x0204"
definition LOCKSCREEN :: int where "LOCKSCREEN = 40"

definition Ctrl :: "char \<Rightarrow> int" where
  "Ctrl c = int (byte c) AND 31"

datatype telst = TELST_IAC | TELST_COM | TELST_SUB
datatype escst = ESCST_BEG | ESCST_CUR | ESCST_FUN | ESCST_ERR

text \<open>An event has the time and whether the first, non-blocking \<^verbatim>\<open>select\<close> already reported it.\<close>

datatype event = Data int bool string | OtherData int bool | Timeout int | SelectError int | Closed int bool

record tstate =
  ts_scr :: screen
  ts_inbuf :: string
  ts_incur :: nat
  ts_events :: "event list"
  ts_idle :: bool
  ts_cr :: bool
  ts_esc_arg :: int
  ts_uinfo :: user_info
  ts_utmpent :: int
  ts_utmp :: utmpfile
  ts_convcode :: bool
  ts_b2g :: conv
  ts_RMSG :: bool
  ts_msg_num :: int
  ts_dbchar :: bool

section \<open>Bytes and keys\<close>

fun ev_time :: "event \<Rightarrow> int" where
  "ev_time (Data t r d) = t" | "ev_time (OtherData t r) = t" | "ev_time (Timeout t) = t"
| "ev_time (SelectError t) = t" | "ev_time (Closed t r) = t"

fun ev_ready :: "event \<Rightarrow> bool" where
  "ev_ready (Data t r d) = r" | "ev_ready (OtherData t r) = r" | "ev_ready (Timeout t) = False"
| "ev_ready (SelectError t) = False" | "ev_ready (Closed t r) = r"

definition before_wait :: "(screen \<Rightarrow> screen) \<Rightarrow> tstate \<Rightarrow> tstate" where
  \<comment> \<open>what is done before blocking; \<^verbatim>\<open>flushf\<close> is the identity when none was installed\<close>
  "before_wait flushf s =
     (let scr = flushf (ts_scr s)
      in s\<lparr>ts_scr := (if picture scr \<noteq> [] then refresh True scr else emit [treq.Oflush] scr)\<rparr>)"

definition get_raw_ch :: "(screen \<Rightarrow> screen) \<Rightarrow> tstate \<Rightarrow> (tstate \<times> int) option" where
  "get_raw_ch flushf s =
     (if ts_incur s < length (ts_inbuf s)
      then Some (s\<lparr>ts_incur := ts_incur s + 1\<rparr>, int (byte (ts_inbuf s ! ts_incur s)))
      else case ts_events s of
        [] \<Rightarrow> None
      | e # es \<Rightarrow>
          (let u = (ts_uinfo s)\<lparr>ui_idle_time := ev_time e\<rparr>;
               s = s\<lparr>ts_events := es, ts_uinfo := u, ts_utmp := update_ulist u (ts_utmpent s) (ts_utmp s)\<rparr>;
               s = (if ev_ready e then s else before_wait flushf s)
           in case e of
                SelectError t \<Rightarrow> Some (s, -1)
              | Timeout t \<Rightarrow> Some (s, I_TIMEOUT)
              | OtherData t r \<Rightarrow> Some (s, I_OTHERDATA)
              | Closed t r \<Rightarrow> None
              | Data t r d \<Rightarrow>
                  if d = [] then None
                  else Some (s\<lparr>ts_inbuf := d, ts_incur := 1, ts_idle := False\<rparr>, int (byte (hd d)))))"

partial_function (option) iac_handler :: "(screen \<Rightarrow> screen) \<Rightarrow> telst \<Rightarrow> tstate \<Rightarrow> (tstate \<times> int) option" where
  \<comment> \<open>the loop, from its status\<close>
  "iac_handler flushf status s = do {
     (s, ch) \<leftarrow> get_raw_ch flushf s;
     if ch < 0 then Some (s, ch)
     else case status of
       TELST_IAC \<Rightarrow> iac_handler flushf (if ch = SB then TELST_SUB else TELST_COM) s
     | TELST_COM \<Rightarrow> Some (s, 0)
     | TELST_SUB \<Rightarrow> if ch = SE then Some (s, 0) else iac_handler flushf TELST_SUB s }"

partial_function (option) esc_handler :: "(screen \<Rightarrow> screen) \<Rightarrow> escst \<Rightarrow> int \<Rightarrow> tstate \<Rightarrow> (tstate \<times> int) option" where
  \<comment> \<open>the loop, from its status and the byte before\<close>
  "esc_handler flushf status lst s = do {
     (s, ch) \<leftarrow> get_raw_ch flushf s;
     if ch < 0 then Some (s, ch)
     else case status of
       ESCST_BEG \<Rightarrow>
         if ch = int (byte CHR ''['') \<or> ch = int (byte CHR ''O'') then esc_handler flushf ESCST_CUR ch s
         else if ch = int (byte CHR ''1'') \<or> ch = int (byte CHR ''4'') then esc_handler flushf ESCST_FUN ch s
         else Some (s\<lparr>ts_esc_arg := ch\<rparr>, KEY_ESC)
     | ESCST_CUR \<Rightarrow>
         if int (byte CHR ''A'') \<le> ch \<and> ch \<le> int (byte CHR ''D'') then Some (s, KEY_UP + ch - int (byte CHR ''A''))
         else if int (byte CHR ''1'') \<le> ch \<and> ch \<le> int (byte CHR ''6'') then esc_handler flushf ESCST_FUN ch s
         else esc_handler flushf ESCST_ERR ch s
     | ESCST_FUN \<Rightarrow>
         if ch = int (byte CHR ''~'') \<and> int (byte CHR ''1'') \<le> lst \<and> lst \<le> int (byte CHR ''6'')
         then Some (s, KEY_HOME + lst - int (byte CHR ''1''))
         else esc_handler flushf ESCST_ERR ch s
     | ESCST_ERR \<Rightarrow> Some (s, ch) }"

partial_function (option) igetch :: "(screen \<Rightarrow> screen) \<Rightarrow> nat list \<Rightarrow> tstate \<Rightarrow> (tstate \<times> int) option" where
  "igetch flushf tab s = do {
     (s, ch) \<leftarrow> get_raw_ch flushf s;
     if ch = IAC then do { (s, _) \<leftarrow> iac_handler flushf TELST_IAC s; igetch flushf tab s }
     else if ch = KEY_ESC then esc_handler flushf ESCST_BEG 0 s
     else if ch = Ctrl (CHR ''L'') then igetch flushf tab (s\<lparr>ts_scr := redoscr (ts_scr s)\<rparr>)
     else if ch = 13 then Some (s\<lparr>ts_cr := True\<rparr>, 10)
     else if ch = 10 then if ts_cr s then igetch flushf tab (s\<lparr>ts_cr := False\<rparr>) else Some (s, 10)
     else if ch = 0 then igetch flushf tab (s\<lparr>ts_cr := False\<rparr>)
     else if ts_convcode s then do {
       (cv, ch) \<leftarrow> convert_b2g tab ch (ts_b2g s);
       Some (s\<lparr>ts_cr := False, ts_b2g := cv\<rparr>, ch) }
     else Some (s\<lparr>ts_cr := False\<rparr>, ch) }"

partial_function (option) key_loop :: "(screen \<Rightarrow> screen) \<Rightarrow> nat list \<Rightarrow> int \<Rightarrow> tstate \<Rightarrow> (tstate \<times> int) option" where
  \<comment> \<open>\<^verbatim>\<open>while (ch < 0) ch = igetch();\<close>\<close>
  "key_loop flushf tab ch s =
     (if ch < 0 then do { (s, ch) \<leftarrow> igetch flushf tab s; key_loop flushf tab ch s } else Some (s, ch))"

definition do_igetkey :: "(screen \<Rightarrow> screen) \<Rightarrow> nat list \<Rightarrow> tstate \<Rightarrow> (tstate \<times> int) option" where
  "do_igetkey flushf tab s = do {
     (s, ch) \<leftarrow> (if ts_convcode s then do {
                   (cv, ch) \<leftarrow> convert_b2g tab (-1) (ts_b2g s);
                   key_loop flushf tab ch (s\<lparr>ts_b2g := cv\<rparr>) }
                 else igetch flushf tab s);
     Some (if ch = Ctrl (CHR ''Z'') \<and> ts_msg_num s = 0 then s\<lparr>ts_RMSG := True\<rparr> else s, ch) }"

partial_function (option) reply_loop ::
  "(screen \<Rightarrow> screen) \<Rightarrow> nat list \<Rightarrow> (int \<Rightarrow> tstate \<Rightarrow> tstate) \<Rightarrow> int \<Rightarrow> tstate \<Rightarrow> (tstate \<times> int) option" where
  "reply_loop flushf tab msg_reply ch s =
     (if (ts_RMSG s \<or> ts_msg_num s \<noteq> 0) \<and> ui_mode (ts_uinfo s) \<noteq> LOCKSCREEN then do {
        (s, ch) \<leftarrow> do_igetkey flushf tab (msg_reply ch s);
        reply_loop flushf tab msg_reply ch s }
      else Some (s, ch))"

definition igetkey ::
  "(screen \<Rightarrow> screen) \<Rightarrow> nat list \<Rightarrow> (int \<Rightarrow> tstate \<Rightarrow> tstate) \<Rightarrow> tstate \<Rightarrow> (tstate \<times> int) option" where
  "igetkey flushf tab msg_reply s = do {
     (s, ch) \<leftarrow> do_igetkey flushf tab s;
     reply_loop flushf tab msg_reply ch s }"

declare get_raw_ch_def [code] iac_handler.simps [code] esc_handler.simps [code] igetch.simps [code]


section \<open>Editing a line\<close>

definition TALK :: int where "TALK = 1"
definition FIVE :: int where "FIVE = 63"

definition isprint2_key :: "int \<Rightarrow> bool" where
  \<comment> \<open>\<^verbatim>\<open>isprint2\<close> of a key; a function key, which \<^verbatim>\<open>isprint\<close> should not be given, is not printable\<close>
  "isprint2_key ch \<longleftrightarrow> ch AND 0x80 \<noteq> 0 \<or> 32 \<le> ch \<and> ch \<le> 126"

definition to_uchar :: "int \<Rightarrow> char" where
  "to_uchar ch = char_of (nat (ch mod 256))"

definition inbuf_empty :: "tstate \<Rightarrow> bool" where
  "inbuf_empty s \<longleftrightarrow> length (ts_inbuf s) \<le> ts_incur s"

definition on_scr :: "(screen \<Rightarrow> screen option) \<Rightarrow> tstate \<Rightarrow> tstate option" where
  "on_scr f s = do { scr \<leftarrow> f (ts_scr s); Some (s\<lparr>ts_scr := scr\<rparr>) }"

definition redraw :: "nat \<Rightarrow> nat \<Rightarrow> string \<Rightarrow> nat \<Rightarrow> bool \<Rightarrow> tstate \<Rightarrow> tstate option" where
  \<comment> \<open>move, print the line, clear the rest of it when asked to, move to the cursor\<close>
  "redraw y x b cur wipe_rest =
     on_scr (\<lambda>scr. do {
       scr \<leftarrow> prints ''%s'' [Pstr (Some b)] (move y x scr);
       scr \<leftarrow> (if wipe_rest then clrtoeol scr else Some scr);
       Some (move y (x + cur) scr) })"

definition reply_key :: "tstate \<Rightarrow> int \<Rightarrow> char option" where
  \<comment> \<open>the control character that leaves the line for the messages\<close>
  "reply_key s ch =
     (if ts_RMSG s \<and> ts_msg_num s = 0 then
        if ch = Ctrl (CHR ''Z'') \<or> ch = KEY_UP then Some (to_uchar (Ctrl (CHR ''Z'')))
        else if ch = Ctrl (CHR ''A'') \<or> ch = KEY_DOWN then Some (to_uchar (Ctrl (CHR ''A''))) else None
      else None)"

partial_function (option) plain_loop ::
  "(tstate \<Rightarrow> (tstate \<times> int) option) \<Rightarrow> nat \<Rightarrow> bool \<Rightarrow> string \<Rightarrow> tstate \<Rightarrow> (tstate \<times> string) option" where
  \<comment> \<open>the loop without echo or on a dumb terminal: the \<^verbatim>\<open>clen\<close> bytes typed so far\<close>
  "plain_loop key len echo b s = do {
     (s, ch) \<leftarrow> key s;
     if ch = 10 then Some (s, b)
     else case reply_key s ch of
       Some c \<Rightarrow> Some (s, [c])
     | None \<Rightarrow>
         if ch = 127 \<or> ch = 8 then
           if b = [] then plain_loop key len echo b s
           else plain_loop key len echo (butlast b)
                  (s\<lparr>ts_scr := emit [treq.Ochar (CHR 0x08), treq.Ochar SPC, treq.Ochar (CHR 0x08)] (ts_scr s)\<rparr>)
         else if \<not> isprint2_key ch \<or> len \<le> length b + 1 then plain_loop key len echo b s
         else plain_loop key len echo (b @ [to_uchar ch])
                (s\<lparr>ts_scr := emit [treq.Ochar (if echo then to_uchar ch else CHR ''*'')] (ts_scr s)\<rparr>) }"

definition char_before :: "string \<Rightarrow> nat \<Rightarrow> nat \<times> nat" where
  \<comment> \<open>\<^verbatim>\<open>patch\<close> and \<^verbatim>\<open>currDEC\<close>: whether a whole two-byte character goes, and from where\<close>
  "char_before b cur =
     (if hibit (b ! (cur - 1)) then
        let p = length (takeWhile hibit (rev (take (cur - 1) b)))
        in if even p \<and> cur < length b \<and> hibit (b ! cur) then (1, 0)
           else if odd p then (1, 1) else (0, 0)
      else (0, 0))"

definition cut_out :: "string \<Rightarrow> nat \<Rightarrow> nat \<Rightarrow> string run" where
  \<comment> \<open>the line without the bytes from \<open>i\<close> up to \<open>j\<close>: the rest goes through \<^verbatim>\<open>tmp[STRLEN]\<close>\<close>
  "cut_out b i j = (if length b < j \<or> 80 \<le> length (drop j b) then UB else Val (take i b @ drop j b))"

definition insert_at :: "nat \<Rightarrow> string \<Rightarrow> nat \<Rightarrow> char \<Rightarrow> string run" where
  "insert_at len b cur c =
     (if length b \<le> cur then Val (b @ [c])
      else if 80 \<le> min (len - 1) (length (drop cur b)) then UB
      else Val (take cur b @ c # take (len - cur) (take (len - 1) (drop cur b))))"

definition edited :: "nat \<Rightarrow> nat \<Rightarrow> string run \<Rightarrow> nat \<Rightarrow> nat \<Rightarrow> bool \<Rightarrow> tstate
    \<Rightarrow> (tstate \<times> string \<times> nat \<times> nat) run option" where
  \<comment> \<open>show the new line; the cursor and \<^verbatim>\<open>clen\<close>\<close>
  "edited y x r cur clen wipe_rest s =
     (case r of
        UB \<Rightarrow> Some UB
      | Val b \<Rightarrow> do { s \<leftarrow> redraw y x b cur wipe_rest s; Some (Val (s, b, cur, clen)) })"

definition edit_key ::
  "nat \<Rightarrow> nat \<Rightarrow> nat \<Rightarrow> int \<Rightarrow> tstate \<Rightarrow> string \<Rightarrow> nat \<Rightarrow> nat \<Rightarrow> (tstate \<times> string \<times> nat \<times> nat) run option" where
  \<comment> \<open>one key that does not end the line: the line, the cursor \<^verbatim>\<open>curr\<close> and \<^verbatim>\<open>clen\<close>\<close>
  "edit_key len y x ch s b cur clen =
     (let stay = Some (Val (s, b, cur, clen));
          goto = (\<lambda>k. Some (Val (s\<lparr>ts_scr := move y (x + k) (ts_scr s)\<rparr>, b, k, clen)))
      in if ch = Ctrl (CHR ''R'') then Some (Val (s\<lparr>ts_dbchar := \<not> ts_dbchar s\<rparr>, b, cur, clen))
      else if ch = 127 \<or> ch = 8 then
        if cur = 0 then stay
        else let (patch, curDEC) = (if ts_dbchar s then char_before b cur else (0, 0)); k = cur - curDEC
             in edited y x (cut_out b (k - 1) (k + patch)) (k - 1) (clen - 1 - patch) True s
      else if ch = KEY_DEL then
        if clen \<le> cur then Some (Val (s, b, clen, clen))
        else edited y x (cut_out b cur (cur + 1)) cur (clen - 1) True s
      else if ch = KEY_LEFT then if cur = 0 then stay else goto (cur - 1)
      else if ch = Ctrl (CHR ''E'') \<or> ch = KEY_END then goto clen
      else if ch = Ctrl (CHR ''A'') \<or> ch = KEY_HOME then goto 0
      else if ch = KEY_RIGHT then if clen \<le> cur then Some (Val (s, b, clen, clen)) else goto (cur + 1)
      else if \<not> isprint2_key ch then stay
      else if scr_cols (ts_scr s) mod 256 \<le> x + clen \<or> len \<le> clen + 1 then stay
      else edited y x (insert_at len b cur (to_uchar ch)) (cur + 1) (clen + 1) False s)"

partial_function (option) edit_loop ::
  "(tstate \<Rightarrow> (tstate \<times> int) option) \<Rightarrow> nat \<Rightarrow> nat \<Rightarrow> nat \<Rightarrow> tstate \<Rightarrow> string \<Rightarrow> nat \<Rightarrow> nat
     \<Rightarrow> (tstate \<times> string \<times> nat) run option" where
  "edit_loop key len line col s b cur clen = do {
     let talking = ui_in_chat (ts_uinfo s) = 1 \<or> ui_mode (ts_uinfo s) = TALK \<or> ui_mode (ts_uinfo s) = FIVE;
     (s, ch) \<leftarrow> key (if talking \<and> ts_RMSG s then s\<lparr>ts_scr := refresh (inbuf_empty s) (ts_scr s)\<rparr> else s);
     case reply_key s ch of
       Some c \<Rightarrow> Some (Val (s, c # tl b, 1))
     | None \<Rightarrow>
         if ch = 10 \<or> ch = 13 then Some (Val (s, b, clen))
         else do {
           r \<leftarrow> edit_key len line col ch s b cur clen;
           case r of UB \<Rightarrow> Some UB
           | Val q \<Rightarrow> edit_loop key len line col (fst q) (fst (snd q)) (fst (snd (snd q))) (snd (snd (snd q))) } }"

definition getdata ::
  "(tstate \<Rightarrow> (tstate \<times> int) option) \<Rightarrow> nat \<Rightarrow> nat \<Rightarrow> string option \<Rightarrow> string \<Rightarrow> nat \<Rightarrow> bool \<Rightarrow> bool \<Rightarrow> tstate
     \<Rightarrow> (tstate \<times> string \<times> nat) run option" where
  \<comment> \<open>the string in \<^verbatim>\<open>buf[len]\<close> before and after, and the length returned\<close>
  "getdata key line col prompt buf len echo clearlabel s = do {
     let buf = (if clearlabel then [] else buf);
     s \<leftarrow> on_scr (\<lambda>scr. (case prompt of None \<Rightarrow> Some | Some p \<Rightarrow> prints ''%s'' [Pstr (Some p)]) (move line col scr)) s;
     let x = col + (case prompt of None \<Rightarrow> 0 | Some p \<Rightarrow> length p);
     let buf = take (len - 1) buf;
     s \<leftarrow> on_scr (prints ''%s'' [Pstr (Some buf)]) s;
     if dumb_term (ts_scr s) \<or> \<not> echo then do {
       (s, b) \<leftarrow> plain_loop key len echo buf s;
       s \<leftarrow> on_scr (\<lambda>scr. do { (scr, _) \<leftarrow> outc LF scr; Some (emit [treq.Oflush] scr) }) s;
       Some (Val (s, b, length b)) }
     else do {
       s \<leftarrow> on_scr clrtoeol s;
       r \<leftarrow> edit_loop key len line x s buf (length buf) (length buf);
       case r of
         UB \<Rightarrow> Some UB
       | Val q \<Rightarrow> do {
           let b = take (snd (snd q)) (fst (snd q));
           s \<leftarrow> on_scr (\<lambda>scr. if echo then prints ''%s'' [Pstr (Some b)] (move line x scr) else Some scr) (fst q);
           s \<leftarrow> on_scr (\<lambda>scr. do { (scr, _) \<leftarrow> outc LF scr; Some scr }) s;
           Some (Val (s\<lparr>ts_scr := refresh (inbuf_empty s) (ts_scr s)\<rparr>, b, snd (snd q))) } } }"


declare key_loop.simps [code] reply_loop.simps [code] plain_loop.simps [code] edit_loop.simps [code]

section \<open>Keys do not depend on packets\<close>

fun ev_data :: "event \<Rightarrow> string" where
  "ev_data (Data t r d) = d"
| "ev_data _ = []"

definition feeds :: "tstate \<Rightarrow> bool" where
  \<comment> \<open>only data arrives\<close>
  "feeds s \<longleftrightarrow> list_all (\<lambda>e. ev_data e \<noteq> []) (ts_events s)"

definition typed :: "tstate \<Rightarrow> string" where
  \<comment> \<open>the bytes still to come\<close>
  "typed s = drop (ts_incur s) (ts_inbuf s) @ concat (map ev_data (ts_events s))"

definition same_input :: "tstate \<Rightarrow> tstate \<Rightarrow> bool" where
  "same_input s s' \<longleftrightarrow> feeds s \<and> feeds s' \<and> typed s = typed s' \<and> ts_cr s = ts_cr s'
     \<and> ts_esc_arg s = ts_esc_arg s' \<and> ts_convcode s = ts_convcode s' \<and> ts_b2g s = ts_b2g s'"

lemma ev_data_Data: "ev_data e \<noteq> [] \<Longrightarrow> \<exists>t r. e = Data t r (ev_data e)"
  by (cases e) auto

lemma before_wait_input [simp]:
  "ts_events (before_wait f s) = ts_events s" "ts_inbuf (before_wait f s) = ts_inbuf s"
  "ts_incur (before_wait f s) = ts_incur s" "ts_cr (before_wait f s) = ts_cr s"
  "ts_esc_arg (before_wait f s) = ts_esc_arg s" "ts_convcode (before_wait f s) = ts_convcode s"
  "ts_b2g (before_wait f s) = ts_b2g s"
  by (simp_all add: before_wait_def Let_def)

lemma get_raw_ch_typed:
  assumes "feeds s"
  shows "case typed s of [] \<Rightarrow> get_raw_ch f s = None
    | b # bs \<Rightarrow> \<exists>s'. get_raw_ch f s = Some (s', int (byte b)) \<and> feeds s' \<and> typed s' = bs \<and> ts_cr s' = ts_cr s
        \<and> ts_esc_arg s' = ts_esc_arg s \<and> ts_convcode s' = ts_convcode s \<and> ts_b2g s' = ts_b2g s"
proof (cases "ts_incur s < length (ts_inbuf s)")
  case True
  then have "typed s = ts_inbuf s ! ts_incur s # typed (s\<lparr>ts_incur := ts_incur s + 1\<rparr>)"
    by (simp add: typed_def Cons_nth_drop_Suc [symmetric])
  with True assms show ?thesis by (simp add: get_raw_ch_def feeds_def)
next
  case False
  show ?thesis
  proof (cases "ts_events s")
    case Nil
    with False show ?thesis by (simp add: get_raw_ch_def typed_def)
  next
    case (Cons e es)
    have ne: "ev_data e \<noteq> []" using Cons assms by (simp add: feeds_def)
    obtain t r b d where "e = Data t r (b # d)"
      using ne by (cases e; cases "ev_data e") auto
    with False Cons assms show ?thesis
      by (simp add: get_raw_ch_def typed_def feeds_def Let_def)
  qed
qed

lemma get_raw_ch_same:
  assumes "get_raw_ch f s1 = Some (s1', ch)" "same_input s1 s2"
  shows "\<exists>s2'. get_raw_ch f s2 = Some (s2', ch) \<and> same_input s1' s2' \<and> 0 \<le> ch"
proof -
  have fs: "feeds s1" "feeds s2" "typed s2 = typed s1" using assms(2) by (auto simp: same_input_def)
  show ?thesis
  proof (cases "typed s1")
    case Nil
    with get_raw_ch_typed [OF fs(1), of f] assms(1) show ?thesis by simp
  next
    case (Cons b bs)
    with fs get_raw_ch_typed [OF fs(1), of f] get_raw_ch_typed [OF fs(2), of f] assms show ?thesis
      by (fastforce simp: same_input_def)
  qed
qed

lemma iac_handler_same:
  assumes "iac_handler f status s1 = Some r" "same_input s1 s2"
  shows "\<exists>s2'. iac_handler f status s2 = Some (s2', snd r) \<and> same_input (fst r) s2'"
proof -
  define P where "P = (\<lambda>f status s1 r. \<forall>s2. same_input s1 s2 \<longrightarrow>
    (\<exists>s2'. iac_handler f status s2 = Some (s2', snd r) \<and> same_input (fst r) s2'))"
  have "P f status s1 r"
  proof (rule iac_handler.raw_induct [OF _ assms(1), of P])
    fix h f status s1 r
    assume ih: "\<And>f status s1 r. h f status s1 = Some r \<Longrightarrow> P f status s1 r"
      and run: "(do {
        (s, ch) \<leftarrow> get_raw_ch f s1;
        if ch < 0 then Some (s, ch)
        else case status of
          TELST_IAC \<Rightarrow> h f (if ch = SB then TELST_SUB else TELST_COM) s
        | TELST_COM \<Rightarrow> Some (s, 0)
        | TELST_SUB \<Rightarrow> if ch = SE then Some (s, 0) else h f TELST_SUB s }) = Some r"
    show "P f status s1 r" unfolding P_def
    proof (intro allI impI)
      fix s2
      assume same: "same_input s1 s2"
      from run obtain s ch where g: "get_raw_ch f s1 = Some (s, ch)" by (auto simp: bind_eq_Some_conv)
      from get_raw_ch_same [OF g same] obtain s2' where g2: "get_raw_ch f s2 = Some (s2', ch)"
        "same_input s s2'" "\<not> ch < 0" by auto
      show "\<exists>s2'. iac_handler f status s2 = Some (s2', snd r) \<and> same_input (fst r) s2'"
        using run g g2 ih by (subst iac_handler.simps) (cases status; fastforce simp: P_def)
    qed
  qed
  with assms(2) show ?thesis by (simp add: P_def)
qed

lemma same_input_esc_arg: "same_input s s' \<Longrightarrow> same_input (s\<lparr>ts_esc_arg := c\<rparr>) (s'\<lparr>ts_esc_arg := c\<rparr>)"
  by (simp add: same_input_def feeds_def typed_def)

lemma esc_handler_same:
  assumes "esc_handler f status lst s1 = Some r" "same_input s1 s2"
  shows "\<exists>s2'. esc_handler f status lst s2 = Some (s2', snd r) \<and> same_input (fst r) s2'"
proof -
  define P where "P = (\<lambda>f status lst s1 r. \<forall>s2. same_input s1 s2 \<longrightarrow>
    (\<exists>s2'. esc_handler f status lst s2 = Some (s2', snd r) \<and> same_input (fst r) s2'))"
  have "P f status lst s1 r"
  proof (rule esc_handler.raw_induct [OF _ assms(1), of P])
    fix h f status lst s1 r
    assume ih: "\<And>f status lst s1 r. h f status lst s1 = Some r \<Longrightarrow> P f status lst s1 r"
      and run: "(do {
        (s, ch) \<leftarrow> get_raw_ch f s1;
        if ch < 0 then Some (s, ch)
        else case status of
          ESCST_BEG \<Rightarrow>
            if ch = int (byte CHR ''['') \<or> ch = int (byte CHR ''O'') then h f ESCST_CUR ch s
            else if ch = int (byte CHR ''1'') \<or> ch = int (byte CHR ''4'') then h f ESCST_FUN ch s
            else Some (s\<lparr>ts_esc_arg := ch\<rparr>, KEY_ESC)
        | ESCST_CUR \<Rightarrow>
            if int (byte CHR ''A'') \<le> ch \<and> ch \<le> int (byte CHR ''D'') then Some (s, KEY_UP + ch - int (byte CHR ''A''))
            else if int (byte CHR ''1'') \<le> ch \<and> ch \<le> int (byte CHR ''6'') then h f ESCST_FUN ch s
            else h f ESCST_ERR ch s
        | ESCST_FUN \<Rightarrow>
            if ch = int (byte CHR ''~'') \<and> int (byte CHR ''1'') \<le> lst \<and> lst \<le> int (byte CHR ''6'')
            then Some (s, KEY_HOME + lst - int (byte CHR ''1''))
            else h f ESCST_ERR ch s
        | ESCST_ERR \<Rightarrow> Some (s, ch) }) = Some r"
    show "P f status lst s1 r" unfolding P_def
    proof (intro allI impI)
      fix s2
      assume same: "same_input s1 s2"
      from run obtain s ch where g: "get_raw_ch f s1 = Some (s, ch)" by (auto simp: bind_eq_Some_conv)
      from get_raw_ch_same [OF g same] obtain s2' where g2: "get_raw_ch f s2 = Some (s2', ch)"
        "same_input s s2'" "\<not> ch < 0" by auto
      note step = g2(2) same_input_esc_arg [OF g2(2)]
      have rec: "h f st l s = Some r \<Longrightarrow> \<exists>s3. esc_handler f st l s2' = Some (s3, snd r) \<and> same_input (fst r) s3"
        for st l using ih g2(2) by (simp add: P_def)
      show "\<exists>s2'. esc_handler f status lst s2 = Some (s2', snd r) \<and> same_input (fst r) s2'"
        using run g g2(1,3) step rec by (subst esc_handler.simps) (cases status; force split: if_splits)
    qed
  qed
  with assms(2) show ?thesis by (simp add: P_def)
qed

lemma same_input_fields:
  "same_input s s' \<Longrightarrow> same_input (s\<lparr>ts_cr := b\<rparr>) (s'\<lparr>ts_cr := b\<rparr>)"
  "same_input s s' \<Longrightarrow> same_input (s\<lparr>ts_scr := scr\<rparr>) (s'\<lparr>ts_scr := scr'\<rparr>)"
  "same_input s s' \<Longrightarrow> same_input (s\<lparr>ts_cr := b, ts_b2g := cv\<rparr>) (s'\<lparr>ts_cr := b, ts_b2g := cv\<rparr>)"
  by (simp_all add: same_input_def feeds_def typed_def)

lemma same_inputD: "same_input s s' \<Longrightarrow> ts_cr s' = ts_cr s \<and> ts_convcode s' = ts_convcode s \<and> ts_b2g s' = ts_b2g s"
  by (simp add: same_input_def)

lemma igetch_same:
  assumes "igetch f tab s1 = Some r" "same_input s1 s2"
  shows "\<exists>s2'. igetch f tab s2 = Some (s2', snd r) \<and> same_input (fst r) s2'"
proof -
  define P where "P = (\<lambda>f tab s1 r. \<forall>s2. same_input s1 s2 \<longrightarrow>
    (\<exists>s2'. igetch f tab s2 = Some (s2', snd r) \<and> same_input (fst r) s2'))"
  have "P f tab s1 r"
  proof (rule igetch.raw_induct [OF _ assms(1), of P])
    fix h f tab s1 r
    assume ih: "\<And>f tab s1 r. h f tab s1 = Some r \<Longrightarrow> P f tab s1 r"
      and run: "(do {
        (s, ch) \<leftarrow> get_raw_ch f s1;
        if ch = IAC then do { (s, _) \<leftarrow> iac_handler f TELST_IAC s; h f tab s }
        else if ch = KEY_ESC then esc_handler f ESCST_BEG 0 s
        else if ch = Ctrl (CHR ''L'') then h f tab (s\<lparr>ts_scr := redoscr (ts_scr s)\<rparr>)
        else if ch = 13 then Some (s\<lparr>ts_cr := True\<rparr>, 10)
        else if ch = 10 then if ts_cr s then h f tab (s\<lparr>ts_cr := False\<rparr>) else Some (s, 10)
        else if ch = 0 then h f tab (s\<lparr>ts_cr := False\<rparr>)
        else if ts_convcode s then do {
          (cv, ch) \<leftarrow> convert_b2g tab ch (ts_b2g s);
          Some (s\<lparr>ts_cr := False, ts_b2g := cv\<rparr>, ch) }
        else Some (s\<lparr>ts_cr := False\<rparr>, ch) }) = Some r"
    show "P f tab s1 r" unfolding P_def
    proof (intro allI impI)
      fix s2
      assume same: "same_input s1 s2"
      from run obtain s ch where g: "get_raw_ch f s1 = Some (s, ch)" by (auto simp: bind_eq_Some_conv)
      from get_raw_ch_same [OF g same] obtain s' where g2: "get_raw_ch f s2 = Some (s', ch)"
        "same_input s s'" "0 \<le> ch" by auto
      note eqs = same_inputD [OF g2(2)]
      have rec: "h f tab a = Some r \<Longrightarrow> same_input a b \<Longrightarrow> \<exists>s3. igetch f tab b = Some (s3, snd r) \<and> same_input (fst r) s3"
        for a b using ih by (simp add: P_def)
      show "\<exists>s2'. igetch f tab s2 = Some (s2', snd r) \<and> same_input (fst r) s2'"
      proof (cases "ch = IAC")
        case True
        with run g obtain s3 k where "iac_handler f TELST_IAC s = Some (s3, k)" "h f tab s3 = Some r"
          by (auto simp: bind_eq_Some_conv)
        with iac_handler_same [OF _ g2(2), of f TELST_IAC "(s3, k)"] rec [of s3] g2(1) True show ?thesis
          by (subst igetch.simps) auto
      next
        case False
        note ne = this
        show ?thesis
        proof (cases "ch = KEY_ESC")
          case True
          with run g ne have "esc_handler f ESCST_BEG 0 s = Some r" by simp
          with esc_handler_same [OF this g2(2)] g2(1) True ne show ?thesis by (subst igetch.simps) simp
        next
          case False
          with run g ne g2(1) eqs same_input_fields [OF g2(2)] g2(2) rec show ?thesis
            by (subst igetch.simps) (force simp: bind_eq_Some_conv split: if_splits)
        qed
      qed
    qed
  qed
  with assms(2) show ?thesis by (simp add: P_def)
qed

fun keys :: "(screen \<Rightarrow> screen) \<Rightarrow> nat list \<Rightarrow> nat \<Rightarrow> tstate \<Rightarrow> (tstate \<times> int list) option" where
  \<comment> \<open>the next \<open>n\<close> results of \<open>igetch\<close>\<close>
  "keys flushf tab 0 s = Some (s, [])"
| "keys flushf tab (Suc n) s = do {
     (s, ch) \<leftarrow> igetch flushf tab s;
     (s, chs) \<leftarrow> keys flushf tab n s;
     Some (s, ch # chs) }"

lemma keys_same:
  assumes "keys f tab n s1 = Some (s1', chs)" "same_input s1 s2"
  shows "\<exists>s2'. keys f tab n s2 = Some (s2', chs) \<and> same_input s1' s2'"
  using assms
proof (induction n arbitrary: s1 s2 chs)
  case (Suc n)
  then obtain s ch cs where r: "igetch f tab s1 = Some (s, ch)" "keys f tab n s = Some (s1', cs)" "chs = ch # cs"
    by (auto simp: bind_eq_Some_conv)
  from igetch_same [OF r(1) Suc.prems(2)] obtain s' where "igetch f tab s2 = Some (s', ch)" "same_input s s'" by auto
  with Suc.IH [OF r(2), of s'] r(3) show ?case by auto
qed simp

lemma same_input_sym: "same_input s s' \<Longrightarrow> same_input s' s"
  by (auto simp: same_input_def)


section \<open>The line stays in its buffer\<close>

lemma plain_loop_bounded:
  assumes "plain_loop key len echo b s = Some r" "length b < len" "2 \<le> len"
  shows "length (snd r) < len"
proof -
  define P where "P = (\<lambda>(key :: tstate \<Rightarrow> (tstate \<times> int) option) len (echo :: bool) (b :: string) (s :: tstate) r.
    length b < len \<longrightarrow> 2 \<le> len \<longrightarrow> length (snd (r :: tstate \<times> string)) < len)"
  have "P key len echo b s r"
  proof (rule plain_loop.raw_induct [OF _ assms(1), of P])
    fix h key len echo b s r
    assume ih: "\<And>key len echo b s r. h key len echo b s = Some r \<Longrightarrow> P key len echo b s r"
      and run: "(do {
        (s, ch) \<leftarrow> key s;
        if ch = 10 then Some (s, b)
        else case reply_key s ch of
          Some c \<Rightarrow> Some (s, [c])
        | None \<Rightarrow>
            if ch = 127 \<or> ch = 8 then
              if b = [] then h key len echo b s
              else h key len echo (butlast b)
                     (s\<lparr>ts_scr := emit [treq.Ochar (CHR 0x08), treq.Ochar SPC, treq.Ochar (CHR 0x08)] (ts_scr s)\<rparr>)
            else if \<not> isprint2_key ch \<or> len \<le> length b + 1 then h key len echo b s
            else h key len echo (b @ [to_uchar ch])
                   (s\<lparr>ts_scr := emit [treq.Ochar (if echo then to_uchar ch else CHR ''*'')] (ts_scr s)\<rparr>) }) = Some r"
    show "P key len echo b s r" unfolding P_def
    proof (intro impI)
      assume len: "length b < len" "2 \<le> len"
      have rec: "h key len echo b' s' = Some r \<Longrightarrow> length b' < len \<Longrightarrow> length (snd r) < len" for b' s'
        using ih len by (simp add: P_def)
      from run obtain s' ch where k: "key s = Some (s', ch)" by (auto simp: bind_eq_Some_conv)
      show "length (snd r) < len"
        using run len rec [of b] rec [of "butlast b"] rec [of "b @ [to_uchar ch]"]
        by (auto simp: k split: if_splits option.splits)
    qed
  qed
  with assms(2,3) show ?thesis by (simp add: P_def)
qed

definition edit_ok :: "nat \<Rightarrow> string \<Rightarrow> nat \<Rightarrow> nat \<Rightarrow> bool" where
  \<comment> \<open>\<^verbatim>\<open>clen\<close> is the length of the line, which fits in the buffer, and the cursor is in it\<close>
  "edit_ok len b cur clen \<longleftrightarrow> length b = clen \<and> clen < len \<and> cur \<le> clen"

lemma cut_out_ok:
  assumes "j \<le> length b" "length b < 80"
  shows "cut_out b i j = Val (take i b @ drop j b)"
  using assms by (simp add: cut_out_def)

lemma insert_at_ok:
  assumes "len \<le> 80" "length b < len" "cur \<le> length b"
  shows "\<exists>b'. insert_at len b cur c = Val b' \<and> length b' = length b + 1"
  using assms by (auto simp: insert_at_def)

lemma char_before_range:
  assumes "char_before b cur = (patch, cd)" "0 < cur" "cur \<le> length b"
  shows "cd \<le> patch" "cd < cur" "patch \<le> 1" "cur - cd + patch \<le> length b"
proof -
  let ?p = "length (takeWhile hibit (rev (take (cur - 1) b)))"
  have p: "?p \<le> cur - 1" using length_takeWhile_le [of hibit "rev (take (cur - 1) b)"] by simp
  show "cd \<le> patch" "patch \<le> 1" "cd < cur" "cur - cd + patch \<le> length b"
    using assms p by (auto simp: char_before_def Let_def split: if_splits elim: oddE)
qed

lemma edited_result:
  assumes "edited y x (Val b) cur clen w s = Some r"
  shows "\<exists>s'. r = Val (s', b, cur, clen)"
  using assms by (auto simp: edited_def bind_eq_Some_conv)

lemma edit_key_ok:
  assumes "edit_key len y x ch s b cur clen = Some r" "edit_ok len b cur clen" "len \<le> 80"
  shows "\<exists>s' b' cur' clen'. r = Val (s', b', cur', clen') \<and> edit_ok len b' cur' clen'"
proof -
  note ok = assms(2) [unfolded edit_ok_def]
  show ?thesis
  proof (cases "(ch = 127 \<or> ch = 8) \<and> ch \<noteq> Ctrl (CHR ''R'') \<and> cur \<noteq> 0")
    case True
    obtain patch cd where pd: "(if ts_dbchar s then char_before b cur else (0, 0)) = (patch, cd)" by fastforce
    have rng: "cd \<le> patch \<and> cd < cur \<and> patch \<le> 1 \<and> cur - cd + patch \<le> length b"
      using pd ok True char_before_range [of b cur patch cd] by (auto split: if_splits)
    let ?b = "take (cur - cd - 1) b @ drop (cur - cd + patch) b"
    have "cut_out b (cur - cd - 1) (cur - cd + patch) = Val ?b" using rng ok assms(3) by (intro cut_out_ok) auto
    with assms(1) True pd have "edited y x (Val ?b) (cur - cd - 1) (clen - 1 - patch) True s = Some r"
      by (auto simp: edit_key_def Let_def)
    from edited_result [OF this] rng ok show ?thesis by (auto simp: edit_ok_def)
  next
    case False
    obtain b' where ins: "insert_at len b cur (to_uchar ch) = Val b'" "length b' = length b + 1"
      using insert_at_ok [of len b cur "to_uchar ch"] ok assms(3) by auto
    have within: "length b \<noteq> cur \<Longrightarrow> Suc cur \<le> length b" using ok by simp
    have del: "cut_out b cur (Suc cur) = Val (take cur b @ drop (Suc cur) b)" if "length b \<noteq> cur"
      using ok assms(3) within [OF that] by (intro cut_out_ok) auto
    from False assms(1) ok show ?thesis
      by (auto simp: edit_key_def Let_def edit_ok_def ins del within split: if_splits dest!: edited_result)
  qed
qed

lemma edit_loop_bounded:
  assumes "edit_loop key len y x s b cur clen = Some r" "edit_ok len b cur clen" "2 \<le> len" "len \<le> 80"
  shows "\<exists>s' b' n. r = Val (s', b', n) \<and> n < len \<and> n \<le> length b'"
proof -
  define P where "P = (\<lambda>(key :: tstate \<Rightarrow> (tstate \<times> int) option) len (y :: nat) (x :: nat) (s :: tstate) b cur clen (r :: (tstate \<times> string \<times> nat) run).
    edit_ok len b cur clen \<longrightarrow> 2 \<le> len \<longrightarrow> len \<le> 80 \<longrightarrow>
    (\<exists>s' b' n. r = Val (s' :: tstate, b' :: string, n) \<and> n < len \<and> n \<le> length b'))"
  have "P key len y x s b cur clen r"
  proof (rule edit_loop.raw_induct [OF _ assms(1), of P])
    fix h key len y x s b cur clen r
    assume ih: "\<And>key len y x s b cur clen r. h key len y x s b cur clen = Some r \<Longrightarrow> P key len y x s b cur clen r"
      and run: "(do {
        let talking = ui_in_chat (ts_uinfo s) = 1 \<or> ui_mode (ts_uinfo s) = TALK \<or> ui_mode (ts_uinfo s) = FIVE;
        (s, ch) \<leftarrow> key (if talking \<and> ts_RMSG s then s\<lparr>ts_scr := refresh (inbuf_empty s) (ts_scr s)\<rparr> else s);
        case reply_key s ch of
          Some c \<Rightarrow> Some (Val (s, c # tl b, 1))
        | None \<Rightarrow>
            if ch = 10 \<or> ch = 13 then Some (Val (s, b, clen))
            else do {
              r \<leftarrow> edit_key len y x ch s b cur clen;
              case r of UB \<Rightarrow> Some UB
              | Val q \<Rightarrow> h key len y x (fst q) (fst (snd q)) (fst (snd (snd q))) (snd (snd (snd q))) } }) = Some r"
    show "P key len y x s b cur clen r" unfolding P_def
    proof (intro impI)
      assume ok: "edit_ok len b cur clen" and len: "2 \<le> len" "len \<le> 80"
      let ?s = "if (ui_in_chat (ts_uinfo s) = 1 \<or> ui_mode (ts_uinfo s) = TALK \<or> ui_mode (ts_uinfo s) = FIVE) \<and> ts_RMSG s
        then s\<lparr>ts_scr := refresh (inbuf_empty s) (ts_scr s)\<rparr> else s"
      from run obtain s1 ch where k: "key ?s = Some (s1, ch)" by (auto simp: Let_def bind_eq_Some_conv)
      show "\<exists>s' b' n. r = Val (s', b', n) \<and> n < len \<and> n \<le> length b'"
      proof (cases "reply_key s1 ch = None \<and> \<not> (ch = 10 \<or> ch = 13)")
        case False
        with run k ok len show ?thesis by (cases "reply_key s1 ch") (auto simp: Let_def edit_ok_def)
      next
        case True
        with run k obtain q where q: "edit_key len y x ch s1 b cur clen = Some q"
          "(case q of UB \<Rightarrow> Some UB
            | Val q \<Rightarrow> h key len y x (fst q) (fst (snd q)) (fst (snd (snd q))) (snd (snd (snd q)))) = Some r"
          by (auto simp: Let_def bind_eq_Some_conv)
        from edit_key_ok [OF q(1) ok len(2)] q(2) ih len show ?thesis by (auto simp: P_def)
      qed
    qed
  qed
  with assms(2-) show ?thesis by (simp add: P_def)
qed


section \<open>Properties\<close>

text \<open>C36: the keys read do not depend on how the bytes were cut into packets, on how long each took or
  on what was on the screen: two terminals to which the same bytes arrive read the same keys, and
  both or neither run out of input.\<close>
theorem keys_independent:
  assumes "same_input s s'"
  shows "map_option snd (keys flushf tab n s) = map_option snd (keys flushf tab n s')"
proof -
  have "keys flushf tab n a = Some (a', chs) \<Longrightarrow> same_input a b \<Longrightarrow>
    map_option snd (keys flushf tab n a) = map_option snd (keys flushf tab n b)" for a b a' chs
    using keys_same [of flushf tab n a a' chs b] by auto
  from this [OF _ assms] this [OF _ same_input_sym [OF assms]] show ?thesis
    by (cases "keys flushf tab n s"; cases "keys flushf tab n s'") auto
qed

definition demo_term :: tstate where
  "demo_term = \<lparr>ts_scr = demo_screen\<lparr>dumb_term := True\<rparr>, ts_inbuf = [], ts_incur = 0, ts_events = [], ts_idle = False,
     ts_cr = False, ts_esc_arg = 0, ts_uinfo = no_info, ts_utmpent = 0,
     ts_utmp = \<lparr>ut_uinfo = [], ut_usersum = 0, ut_max_login_num = 0, ut_total_num = 0\<rparr>,
     ts_convcode = False, ts_b2g = \<lparr>cv_status = CONVERT_BEG, cv_got = 0, cv_second = 0\<rparr>,
     ts_RMSG = False, ts_msg_num = 0, ts_dbchar = True\<rparr>"

theorem keys_independent_witness:
  "map_option snd (keys (\<lambda>s. s) [] 2 (demo_term\<lparr>ts_events := [Data 5 True [ESC, CHR ''['', CHR ''3'', CHR ''~'', CHR ''x'']]\<rparr>))
   = map_option snd (keys (\<lambda>s. s) [] 2
       (demo_term\<lparr>ts_events := [Data 5 True [ESC, CHR ''['', CHR ''3''], Data 6 False [CHR ''~''], Data 9 True ''x'']\<rparr>))"
  by (rule keys_independent) (simp add: same_input_def feeds_def typed_def demo_term_def)

text \<open>C37: for a buffer of 2 to 80 bytes, whatever is typed, no byte is written outside the buffer or
  the temporary copy of the line, and the string left in the buffer has the length returned, so
  that it fits with its terminator.\<close>
theorem getdata_bounded:
  assumes "2 \<le> len" "len \<le> 80"
    and "getdata (igetkey flushf tab msg_reply) line col prompt buf len echo clearlabel s = Some r"
  shows "\<exists>s' b. r = Val (s', b, length b) \<and> length b < len"
proof -
  let ?key = "igetkey flushf tab msg_reply"
  define tb where "tb = take (len - 1) (if clearlabel then [] else buf)"
  have start: "edit_ok len tb (length tb) (length tb)" "length tb < len" using assms(1) by (auto simp: edit_ok_def tb_def)
  have plain: "length b < len" if "plain_loop ?key len echo tb s = Some (s', b)" for s s' b
    using plain_loop_bounded [OF that start(2) assms(1)] by simp
  have edit: "\<exists>s' b n. q = Val (s', b, n) \<and> n < len \<and> n \<le> length b"
    if "edit_loop ?key len line x s tb (length tb) (length tb) = Some q" for x s q
    using edit_loop_bounded [OF that start(1) assms(1,2)] .
  from assms(3) [unfolded getdata_def Let_def, folded tb_def] show ?thesis
    by (fastforce simp: bind_eq_Some_conv dest!: plain edit split: if_splits)
qed

theorem getdata_bounded_witness:
  "\<exists>r s' b. getdata (igetkey (\<lambda>s. s) [] (\<lambda>_ s. s)) 3 0 None [] 3 True True
      (demo_term\<lparr>ts_events := [Data 5 True ''abc'', Data 6 False [LF]]\<rparr>) = Some r
     \<and> r = Val (s', b, length b) \<and> length b < 3"
proof -
  let ?g = "getdata (igetkey (\<lambda>s. s) [] (\<lambda>_ s. s)) 3 0 None [] 3 True True
      (demo_term\<lparr>ts_events := [Data 5 True ''abc'', Data 6 False [LF]]\<rparr>)"
  have "?g \<noteq> None" by code_simp
  then obtain r where r: "?g = Some r" by auto
  with getdata_bounded [OF _ _ r] show ?thesis by auto
qed

end
