(* ===== verification/Records.thy ===== *)
theory Records
  imports FileIO
begin

text \<open>
  Files of fixed-size records, \<^verbatim>\<open>lib/record.c\<close>: the boards, the articles of a board, mailboxes, name
  lists, votes. A record is its bytes; the callback functions of the callers are arguments (a search
  criterion applied to its argument is a predicate on records). The result of a call is \<open>None\<close> when
  it does not return and \<open>Some UB\<close> when it goes outside the file. Records are numbered from 1. The
  handler that \<open>delete_record\<close> installs for a file cut by another process is not reached here.
\<close>

definition bindr :: "'a run option \<Rightarrow> ('a \<Rightarrow> 'b run option) \<Rightarrow> 'b run option" where
  "bindr r f = (case r of None \<Rightarrow> None | Some UB \<Rightarrow> Some UB | Some (Val x) \<Rightarrow> f x)"

abbreviation ok :: "'a option \<Rightarrow> 'a run option" where
  "ok \<equiv> map_option Val"

definition fresh_map :: "int \<Rightarrow> mmap_t" where
  \<comment> \<open>the struct of a function after \<^verbatim>\<open>m.oflag = ...\<close>\<close>
  "fresh_map oflag = \<lparr>mm_fd = None, mm_oflag = oflag, mm_lock = LOCK_UN, mm_prot = 0, mm_mapped = False, mm_msize = 0, mm_size = 0\<rparr>"

section \<open>Reading and appending\<close>

definition get_num_records :: "bool \<Rightarrow> string \<Rightarrow> nat \<Rightarrow> world \<Rightarrow> nat" where
  "get_num_records stat_ok file sz w =
     (case w_files w file of None \<Rightarrow> 0 | Some data \<Rightarrow> if stat_ok then length data div sz else 0)"

definition old_data :: "world \<Rightarrow> string \<Rightarrow> string" where
  "old_data w file = (case w_files w file of None \<Rightarrow> [] | Some data \<Rightarrow> data)"

definition append_record :: "os \<Rightarrow> int \<Rightarrow> string \<Rightarrow> string \<Rightarrow> nat \<Rightarrow> world \<Rightarrow> (world \<times> int) option" where
  "append_record os pid file rcd sz w =
     (if \<not> os_open os then Some (w, -1)
      else do {
        let w = w\<lparr>w_files := (w_files w)(file \<mapsto> old_data w file)\<rparr>;
        (w, _) \<leftarrow> fb_flock os pid file LOCK_EX w;
        (out, ret) \<leftarrow> safer_write (os_writes os) (take sz rcd) [];
        let w = w\<lparr>w_files := (w_files w)(file \<mapsto> old_data w file @ out)\<rparr>;
        (w, _) \<leftarrow> fb_flock os pid file LOCK_UN w;
        Some (close_fd pid file w, ret) })"

definition read_at :: "bool \<Rightarrow> string \<Rightarrow> nat \<Rightarrow> nat \<Rightarrow> string option" where
  \<comment> \<open>\<^verbatim>\<open>lseek\<close> and \<^verbatim>\<open>read\<close>: whether \<^verbatim>\<open>read\<close> succeeds\<close>
  "read_at read_ok data off n = (if read_ok then Some (take n (drop off data)) else None)"

definition get_record_handle :: "os \<Rightarrow> bool \<Rightarrow> string \<Rightarrow> string \<Rightarrow> nat \<Rightarrow> int \<Rightarrow> string \<times> int" where
  \<comment> \<open>the file's bytes and those at \<^verbatim>\<open>rptr\<close>, which also a short read overwrites\<close>
  "get_record_handle os read_ok data rptr sz num =
     (if \<not> os_seek os \<or> int sz * (num - 1) < 0 then (rptr, -1)
      else case read_at read_ok data (nat (int sz * (num - 1))) sz of
        None \<Rightarrow> (rptr, -1)
      | Some got \<Rightarrow> (got @ drop (length got) rptr, if length got \<noteq> sz then -1 else 0))"

definition get_record :: "os \<Rightarrow> bool \<Rightarrow> string \<Rightarrow> string \<Rightarrow> nat \<Rightarrow> int \<Rightarrow> world \<Rightarrow> string \<times> int" where
  "get_record os read_ok filename rptr sz num w =
     (case w_files w filename of
        None \<Rightarrow> (rptr, -1)
      | Some data \<Rightarrow> if os_open os then get_record_handle os read_ok data rptr sz num else (rptr, -1))"

definition get_records :: "os \<Rightarrow> bool \<Rightarrow> string \<Rightarrow> string \<Rightarrow> nat \<Rightarrow> int \<Rightarrow> nat \<Rightarrow> world \<Rightarrow> string \<times> int" where
  "get_records os read_ok filename rptr sz num number w =
     (case w_files w filename of
        None \<Rightarrow> (rptr, -1)
      | Some data \<Rightarrow>
          if \<not> os_open os then (rptr, -1)
          else if \<not> os_seek os \<or> int sz * (num - 1) < 0 then (rptr, 0)
          else case read_at read_ok data (nat (int sz * (num - 1))) (sz * number) of
            None \<Rightarrow> (rptr, -1)
          | Some got \<Rightarrow> (got @ drop (length got) rptr, int (length got div sz)))"

section \<open>Applying a function and searching\<close>

fun apply_loop :: "(string \<Rightarrow> nat \<Rightarrow> 's \<Rightarrow> 's \<times> int) \<Rightarrow> world \<Rightarrow> mmap_t \<Rightarrow> nat \<Rightarrow> bool \<Rightarrow> nat \<Rightarrow> nat \<Rightarrow> int \<Rightarrow> 's \<Rightarrow> 's run" where
  \<comment> \<open>the number of records, how many are left, the offset of the next one\<close>
  "apply_loop func w m sz reverse count 0 ptr s = Val s"
| "apply_loop func w m sz reverse count (Suc k) ptr s =
     run_bind (mread w m ptr sz) (\<lambda>buf.
       case func buf (if reverse then Suc k else count - k) s of (s, r) \<Rightarrow>
         if r = QUIT then Val s
         else apply_loop func w m sz reverse count k (if reverse then ptr - int sz else ptr + int sz) s)"

definition apply_record ::
  "os \<Rightarrow> int \<Rightarrow> string \<Rightarrow> (string \<Rightarrow> nat \<Rightarrow> 's \<Rightarrow> 's \<times> int) \<Rightarrow> nat \<Rightarrow> bool \<Rightarrow> bool \<Rightarrow> bool \<Rightarrow> world \<Rightarrow> 's
     \<Rightarrow> (world \<times> 's \<times> int) run option" where
  "apply_record os pid file func sz copy reverse lock w s =
     (if copy \<and> \<not> os_malloc os then Some (Val (w, s, -1))
      else do {
        (w, m, ret) \<leftarrow> mmap_open os pid file (fresh_map O_RDONLY) w;
        if ret < 0 then Some (Val (w, s, -1))
        else do {
          (w, m) \<leftarrow> (if lock then Some (w, m) else map_option (\<lambda>(w, m, _). (w, m)) (mmap_lock os pid LOCK_UN m w));
          let count = mm_size m div sz;
          bindr (Some (apply_loop func w m sz reverse count count (if reverse then (int count - 1) * int sz else 0) s)) (\<lambda>s. do {
            (w, _) \<leftarrow> mmap_close os pid m w;
            Some (Val (w, s, 0)) }) } })"

fun search_loop :: "(string \<Rightarrow> bool) \<Rightarrow> world \<Rightarrow> mmap_t \<Rightarrow> nat \<Rightarrow> nat \<Rightarrow> nat \<Rightarrow> (nat \<times> string) option run" where
  \<comment> \<open>how many records are left and the index of the next one\<close>
  "search_loop func w m sz 0 i = Val None"
| "search_loop func w m sz (Suc k) i =
     run_bind (mread w m (int (i * sz)) sz) (\<lambda>buf.
       if func buf then Val (Some (i + 1, buf)) else search_loop func w m sz k (i + 1))"

definition search_record ::
  "os \<Rightarrow> int \<Rightarrow> string \<Rightarrow> string option \<Rightarrow> nat \<Rightarrow> (string \<Rightarrow> bool) \<Rightarrow> world \<Rightarrow> (world \<times> string option \<times> nat) run option" where
  "search_record os pid file rptr sz func w = do {
     (w, m, ret) \<leftarrow> mmap_open os pid file (fresh_map O_RDONLY) w;
     if ret < 0 then Some (Val (w, rptr, 0))
     else bindr (Some (search_loop func w m sz (mm_size m div sz) 0)) (\<lambda>hit. do {
       (w, _) \<leftarrow> mmap_close os pid m w;
       Some (Val (case hit of
           None \<Rightarrow> (w, rptr, 0)
         | Some (num, buf) \<Rightarrow> (w, map_option (\<lambda>r. buf @ drop sz r) rptr, num))) }) }"

section \<open>Changing a file\<close>



partial_function (option) delete_scan :: "(string \<Rightarrow> bool) \<Rightarrow> world \<Rightarrow> mmap_t \<Rightarrow> nat \<Rightarrow> int \<Rightarrow> int run option" where
  \<comment> \<open>the record that satisfies the check is looked for at \<^verbatim>\<open>id - 1\<close>, from \<^verbatim>\<open>id = 0\<close> on\<close>
  "delete_scan check w m sz num =
     (if num * int sz < int (mm_size m)
      then case mread w m ((num - 1) * int sz) sz of
             UB \<Rightarrow> Some UB
           | Val r \<Rightarrow> if check r then Some (Val num) else delete_scan check w m sz (num + 1)
      else Some (Val num))"

definition delete_target :: "(string \<Rightarrow> bool) option \<Rightarrow> world \<Rightarrow> mmap_t \<Rightarrow> nat \<Rightarrow> int \<Rightarrow> (int \<times> int) run option" where
  \<comment> \<open>the number of the record to delete, and \<^verbatim>\<open>ret\<close>\<close>
  "delete_target check w m sz num =
     (if int (mm_size m) < num * int sz then Some (Val (num, -2))
      else case check of
          None \<Rightarrow> Some (Val (num, 0))
        | Some chk \<Rightarrow>
            (case mread w m ((num - 1) * int sz) sz of
               UB \<Rightarrow> Some UB
             | Val r \<Rightarrow>
                 if chk r then Some (Val (num, 0))
                 else bindr (delete_scan chk w m sz 0) (\<lambda>num.
                   Some (Val (num, if int (mm_size m) \<le> num * int sz then -2 else 0)))))"

definition delete_record ::
  "os \<Rightarrow> int \<Rightarrow> string \<Rightarrow> nat \<Rightarrow> int \<Rightarrow> (string \<Rightarrow> bool) option \<Rightarrow> world \<Rightarrow> (world \<times> int) run option" where
  "delete_record os pid file sz num check w =
     (if num \<le> 0 then Some (Val (w, 0))
      else do {
        (w, m, ret) \<leftarrow> mmap_open os pid file (fresh_map O_RDWR) w;
        if ret < 0 then Some (Val (w, -1))
        else
          bindr (delete_target check w m sz num) (\<lambda>(num, ret).
            bindr (if ret = 0
                   then bindr (Some (mmove m ((num - 1) * int sz) (num * int sz) (nat (int (mm_size m) - int sz * num)) w))
                     (\<lambda>w. ok (mmap_truncate os pid (mm_size m - sz) m w))
                   else Some (Val (w, m, 0)))
              (\<lambda>(w, m, _). do {
                (w, _) \<leftarrow> mmap_close os pid m w;
                Some (Val (w, ret)) })) })"

partial_function (option) insert_scan :: "(string \<Rightarrow> bool) \<Rightarrow> world \<Rightarrow> mmap_t \<Rightarrow> nat \<Rightarrow> nat \<Rightarrow> nat \<Rightarrow> nat run option" where
  \<comment> \<open>from \<^verbatim>\<open>iter\<close> to exactly \<^verbatim>\<open>end\<close>\<close>
  "insert_scan check w m sz fin iter =
     (if iter = fin then Some (Val iter)
      else case mread w m (int iter) sz of
             UB \<Rightarrow> Some UB
           | Val r \<Rightarrow> if check r then Some (Val iter) else insert_scan check w m sz fin (iter + sz))"

definition insert_record ::
  "os \<Rightarrow> int \<Rightarrow> string \<Rightarrow> nat \<Rightarrow> (string \<Rightarrow> string \<Rightarrow> bool) option \<Rightarrow> string option \<Rightarrow> world \<Rightarrow> (world \<times> int) run option" where
  "insert_record os pid file sz check arg w =
     (case check of None \<Rightarrow> Some (Val (w, -1)) | Some chk \<Rightarrow>
      case arg of None \<Rightarrow> Some (Val (w, -1)) | Some rcd \<Rightarrow> do {
        (w, m, ret) \<leftarrow> mmap_open os pid file (fresh_map O_RDWR) w;
        if ret < 0 then Some (Val (w, -1))
        else do {
          (w, m, ret) \<leftarrow> mmap_truncate os pid (mm_size m + sz) m w;
          if ret < 0 then Some (Val (w, -1))
          else do {
            let fin = mm_size m - sz;
            bindr (insert_scan (\<lambda>r. chk r rcd) w m sz fin 0) (\<lambda>iter.
              bindr (Some (if iter \<noteq> fin then mmove m (int (iter + sz)) (int iter) (mm_size m - sz - iter) w else Val w)) (\<lambda>w.
                bindr (Some (mwrite m (int iter) (take sz rcd) w)) (\<lambda>w. do {
                  (w, _) \<leftarrow> mmap_close os pid m w;
                  Some (Val (w, 0)) }))) } } })"

section \<open>Record streams\<close>

fun lsearch :: "(string \<Rightarrow> bool) \<Rightarrow> world \<Rightarrow> mmap_t \<Rightarrow> int \<Rightarrow> nat \<Rightarrow> nat \<Rightarrow> int option run" where
  \<comment> \<open>whether a member matches the key; base, number and size of the members\<close>
  "lsearch matches w m base 0 sz = Val None"
| "lsearch matches w m base (Suc k) sz =
     run_bind (mread w m base sz) (\<lambda>r. if matches r then Val (Some base) else lsearch matches w m (base + int sz) k sz)"

definition record_open :: "os \<Rightarrow> int \<Rightarrow> string \<Rightarrow> int \<Rightarrow> mmap_t \<Rightarrow> world \<Rightarrow> (world \<times> mmap_t \<times> int) option" where
  "record_open os pid file mode r w = mmap_open os pid file (r\<lparr>mm_oflag := mode\<rparr>) w"

definition record_close :: "os \<Rightarrow> int \<Rightarrow> mmap_t \<Rightarrow> world \<Rightarrow> (world \<times> int) option" where
  "record_close os pid r w = mmap_close os pid r w"

definition record_search ::
  "mmap_t option \<Rightarrow> 'k option \<Rightarrow> nat \<Rightarrow> (('k \<Rightarrow> string \<Rightarrow> int) \<Rightarrow> 'k \<Rightarrow> world \<Rightarrow> mmap_t \<Rightarrow> int \<Rightarrow> nat \<Rightarrow> nat \<Rightarrow> int option run) option
     \<Rightarrow> ('k \<Rightarrow> string \<Rightarrow> int) \<Rightarrow> world \<Rightarrow> int option run" where
  \<comment> \<open>the stream, the key, the size, the method and the comparison; an offset into the file or NULL\<close>
  "record_search r key sz meth compar w =
     (case (r, key, meth) of
        (Some m, Some k, Some f) \<Rightarrow> f compar k w m 0 (mm_size m div sz) sz
      | _ \<Rightarrow> Val None)"

definition record_delete :: "os \<Rightarrow> mmap_t option \<Rightarrow> int option \<Rightarrow> nat \<Rightarrow> world \<Rightarrow> (world \<times> mmap_t option \<times> int) run option" where
  "record_delete os r ptr sz w =
     (case (r, ptr) of
        (Some m, Some p) \<Rightarrow>
          if mm_oflag m \<noteq> O_RDWR \<and> mm_oflag m \<noteq> O_WRONLY then Some (Val (w, r, -1))
          else if p < 0 \<or> int (mm_size m) < p + int sz then Some (Val (w, r, -1))
          else bindr (Some (mmove m p (p + int sz) (nat (int (mm_size m) - int sz - p)) w)) (\<lambda>w. do {
            (w, m, ret) \<leftarrow> mmap_shrink os (mm_size m - sz) m w;
            Some (Val (w, Some m, if ret < 0 then -1 else 0)) })
      | _ \<Rightarrow> Some (Val (w, r, -1)))"

section \<open>Files as lists of records\<close>

definition rec_file :: "world \<Rightarrow> string \<Rightarrow> nat \<Rightarrow> string list \<Rightarrow> bool" where
  "rec_file w f sz rs \<longleftrightarrow> 0 < sz \<and> w_files w f = Some (concat rs) \<and> (\<forall>r\<in>set rs. length r = sz)"

lemma length_concat_same: "\<forall>r\<in>set rs. length r = sz \<Longrightarrow> length (concat rs) = length rs * sz"
  by (induction rs) auto

lemma take_concat: "\<forall>r\<in>set rs. length r = sz \<Longrightarrow> take (i * sz) (concat rs) = concat (take i rs)"
proof (induction rs arbitrary: i)
  case (Cons r rs) then show ?case by (cases i) auto
qed simp

lemma drop_concat: "\<forall>r\<in>set rs. length r = sz \<Longrightarrow> drop (i * sz) (concat rs) = concat (drop i rs)"
proof (induction rs arbitrary: i)
  case (Cons r rs) then show ?case by (cases i) auto
qed simp

lemma length_concat_drop:
  assumes "\<forall>r\<in>set rs. length r = sz"
  shows "length (concat (drop i rs)) = length rs * sz - i * sz"
  using length_concat_same [OF assms] by (simp add: drop_concat [OF assms, symmetric])

lemma concat_nth:
  assumes "\<forall>r\<in>set rs. length r = sz" "i < length rs"
  shows "take sz (drop (i * sz) (concat rs)) = rs ! i"
  using assms by (simp add: drop_concat Cons_nth_drop_Suc [symmetric])

lemma concat_inj:
  assumes "concat rs = concat rs'" "\<forall>r\<in>set rs. length r = sz" "\<forall>r\<in>set rs'. length r = sz" "0 < sz"
  shows "rs = rs'"
proof (rule nth_equalityI)
  show len: "length rs = length rs'" using assms length_concat_same [of rs sz] length_concat_same [of rs' sz] by simp
  show "rs ! i = rs' ! i" if "i < length rs" for i
    using that len assms concat_nth [of rs sz i] concat_nth [of rs' sz i] by simp
qed

lemma rec_file_cong: "w_files w' = w_files w \<Longrightarrow> rec_file w' f sz rs = rec_file w f sz rs"
  by (simp add: rec_file_def)

lemma rec_file_unique: "rec_file w f sz rs \<Longrightarrow> rec_file w f sz rs' \<Longrightarrow> rs = rs'"
  using concat_inj by (auto simp: rec_file_def)

lemma rec_file_count:
  assumes "rec_file w f sz rs"
  shows "length (concat rs) div sz = length rs" "length (concat rs) = length rs * sz"
  using assms length_concat_same [of rs sz] by (auto simp: rec_file_def)

lemma mread_record:
  assumes "maps w m f (concat rs)" "\<forall>r\<in>set rs. length r = sz" "i < length rs"
  shows "mread w m (int (i * sz)) sz = Val (rs ! i)"
proof -
  have "i * sz + sz \<le> length (concat rs)"
    using assms(3) mult_le_mono1 [of "Suc i" "length rs" sz] by (simp add: length_concat_same [OF assms(2)])
  from mread_within [OF assms(1) this] concat_nth [OF assms(2,3)] show ?thesis by simp
qed

lemma open_records:
  assumes "calm os" "rec_file w f sz rs" "oflag = O_RDONLY \<or> oflag = O_WRONLY \<or> oflag = O_RDWR"
  obtains w' m where "mmap_open os pid f (fresh_map oflag) w = Some (w', m, 0)" "maps w' m f (concat rs)"
    "w_files w' = w_files w" "oflag \<noteq> O_RDONLY \<longrightarrow> mm_prot m AND PROT_WRITE \<noteq> 0" "mm_oflag m = oflag"
    "mm_msize m = max MMAP_MINSIZE (length (concat rs))"
  using mmap_open_maps [OF assms(1), of w f "concat rs" "fresh_map oflag" oflag pid] assms(2,3)
  by (auto simp: rec_file_def fresh_map_def)

lemma open_records_rw:
  assumes "calm os" "rec_file w f sz rs"
  obtains w' m where "mmap_open os pid f (fresh_map O_RDWR) w = Some (w', m, 0)" "maps w' m f (concat rs)"
    "w_files w' = w_files w" "mm_prot m AND PROT_WRITE \<noteq> 0"
proof -
  have "O_RDWR \<noteq> O_RDONLY" by (simp add: O_RDWR_def O_RDONLY_def)
  with open_records [OF assms, of O_RDWR pid] that show thesis by blast
qed

subsection \<open>Appending and reading\<close>

lemma append_record_files:
  assumes "os_open os" "take sz rcd \<noteq> []" "length (take sz rcd) \<le> accepted (os_writes os)"
  shows "\<exists>w'. append_record os pid f rcd sz w = Some (w', 0)
    \<and> w_files w' = (w_files w)(f \<mapsto> old_data w f @ take sz rcd)"
proof -
  have lk: "\<exists>w'. fb_flock os pid f k u = Some (w', if os_lock os then 0 else -1) \<and> w_files w' = w_files u" for k u
    by (rule fb_flock_files)
  let ?w = "w\<lparr>w_files := (w_files w)(f \<mapsto> old_data w f)\<rparr>"
  obtain w1 r1 where w1: "fb_flock os pid f LOCK_EX ?w = Some (w1, r1)" "w_files w1 = w_files ?w"
    using lk by blast
  let ?w2 = "w1\<lparr>w_files := (w_files w1)(f \<mapsto> old_data w1 f @ take sz rcd)\<rparr>"
  obtain w3 r3 where w3: "fb_flock os pid f LOCK_UN ?w2 = Some (w3, r3)" "w_files w3 = w_files ?w2"
    using lk by blast
  show ?thesis
    using assms safer_write_all [OF assms(3,2), of "[]"] w1 w3
    by (auto simp: append_record_def Let_def old_data_def)
qed

lemma append_record_list:
  assumes "calm os" "rec_file w f sz rs" "length rcd = sz" "sz \<le> accepted (os_writes os)"
  shows "\<exists>w'. append_record os pid f rcd sz w = Some (w', 0) \<and> rec_file w' f sz (rs @ [rcd])
    \<and> (\<forall>g. g \<noteq> f \<longrightarrow> w_files w' g = w_files w g)"
  using append_record_files [of os sz rcd pid f w] assms
  by (fastforce simp: calm_def rec_file_def old_data_def)

subsection \<open>Searching\<close>

fun first_hit :: "(string \<Rightarrow> bool) \<Rightarrow> string list \<Rightarrow> nat" where
  \<comment> \<open>the number of the first record that satisfies the criterion, 0 if there is none\<close>
  "first_hit P [] = 0"
| "first_hit P (r # rs) = (if P r then 1 else case first_hit P rs of 0 \<Rightarrow> 0 | Suc n \<Rightarrow> Suc (Suc n))"

lemma first_hit_0: "first_hit P rs = 0 \<longleftrightarrow> (\<forall>r\<in>set rs. \<not> P r)"
  by (induction rs) (auto split: nat.splits)

lemma first_hit_Suc:
  assumes "first_hit P rs = Suc i"
  shows "i < length rs \<and> P (rs ! i) \<and> (\<forall>j<i. \<not> P (rs ! j))"
  using assms
proof (induction rs arbitrary: i)
  case (Cons r rs)
  show ?case
  proof (cases "P r")
    case False
    with Cons.prems obtain n where n: "first_hit P rs = Suc n" "i = Suc n" by (cases "first_hit P rs") auto
    with Cons.IH [OF n(1)] False show ?thesis by (auto simp: less_Suc_eq_0_disj)
  qed (use Cons.prems in simp)
qed simp

lemma search_loop_hit:
  assumes "maps w m f (concat rs)" "\<forall>r\<in>set rs. length r = sz" "i + k = length rs"
  shows "search_loop P w m sz k i = Val (case first_hit P (drop i rs) of 0 \<Rightarrow> None | Suc n \<Rightarrow> Some (Suc (i + n), rs ! (i + n)))"
  using assms(3)
proof (induction k arbitrary: i)
  case (Suc k)
  then have "i < length rs" "drop i rs = rs ! i # drop (Suc i) rs" by (simp_all add: Cons_nth_drop_Suc)
  with Suc show ?case using mread_record [OF assms(1,2), of i] by (auto split: nat.splits)
qed simp

lemma search_record_list:
  assumes "calm os" "rec_file w f sz rs"
  shows "\<exists>w'. search_record os pid f rptr sz P w
      = Some (Val (w', case first_hit P rs of 0 \<Rightarrow> rptr | Suc n \<Rightarrow> map_option (\<lambda>r. rs ! n @ drop sz r) rptr, first_hit P rs))
    \<and> w_files w' = w_files w"
proof -
  obtain w1 m where o: "mmap_open os pid f (fresh_map O_RDONLY) w = Some (w1, m, 0)" "maps w1 m f (concat rs)"
    "w_files w1 = w_files w"
    using open_records [OF assms, of O_RDONLY pid] by blast
  have sz: "0 < sz" "\<forall>r\<in>set rs. length r = sz" using assms(2) by (auto simp: rec_file_def)
  have len: "mm_size m div sz = length rs" using o(2) rec_file_count [OF assms(2)] by (simp add: maps_def)
  obtain w2 where c: "mmap_close os pid m w1 = Some (w2, 0)" "w_files w2 = w_files w1"
    using mmap_close_files [of os 0 pid m w1] assms(1) by (auto simp: calm_def)
  show ?thesis
    using o c search_loop_hit [OF o(2) sz(2), of 0 "length rs" P] len
    by (auto simp: search_record_def bindr_def split: nat.splits)
qed

subsection \<open>Applying\<close>

fun visit :: "(string \<Rightarrow> nat \<Rightarrow> 's \<Rightarrow> 's \<times> int) \<Rightarrow> (nat \<times> string) list \<Rightarrow> 's \<Rightarrow> 's" where
  \<comment> \<open>call the function on numbered records until it answers \<open>QUIT\<close>\<close>
  "visit func [] s = s"
| "visit func ((num, r) # rest) s = (case func r num s of (s, q) \<Rightarrow> if q = QUIT then s else visit func rest s)"

definition numbered :: "string list \<Rightarrow> (nat \<times> string) list" where
  "numbered rs = zip [1..<length rs + 1] rs"

lemma numbered_nth: "i < length rs \<Longrightarrow> numbered rs ! i = (i + 1, rs ! i)"
  by (simp add: numbered_def del: upt_Suc)

lemma length_numbered [simp]: "length (numbered rs) = length rs"
  by (simp add: numbered_def del: upt_Suc)

lemma apply_loop_forward:
  assumes "maps w m f (concat rs)" "\<forall>r\<in>set rs. length r = sz" "i + k = length rs"
  shows "apply_loop func w m sz False (length rs) k (int (i * sz)) s = Val (visit func (drop i (numbered rs)) s)"
  using assms(3)
proof (induction k arbitrary: i s)
  case (Suc k)
  then have i: "i < length rs" by simp
  then have d: "drop i (numbered rs) = (i + 1, rs ! i) # drop (Suc i) (numbered rs)"
    by (metis Cons_nth_drop_Suc length_numbered numbered_nth)
  have p: "int (i * sz) + int sz = int (Suc i * sz)" by simp
  have "length rs - k = i + 1" using Suc.prems by simp
  with Suc.IH [of "Suc i"] Suc.prems d mread_record [OF assms(1,2) i] show ?case
    by (simp add: p del: of_nat_mult of_nat_add split: prod.splits)
qed simp

lemma apply_loop_backward:
  assumes "maps w m f (concat rs)" "\<forall>r\<in>set rs. length r = sz" "k \<le> length rs"
  shows "apply_loop func w m sz True (length rs) k ((int k - 1) * int sz) s = Val (visit func (rev (take k (numbered rs))) s)"
  using assms(3)
proof (induction k arbitrary: s)
  case (Suc k)
  then have i: "k < length rs" by simp
  then have d: "take (Suc k) (numbered rs) = take k (numbered rs) @ [(k + 1, rs ! k)]"
    by (simp add: take_Suc_conv_app_nth numbered_nth)
  have p: "(int (Suc k) - 1) * int sz = int (k * sz)" "int (k * sz) - int sz = (int k - 1) * int sz"
    by (simp_all add: algebra_simps)
  show ?case using Suc.IH Suc.prems mread_record [OF assms(1,2) i] unfolding p(1)
    by (simp add: d p(2) del: of_nat_mult split: prod.splits)
qed simp

lemma apply_record_list:
  assumes "calm os" "rec_file w f sz rs"
  shows "\<exists>w'. apply_record os pid f func sz copy reverse lock w s
      = Some (Val (w', visit func (if reverse then rev (numbered rs) else numbered rs) s, 0)) \<and> w_files w' = w_files w"
proof -
  obtain w1 m where o: "mmap_open os pid f (fresh_map O_RDONLY) w = Some (w1, m, 0)" "maps w1 m f (concat rs)"
    "w_files w1 = w_files w"
    using open_records [OF assms, of O_RDONLY pid] by blast
  have sz: "0 < sz" "\<forall>r\<in>set rs. length r = sz" using assms(2) by (auto simp: rec_file_def)
  have fd: "mm_fd m = Some f" using o(2) by (simp add: maps_def)
  obtain u q where u: "fb_flock os pid f LOCK_UN w1 = Some (u, q)" "w_files u = w_files w1"
    using fb_flock_files [of os pid f LOCK_UN w1] by blast
  have "\<exists>w2 m2. (if lock then Some (w1, m) else map_option (\<lambda>(w, m, _). (w, m)) (mmap_lock os pid LOCK_UN m w1)) = Some (w2, m2)
    \<and> maps w2 m2 f (concat rs) \<and> w_files w2 = w_files w1"
    using o(2) u by (cases "lock \<or> LOCK_UN = mm_lock m") (auto simp: mmap_lock_def fd maps_def)
  then obtain w2 m2 where l: "(if lock then Some (w1, m) else map_option (\<lambda>(w, m, _). (w, m)) (mmap_lock os pid LOCK_UN m w1)) = Some (w2, m2)"
    "maps w2 m2 f (concat rs)" "w_files w2 = w_files w1" by blast
  have len: "mm_size m2 div sz = length rs" using l(2) rec_file_count [OF assms(2)] by (simp add: maps_def)
  obtain w3 where c: "mmap_close os pid m2 w2 = Some (w3, 0)" "w_files w3 = w_files w2"
    using mmap_close_files [of os 0 pid m2 w2] assms(1) by (auto simp: calm_def)
  have malloc: "os_malloc os" using assms(1) by (simp add: calm_def)
  have loop: "apply_loop func w2 m2 sz reverse (length rs) (length rs) (if reverse then (int (length rs) - 1) * int sz else 0) s
     = Val (visit func (if reverse then rev (numbered rs) else numbered rs) s)"
    using apply_loop_forward [OF l(2) sz(2), of 0 "length rs" func s] apply_loop_backward [OF l(2) sz(2), of "length rs" func s]
    by (cases reverse) simp_all
  show ?thesis using o(1,3) c l(3) loop malloc unfolding apply_record_def
    by (cases reverse) (simp_all add: l(1) len bindr_def Let_def)
qed

subsection \<open>Replacing\<close>





definition others_free :: "int \<Rightarrow> string \<Rightarrow> world \<Rightarrow> bool" where
  "others_free pid f w \<longleftrightarrow> (\<forall>k\<in>set (w_locks w). l_path k = f \<longrightarrow> l_pid k = pid)"



subsection \<open>Inserting\<close>

lemma insert_scan_hit:
  assumes "maps w m f (concat rs')" "\<forall>r\<in>set rs'. length r = sz" "0 < sz" "i \<le> n" "n \<le> length rs'"
  shows "insert_scan P w m sz (n * sz) (i * sz) = Some (Val ((i + length (takeWhile (\<lambda>r. \<not> P r) (drop i (take n rs')))) * sz))"
  using assms(4)
proof (induction "n - i" arbitrary: i)
  case 0
  then show ?case by (subst insert_scan.simps) simp
next
  case (Suc k)
  then have i: "i < n" "i < length rs'" using assms(5) by auto
  then have d: "drop i (take n rs') = rs' ! i # drop (Suc i) (take n rs')"
    using assms(5) Cons_nth_drop_Suc [of i "take n rs'"] by simp
  have ne: "i * sz \<noteq> n * sz" "i * sz + sz = Suc i * sz" using i(1) assms(3) by auto
  have IH: "insert_scan P w m sz (n * sz) (Suc i * sz)
      = Some (Val ((Suc i + length (takeWhile (\<lambda>r. \<not> P r) (drop (Suc i) (take n rs')))) * sz))"
    using Suc.hyps i by (intro Suc.hyps(1)) auto
  show ?case
    using mread_record [OF assms(1,2) i(2)] IH ne
    by (subst insert_scan.simps) (simp add: d del: of_nat_mult mult_Suc)
qed


lemma open_slot:
  \<comment> \<open>moving the tail up by a record and writing into the gap\<close>
  assumes "\<forall>r\<in>set rs. length r = sz" "length rcd = sz" "i \<le> length rs" "data = concat rs @ replicate sz NUL"
    "moved = take (i * sz + sz) data @ take (length rs * sz - i * sz) (drop (i * sz) data) @ drop (length rs * sz + sz) data"
  shows "take (i * sz) moved @ rcd @ drop (i * sz + sz) moved = concat (take i rs @ rcd # drop i rs)"
proof -
  note len = length_concat_same [OF assms(1)]
  have le: "i * sz \<le> length rs * sz" using assms(3) by simp
  have d: "length data = length rs * sz + sz" by (simp add: assms(4) len)
  have "take (i * sz) moved = take (i * sz) data" using le by (simp add: assms(5) d min_absorb1)
  also have "\<dots> = concat (take i rs)" using le by (simp add: assms(4) len take_concat [OF assms(1)])
  finally have t: "take (i * sz) moved = concat (take i rs)" .
  have "drop (i * sz + sz) moved = take (length rs * sz - i * sz) (drop (i * sz) data)"
    using le by (simp add: assms(5) d)
  also have "\<dots> = concat (drop i rs)"
    using le by (simp add: assms(4) len drop_concat [OF assms(1)] length_concat_drop [OF assms(1)])
  finally show ?thesis by (simp add: t)
qed

lemma insert_record_files:
  fixes chk :: "string \<Rightarrow> string \<Rightarrow> bool"
  assumes "calm os" "rec_file w f sz rs" "length rcd = sz"
  defines "rs1 \<equiv> takeWhile (\<lambda>r. \<not> chk r rcd) rs" and "rs2 \<equiv> dropWhile (\<lambda>r. \<not> chk r rcd) rs"
  shows "\<exists>w'. insert_record os pid f sz (Some chk) (Some rcd) w = Some (Val (w', 0))
    \<and> w_files w' = (w_files w)(f \<mapsto> concat (rs1 @ rcd # rs2))"
proof -
  have sz: "0 < sz" "\<forall>r\<in>set rs. length r = sz" "w_files w f = Some (concat rs)" using assms(2) by (auto simp: rec_file_def)
  note len = rec_file_count(2) [OF assms(2)]
  obtain w1 m1 where o: "mmap_open os pid f (fresh_map O_RDWR) w = Some (w1, m1, 0)" "maps w1 m1 f (concat rs)"
    "w_files w1 = w_files w" "mm_prot m1 AND PROT_WRITE \<noteq> 0"
    using open_records_rw [OF assms(1,2)] by blast
  have s1: "mm_size m1 = length rs * sz" using o(2) len by (simp add: maps_def)
  define rs' data w2 where "rs' = rs @ [replicate sz NUL]" and "data = concat rs'"
    and "w2 = w1\<lparr>w_files := (w_files w1)(f \<mapsto> data)\<rparr>"
  have rz: "resize (length rs * sz + sz) (concat rs) = data" by (simp add: resize_def len data_def rs'_def)
  obtain m2 where t: "mmap_truncate os pid (mm_size m1 + sz) m1 w1 = Some (w2, m2, 0)" "maps w2 m2 f data"
    "mm_prot m2 AND PROT_WRITE \<noteq> 0" "mm_size m2 = length rs * sz + sz"
    using mmap_truncate_maps [OF assms(1) o(2), of pid "length rs * sz + sz"] o(4) by (auto simp: rz s1 w2_def)
  define i where "i = length rs1"
  have i: "i \<le> length rs" "rs1 = take i rs" "rs2 = drop i rs"
    unfolding i_def rs1_def rs2_def by (rule length_takeWhile_le takeWhile_eq_take dropWhile_eq_drop)+
  have sz': "\<forall>r\<in>set rs'. length r = sz" using sz(2) by (auto simp: rs'_def)
  have scan: "insert_scan (\<lambda>r. chk r rcd) w2 m2 sz (length rs * sz) 0 = Some (Val (i * sz))"
    using insert_scan_hit [OF t(2) [unfolded data_def] sz' sz(1), of 0 "length rs"] by (simp add: rs'_def i_def rs1_def)
  have ldata: "length data = length rs * sz + sz" by (simp add: data_def rs'_def len)
  have le: "i * sz \<le> length rs * sz" using i(1) by simp
  define moved where "moved = take (i * sz + sz) data @ take (length rs * sz - i * sz) (drop (i * sz) data) @ drop (length rs * sz + sz) data"
  define w3 where "w3 = w2\<lparr>w_files := (w_files w2)(f \<mapsto> moved)\<rparr>"
  have lmoved: "length moved = length data" using le by (simp add: moved_def ldata)
  have mv: "mmove m2 (int (i * sz + sz)) (int (i * sz)) (length rs * sz - i * sz) w2 = Val w3"
  proof -
    have "i * sz + (length rs * sz - i * sz) \<le> length data" "i * sz + sz + (length rs * sz - i * sz) \<le> length data"
      "i * sz + sz + (length rs * sz - i * sz) = length rs * sz + sz"
      using le ldata by auto
    from mmove_within [OF t(2) this(1,2) t(3)] this(3) show ?thesis by (simp only: w3_def moved_def)
  qed
  have m3: "maps w3 m2 f moved" using t(2) lmoved by (simp add: maps_def w3_def)
  have skip: "i * sz = length rs * sz \<Longrightarrow> moved = data"
    using ldata by (simp only: moved_def) simp
  have w23: "i * sz = length rs * sz \<Longrightarrow> w3 = w2" using skip by (simp add: w3_def w2_def)
  define w4 where "w4 = w3\<lparr>w_files := (w_files w3)(f \<mapsto> concat (rs1 @ rcd # rs2))\<rparr>"
  have slot: "take (i * sz) moved @ rcd @ drop (i * sz + sz) moved = concat (rs1 @ rcd # rs2)"
    using open_slot [OF sz(2) assms(3) i(1) _ moved_def] by (simp only: data_def rs'_def i(2,3)) simp
  have room: "i * sz + length rcd \<le> length moved" using le by (simp add: lmoved ldata assms(3))
  have wr: "mwrite m2 (int (i * sz)) rcd w3 = Val w4"
    using mwrite_within [OF m3 room t(3)] slot by (simp only: w4_def assms(3))
  obtain w5 where c: "mmap_close os pid m2 w4 = Some (w5, 0)" "w_files w5 = w_files w4"
    using mmap_close_files [of os 0 pid m2 w4] assms(1) by (auto simp: calm_def)
  have files: "w_files w4 = (w_files w)(f \<mapsto> concat (rs1 @ rcd # rs2))"
    by (simp add: w4_def w3_def w2_def o(3))
  have sub: "length rs * sz + sz - sz - i * sz = length rs * sz - i * sz" by simp
  show ?thesis
    using o(1) t(1) scan mv wr c files w23 assms(3)
    by (auto simp: insert_record_def bindr_def t(4) sub Let_def simp del: of_nat_mult of_nat_add)
qed

subsection \<open>Deleting\<close>




section \<open>Locks\<close>

lemma set_filter_le: "set (filter P xs) \<subseteq> set xs"
  by auto

lemma fb_flock_locks: "fb_flock os pid path operation w = Some (w', r) \<Longrightarrow> set (w_locks w') \<subseteq> set (w_locks w)"
  by (auto simp: fb_flock_def setlkw_def split: if_splits)

lemma close_fd_locks: "set (w_locks (close_fd pid path w)) \<subseteq> set (w_locks w)"
  by (auto simp: close_fd_def)

definition frees :: "world \<Rightarrow> world \<Rightarrow> bool" where
  \<comment> \<open>the second world holds no lock that the first did not\<close>
  "frees w w' \<longleftrightarrow> set (w_locks w') \<subseteq> set (w_locks w)"

lemma frees_refl [simp]: "frees w w"
  by (simp add: frees_def)

lemma frees_trans [trans]: "frees w w' \<Longrightarrow> frees w' w'' \<Longrightarrow> frees w w''"
  by (auto simp: frees_def)

lemma frees_files [simp]: "frees (w\<lparr>w_files := fs\<rparr>) w' = frees w w'" "frees w (w'\<lparr>w_files := fs\<rparr>) = frees w w'"
  by (simp_all add: frees_def)

lemma frees_fb_flock: "fb_flock os pid path operation w = Some (w', r) \<Longrightarrow> frees w w'"
  using fb_flock_locks by (auto simp: frees_def)

lemma frees_close_fd: "frees w w' \<Longrightarrow> frees w (close_fd pid path w')"
  using close_fd_locks [of pid path w'] by (auto simp: frees_def)

lemma frees_mmap_open: "mmap_open os pid f m w = Some (w', m', r) \<Longrightarrow> frees w w'"
  by (auto simp: mmap_open_def mmap_open_fd_def Let_def bind_eq_Some_conv
      intro!: frees_close_fd dest!: frees_fb_flock elim!: frees_trans split: if_splits option.splits)












subsection \<open>Reading\<close>

lemma get_record_at:
  assumes "calm os" "rec_file w f sz rs" "i < length rs" "length rptr = sz"
  shows "get_record os True f rptr sz (int i + 1) w = (rs ! i, 0)"
proof -
  have "nat (int sz * int i) = i * sz" by (simp add: nat_mult_distrib)
  moreover have "take sz (drop (i * sz) (concat rs)) = rs ! i"
    using assms(2,3) by (intro concat_nth) (auto simp: rec_file_def)
  moreover have "length (rs ! i) = sz" using assms(2) nth_mem [OF assms(3)] by (simp add: rec_file_def)
  moreover have "\<not> int sz * int i < 0" by (simp add: not_less)
  moreover have "w_files w f = Some (concat rs)" using assms(2) by (simp add: rec_file_def)
  ultimately show ?thesis
    using assms(1,4) by (simp add: get_record_def get_record_handle_def read_at_def calm_def)
qed

section \<open>Properties\<close>










text \<open>\<open>search_record\<close> returns the number of the first record that satisfies the criterion and copies
  it, or 0 when there is none, and changes no file.\<close>
theorem search_record_first:
  assumes "calm os" "rec_file w f sz rs"
  shows "\<exists>w' rptr' n. search_record os pid f rptr sz P w = Some (Val (w', rptr', n)) \<and> w_files w' = w_files w
    \<and> (n = 0 \<and> rptr' = rptr \<and> list_all (\<lambda>r. \<not> P r) rs
       \<or> (\<exists>i. n = Suc i \<and> i < length rs \<and> P (rs ! i) \<and> list_all (\<lambda>r. \<not> P r) (take i rs)
            \<and> rptr' = map_option (\<lambda>p. rs ! i @ drop sz p) rptr))"
proof -
  obtain w' where w': "search_record os pid f rptr sz P w
      = Some (Val (w', case first_hit P rs of 0 \<Rightarrow> rptr | Suc n \<Rightarrow> map_option (\<lambda>r. rs ! n @ drop sz r) rptr, first_hit P rs))"
    "w_files w' = w_files w"
    using search_record_list [OF assms] by blast
  show ?thesis
  proof (cases "first_hit P rs")
    case 0
    then have "list_all (\<lambda>r. \<not> P r) rs" by (simp add: first_hit_0 list_all_iff)
    with w' 0 show ?thesis by simp
  next
    case (Suc i)
    from first_hit_Suc [OF this] have "list_all (\<lambda>r. \<not> P r) (take i rs)" "i < length rs" "P (rs ! i)"
      by (auto simp: list_all_length)
    with w' Suc show ?thesis by auto
  qed
qed

text \<open>\<open>insert_record\<close> with a check that compares keys (as the undeletion of an article does) keeps
  the file in order of the keys and adds just the record, behind those with the same key.\<close>
theorem insert_record_keeps_order:
  fixes key :: "string \<Rightarrow> int"
  assumes "calm os" "rec_file w f sz rs" "length rcd = sz" "sorted (map key rs)"
  shows "\<exists>w' rs1 rs2. insert_record os pid f sz (Some (\<lambda>r x. key x < key r)) (Some rcd) w = Some (Val (w', 0))
    \<and> rec_file w' f sz (rs1 @ rcd # rs2) \<and> rs = rs1 @ rs2 \<and> sorted (map key (rs1 @ rcd # rs2))
    \<and> list_all (\<lambda>r. key r \<le> key rcd) rs1 \<and> list_all (\<lambda>r. key rcd < key r) rs2"
proof -
  let ?chk = "\<lambda>r x. key x < key r"
  define rs1 rs2 where "rs1 = takeWhile (\<lambda>r. \<not> ?chk r rcd) rs" and "rs2 = dropWhile (\<lambda>r. \<not> ?chk r rcd) rs"
  obtain w' where w': "insert_record os pid f sz (Some ?chk) (Some rcd) w = Some (Val (w', 0))"
    "w_files w' = (w_files w)(f \<mapsto> concat (rs1 @ rcd # rs2))"
    using insert_record_files [OF assms(1-3), of pid ?chk] unfolding rs1_def rs2_def by blast
  have rs: "rs = rs1 @ rs2" by (simp add: rs1_def rs2_def)
  have lo: "\<forall>r\<in>set rs1. key r \<le> key rcd" unfolding rs1_def by (auto dest: set_takeWhileD)
  have sorted2: "sorted (map key rs2)" "sorted (map key rs1)" using assms(4) by (simp_all add: rs sorted_append)
  have hi: "\<forall>r\<in>set rs2. key rcd < key r"
  proof (cases rs2)
    case (Cons x xs)
    then have "key rcd < key x" using hd_dropWhile [of "\<lambda>r. \<not> ?chk r rcd" rs] by (simp add: rs2_def)
    with sorted2(1) Cons show ?thesis by force
  qed simp
  have "sorted (map key (rs1 @ rcd # rs2))" using sorted2 lo hi by (fastforce simp: sorted_append)
  moreover have "rec_file w' f sz (rs1 @ rcd # rs2)"
    using w'(2) assms(2,3) rs by (auto simp: rec_file_def)
  ultimately show ?thesis using w'(1) rs lo hi by (auto simp: list_all_iff)
qed

text \<open>\<open>apply_record\<close> calls the function on every record with its number, in the order of the file or
  backwards, until it answers \<open>QUIT\<close>, whether it copies and locks or not.\<close>
theorem apply_record_visits:
  assumes "calm os" "rec_file w f sz rs"
  shows "\<exists>w'. apply_record os pid f func sz copy reverse lock w s
      = Some (Val (w', visit func (if reverse then rev (numbered rs) else numbered rs) s, 0)) \<and> w_files w' = w_files w"
  by (rule apply_record_list [OF assms])

text \<open>When the check does not hold for the record with the number given (the list on the screen is
  out of date), \<open>delete_record\<close> looks for the right one from before the start of the file on: its
  behaviour is undefined, whichever records there are.\<close>
theorem delete_record_stale_number:
  assumes "calm os" "rec_file w f sz rs" "0 < num" "num \<le> int (length rs)" "\<not> chk (rs ! (nat num - 1))"
  shows "delete_record os pid f sz num (Some chk) w = Some UB"
proof -
  have sz: "0 < sz" "\<forall>r\<in>set rs. length r = sz" using assms(2) by (auto simp: rec_file_def)
  obtain w1 m where o: "mmap_open os pid f (fresh_map O_RDWR) w = Some (w1, m, 0)" "maps w1 m f (concat rs)"
    using open_records_rw [OF assms(1,2)] by blast
  have s: "mm_size m = length rs * sz" using o(2) rec_file_count(2) [OF assms(2)] by (simp add: maps_def)
  define i where "i = nat num - 1"
  have i: "num = int (Suc i)" "i < length rs" using assms(3,4) by (auto simp: i_def)
  have off: "(num - 1) * int sz = int (i * sz)" by (simp add: i(1))
  have rd: "mread w1 m (int (i * sz)) sz = Val (rs ! i)" by (rule mread_record [OF o(2) sz(2) i(2)])
  have "Suc i * sz \<le> length rs * sz" using i(2) by (intro mult_le_mono1) simp
  then have small: "\<not> int (mm_size m) < num * int sz" by (simp only: s i(1) of_nat_mult [symmetric] of_nat_less_iff not_less)
  have "0 < mm_size m" using i(2) sz(1) by (cases rs) (auto simp: s)
  then have scan: "delete_scan chk w1 m sz 0 = Some UB"
    using sz(1) by (subst delete_scan.simps) simp
  have "delete_target (Some chk) w1 m sz num = Some UB"
    using small rd scan assms(5) [folded i_def] by (simp add: delete_target_def off bindr_def del: of_nat_mult)
  with o(1) assms(3) show ?thesis by (simp add: delete_record_def bindr_def)
qed

text \<open>What \<open>append_record\<close> wrote, \<open>get_record\<close> reads back under the next number, and the records
  before it as they were.\<close>
theorem append_then_get:
  assumes "calm os" "rec_file w f sz rs" "length rcd = sz" "sz \<le> accepted (os_writes os)" "length rptr = sz"
  shows "\<exists>w'. append_record os pid f rcd sz w = Some (w', 0)
    \<and> get_record os True f rptr sz (int (length rs) + 1) w' = (rcd, 0)
    \<and> list_all (\<lambda>i. get_record os True f rptr sz (int i + 1) w' = (rs ! i, 0)) [0..<length rs]"
proof -
  obtain w' where w': "append_record os pid f rcd sz w = Some (w', 0)" "rec_file w' f sz (rs @ [rcd])"
    using append_record_list [OF assms(1-4)] by blast
  have get: "get_record os True f rptr sz (int i + 1) w' = ((rs @ [rcd]) ! i, 0)" if "i < length (rs @ [rcd])" for i
    using get_record_at [OF assms(1) w'(2) that assms(5)] .
  from w'(1) get [of "length rs"] get show ?thesis by (auto simp: list_all_length nth_append)
qed

text \<open>Opening a mapped file for writing locks out nobody: \<open>mmap_open\<close> never waits, whatever locks other
  processes hold, and takes none, since every \<^verbatim>\<open>case\<close> of \<open>fb_flock\<close> falls through to the unlocking one.\<close>
theorem mmap_open_excludes_nobody:
  "\<exists>w' m' ret. mmap_open os pid f m w = Some (w', m', ret) \<and> frees w w'"
proof -
  have lk: "\<exists>w' r. fb_flock os pid f k u = Some (w', r)" for k u using fb_flock_files [of os pid f k u] by blast
  have "\<exists>w' m' ret. mmap_open_fd os pid m w = Some (w', m', ret)" if "mm_fd m = None \<or> mm_fd m = Some f" for m
  proof -
    obtain w1 r1 where w1: "fb_flock os pid f (mm_lock m) w = Some (w1, r1)" using lk by blast
    obtain w2 r2 where "fb_flock os pid f LOCK_UN w1 = Some (w2, r2)" using lk by blast
    with w1 that show ?thesis by (auto simp: mmap_open_fd_def Let_def)
  qed
  then have "\<exists>w' m' ret. mmap_open os pid f m w = Some (w', m', ret)" by (simp add: mmap_open_def Let_def)
  with frees_mmap_open show ?thesis by blast
qed

section \<open>Instances\<close>

definition demo_os :: os where
  "demo_os = \<lparr>os_open = True, os_lock = True, os_stat = True, os_mmap = True, os_remap = True, os_seek = True,
     os_malloc = True, os_writes = [Done 1, Eintr, Done 80], os_truncs = [Eintr, Done 0], os_closes = [Done 0]\<rparr>"

definition demo_world :: world where
  "demo_world = \<lparr>w_files = [''dir'' \<mapsto> ''aabbdd''],
     w_locks = [\<lparr>l_pid = 7, l_path = ''other'', l_type = F_WRLCK, l_start = 0, l_len = 0\<rparr>]\<rparr>"

lemma record_demo:
  "calm demo_os" "accepted (os_writes demo_os) = 81" "others_free 1 ''dir'' demo_world"
  "rec_file demo_world ''dir'' 2 [''aa'', ''bb'', ''dd'']"
  by (simp_all add: calm_def demo_os_def others_free_def rec_file_def demo_world_def)


theorem search_record_first_witness:
  "\<exists>w' rptr' n. search_record demo_os 1 ''dir'' (Some ''zzzz'') 2 (\<lambda>r. r = ''bb'') demo_world = Some (Val (w', rptr', n))
    \<and> n = 2 \<and> rptr' = Some ''bbzz''"
  using search_record_first [OF record_demo(1,4), of 1 "Some ''zzzz''" "\<lambda>r. r = ''bb''"]
  by (auto simp: less_Suc_eq numeral_eq_Suc nth_Cons' split: if_splits)

theorem insert_record_keeps_order_witness:
  "\<exists>w' rs1 rs2. insert_record demo_os 1 ''dir'' 2 (Some (\<lambda>r x. int (byte (hd x)) < int (byte (hd r)))) (Some ''cc'') demo_world = Some (Val (w', 0))
    \<and> rec_file w' ''dir'' 2 (rs1 @ ''cc'' # rs2) \<and> rs1 @ rs2 = [''aa'', ''bb'', ''dd'']"
proof -
  have "sorted (map (\<lambda>r. int (byte (hd r))) [''aa'', ''bb'', ''dd''])" by (simp add: byte_def)
  from insert_record_keeps_order [OF record_demo(1,4) _ this, of "''cc''" 1] show ?thesis by (metis length_Cons list.size(3) numeral_2_eq_2)
qed

theorem apply_record_visits_witness:
  "\<exists>w'. apply_record demo_os 1 ''dir'' (\<lambda>r n s. (s @ [(n, r)], if r = ''bb'' then QUIT else 0)) 2 True True False demo_world []
    = Some (Val (w', [(3, ''dd''), (2, ''bb'')], 0))"
  using apply_record_visits [OF record_demo(1,4), of 1 "\<lambda>r n s. (s @ [(n, r)], if r = ''bb'' then QUIT else 0)" True True False "[]"]
  by (auto simp: numbered_def QUIT_def)

theorem delete_record_stale_number_witness:
  "delete_record demo_os 1 ''dir'' 2 2 (Some (\<lambda>r. r = ''dd'')) demo_world = Some UB"
  by (rule delete_record_stale_number [OF record_demo(1,4)]) simp_all

theorem append_then_get_witness:
  "\<exists>w'. append_record demo_os 1 ''dir'' ''ee'' 2 demo_world = Some (w', 0)
    \<and> get_record demo_os True ''dir'' ''zz'' 2 4 w' = (''ee'', 0)"
  using append_then_get [OF record_demo(1,4), of "''ee''" "''zz''" 1] record_demo(2) by auto

end
