(* ===== verification/Permissions.thy ===== *)
theory Permissions
  imports Prelude
begin

text \<open>
  The rights of a user, the bits of \<^verbatim>\<open>userlevel\<close> (\<^verbatim>\<open>include/permissions.h\<close>), and the test for them.
\<close>

unbundle bit_operations_syntax

definition PERM_LOGIN :: u32 where "PERM_LOGIN = 0x1"
definition PERM_TALK :: u32 where "PERM_TALK = 0x2"
definition PERM_MAIL :: u32 where "PERM_MAIL = 0x4"
definition PERM_POST :: u32 where "PERM_POST = 0x8"
definition PERM_REGISTER :: u32 where "PERM_REGISTER = 0x10"
definition PERM_BINDMAIL :: u32 where "PERM_BINDMAIL = 0x20"
definition PERM_BOARDS :: u32 where "PERM_BOARDS = 0x40"
definition PERM_OBOARDS :: u32 where "PERM_OBOARDS = 0x80"
definition PERM_OCLUB :: u32 where "PERM_OCLUB = 0x100"
definition PERM_ANNOUNCE :: u32 where "PERM_ANNOUNCE = 0x200"
definition PERM_OCBOARD :: u32 where "PERM_OCBOARD = 0x400"
definition PERM_USER :: u32 where "PERM_USER = 0x800"
definition PERM_OCHAT :: u32 where "PERM_OCHAT = 0x1000"
definition PERM_SYSOPS :: u32 where "PERM_SYSOPS = 0x2000"
definition PERM_CLOAK :: u32 where "PERM_CLOAK = 0x4000"
definition PERM_SEECLOAK :: u32 where "PERM_SEECLOAK = 0x8000"
definition PERM_XEMPT :: u32 where "PERM_XEMPT = 0x10000"
definition PERM_LONGLIFE :: u32 where "PERM_LONGLIFE = 0x20000"
definition PERM_LARGEMAIL :: u32 where "PERM_LARGEMAIL = 0x40000"
definition PERM_ARBI :: u32 where "PERM_ARBI = 0x80000"
definition PERM_SERV :: u32 where "PERM_SERV = 0x100000"
definition PERM_TECH :: u32 where "PERM_TECH = 0x200000"
definition PERM_SPECIAL0 :: u32 where "PERM_SPECIAL0 = 0x400000"
definition PERM_SPECIAL1 :: u32 where "PERM_SPECIAL1 = 0x800000"
definition PERM_SPECIAL2 :: u32 where "PERM_SPECIAL2 = 0x1000000"
definition PERM_SPECIAL3 :: u32 where "PERM_SPECIAL3 = 0x2000000"
definition PERM_SPECIAL4 :: u32 where "PERM_SPECIAL4 = 0x4000000"
definition PERM_SPECIAL5 :: u32 where "PERM_SPECIAL5 = 0x8000000"
definition PERM_SPECIAL6 :: u32 where "PERM_SPECIAL6 = 0x10000000"
definition PERM_SPECIAL7 :: u32 where "PERM_SPECIAL7 = 0x20000000"
definition PERM_SPECIAL8 :: u32 where "PERM_SPECIAL8 = 0x40000000"
definition PERM_SPECIAL9 :: u32 where "PERM_SPECIAL9 = 0x80000000"

definition PERM_BLEVELS :: u32 where "PERM_BLEVELS = PERM_SYSOPS OR PERM_OBOARDS"

definition HAS_PERM2 :: "u32 \<Rightarrow> u32 \<Rightarrow> bool" where
  \<comment> \<open>the rights asked for and those of the user\<close>
  "HAS_PERM2 x userlevel \<longleftrightarrow> (if x \<noteq> 0 then userlevel AND x \<noteq> 0 else True)"

end
