(* ===== verification/Boards.thy ===== *)
theory Boards
  imports TextFiles UserCache ReadMarks Permissions Records
begin

text \<open>
  Boards: who may read and post (\<^verbatim>\<open>lib/board.c\<close>, \<^verbatim>\<open>lib/goodbrd.c\<close>), the table of boards and what is cached
  with it (\<^verbatim>\<open>lib/brdcache.c\<close>), the members of a club (\<^verbatim>\<open>src/bm.c\<close>) and the users who may not post
  (\<^verbatim>\<open>src/deny.c\<close>). A pointer to a board is its index in the table. The table file, mapped read-only
  except while it is changed, is part of the state; \<open>exit\<close> and an index outside the table are
  \<open>None\<close>. Posts and mails that announce a change, and log lines, are recorded as \<open>notices\<close>.
\<close>

unbundle bit_operations_syntax

section \<open>Data\<close>

definition BOARD_NOZAP_FLAG :: u32 where "BOARD_NOZAP_FLAG = 0x2"
definition BOARD_JUNK_FLAG :: u32 where "BOARD_JUNK_FLAG = 0x20"
definition BOARD_CLUB_FLAG :: u32 where "BOARD_CLUB_FLAG = 0x40"
definition BOARD_READ_FLAG :: u32 where "BOARD_READ_FLAG = 0x80"
definition BOARD_POST_FLAG :: u32 where "BOARD_POST_FLAG = 0x100"
definition BOARD_DIR_FLAG :: u32 where "BOARD_DIR_FLAG = 0x200"
definition BOARD_CUSTOM_FLAG :: u32 where "BOARD_CUSTOM_FLAG = 0x80000000"
definition BM_LEN :: nat where "BM_LEN = 60"

text \<open>Character arrays are all their bytes.\<close>

record boardheader =
  bh_filename :: string
  bh_nowid :: u32
  bh_group :: int
  bh_owner :: string
  bh_BM :: string
  bh_flag :: u32
  bh_title :: string
  bh_level :: u32
  bh_accessed :: string

record fileheader =
  fh_filename :: string
  fh_id :: u32
  fh_gid :: u32
  fh_owner :: string
  fh_title :: string
  fh_szEraser :: string
  fh_level :: u32
  fh_accessed :: string
  fh_reid :: u32
  fh_timeDeleted :: int

record bstat =
  bs_total :: int
  bs_lastpost :: int
  bs_inboard :: int
  bs_nowid :: u32

record boards =
  bc_list :: "boardheader list"
  bc_stat :: "bstat list"
  bc_number :: nat
  bc_numboards :: nat
  bc_inboarduptime :: int

subsection \<open>A header in a file\<close>

definition u32_bytes :: "u32 \<Rightarrow> string" where
  "u32_bytes n = int_bytes (uint n)"

definition bytes_u32 :: "string \<Rightarrow> u32" where
  "bytes_u32 s = word_of_int (bytes_int s)"

definition enc_fileheader :: "fileheader \<Rightarrow> string" where
  \<comment> \<open>the 256 bytes of the struct: there is no padding\<close>
  "enc_fileheader fh = fh_filename fh @ u32_bytes (fh_id fh) @ u32_bytes (fh_gid fh) @ fh_owner fh @ fh_title fh @ fh_szEraser fh
     @ u32_bytes (fh_level fh) @ fh_accessed fh @ u32_bytes (fh_reid fh) @ int_bytes (fh_timeDeleted fh)"

definition FHSIZE :: nat where "FHSIZE = 256"

definition slice :: "nat \<Rightarrow> nat \<Rightarrow> string \<Rightarrow> string" where
  "slice off n s = take n (drop off s)"

definition dec_fileheader :: "string \<Rightarrow> fileheader" where
  "dec_fileheader s = \<lparr>fh_filename = slice 0 72 s, fh_id = bytes_u32 (slice 72 4 s), fh_gid = bytes_u32 (slice 76 4 s),
     fh_owner = slice 80 80 s, fh_title = slice 160 67 s, fh_szEraser = slice 227 13 s, fh_level = bytes_u32 (slice 240 4 s),
     fh_accessed = slice 244 4 s, fh_reid = bytes_u32 (slice 248 4 s), fh_timeDeleted = bytes_int (slice 252 4 s)\<rparr>"

section \<open>Rights on a board\<close>

definition flagged :: "u32 \<Rightarrow> u32 \<Rightarrow> bool" where
  "flagged f m \<longleftrightarrow> f AND m \<noteq> 0"

definition bm_delims :: string where
  \<comment> \<open>the literal goes on behind a NUL, where \<^verbatim>\<open>strtok\<close> does not look\<close>
  "bm_delims = '',: ;|&()''"

function strtok_all :: "string \<Rightarrow> string \<Rightarrow> string list" where
  "strtok_all delims s =
     (case strtok_first delims s of None \<Rightarrow> [] | Some w \<Rightarrow> w # strtok_all delims (strtok_rest delims s))"
  by pat_completeness auto
termination
proof (relation "measure (\<lambda>(delims, s). length s)", simp, clarsimp)
  fix delims s w
  assume "strtok_first delims s = Some w"
  then obtain c t where "dropWhile (\<lambda>c. c \<in> set delims) s = c # t" by (auto simp: strtok_first_def split: list.splits)
  moreover from this have "length (c # t) \<le> length s" by (metis length_dropWhile_le)
  ultimately show "length (strtok_rest delims s) < length s"
    using length_dropWhile_le [of "\<lambda>c. c \<notin> set delims" "c # t"] by (simp add: strtok_rest_def)
qed

definition chkBM :: "boardheader option \<Rightarrow> userec option \<Rightarrow> bool" where
  "chkBM bp up =
     (case (bp, up) of
        (Some bp, Some up) \<Rightarrow>
          if flagged (bh_flag bp) BOARD_CLUB_FLAG \<and> flagged (pw_userlevel up) PERM_OCLUB then True
          else if \<not> flagged (bh_flag bp) BOARD_CLUB_FLAG \<and> flagged (pw_userlevel up) PERM_BLEVELS then True
          else if \<not> flagged (pw_userlevel up) PERM_BOARDS then False
          else cstr (pw_userid up) \<in> set (strtok_all bm_delims (take (BM_LEN - 2) (cstr (bh_BM bp))))
      | _ \<Rightarrow> False)"

definition member_line :: "string \<Rightarrow> string \<Rightarrow> bool" where
  \<comment> \<open>\<^verbatim>\<open>strtok\<close> cuts \<^verbatim>\<open>uident\<close>, the start of the line, which is compared from its start\<close>
  "member_line member line = strcasecmp_eq member (strtok_cut blanks_crlf (take IDLEN (cstr line)))"

definition isclubmember :: "files \<Rightarrow> string \<Rightarrow> string \<Rightarrow> bool" where
  "isclubmember fs member board =
     (case fs (setbfile board ''club_users'') of None \<Rightarrow> False
      | Some data \<Rightarrow> list_ex (member_line member) (fgets_all 256 data))"

definition hasreadperm :: "files \<Rightarrow> userec option \<Rightarrow> boardheader option \<Rightarrow> bool" where
  "hasreadperm fs user bp =
     (case (bp, user) of
        (Some b, Some u) \<Rightarrow>
          if flagged (bh_flag b) BOARD_CLUB_FLAG \<and> flagged (bh_flag b) BOARD_READ_FLAG
             \<and> \<not> chkBM bp user \<and> \<not> isclubmember fs (cstr (pw_userid u)) (cstr (bh_filename b)) then False
          else if bh_level b = 0 then True
          else if flagged (bh_flag b) (BOARD_POST_FLAG OR BOARD_NOZAP_FLAG) then True
          else flagged (pw_userlevel u) (bh_level b)
      | _ \<Rightarrow> False)"

definition haspostperm :: "files \<Rightarrow> userec option \<Rightarrow> boardheader option \<Rightarrow> bool" where
  "haspostperm fs user bp =
     (case (bp, user) of
        (Some b, Some u) \<Rightarrow>
          if \<not> HAS_PERM2 PERM_POST (pw_userlevel u) \<or> \<not> HAS_PERM2 (bh_level b) (pw_userlevel u) then False
          else if flagged (bh_flag b) BOARD_CLUB_FLAG \<and> \<not> chkBM bp user
             \<and> \<not> isclubmember fs (cstr (pw_userid u)) (cstr (bh_filename b)) then False
          else \<not> seek_in_file fs (setbfile (cstr (bh_filename b)) ''deny_users'') (cstr (pw_userid u))
      | _ \<Rightarrow> False)"

definition junkboard :: "boardheader option \<Rightarrow> bool" where
  "junkboard bp = (case bp of None \<Rightarrow> False | Some b \<Rightarrow> flagged (bh_flag b) BOARD_JUNK_FLAG)"

definition is_board_dir :: "boardheader \<Rightarrow> bool" where
  "is_board_dir bp = flagged (bh_flag bp) BOARD_DIR_FLAG"

definition get_board_desc :: "boardheader \<Rightarrow> string" where
  \<comment> \<open>the title's bytes from the eleventh on\<close>
  "get_board_desc bp = drop 11 (bh_title bp)"

definition gbrd_is_custom_dir :: "u32 \<Rightarrow> bool" where
  "gbrd_is_custom_dir flag = flagged flag BOARD_CUSTOM_FLAG"

section \<open>The table of boards\<close>

definition DIR_path :: "boardheader \<Rightarrow> string" where
  "DIR_path b = setbfile (cstr (bh_filename b)) DOT_DIR"

definition getlastpost :: "world \<Rightarrow> string \<Rightarrow> int \<Rightarrow> int \<Rightarrow> int \<times> int" where
  \<comment> \<open>\<^verbatim>\<open>*lastpost\<close> and \<^verbatim>\<open>*total\<close>; the name in the last header ends within the bytes read\<close>
  "getlastpost w board lastpost tot =
     (case w_files w (setwbdir board) of
        None \<Rightarrow> (lastpost, tot)
      | Some data \<Rightarrow>
          (let atotal = length data div FHSIZE;
               got = take STRLEN (drop ((atotal - 1) * FHSIZE) data)
           in if atotal = 0 then (0, 0)
              else (if 2 < length got then atoi (cstr (drop 2 got)) else 0, int atotal)))"

definition filled_stat :: "os \<Rightarrow> world \<Rightarrow> fileheader \<Rightarrow> boardheader \<Rightarrow> bstat \<Rightarrow> bstat" where
  \<comment> \<open>what is cached of a board; \<open>lastfh\<close> is not initialised\<close>
  "filled_stat os w lastfh b s =
     (let (lp, tot) = getlastpost w (cstr (bh_filename b)) (bs_lastpost s) (bs_total s);
          filename = DIR_path b;
          count = get_num_records True filename FHSIZE w;
          lastfh = dec_fileheader (fst (get_record os True filename (enc_fileheader lastfh) FHSIZE (int count - 1) w))
      in s\<lparr>bs_lastpost := lp, bs_total := tot,
           bs_nowid := (if fh_id lastfh + 1 < bh_nowid b then bh_nowid b else fh_id lastfh + 1)\<rparr>)"

definition named :: "boardheader \<Rightarrow> bool" where
  "named b \<longleftrightarrow> bh_filename b ! 0 \<noteq> NUL"

definition fill_boards :: "os \<Rightarrow> world \<Rightarrow> (nat \<Rightarrow> fileheader) \<Rightarrow> boards \<Rightarrow> boards" where
  \<comment> \<open>the loop of \<open>resolve_boards\<close> and \<open>rebuild_brdshm\<close>\<close>
  "fill_boards os w garbage st =
     st\<lparr>bc_stat := map (\<lambda>i. if named (bc_list st ! i)
            then filled_stat os w (garbage i) (bc_list st ! i) (bc_stat st ! i) else bc_stat st ! i) [0..<length (bc_list st)],
        bc_number := (case filter (\<lambda>i. named (bc_list st ! i)) [0..<length (bc_list st)] of
            [] \<Rightarrow> bc_number st | js \<Rightarrow> last js + 1)\<rparr>"

definition resolve_boards :: "os \<Rightarrow> world \<Rightarrow> (nat \<Rightarrow> fileheader) \<Rightarrow> bool \<Rightarrow> bool \<Rightarrow> bool \<Rightarrow> bool \<Rightarrow> boards \<Rightarrow> boards \<times> int" where
  \<comment> \<open>whether the file is mapped, whether the process was attached before, can be, has created the segment;
     the time of the last check, which nothing depends on, is left out\<close>
  "resolve_boards os w garbage mapped before attached iscreate st =
     (if \<not> mapped then (st, -1)
      else if before then (st, 0)
      else if \<not> attached then (st, -1)
      else let st = (if iscreate then fill_boards os w garbage st else st)
           in (st\<lparr>bc_numboards := bc_number st\<rparr>, 0))"

definition rebuild_brdshm :: "os \<Rightarrow> world \<Rightarrow> (nat \<Rightarrow> fileheader) \<Rightarrow> boards \<Rightarrow> boards" where
  "rebuild_brdshm os w garbage st =
     (let st = fill_boards os w garbage st in st\<lparr>bc_numboards := bc_number st\<rparr>)"

definition flush_bcache :: "bool \<Rightarrow> boards \<Rightarrow> boards outcome" where
  "flush_bcache resolved st =
     (if \<not> resolved then Exits 1
      else Returns (st\<lparr>bc_list := map (\<lambda>i. (bc_list st ! i)\<lparr>bh_nowid := bs_nowid (bc_stat st ! i)\<rparr>) [0..<length (bc_list st)]\<rparr>))"

definition same_board :: "string \<Rightarrow> boardheader \<Rightarrow> bool" where
  \<comment> \<open>\<^verbatim>\<open>!strncasecmp(bname, filename, STRLEN)\<close>\<close>
  "same_board bname b = strncasecmp_eq bname (cstr (bh_filename b)) STRLEN"

definition next_id :: "nat \<Rightarrow> boards \<Rightarrow> boards \<times> u32" where
  "next_id i st =
     (let n = bs_nowid (bc_stat st ! i) + 1
      in (st\<lparr>bc_stat := (bc_stat st)[i := (bc_stat st ! i)\<lparr>bs_nowid := n\<rparr>]\<rparr>, n))"

definition get_nextid :: "string \<Rightarrow> boards \<Rightarrow> boards \<times> u32" where
  "get_nextid boardname st =
     (case find (\<lambda>i. same_board boardname (bc_list st ! i)) [0..<bc_numboards st] of
        None \<Rightarrow> (st, 0) | Some i \<Rightarrow> next_id i st)"

definition get_nextid2 :: "nat option \<Rightarrow> boards \<Rightarrow> boards \<times> u32" where
  "get_nextid2 bp st = (case bp of None \<Rightarrow> (st, -1) | Some i \<Rightarrow> next_id i st)"

definition getblankbnum :: "boards \<Rightarrow> nat" where
  "getblankbnum st =
     (case find (\<lambda>i. \<not> named (bc_list st ! i)) [0..<length (bc_list st)] of None \<Rightarrow> 0 | Some i \<Rightarrow> i + 1)"

definition getbcache :: "bool \<Rightarrow> string \<Rightarrow> boards \<Rightarrow> nat option outcome" where
  "getbcache resolved bname st =
     (if \<not> resolved then Exits 1 else Returns (find (\<lambda>i. same_board bname (bc_list st ! i)) [0..<bc_numboards st]))"

definition getbcache2 :: "bool \<Rightarrow> int \<Rightarrow> boards \<Rightarrow> nat option" where
  "getbcache2 resolved bid st = (if bid \<le> 0 \<or> int (bc_numboards st) < bid \<or> \<not> resolved then None else Some (nat bid - 1))"

definition getbstat :: "string \<Rightarrow> boards \<Rightarrow> bstat option" where
  "getbstat bname st =
     map_option (\<lambda>i. bc_stat st ! i) (find (\<lambda>i. same_board bname (bc_list st ! i)) [0..<bc_numboards st])"

definition open_board :: "userec \<Rightarrow> boardheader \<Rightarrow> bool" where
  \<comment> \<open>the test of \<open>getbnum\<close> and \<open>apply_boards\<close>\<close>
  "open_board cuser b \<longleftrightarrow>
     flagged (bh_flag b) BOARD_POST_FLAG \<or> HAS_PERM2 (bh_level b) (pw_userlevel cuser) \<or> flagged (bh_flag b) BOARD_NOZAP_FLAG"

definition getbnum :: "bool \<Rightarrow> string \<Rightarrow> userec \<Rightarrow> boards \<Rightarrow> nat outcome" where
  "getbnum resolved bname cuser st =
     (if \<not> resolved then Exits 1
      else Returns (case find (\<lambda>i. open_board cuser (bc_list st ! i) \<and> same_board bname (bc_list st ! i)) [0..<bc_numboards st] of
             None \<Rightarrow> 0 | Some i \<Rightarrow> i + 1))"

definition getbnum2 :: "int option \<Rightarrow> boards \<Rightarrow> int" where
  \<comment> \<open>the distance of the pointer from the table's start\<close>
  "getbnum2 bp st =
     (case bp of None \<Rightarrow> 0 | Some i \<Rightarrow> if int (bc_numboards st) < i + 1 \<or> i + 1 \<le> 0 then 0 else i + 1)"

fun apply_loop_boards :: "files \<Rightarrow> ('s \<Rightarrow> boardheader \<Rightarrow> 's \<times> int) \<Rightarrow> userec \<Rightarrow> boardheader list \<Rightarrow> 's \<Rightarrow> 's \<times> int" where
  "apply_loop_boards fs func cuser [] s = (s, 0)"
| "apply_loop_boards fs func cuser (b # bs) s =
     (if open_board cuser b
      then if flagged (bh_flag b) BOARD_CLUB_FLAG \<and> flagged (bh_flag b) BOARD_READ_FLAG
              \<and> \<not> chkBM (Some b) (Some cuser) \<and> \<not> isclubmember fs (cstr (pw_userid cuser)) (cstr (bh_filename b))
           then apply_loop_boards fs func cuser bs s
           else (case func s b of (s, r) \<Rightarrow> if r = QUIT then (s, QUIT) else apply_loop_boards fs func cuser bs s)
      else apply_loop_boards fs func cuser bs s)"

definition apply_boards :: "bool \<Rightarrow> files \<Rightarrow> ('s \<Rightarrow> boardheader \<Rightarrow> 's \<times> int) \<Rightarrow> userec \<Rightarrow> boards \<Rightarrow> 's \<Rightarrow> ('s \<times> int) outcome" where
  "apply_boards resolved fs func cuser st s =
     (if \<not> resolved then Exits 1 else Returns (apply_loop_boards fs func cuser (take (bc_numboards st) (bc_list st)) s))"

definition counted_in :: "user_info \<Rightarrow> bool" where
  "counted_in u \<longleftrightarrow> ui_active u \<noteq> 0 \<and> ui_pid u \<noteq> 0 \<and> ui_currbrdnum u \<noteq> 0"

definition bonlinesync :: "int \<Rightarrow> user_info list \<Rightarrow> boards \<Rightarrow> boards" where
  "bonlinesync now uinfo st =
     (if now - bc_inboarduptime st < 300 then st
      else let zeroed = map (\<lambda>i. if i < bc_numboards st then (bc_stat st ! i)\<lparr>bs_inboard := 0\<rparr> else bc_stat st ! i) [0..<length (bc_stat st)]
           in st\<lparr>bc_inboarduptime := now,
                 bc_stat := fold (\<lambda>u bs. if counted_in u
                     then let i = nat (ui_currbrdnum u - 1) in bs[i := (bs ! i)\<lparr>bs_inboard := bs_inboard (bs ! i) + 1\<rparr>] else bs) uinfo zeroed\<rparr>)"

definition updatelastpost :: "bool \<Rightarrow> world \<Rightarrow> string \<Rightarrow> userec \<Rightarrow> boards \<Rightarrow> (boards \<times> int) outcome" where
  \<comment> \<open>\<open>cuser\<close> is the global \<^verbatim>\<open>currentuser\<close>\<close>
  "updatelastpost resolved w board cuser st =
     (case getbnum resolved board cuser st of
        Exits n \<Rightarrow> Exits n
      | Returns pos \<Rightarrow>
          if pos = 0 then Returns (st, -1)
          else let s = bc_stat st ! (pos - 1); (lp, tot) = getlastpost w board (bs_lastpost s) (bs_total s)
               in Returns (st\<lparr>bc_stat := (bc_stat st)[pos - 1 := s\<lparr>bs_lastpost := lp, bs_total := tot\<rparr>]\<rparr>, 0))"

definition changeboard :: "bool \<Rightarrow> nat option \<Rightarrow> string \<Rightarrow> string option \<Rightarrow> boards \<Rightarrow> (nat option \<times> string \<times> int) outcome" where
  \<comment> \<open>\<^verbatim>\<open>*bpp\<close> and \<^verbatim>\<open>cboard\<close>, which is only copied to when the board is found\<close>
  "changeboard resolved bpp cboard board st =
     (case board of None \<Rightarrow> Returns (bpp, cboard, -1)
      | Some board \<Rightarrow>
          (case getbcache resolved board st of
             Exits n \<Rightarrow> Exits n
           | Returns None \<Rightarrow> Returns (None, cboard, -1)
           | Returns (Some i) \<Rightarrow> Returns (Some i, board, 0)))"

section \<open>Club members and banned users\<close>

definition BMLOG_DENYPOST :: nat where "BMLOG_DENYPOST = 13"
definition BMLOG_UNDENY :: nat where "BMLOG_UNDENY = 14"
definition BMLOG_ADDCLUB :: nat where "BMLOG_ADDCLUB = 15"
definition BMLOG_DELCLUB :: nat where "BMLOG_DELCLUB = 16"

datatype notice =
    Reported string string string
  | Posted string string string
  | Mailed string string string
  | Logged string string nat

definition entry_line :: "string \<Rightarrow> string \<Rightarrow> bool" where
  \<comment> \<open>\<open>club_do_add_equal\<close> and \<open>deny_do_add_eqaul\<close>: the line starts with the name and a blank\<close>
  "entry_line name buf \<longleftrightarrow> length name < LINE_BUFSIZE \<and> length name < length buf \<and> buf ! length name = SPC \<and> take (length name) buf = name"

definition club_line :: "string \<Rightarrow> string \<Rightarrow> tm \<Rightarrow> string \<Rightarrow> string" where
  "club_line user ps t me = take (LINE_BUFSIZE - 1)
     (pad_right 12 user @ '' '' @ pad_right 40 ps @ '' '' @ zpad 4 (1900 + tm_year t) @ ''.'' @ zpad 2 (tm_mon t + 1) @ ''.''
      @ zpad 2 (tm_mday t) @ '' '' @ pad_right 12 me @ [LF])"

definition club_do_add :: "bool \<Rightarrow> int \<Rightarrow> tm \<Rightarrow> string \<Rightarrow> string \<Rightarrow> string \<Rightarrow> string \<Rightarrow> files \<Rightarrow> files \<times> notice list \<times> int" where
  \<comment> \<open>\<open>me\<close> is the user who invites\<close>
  "club_do_add opened pid t me user board ps fs =
     (let (fs', ret) = add_to_file opened pid (setbfile board ''club_users'') (club_line user ps t me) False (Some (entry_line user)) fs
      in if ret < 0 then (fs', [], ret)
         else let title = take (STRLEN - 1) (me @ bytes [0xD1, 0xFB, 0xC7, 0xEB] @ user
                     @ bytes [0xBC, 0xD3, 0xC8, 0xEB, 0xBE, 0xE3, 0xC0, 0xD6, 0xB2, 0xBF, 0xB0, 0xE6] @ board);
                  msg = take 255 (user @ '':'' @ [LF, LF] @ ''    '' @ bytes [0xC4, 0xFA, 0xB1, 0xBB, 0xD1, 0xFB, 0xC7, 0xEB, 0xBC, 0xD3, 0xC8, 0xEB, 0xBE, 0xE3, 0xC0, 0xD6, 0xB2, 0xBF, 0xB0, 0xE6]
                     @ '' '' @ board @ [LF, LF] @ bytes [0xB2, 0xB9, 0xB3, 0xE4, 0xCB, 0xB5, 0xC3, 0xF7, 0xA3, 0xBA] @ ps
                     @ [LF, LF] @ bytes [0xD1, 0xFB, 0xC7, 0xEB, 0xC8, 0xCB] @ '': '' @ me @ [LF])
              in (fs', [Logged me board BMLOG_ADDCLUB, Reported title msg user, Posted ''club'' title msg], 0))"

definition club_del :: "bool \<Rightarrow> int \<Rightarrow> string \<Rightarrow> string \<Rightarrow> string \<Rightarrow> string \<Rightarrow> files \<Rightarrow> (files \<times> notice list \<times> int) run" where
  \<comment> \<open>the line of the list or its start; the file is that of the current board\<close>
  "club_del opened pid me user currboard board fs =
     run_bind (del_from_file opened pid (setbfile currboard ''club_users'') user fs) (\<lambda>(fs', ret).
       Val (if ret < 0 then (fs', [], -1)
            else let title = take (STRLEN - 1) (me @ bytes [0xC8, 0xA1, 0xCF, 0xFB] @ user
                     @ bytes [0xD4, 0xDA, 0xBE, 0xE3, 0xC0, 0xD6, 0xB2, 0xBF, 0xB0, 0xE6] @ board @ bytes [0xB5, 0xC4, 0xC8, 0xA8, 0xC0, 0xFB])
                 in (fs', [Logged me board BMLOG_DELCLUB, Reported title [] user, Posted ''club'' title []], 0)))"

definition DENY_BOARD_MAX :: int where "DENY_BOARD_MAX = 90"
definition DENY_BOARD_MIN :: int where "DENY_BOARD_MIN = 1"
definition BBS_ENOUSR :: int where "BBS_ENOUSR = -8"
definition BBS_EDGUEST :: int where "BBS_EDGUEST = -26"

definition deny_generate :: "files \<Rightarrow> string \<Rightarrow> string \<Rightarrow> string" where
  \<comment> \<open>the reason chosen and the name of the file of reasons; what is put out\<close>
  "deny_generate fs reason file =
     (case fs (take (HOMELEN - 1) (file @ ''.detail'')) of
        None \<Rightarrow> []
      | Some data \<Rightarrow> concat (map (\<lambda>buf. cstr (tl buf))
            (filter (\<lambda>buf. hd buf = NUL \<or> hd buf \<in> set reason) (fgets_all LINE_BUFSIZE data))))"

definition deny_line :: "string \<Rightarrow> string \<Rightarrow> int \<Rightarrow> tm \<Rightarrow> string \<Rightarrow> string" where
  "deny_line userid reason days t me = take (STRLEN - 1)
     (pad_right 12 userid @ '' '' @ pad_right 31 reason @ '' '' @ pad_left 2 (show_int days) @ bytes [0xCC, 0xEC] @ '' ''
      @ zpad 2 (c_mod (tm_year t) 100) @ bytes [0xC4, 0xEA] @ zpad 2 (tm_mon t + 1) @ bytes [0xD4, 0xC2] @ zpad 2 (tm_mday t)
      @ bytes [0xC8, 0xD5, 0xBD, 0xE2] @ '' '' @ pad_right 12 me @ [LF])"

definition deny_text :: "files \<Rightarrow> string \<Rightarrow> string \<Rightarrow> string \<Rightarrow> int \<Rightarrow> tm \<Rightarrow> string \<Rightarrow> string \<Rightarrow> string" where
  "deny_text fs reason userid board days t ps me =
     userid @ bytes [0xD2, 0xF2] @ '':'' @ [LF] @ deny_generate fs reason ''etc/denyboard''
     @ bytes [0x0A, 0xD3, 0xA6, 0xB1, 0xBB, 0xB7, 0xE2, 0xBD, 0xFB] @ board
     @ bytes [0xB0, 0xE6, 0xB7, 0xA2, 0xCE, 0xC4, 0xC8, 0xA8, 0xCF, 0xDE] @ show_int days
     @ bytes [0xCC, 0xEC, 0x0A, 0xC7, 0xEB, 0xD4, 0xDA, 0xB4, 0xA6, 0xB7, 0xA3, 0xC6, 0xDA, 0xC2, 0xFA, 0xBA, 0xF3] @ ''(''
     @ zpad 4 (1900 + tm_year t) @ ''.'' @ zpad 2 (tm_mon t + 1) @ ''.'' @ zpad 2 (tm_mday t) @ ''), '' @ bytes [0xCF, 0xF2] @ me
     @ bytes [0xD0, 0xB4, 0xD0, 0xC5, 0xD2, 0xAA, 0xC7, 0xF3, 0xBD, 0xE2, 0xB3, 0xFD, 0xB4, 0xA6, 0xB7, 0xA3, 0xA1, 0xA3, 0x0A, 0xC8, 0xE7, 0xB2, 0xBB, 0xB7, 0xFE, 0xB1, 0xBE, 0xBE, 0xF6, 0xB6, 0xA8]
     @ '', '' @ bytes [0xBF, 0xC9, 0xD2, 0xD4, 0xC1, 0xAA, 0xCF, 0xB5, 0xB4, 0xA6, 0xB7, 0xA3, 0xBE, 0xF6, 0xB6, 0xA8, 0xC8, 0xCB, 0xBB, 0xF2, 0xD4, 0xDA] @ ''7''
     @ bytes [0xC8, 0xD5, 0xC4, 0xDA, 0xB5, 0xBD] @ ''Appeal'' @ bytes [0xC9, 0xEA, 0xC7, 0xEB, 0xB8, 0xB4, 0xD2, 0xE9, 0xA1, 0xA3, 0x0A]
     @ ''P.S.: '' @ ps @ bytes [0x0A, 0xD6, 0xB4, 0xD0, 0xD0, 0xC8, 0xCB] @ '': '' @ me @ [LF]"

definition deny_do_add ::
  "bool \<Rightarrow> int \<Rightarrow> (int \<Rightarrow> tm) \<Rightarrow> int \<Rightarrow> ucache \<Rightarrow> string \<Rightarrow> string \<Rightarrow> string \<Rightarrow> string \<Rightarrow> string \<Rightarrow> int \<Rightarrow> bool \<Rightarrow> string \<Rightarrow> files
     \<Rightarrow> (files \<times> notice list \<times> int) option" where
  \<comment> \<open>\<^verbatim>\<open>localtime\<close>, the time, the accounts, the user who bans, the reason and the current board; \<open>user\<close> is
     the memory at the pointer. The text goes through a file that is removed again\<close>
  "deny_do_add opened pid ltime now uc me reason currboard board user days change ps fs = do {
     (urec, num) \<leftarrow> getuserec True user no_user uc;
     let userid = cstr (pw_userid urec);
     if num = 0 then Some (fs, [], BBS_ENOUSR)
     else if me = userid then Some (fs, [], BBS_ENOUSR)
     else if userid = ''guest'' then Some (fs, [], BBS_EDGUEST)
     else do {
       let days = (if DENY_BOARD_MAX < days then DENY_BOARD_MAX else days);
       let days = (if days < DENY_BOARD_MIN then DENY_BOARD_MIN else days);
       let t = ltime (now + days * 24 * 60 * 60);
       let (fs', ret) = add_to_file opened pid (setbfile board ''deny_users'') (deny_line userid reason days t me) change (Some (entry_line userid)) fs;
       if ret < 0 then Some (fs', [], ret)
       else do {
         let title = take (STRLEN - 1)
               (if change then bytes [0xD0, 0xDE, 0xB8, 0xC4] @ userid @ bytes [0xD4, 0xDA] @ board @ bytes [0xB0, 0xE6, 0xB5, 0xC4, 0xB7, 0xE2, 0xBD, 0xFB]
                else bytes [0xB7, 0xE2, 0xBD, 0xFB] @ userid @ bytes [0xD4, 0xDA] @ board @ bytes [0xB0, 0xE6, 0xB5, 0xC4, 0xB7, 0xA2, 0xCE, 0xC4, 0xC8, 0xA8, 0xCF, 0xDE]);
         let msg = deny_text fs' reason userid board days t ps me;
         Some (fs', [Posted board title msg, Posted ''Notice'' title msg, Mailed userid title msg, Logged me currboard BMLOG_DENYPOST], 0) } } }"

definition deny_release :: "bool \<Rightarrow> int \<Rightarrow> string \<Rightarrow> string \<Rightarrow> string \<Rightarrow> files \<Rightarrow> (files \<times> notice list) run" where
  "deny_release opened pid me currboard line fs =
     run_bind (del_from_file opened pid (setbfile currboard ''deny_users'') line fs) (\<lambda>(fs', ret).
       Val (if ret \<noteq> 0 then (fs', [])
            else let user = strtok_cut blanks_crlf (take IDLEN line);
                     title = take (STRLEN - 1) (bytes [0xBB, 0xD6, 0xB8, 0xB4] @ user @ bytes [0xD4, 0xDA] @ currboard
                       @ bytes [0xB0, 0xE6, 0xB5, 0xC4, 0xB7, 0xA2, 0xCE, 0xC4, 0xC8, 0xA8, 0xCF, 0xDE]);
                     buf = take 255 (me @ bytes [0xBB, 0xD6, 0xB8, 0xB4] @ user @ bytes [0xD4, 0xDA] @ currboard
                       @ bytes [0xB0, 0xE6, 0xB7, 0xA2, 0xCE, 0xC4, 0xC8, 0xA8, 0xCF, 0xDE] @ ''.'' @ [LF])
                 in (fs', [Logged me currboard BMLOG_UNDENY, Posted currboard title buf, Posted ''Notice'' title buf, Mailed user title buf])))"

section \<open>Names at the start of a line\<close>

definition good_userid :: "string \<Rightarrow> bool" where
  "good_userid u \<longleftrightarrow> u \<noteq> [] \<and> length u \<le> IDLEN \<and> set u \<inter> {SPC, LF, CR, CHR 0x09, CHR '':'', NUL} = {}"

lemma takeWhile_name: "\<forall>c\<in>set u. P c \<Longrightarrow> \<not> P x \<Longrightarrow> takeWhile P (u @ x # r) = u"
  by (induction u) auto

lemma entry_line_split: "entry_line u l \<longleftrightarrow> length u < LINE_BUFSIZE \<and> (\<exists>r. l = u @ SPC # r)"
proof
  assume e: "entry_line u l"
  then have "l = take (length u) l @ l ! length u # drop (Suc (length u)) l"
    by (intro id_take_nth_drop) (simp add: entry_line_def)
  with e show "length u < LINE_BUFSIZE \<and> (\<exists>r. l = u @ SPC # r)" by (auto simp: entry_line_def)
qed (auto simp: entry_line_def)

lemma cstr_name: "NUL \<notin> set u \<Longrightarrow> cstr (u @ SPC # r) = u @ SPC # cstr r"
  unfolding cstr_def by (induction u) auto

lemma dropWhile_name: "u \<noteq> [] \<Longrightarrow> \<not> P (hd u) \<Longrightarrow> dropWhile P (u @ r) = u @ r"
  by (cases u) auto

lemma names_line_entry:
  assumes "good_userid u"
  shows "names_line m (u @ SPC # r) = strcasecmp_eq u m"
proof -
  let ?d = "'': '' @ [LF, CR, CHR 0x09]"
  have u: "u \<noteq> []" "\<forall>c\<in>set u. c \<notin> set ?d" "NUL \<notin> set u" using assms by (auto simp: good_userid_def)
  have "dropWhile (\<lambda>c. c \<in> set ?d) (u @ SPC # cstr r) = u @ SPC # cstr r"
    using u hd_in_set by (intro dropWhile_name) auto
  moreover have "takeWhile (\<lambda>c. c \<notin> set ?d) (u @ SPC # cstr r) = u" using u by (intro takeWhile_name) auto
  moreover have "(case u @ SPC # cstr r of [] \<Rightarrow> None | t \<Rightarrow> Some (takeWhile (\<lambda>c. c \<notin> set ?d) t))
      = Some (takeWhile (\<lambda>c. c \<notin> set ?d) (u @ SPC # cstr r))" by (cases u) auto
  ultimately show ?thesis by (simp only: names_line_def strtok_first_def cstr_name [OF u(3)] option.simps)
qed

lemma member_line_entry:
  assumes "good_userid u"
  shows "member_line m (u @ SPC # r) = strcasecmp_eq m u"
proof -
  have u: "u \<noteq> []" "\<forall>c\<in>set u. c \<notin> set blanks_crlf" "NUL \<notin> set u" "length u \<le> IDLEN"
    using assms by (auto simp: good_userid_def blanks_crlf_def)
  have h: "hd u \<notin> set blanks_crlf" using u(1,2) by auto
  have "take IDLEN (u @ SPC # cstr r) = u @ take (IDLEN - length u) (SPC # cstr r)" using u(4) by simp
  moreover have "takeWhile (\<lambda>c. c \<notin> set blanks_crlf) (u @ take (IDLEN - length u) (SPC # cstr r)) = u"
    using u(2) by (cases "IDLEN - length u") (auto simp: blanks_crlf_def intro!: takeWhile_name)
  moreover have "dropWhile (\<lambda>c. c \<in> set blanks_crlf) (u @ x) = u @ x" for x using u(1) h by (rule dropWhile_name)
  moreover have "takeWhile (\<lambda>c. c \<in> set blanks_crlf) (u @ x) = []" for x using u(1) h by (cases u) auto
  ultimately show ?thesis using cstr_name [OF u(3)] by (simp add: member_line_def strtok_cut_def)
qed

lemma starts_line_entry:
  assumes "good_userid u" "good_userid v"
  shows "starts_line v (u @ SPC # r) \<longleftrightarrow> u = v"
proof
  assume s: "starts_line v (u @ SPC # r)"
  have v: "v \<noteq> []" "SPC \<notin> set v" "LF \<notin> set v" and u: "SPC \<notin> set u" "LF \<notin> set u" using assms by (auto simp: good_userid_def)
  have t: "take (length v) (u @ SPC # r) = v" using s by (simp add: starts_line_def)
  show "u = v"
  proof (cases "length v \<le> length u")
    case True
    then have pre: "v = take (length v) u" using t by simp
    show ?thesis
    proof (cases "length v = length u")
      case False
      then have "length v < length u" using True by simp
      then have "(u @ SPC # r) ! length v \<in> set u" by (simp add: nth_append)
      with s u \<open>length v < length u\<close> show ?thesis by (auto simp: starts_line_def)
    qed (use pre in simp)
  next
    case False
    then have "SPC \<in> set (take (length v) (u @ SPC # r))" by (cases "length v - length u") auto
    with t v show ?thesis by simp
  qed
qed (simp add: starts_line_def)

lemma seek_text:
  assumes "text_file fs f n ls" "n < 80"
  shows "seek_in_file fs f s = list_ex (names_line s) ls"
  using text_file_read [OF assms] assms(1) by (auto simp: seek_in_file_def text_file_def split: option.splits)

lemma member_text:
  assumes "text_file fs (setbfile board ''club_users'') n ls" "n < 256"
  shows "isclubmember fs m board = list_ex (member_line m) ls"
  using text_file_read [OF assms] assms(1) by (auto simp: isclubmember_def text_file_def split: option.splits)

lemma pad_right_entry: "length u \<le> n \<Longrightarrow> \<exists>r. pad_right n u @ SPC # x = u @ SPC # r"
  by (intro exI [of _ "replicate (n - length u) SPC @ x"])
    (simp add: pad_right_def replicate_append_same [symmetric] flip: replicate_Suc)

lemma club_line_entry: "length user \<le> 12 \<Longrightarrow> \<exists>r. club_line user ps t me = user @ SPC # r"
proof -
  assume "length user \<le> 12"
  then obtain r where "pad_right 12 user @ SPC # pad_right 40 ps @ '' '' @ zpad 4 (1900 + tm_year t) @ ''.'' @ zpad 2 (tm_mon t + 1)
      @ ''.'' @ zpad 2 (tm_mday t) @ '' '' @ pad_right 12 me @ [LF] = user @ SPC # r"
    using pad_right_entry by blast
  then have "club_line user ps t me = take (LINE_BUFSIZE - 1) (user @ SPC # r)" by (simp add: club_line_def)
  also have "\<dots> = user @ SPC # take (LINE_BUFSIZE - 2 - length user) r"
    using \<open>length user \<le> 12\<close> by (simp add: LINE_BUFSIZE_def take_Cons' min_def)
  finally show ?thesis by blast
qed

lemma deny_line_entry: "length user \<le> 12 \<Longrightarrow> \<exists>r. deny_line user why days t me = user @ SPC # r"
proof -
  assume "length user \<le> 12"
  then obtain r where "pad_right 12 user @ SPC # pad_right 31 why @ '' '' @ pad_left 2 (show_int days) @ bytes [0xCC, 0xEC] @ '' ''
      @ zpad 2 (c_mod (tm_year t) 100) @ bytes [0xC4, 0xEA] @ zpad 2 (tm_mon t + 1) @ bytes [0xD4, 0xC2] @ zpad 2 (tm_mday t)
      @ bytes [0xC8, 0xD5, 0xBD, 0xE2] @ '' '' @ pad_right 12 me @ [LF] = user @ SPC # r"
    using pad_right_entry by blast
  then have "deny_line user why days t me = take (STRLEN - 1) (user @ SPC # r)" by (simp add: deny_line_def)
  also have "\<dots> = user @ SPC # take (STRLEN - 2 - length user) r"
    using \<open>length user \<le> 12\<close> by (simp add: STRLEN_def take_Cons' min_def)
  finally show ?thesis by blast
qed

lemma text_file_other: "fs' file = fs file \<Longrightarrow> text_file fs' file n ls = text_file fs file n ls"
  by (simp add: text_file_def)

section \<open>Rights read and changed\<close>

lemma flagged_OR: "flagged f (a OR b) \<longleftrightarrow> flagged f a \<or> flagged f b"
  by (simp add: flagged_def bit.conj_disj_distrib or_eq_0_iff)

lemma HAS_PERM2_flagged: "HAS_PERM2 x f \<longleftrightarrow> x = 0 \<or> flagged f x"
  by (simp add: HAS_PERM2_def flagged_def)

fun visit_boards :: "('s \<Rightarrow> boardheader \<Rightarrow> 's \<times> int) \<Rightarrow> boardheader list \<Rightarrow> 's \<Rightarrow> 's \<times> int" where
  "visit_boards func [] s = (s, 0)"
| "visit_boards func (b # bs) s = (let (s, r) = func s b in if r = QUIT then (s, QUIT) else visit_boards func bs s)"

lemma apply_loop_boards_visit:
  "apply_loop_boards fs func cuser bs s = visit_boards func (filter (\<lambda>b. hasreadperm fs (Some cuser) (Some b)) bs) s"
  by (induction bs arbitrary: s)
    (auto simp: hasreadperm_def open_board_def flagged_OR HAS_PERM2_flagged split: prod.splits)

text \<open>C10: \<open>apply_boards\<close>, behind every list of boards, calls the function on exactly the boards of
  the table that \<open>hasreadperm\<close> lets the user read, in their order, and stops after the first call
  that returns \<open>QUIT\<close>: the two copies of the test agree.\<close>
theorem apply_boards_readable:
  "apply_boards resolved fs func cuser st s =
     (if resolved
      then Returns (visit_boards func (filter (\<lambda>b. hasreadperm fs (Some cuser) (Some b)) (take (bc_numboards st) (bc_list st))) s)
      else Exits 1)"
  by (simp add: apply_boards_def apply_loop_boards_visit)

subsection \<open>Files that differ in one list\<close>

lemma last_show_int: "isdigit (last (show_int i))" "show_int i \<noteq> []"
proof -
  have "isdigit (last (nat_digits n))" for n by (rule nat_digits_isdigit [of _ n]) simp
  then show "isdigit (last (show_int i))" "show_int i \<noteq> []" by (simp_all add: show_int_def)
qed

lemma setbfile_inj:
  "setbfile a ''deny_users'' = setbfile b ''deny_users'' \<longleftrightarrow> a = b"
  "setbfile a ''club_users'' = setbfile b ''club_users'' \<longleftrightarrow> a = b"
  "setbfile a ''deny_users'' \<noteq> setbfile b ''club_users''" "setbfile a ''club_users'' \<noteq> setbfile b ''deny_users''"
proof -
  have "a @ ''/deny_users'' \<noteq> b @ ''/club_users''" for a b :: string
    using append_eq_append_conv [of "''/deny_users''" "''/club_users''" a b] by simp
  then show "setbfile a ''deny_users'' \<noteq> setbfile b ''club_users''" "setbfile a ''club_users'' \<noteq> setbfile b ''deny_users''"
    by (fastforce simp: setbfile_def)+
qed (simp_all add: setbfile_def)

lemma setbfile_temp:
  "setbfile a ''deny_users'' \<noteq> f @ ''.'' @ show_int pid" "setbfile a ''club_users'' \<noteq> f @ ''.'' @ show_int pid"
proof -
  have "last (setbfile a ''deny_users'') = CHR ''s''" "last (setbfile a ''club_users'') = CHR ''s''"
    by (simp_all add: setbfile_def)
  moreover have "last (f @ ''.'' @ show_int pid) \<noteq> CHR ''s''" using last_show_int [of pid] by (auto simp: isdigit_def byte_def)
  ultimately show "setbfile a ''deny_users'' \<noteq> f @ ''.'' @ show_int pid" "setbfile a ''club_users'' \<noteq> f @ ''.'' @ show_int pid"
    by metis+
qed

lemma add_to_file_opened:
  assumes "add_to_file opened pid file str overwrite equal fs = (fs', 0)"
  shows "opened" "length file + length (show_int pid) < HOMELEN - 1"
proof -
  have "snd (add_to_file opened pid file str overwrite equal fs) = -1"
    if "\<not> opened \<or> HOMELEN \<le> length (file @ ''.'' @ show_int pid)"
    using that by (simp only: add_to_file_def Let_def if_True disj_comms snd_conv)
  moreover have "snd (add_to_file opened pid file str overwrite equal fs) = 0" using assms by simp
  ultimately have "\<not> (\<not> opened \<or> HOMELEN \<le> length (file @ ''.'' @ show_int pid))" by linarith
  then show "opened" "length file + length (show_int pid) < HOMELEN - 1" by (simp_all add: HOMELEN_def)
qed

lemma add_to_file_written:
  assumes "add_to_file opened pid file str overwrite (Some eq) fs = (fs', 0)" "text_file fs file n ls" "n < LINE_BUFSIZE"
  obtains (new) "\<forall>l\<in>set ls. \<not> eq l" "fs' = fs(file @ ''.'' @ show_int pid := None, file \<mapsto> concat ls @ str)"
  | (old) ls1 l ls2 where "overwrite" "ls = ls1 @ l # ls2" "eq l"
      "fs' = fs(file @ ''.'' @ show_int pid := None, file \<mapsto> concat ls1 @ str @ concat ls2)"
proof -
  note o = add_to_file_opened [OF assms(1)]
  show ?thesis
  proof (cases "\<exists>l\<in>set ls. eq l")
    case False
    then have a: "\<forall>l\<in>set ls. \<not> eq l" by blast
    show ?thesis using add_to_file_absent [OF assms(2,3) a o, of str overwrite] assms(1) by (intro new [OF a]) simp
  next
    case True
    obtain ls1 l ls2 where s: "ls = ls1 @ l # ls2" "eq l" "\<forall>l\<in>set ls1. \<not> eq l"
      using split_list_first_prop [OF True] by blast
    note p = add_to_file_present [OF assms(2) [unfolded s(1)] assms(3) s(3,2) o, of str overwrite]
    from p assms(1) have w: "overwrite" by (cases overwrite) (simp_all add: BBS_ELEXIST_def)
    from p assms(1) w show ?thesis by (intro old [OF w s(1,2)]) simp
  qed
qed

lemma list_rights_other:
  assumes "fs' = fs(file @ ''.'' @ show_int pid := None, file := d)"
  shows "file = setbfile board ''deny_users'' \<Longrightarrow> isclubmember fs' m b = isclubmember fs m b"
    "file = setbfile board ''deny_users'' \<Longrightarrow> b \<noteq> board \<Longrightarrow> seek_in_file fs' (setbfile b ''deny_users'') s = seek_in_file fs (setbfile b ''deny_users'') s"
    "file = setbfile board ''club_users'' \<Longrightarrow> b \<noteq> board \<Longrightarrow> isclubmember fs' m b = isclubmember fs m b"
    "file = setbfile board ''club_users'' \<Longrightarrow> seek_in_file fs' (setbfile b ''deny_users'') s = seek_in_file fs (setbfile b ''deny_users'') s"
  using assms by (simp_all add: isclubmember_def seek_in_file_def setbfile_inj setbfile_temp [simplified])

lemma add_to_file_ret: "add_to_file opened pid file str overwrite equal fs = (fs', ret) \<Longrightarrow> ret \<le> 0"
  by (auto simp: add_to_file_def Let_def BBS_ELEXIST_def split: if_splits prod.splits)

lemma list_put_seek:
  assumes "add_to_file opened pid file line overwrite (Some (entry_line u)) fs = (fs', 0)"
    "text_file fs file n ls" "n < LINE_BUFSIZE" "text_line n line" "line = u @ SPC # r" "\<And>r. p (u @ SPC # r) = q"
  shows "\<exists>ls'. text_file fs' file n ls' \<and> (list_ex p ls' \<longleftrightarrow> list_ex p ls \<or> q)
    \<and> fs' = fs(file @ ''.'' @ show_int pid := None, file := fs' file)"
  using assms(1-3)
proof (cases rule: add_to_file_written)
  case new
  have "text_file fs' file n (ls @ [line])"
    using assms(2,4) new by (simp add: text_file_def)
  then show ?thesis using assms(5,6) new by (intro exI [of _ "ls @ [line]"]) auto
next
  case (old ls1 l ls2)
  then obtain r' where l: "l = u @ SPC # r'" by (auto simp: entry_line_split)
  have "text_file fs' file n (ls1 @ line # ls2)"
    using assms(2,4) old by (simp add: text_file_def)
  then show ?thesis using assms(5,6) old l by (intro exI [of _ "ls1 @ line # ls2"]) auto
qed

lemma deny_do_add_writes:
  assumes "deny_do_add opened pid ltime now uc me reason currboard board user days change ps fs = Some (fs', ns, 0)"
    "getuserec True user no_user uc = Some (urec, num)"
  defines "d \<equiv> max DENY_BOARD_MIN (min DENY_BOARD_MAX days)"
  shows "add_to_file opened pid (setbfile board ''deny_users'') (deny_line (cstr (pw_userid urec)) reason d (ltime (now + d * 24 * 60 * 60)) me)
      change (Some (entry_line (cstr (pw_userid urec)))) fs = (fs', 0)"
proof -
  have d: "(let d = (if DENY_BOARD_MAX < days then DENY_BOARD_MAX else days) in if d < DENY_BOARD_MIN then DENY_BOARD_MIN else d) = d"
    by (simp add: d_def Let_def DENY_BOARD_MIN_def DENY_BOARD_MAX_def)
  obtain fs1 ret where a: "add_to_file opened pid (setbfile board ''deny_users'') (deny_line (cstr (pw_userid urec)) reason d (ltime (now + d * 24 * 60 * 60)) me)
      change (Some (entry_line (cstr (pw_userid urec)))) fs = (fs1, ret)" by fastforce
  have "fs1 = fs' \<and> 0 \<le> ret"
    using assms(1,2) d a
    by (simp add: deny_do_add_def Let_def BBS_ENOUSR_def BBS_EDGUEST_def split: if_splits)
  with a add_to_file_ret [OF a] show ?thesis by simp
qed

text \<open>C14: an entry on a board's list of banned users, new or changed, takes the right to post on that
  board from the user banned, whose name is compared without regard to case, and changes no other
  user's right and no right on another board, whatever the rest of the list.\<close>
theorem ban_blocks_posting:
  assumes "deny_do_add opened pid ltime now uc me reason currboard board user days change ps fs = Some (fs', ns, 0)"
    "getuserec True user no_user uc = Some (urec, num)" "good_userid (cstr (pw_userid urec))"
    "text_file fs (setbfile board ''deny_users'') 79 ls"
    "d = max DENY_BOARD_MIN (min DENY_BOARD_MAX days)"
    "text_line 79 (deny_line (cstr (pw_userid urec)) reason d (ltime (now + d * 24 * 60 * 60)) me)"
  shows "haspostperm fs' (Some v) (Some b) \<longleftrightarrow> haspostperm fs (Some v) (Some b)
    \<and> \<not> (cstr (bh_filename b) = board \<and> strcasecmp_eq (cstr (pw_userid urec)) (cstr (pw_userid v)))"
proof -
  let ?u = "cstr (pw_userid urec)" and ?v = "cstr (pw_userid v)" and ?f = "setbfile board ''deny_users''"
  note w = deny_do_add_writes [OF assms(1,2), folded assms(5)]
  have "length ?u \<le> 12" using assms(3) by (simp add: good_userid_def IDLEN_def)
  then obtain r where r: "deny_line ?u reason d (ltime (now + d * 24 * 60 * 60)) me = ?u @ SPC # r" using deny_line_entry by blast
  obtain ls' where ls': "text_file fs' ?f 79 ls'" "list_ex (names_line ?v) ls' \<longleftrightarrow> list_ex (names_line ?v) ls \<or> strcasecmp_eq ?u ?v"
    "fs' = fs(?f @ ''.'' @ show_int pid := None, ?f := fs' ?f)"
    using list_put_seek [OF w assms(4) _ assms(6) r, of "names_line ?v"] names_line_entry [OF assms(3)]
    by (auto simp: LINE_BUFSIZE_def)
  have "seek_in_file fs' ?f ?v \<longleftrightarrow> seek_in_file fs ?f ?v \<or> strcasecmp_eq ?u ?v"
    using seek_text [OF ls'(1)] seek_text [OF assms(4)] ls'(2) by simp
  moreover have "isclubmember fs' m c = isclubmember fs m c" for m c using list_rights_other(1) [OF ls'(3)] by blast
  moreover have "c \<noteq> board \<Longrightarrow> seek_in_file fs' (setbfile c ''deny_users'') ?v = seek_in_file fs (setbfile c ''deny_users'') ?v" for c
    using list_rights_other(2) [OF ls'(3)] by blast
  ultimately show ?thesis by (cases "cstr (bh_filename b) = board") (auto simp: haspostperm_def)
qed

lemma whole_line_unique: "text_line n l \<Longrightarrow> text_line n m \<Longrightarrow> starts_line l m \<Longrightarrow> l = m"
proof -
  assume a: "text_line n l" "text_line n m" "starts_line l m"
  then have m: "m = l @ drop (length l) m" by (metis append_take_drop_id starts_line_def)
  have "drop (length l) m = []"
  proof (rule ccontr)
    assume d: "drop (length l) m \<noteq> []"
    then have "butlast m = l @ butlast (drop (length l) m)" by (metis butlast_append m)
    moreover have "LF \<in> set l" using a(1) by (metis last_in_set text_line_def)
    ultimately show False using a(2) by (simp add: text_line_def)
  qed
  with m show "l = m" by simp
qed

text \<open>C15: releasing a user by the line that banned him restores everybody's right to post on
  every board, also when that line was the only one, so that the list is empty again.\<close>
theorem ban_lifted:
  assumes "deny_do_add opened pid ltime now uc me reason currboard board user days False ps fs = Some (fs', ns, 0)"
    "getuserec True user no_user uc = Some (urec, num)" "good_userid (cstr (pw_userid urec))"
    "text_file fs (setbfile board ''deny_users'') 79 ls"
    "d = max DENY_BOARD_MIN (min DENY_BOARD_MAX days)"
    "line = deny_line (cstr (pw_userid urec)) reason d (ltime (now + d * 24 * 60 * 60)) me" "text_line 79 line"
  shows "\<exists>fs'' ns'. deny_release True pid me board line fs' = Val (fs'', ns') \<and> ns' \<noteq> []
    \<and> (\<forall>v b. haspostperm fs'' v b = haspostperm fs v b)"
proof -
  let ?u = "cstr (pw_userid urec)" and ?f = "setbfile board ''deny_users''" and ?t = "setbfile board ''deny_users'' @ ''.'' @ show_int pid"
  note w = deny_do_add_writes [OF assms(1,2), folded assms(5), folded assms(6)]
  have "length ?u \<le> 12" using assms(3) by (simp add: good_userid_def IDLEN_def)
  then obtain r where r: "line = ?u @ SPC # r" using deny_line_entry assms(6) by blast
  have n: "\<forall>l\<in>set ls. \<not> entry_line ?u l" "fs' = fs(?t := None, ?f \<mapsto> concat ls @ line)"
    using w assms(4) by (rule add_to_file_written; simp add: LINE_BUFSIZE_def)+
  have short: "length ?t < HOMELEN" using add_to_file_opened [OF w] by (simp add: HOMELEN_def)
  have t: "text_file fs' ?f 79 (ls @ line # [])" using n(2) assms(4,7) by (simp add: text_file_def)
  have "entry_line ?u line" using assms(3) r by (auto simp: entry_line_split good_userid_def IDLEN_def LINE_BUFSIZE_def)
  then have f: "\<forall>l\<in>set ls. \<not> starts_line line l"
    using n(1) whole_line_unique [OF assms(7)] assms(4) by (auto simp: text_file_def list_all_iff)
  have s: "starts_line line line" by (simp add: starts_line_def)
  have "length line < 1024" using assms(7) by (simp add: text_line_def)
  from del_from_file_present [OF t _ f s _ this refl, of True pid] short
  obtain fs'' where e: "del_from_file True pid ?f line fs' = Val (fs'', 0)"
    "fs'' = (if concat ls = [] then fs'(?t \<mapsto> [], ?f := None) else fs'(?t := None, ?f \<mapsto> concat ls))" by simp
  have ls: "list_all (text_line 79) ls" using assms(4) by (simp add: text_file_def)
  have "seek_in_file fs'' ?f v = seek_in_file fs ?f v" for v
  proof -
    have "text_file fs'' ?f 79 ls" using e(2) ls by (intro text_file_concat) simp_all
    then show ?thesis using seek_text assms(4) by simp
  qed
  moreover have o: "p \<noteq> ?f \<Longrightarrow> p \<noteq> ?t \<Longrightarrow> fs'' p = fs p" for p using e(2) n(2) by simp
  have "isclubmember fs'' m c = isclubmember fs m c" for m c
    using o [of "setbfile c ''club_users''"] by (simp add: isclubmember_def setbfile_inj setbfile_temp [simplified])
  moreover have "c \<noteq> board \<Longrightarrow> seek_in_file fs'' (setbfile c ''deny_users'') v = seek_in_file fs (setbfile c ''deny_users'') v" for c v
    using o [of "setbfile c ''deny_users''"] by (simp add: seek_in_file_def setbfile_inj setbfile_temp [simplified])
  ultimately have "seek_in_file fs'' (setbfile c ''deny_users'') v = seek_in_file fs (setbfile c ''deny_users'') v"
    "isclubmember fs'' m c = isclubmember fs m c" for c v m by (cases "c = board"; simp)+
  then have "haspostperm fs'' v b = haspostperm fs v b" for v b by (auto simp: haspostperm_def split: option.splits)
  then show ?thesis using e(1) by (simp add: deny_release_def Let_def)
qed

text \<open>C16: inviting a user into a club makes exactly him a member, of that club only, and leaves the
  list as it is when he is one already.\<close>
theorem club_invitation:
  assumes "club_do_add True pid t me user board ps fs = (fs', ns, ret)" "good_userid user"
    "text_file fs (setbfile board ''club_users'') 255 ls" "text_line 255 (club_line user ps t me)"
    "length (setbfile board ''club_users'') + length (show_int pid) < HOMELEN - 1"
  shows "(ret = 0 \<or> ret = BBS_ELEXIST)
    \<and> (isclubmember fs' m c \<longleftrightarrow> isclubmember fs m c \<or> c = board \<and> strcasecmp_eq m user)"
proof -
  let ?f = "setbfile board ''club_users''"
  obtain fs1 ret1 where a1: "add_to_file True pid ?f (club_line user ps t me) False (Some (entry_line user)) fs = (fs1, ret1)" by fastforce
  have "fs1 = fs' \<and> ret1 = ret"
    using assms(1) a1 add_to_file_ret [OF a1] by (simp add: club_do_add_def Let_def split: if_splits)
  with a1 have a: "add_to_file True pid ?f (club_line user ps t me) False (Some (entry_line user)) fs = (fs', ret)" by simp
  have len: "length user \<le> 12" using assms(2) by (simp add: good_userid_def IDLEN_def)
  then obtain r where r: "club_line user ps t me = user @ SPC # r" using club_line_entry by blast
  show ?thesis
  proof (cases "\<exists>l\<in>set ls. entry_line user l")
    case True
    obtain ls1 l ls2 where s: "ls = ls1 @ l # ls2" "entry_line user l" "\<forall>l\<in>set ls1. \<not> entry_line user l"
      using split_list_first_prop [OF True] by blast
    have e: "ret = BBS_ELEXIST" "fs' = fs(?f @ ''.'' @ show_int pid := None)"
      using add_to_file_present [OF assms(3) [unfolded s(1)] _ s(3,2) TrueI assms(5), of "club_line user ps t me" False] a
      by (simp_all add: LINE_BUFSIZE_def)
    have "isclubmember fs' m c = isclubmember fs m c" using e(2) by (simp add: isclubmember_def setbfile_temp [simplified])
    moreover have "isclubmember fs m board" if "strcasecmp_eq m user"
      using that member_text [OF assms(3)] s(1,2) member_line_entry [OF assms(2), of m] by (auto simp: entry_line_split)
    ultimately show ?thesis using e(1) by auto
  next
    case False
    then have n: "\<forall>l\<in>set ls. \<not> entry_line user l" by blast
    have w: "ret = 0"
      using add_to_file_absent [OF assms(3) _ n TrueI assms(5), of "club_line user ps t me" False] a by (simp add: LINE_BUFSIZE_def)
    with a have "add_to_file True pid ?f (club_line user ps t me) False (Some (entry_line user)) fs = (fs', 0)" by simp
    from list_put_seek [OF this assms(3) _ assms(4) r, of "member_line m" "strcasecmp_eq m user"] member_line_entry [OF assms(2)]
    obtain ls' where ls': "text_file fs' ?f 255 ls'" "list_ex (member_line m) ls' \<longleftrightarrow> list_ex (member_line m) ls \<or> strcasecmp_eq m user"
      "fs' = fs(?f @ ''.'' @ show_int pid := None, ?f := fs' ?f)"
      by (auto simp: LINE_BUFSIZE_def)
    have "c \<noteq> board \<Longrightarrow> isclubmember fs' m c = isclubmember fs m c" using list_rights_other(3) [OF ls'(3)] by blast
    moreover have "isclubmember fs' m board \<longleftrightarrow> isclubmember fs m board \<or> strcasecmp_eq m user"
      using member_text [OF ls'(1)] member_text [OF assms(3)] ls'(2) by simp
    ultimately show ?thesis using w by (cases "c = board") auto
  qed
qed

section \<open>Numbers of articles\<close>





section \<open>Headers in the index of a board\<close>

definition fh_ok :: "fileheader \<Rightarrow> bool" where
  "fh_ok fh \<longleftrightarrow> length (fh_filename fh) = 72 \<and> length (fh_owner fh) = 80 \<and> length (fh_title fh) = 67
     \<and> length (fh_szEraser fh) = 13 \<and> length (fh_accessed fh) = 4 \<and> int_range (fh_timeDeleted fh)"

lemma int_bytes_wrap: "int_bytes (i - 4294967296) = int_bytes i"
proof -
  have d: "(i - 4294967296) div m mod 256 = i div m mod 256" if "m * n * 256 = 4294967296" "0 < m" for m n :: int
  proof -
    have "i - 4294967296 = (- (n * 256)) * m + i" using that(1) by (simp add: algebra_simps)
    then have "(i - 4294967296) div m = - (n * 256) + i div m" using that(2) by (metis div_mult_self3 less_irrefl)
    moreover have "(- (n * 256) + x) mod 256 = x mod 256" for x by (metis mod_mult_self3 mult_minus_left)
    ultimately show ?thesis by metis
  qed
  have "(i - 4294967296) div 256 ^ k mod 256 = i div 256 ^ k mod 256" if "k < 4" for k :: nat
  proof (rule d)
    have "(256 :: int) ^ k * 256 ^ (3 - k) = 256 ^ 3" using that by (simp flip: power_add)
    then show "(256 :: int) ^ k * 256 ^ (3 - k) * 256 = 4294967296" by simp
  qed simp
  then have "k < 4 \<Longrightarrow> char_of (nat ((i - 4294967296) div 256 ^ k mod 256)) = (char_of (nat (i div 256 ^ k mod 256)) :: char)" for k :: nat
    by (rule arg_cong)
  from this [of 0] this [of 1] this [of 2] this [of 3] show ?thesis unfolding int_bytes_def list.map by (simp only: numeral_less_iff zero_less_numeral one_less_numeral_iff semiring_norm simp_thms)
qed

lemma word_of_int_minus_range: "word_of_int (uint n - 4294967296) = (n :: u32)"
proof -
  have "word_of_int (uint n - 4294967296) = (n - word_of_int 4294967296 :: u32)" by (simp only: wi_hom_sub word_of_int_uint flip: wi_hom_sub)
  moreover have "word_of_int 4294967296 = (0 :: u32)" by (subst word_of_int_eq_0_iff) simp
  ultimately show ?thesis by simp
qed

lemma bytes_u32_bytes [simp]: "bytes_u32 (u32_bytes n) = n"
proof (cases "uint n < 2147483648")
  case True
  then have "int_range (uint n)" using uint_ge_0 [of n] unfolding int_range_def by linarith
  then show ?thesis by (simp add: bytes_u32_def u32_bytes_def bytes_int_bytes)
next
  case False
  then have "int_range (uint n - 4294967296)" using uint_bounded [of n] by (simp add: int_range_def)
  then have "bytes_int (int_bytes (uint n)) = uint n - 4294967296"
    using bytes_int_bytes [of "uint n - 4294967296"] by (simp add: int_bytes_wrap)
  then show ?thesis by (simp add: bytes_u32_def u32_bytes_def word_of_int_minus_range)
qed

lemma length_u32_bytes [simp]: "length (u32_bytes n) = 4"
  by (simp add: u32_bytes_def)

lemma length_enc_fileheader [simp]: "fh_ok fh \<Longrightarrow> length (enc_fileheader fh) = FHSIZE"
  by (simp add: enc_fileheader_def fh_ok_def FHSIZE_def)

lemma slice_skip: "length a \<le> off \<Longrightarrow> slice off n (a @ s) = slice (off - length a) n s"
  by (simp add: slice_def)

lemma slice_hit: "length a = n \<Longrightarrow> slice 0 n (a @ s) = a" "length a = n \<Longrightarrow> slice 0 n a = a"
  by (simp_all add: slice_def)

lemma dec_enc_fileheader: "fh_ok fh \<Longrightarrow> dec_fileheader (enc_fileheader fh) = fh"
  by (simp add: dec_fileheader_def enc_fileheader_def fh_ok_def slice_skip slice_hit bytes_int_bytes)

lemma fill_boards_next:
  assumes "calm os" "i < length (bc_list st)" "i < length (bc_stat st)" "named (bc_list st ! i)" "fh_ok (garbage i)"
    "rec_file w (DIR_path (bc_list st ! i)) FHSIZE (rs @ [r, s])"
  shows "bs_nowid (bc_stat (rebuild_brdshm os w garbage st) ! i)
    = (let n = fh_id (dec_fileheader r) + 1 in if n < bh_nowid (bc_list st ! i) then bh_nowid (bc_list st ! i) else n)"
proof -
  let ?f = "DIR_path (bc_list st ! i)"
  have c: "get_num_records True ?f FHSIZE w = Suc (Suc (length rs))"
    using assms(6) rec_file_count [OF assms(6)] by (simp add: get_num_records_def rec_file_def del: concat_append)
  have "get_record os True ?f (enc_fileheader (garbage i)) FHSIZE (int (length rs) + 1) w = ((rs @ [r, s]) ! length rs, 0)"
    using assms(5) by (intro get_record_at [OF assms(1,6)]) simp_all
  then show ?thesis
    using assms(2-4) c by (simp add: rebuild_brdshm_def fill_boards_def filled_stat_def Let_def nth_append add.commute split: prod.splits)
qed

text \<open>A header appended to the index of a board is read back with the same fields.\<close>
theorem header_in_index:
  assumes "calm os" "rec_file w (DIR_path b) FHSIZE rs" "fh_ok fh" "fh_ok old" "FHSIZE \<le> accepted (os_writes os)"
  shows "\<exists>w'. append_record os pid (DIR_path b) (enc_fileheader fh) FHSIZE w = Some (w', 0)
    \<and> dec_fileheader (fst (get_record os True (DIR_path b) (enc_fileheader old) FHSIZE (int (length rs) + 1) w')) = fh"
proof -
  obtain w' where w': "append_record os pid (DIR_path b) (enc_fileheader fh) FHSIZE w = Some (w', 0)"
    "rec_file w' (DIR_path b) FHSIZE (rs @ [enc_fileheader fh])"
    using append_record_list [OF assms(1,2) length_enc_fileheader [OF assms(3)] assms(5)] by blast
  have "get_record os True (DIR_path b) (enc_fileheader old) FHSIZE (int (length rs) + 1) w' = (enc_fileheader fh, 0)"
    using get_record_at [OF assms(1) w'(2) _ length_enc_fileheader [OF assms(4)], of "length rs"] by simp
  with w'(1) dec_enc_fileheader [OF assms(3)] show ?thesis by simp
qed

text \<open>After the cache has been rebuilt, a board whose last article but one is two numbers behind
  the last, as when the one between them was deleted, gives the next article the number the last one
  has: \<open>rebuild_brdshm\<close> reads the last header but one.\<close>
theorem rebuild_repeats_number:
  assumes "calm os" "i < length (bc_list st)" "i < length (bc_stat st)" "named (bc_list st ! i)" "fh_ok (garbage i)"
    "rec_file w (DIR_path (bc_list st ! i)) FHSIZE (rs @ [enc_fileheader x1, enc_fileheader x2])" "fh_ok x1"
    "fh_id x2 = fh_id x1 + 2" "bh_nowid (bc_list st ! i) \<le> fh_id x1 + 1"
  shows "snd (get_nextid2 (Some i) (rebuild_brdshm os w garbage st)) = fh_id x2"
  using fill_boards_next [where garbage = garbage and rs = rs, OF assms(1-6)] assms(7-9)
  by (simp add: get_nextid2_def next_id_def Let_def dec_enc_fileheader not_less [symmetric])

section \<open>Examples\<close>

definition demo_header :: "u32 \<Rightarrow> fileheader" where
  "demo_header n = \<lparr>fh_filename = replicate 72 NUL, fh_id = n, fh_gid = n, fh_owner = replicate 80 NUL, fh_title = replicate 67 NUL,
     fh_szEraser = replicate 13 NUL, fh_level = 0, fh_accessed = replicate 4 NUL, fh_reid = n, fh_timeDeleted = 0\<rparr>"

definition demo_board :: boardheader where
  "demo_board = \<lparr>bh_filename = ''X'' @ replicate 79 NUL, bh_nowid = 0, bh_group = 0, bh_owner = [], bh_BM = [], bh_flag = 0,
     bh_title = [], bh_level = 0, bh_accessed = []\<rparr>"

definition demo_boards :: boards where
  "demo_boards = \<lparr>bc_list = [demo_board], bc_stat = [\<lparr>bs_total = 0, bs_lastpost = 0, bs_inboard = 0, bs_nowid = 0\<rparr>],
     bc_number = 1, bc_numboards = 1, bc_inboarduptime = 0\<rparr>"

lemma demo_header_ok: "fh_ok (demo_header n)" "fh_id (demo_header n) = n"
  by (simp_all add: demo_header_def fh_ok_def int_range_def)

definition demo_index :: "fileheader list \<Rightarrow> world" where
  "demo_index fhs = \<lparr>w_files = [DIR_path demo_board \<mapsto> concat (map enc_fileheader fhs)], w_locks = []\<rparr>"

lemma demo_index_file: "list_all fh_ok fhs \<Longrightarrow> rec_file (demo_index fhs) (DIR_path demo_board) FHSIZE (map enc_fileheader fhs)"
  by (auto simp: demo_index_def rec_file_def list_all_iff) (simp add: FHSIZE_def)

theorem header_in_index_witness:
  "\<exists>w'. append_record (demo_os\<lparr>os_writes := [Done 256]\<rparr>) 1 (DIR_path demo_board) (enc_fileheader (demo_header 9)) FHSIZE (demo_index [demo_header 7]) = Some (w', 0)
    \<and> fh_id (dec_fileheader (fst (get_record (demo_os\<lparr>os_writes := [Done 256]\<rparr>) True (DIR_path demo_board) (enc_fileheader (demo_header 0)) FHSIZE 2 w'))) = 9"
  using header_in_index [of "demo_os\<lparr>os_writes := [Done 256]\<rparr>" "demo_index [demo_header 7]" demo_board "[enc_fileheader (demo_header 7)]" "demo_header 9" "demo_header 0" 1]
    demo_index_file [of "[demo_header 7]"] record_demo(1) demo_header_ok by (force simp: calm_def FHSIZE_def demo_os_def)

theorem rebuild_repeats_number_witness:
  "snd (get_nextid2 (Some 0) (rebuild_brdshm demo_os (demo_index [demo_header 7, demo_header 9]) (\<lambda>_. demo_header 0) demo_boards)) = 9"
  using rebuild_repeats_number [of demo_os 0 demo_boards "\<lambda>_. demo_header 0" "demo_index [demo_header 7, demo_header 9]" "[]" "demo_header 7" "demo_header 9"]
    demo_index_file [of "[demo_header 7, demo_header 9]"] record_demo(1) demo_header_ok
  by (simp add: demo_boards_def named_def demo_board_def)


definition one_cache :: ucache where
  "one_cache = demo_cache\<lparr>uc_userid := [name_buf ''zed''], uc_next := [0], uc_hash := (\<lambda>_. 1), uc_passwd := [demo_rec ''zed'']\<rparr>"

definition demo_tm :: tm where
  "demo_tm = \<lparr>tm_year = 110, tm_mon = 4, tm_mday = 1, tm_hour = 0, tm_min = 0, tm_sec = 0, tm_wday = 6\<rparr>"

definition demo_ban :: string where "demo_ban = deny_line ''zed'' ''A------'' 7 demo_tm ''sysop''"

definition demo_deny :: "files \<Rightarrow> (files \<times> notice list \<times> int) option" where
  "demo_deny fs = deny_do_add True 5 (\<lambda>_. demo_tm) 0 one_cache ''sysop'' ''A------'' ''X'' ''X'' (name_buf ''zed'') 7 False ''ps'' fs"

lemma one_cache_zed: "getuserec True (name_buf ''zed'') no_user one_cache = Some (demo_rec ''zed'', 1)"
  by (simp add: getuserec_def searchuser_def demo_facts one_cache_def demo_cache_def walk.simps [of _ _ "Suc 0"] mem_ncasecmp_def)

lemma demo_rec_id: "cstr (pw_userid (demo_rec ''zed'')) = ''zed''"
  by (simp add: demo_rec_def demo_facts)

lemma zed_good: "good_userid ''zed''" by code_simp

lemma demo_ban_line: "text_line 79 demo_ban" by code_simp

lemma demo_digit: "show_int 5 = ''5''" by code_simp

lemma empty_text_file: "text_file (\<lambda>_. None) f n []" by (simp add: text_file_def)

lemma demo_days: "max DENY_BOARD_MIN (min DENY_BOARD_MAX 7) = 7" by (simp add: DENY_BOARD_MIN_def DENY_BOARD_MAX_def)

lemma demo_denied: "\<exists>fs' ns. demo_deny (\<lambda>_. None) = Some (fs', ns, 0)"
  using add_to_file_absent [OF empty_text_file [of "setbfile ''X'' ''deny_users''" 79], of "entry_line ''zed''" True 5 demo_ban False]
  by (simp add: demo_deny_def deny_do_add_def one_cache_zed demo_rec_id Let_def DENY_BOARD_MIN_def DENY_BOARD_MAX_def
      demo_ban_def LINE_BUFSIZE_def HOMELEN_def demo_digit setbfile_def)

definition demo_user :: "string \<Rightarrow> userec" where
  "demo_user s = (demo_rec s)\<lparr>pw_userlevel := PERM_POST\<rparr>"

lemma demo_user_posts: "haspostperm (\<lambda>_. None) (Some (demo_user s)) (Some demo_board)"
  by (simp add: haspostperm_def demo_user_def HAS_PERM2_def demo_board_def flagged_def seek_in_file_def PERM_POST_def)

theorem ban_blocks_posting_witness:
  "\<exists>fs' ns. demo_deny (\<lambda>_. None) = Some (fs', ns, 0)
    \<and> \<not> haspostperm fs' (Some (demo_user ''zed'')) (Some demo_board)
    \<and> haspostperm fs' (Some (demo_user ''guest'')) (Some demo_board)"
proof -
  obtain fs' ns where d: "demo_deny (\<lambda>_. None) = Some (fs', ns, 0)" using demo_denied by blast
  have i: "cstr (pw_userid (demo_user ''zed'')) = ''zed''" "cstr (pw_userid (demo_user ''guest'')) = ''guest''"
    by (simp_all add: demo_user_def demo_rec_def demo_facts)
  have x: "cstr (bh_filename demo_board) = ''X''" by code_simp
  have n: "\<not> strcasecmp_eq ''zed'' ''guest''" by code_simp
  have h: "haspostperm fs' (Some v) (Some demo_board) \<longleftrightarrow> haspostperm (\<lambda>_. None) (Some v) (Some demo_board)
    \<and> \<not> strcasecmp_eq ''zed'' (cstr (pw_userid v))" for v
    using ban_blocks_posting [OF d [unfolded demo_deny_def] one_cache_zed, of "[]" 7 v demo_board]
      zed_good demo_ban_line empty_text_file demo_days x by (simp add: demo_rec_id demo_ban_def)
  from d h [of "demo_user ''zed''"] h [of "demo_user ''guest''"] i n demo_user_posts show ?thesis
    by (simp add: strcasecmp_eq_def)
qed

theorem ban_lifted_witness:
  "\<exists>fs' ns fs'' ns'. demo_deny (\<lambda>_. None) = Some (fs', ns, 0) \<and> deny_release True 5 ''sysop'' ''X'' demo_ban fs' = Val (fs'', ns')
    \<and> haspostperm fs'' (Some (demo_user ''zed'')) (Some demo_board)"
proof -
  obtain fs' ns where d: "demo_deny (\<lambda>_. None) = Some (fs', ns, 0)" using demo_denied by blast
  from ban_lifted [OF d [unfolded demo_deny_def] one_cache_zed, of "[]" 7 demo_ban]
  obtain fs'' ns' where "deny_release True 5 ''sysop'' ''X'' demo_ban fs' = Val (fs'', ns')"
    "\<forall>v b. haspostperm fs'' v b = haspostperm (\<lambda>_. None) v b"
    using zed_good demo_ban_line empty_text_file demo_days by (auto simp: demo_rec_id demo_ban_def)
  with d demo_user_posts show ?thesis by blast
qed

theorem club_invitation_witness:
  "(let (fs', ns, ret) = club_do_add True 5 demo_tm ''sysop'' ''zed'' ''X'' ''welcome'' (\<lambda>_. None)
    in (ret = 0 \<or> ret = BBS_ELEXIST) \<and> isclubmember fs' ''ZED'' ''X'' \<and> \<not> isclubmember fs' ''guest'' ''X'')"
proof -
  obtain fs' ns ret where a: "club_do_add True 5 demo_tm ''sysop'' ''zed'' ''X'' ''welcome'' (\<lambda>_. None) = (fs', ns, ret)"
    by (rule prod_cases3)
  have l: "text_line 255 (club_line ''zed'' ''welcome'' demo_tm ''sysop'')" by code_simp
  have s: "strcasecmp_eq ''ZED'' ''zed''" "\<not> strcasecmp_eq ''guest'' ''zed''" by code_simp+
  have p: "length (setbfile ''X'' ''club_users'') + length (show_int 5) < HOMELEN - 1" by code_simp
  have e: "\<not> isclubmember (\<lambda>_. None) m c" for m c by (simp add: isclubmember_def)
  note c = club_invitation [OF a zed_good empty_text_file l p]
  have "ret = 0 \<or> ret = BBS_ELEXIST" using c by (rule conjunct1)
  moreover have "isclubmember fs' ''ZED'' ''X''" using c [of "''ZED''" "''X''"] s(1) by (simp only: simp_thms)
  moreover have "\<not> isclubmember fs' ''guest'' ''X''" using c [of "''guest''" "''X''"] s(2) e by (simp only: simp_thms)
  ultimately have "(ret = 0 \<or> ret = BBS_ELEXIST) \<and> isclubmember fs' ''ZED'' ''X'' \<and> \<not> isclubmember fs' ''guest'' ''X''"
    by (intro conjI)
  then show ?thesis by (simp only: a Let_def prod.case simp_thms)
qed

end
