(* ===== verification/Posting.thy ===== *)
theory Posting
  imports Boards
begin

text \<open>
  Articles and mail: \<^verbatim>\<open>lib/post.c\<close> puts an article on a board, \<^verbatim>\<open>lib/mail.c\<close> a mail into a user's box.
  Both find a new name, write a file, append its header to an index (\<open>Records\<close>); a board's article
  also takes a number and brings the cache up to date (\<open>Boards\<close>) and is marked as read for its author
  (\<open>ReadMarks\<close>). What the kernel answers, the time and the random number are arguments; \<open>creat\<close>
  says whether an absent file can be created and \<open>written\<close> what reaches the file of the bytes given to
  a \<^verbatim>\<open>write\<close> whose result is not looked at. Lines of the log are left out.
\<close>

unbundle bit_operations_syntax

section \<open>Articles\<close>

definition FILE_MARKED :: nat where "FILE_MARKED = 0x8"
definition FILE_NOREPLY :: nat where "FILE_NOREPLY = 0x40"

record post_request =
  pr_autopost :: bool
  pr_crosspost :: bool
  pr_userid :: "string option"
  pr_nick :: "string option"
  pr_user :: "userec option"
  pr_bp :: "nat option"
  pr_title :: "string option"
  pr_content :: "string option"
  pr_sig :: int
  pr_ip :: "string option"
  pr_o_fp :: "fileheader option"
  pr_noreply :: bool
  pr_mmark :: bool

definition name_letters :: string where
  "name_letters = ''ZYXWVUTSRQPONMLKJIHGFEDCBA'' @ [NUL]"

function get_fname_loop :: "bool \<Rightarrow> bool \<Rightarrow> string \<Rightarrow> nat \<Rightarrow> files \<Rightarrow> (files \<times> string option) run" where
  \<comment> \<open>\<open>i\<close> only grows: behind the letters come their NUL and what is behind the array\<close>
  "get_fname_loop creat fdopen stem i fs =
     (if length name_letters \<le> i then UB
      else let fname = cstr (stem @ [name_letters ! i])
           in if creat \<and> fs fname = None
              then Val (fs(fname \<mapsto> []), if fdopen then Some fname else None)
              else get_fname_loop creat fdopen stem (i + 1) fs)"
  by pat_completeness auto
termination
  by (relation "measure (\<lambda>(_, _, _, i, _). length name_letters - i)") auto

declare get_fname_loop.simps [simp del]

definition get_fname :: "bool \<Rightarrow> bool \<Rightarrow> int \<Rightarrow> string \<Rightarrow> string \<Rightarrow> nat \<Rightarrow> files \<Rightarrow> (files \<times> string option) run" where
  "get_fname creat fdopen t dir pfx siz fs =
     (let fname = dir @ pfx @ show_int t @ ''. ''
      in if siz \<le> length fname then Val (fs, None)
         else get_fname_loop creat fdopen (butlast fname) (length name_letters - 2) fs)"

definition array_of :: "nat \<Rightarrow> string \<Rightarrow> string" where
  \<comment> \<open>\<^verbatim>\<open>strlcpy\<close> into an array of so many zeros\<close>
  "array_of n s = take (n - 1) s @ replicate (n - length (take (n - 1) s)) NUL"

definition article_head :: "string \<Rightarrow> string \<Rightarrow> string \<Rightarrow> string \<Rightarrow> tm \<Rightarrow> string" where
  "article_head userid nick board title t =
     bytes [0xB7, 0xA2, 0xD0, 0xC5, 0xC8, 0xCB] @ '': '' @ userid @ '' ('' @ nick @ ''), '' @ bytes [0xD0, 0xC5, 0xC7, 0xF8] @ '': '' @ board
     @ bytes [0x0A, 0xB1, 0xEA] @ ''  '' @ bytes [0xCC, 0xE2] @ '': '' @ title @ bytes [0x0A, 0xB7, 0xA2, 0xD0, 0xC5, 0xD5, 0xBE] @ '': ''
     @ BBSNAME @ '' ('' @ getdatestring (\<lambda>_. []) t DATE_ZH @ '')'' @ bytes [0x0A, 0x0A]"

definition article_from :: "nat \<Rightarrow> bool \<Rightarrow> string \<Rightarrow> string" where
  "article_from r crosspost ip =
     bytes [0x0A, 0x1B] @ ''[m'' @ bytes [0x1B] @ ''[1;'' @ pad_left 2 (show_int (31 + int r mod 7)) @ ''m'' @ bytes [0xA1, 0xF9] @ '' ''
     @ (if crosspost then bytes [0xD7, 0xAA, 0xD4, 0xD8] else bytes [0xC0, 0xB4, 0xD4, 0xB4]) @ '':'' @ bytes [0xA1, 0xA4]
     @ BBSNAME @ '' '' @ BBSHOST @ bytes [0xA1, 0xA4] @ ''HTTP [FROM: '' @ take 20 ip @ '']'' @ bytes [0x1B] @ ''[m'' @ bytes [0x0A]"

definition post_author :: "post_request \<Rightarrow> (string \<times> string) option" where
  "post_author pr =
     (case pr_user pr of
        Some u \<Rightarrow> Some (cstr (pw_userid u), cstr (pw_username u))
      | None \<Rightarrow> if pr_autopost pr then (case (pr_userid pr, pr_nick pr) of (Some u, Some n) \<Rightarrow> Some (u, n) | _ \<Rightarrow> None) else None)"

definition article_text :: "files \<Rightarrow> tm \<Rightarrow> nat \<Rightarrow> string \<Rightarrow> string \<Rightarrow> string \<Rightarrow> string \<Rightarrow> string \<Rightarrow> post_request \<Rightarrow> string" where
  "article_text fs t r userid nick board title content pr =
     article_head userid nick board title t @ content
     @ (if 0 < pr_sig pr then add_signature fs userid (pr_sig pr) else [])
     @ (case pr_ip pr of None \<Rightarrow> [] | Some ip \<Rightarrow> article_from r (pr_crosspost pr) ip)"

definition new_header :: "string \<Rightarrow> string \<Rightarrow> string \<Rightarrow> post_request \<Rightarrow> u32 \<Rightarrow> fileheader" where
  "new_header fname userid title pr n =
     (let flags = (if pr_noreply pr then FILE_NOREPLY else 0) OR (if pr_mmark pr then FILE_MARKED else 0)
      in \<lparr>fh_filename = array_of 72 fname, fh_id = n, fh_gid = (case pr_o_fp pr of Some o_fp \<Rightarrow> fh_gid o_fp | None \<Rightarrow> n),
          fh_owner = array_of 80 userid, fh_title = array_of 67 title, fh_szEraser = replicate 13 NUL, fh_level = 0,
          fh_accessed = [char_of flags, NUL, NUL, NUL],
          fh_reid = (case pr_o_fp pr of Some o_fp \<Rightarrow> fh_id o_fp | None \<Rightarrow> n), fh_timeDeleted = 0\<rparr>)"

record post_env =
  pe_os :: os
  pe_pid :: int
  pe_creat :: bool
  pe_fdopen :: bool
  pe_now :: int
  pe_local :: tm
  pe_rand :: nat
  pe_resolved :: bool
  pe_cuser :: userec
  pe_junk :: "nat \<Rightarrow> char"
  pe_rc_open :: bool

definition mark_own :: "post_env \<Rightarrow> string \<Rightarrow> string \<Rightarrow> string \<Rightarrow> world \<Rightarrow> brc \<Rightarrow> (world \<times> brc) run" where
  "mark_own e userid board fname w b =
     run_bind (brc_fcgi_init (pe_junk e) (pe_rc_open e) (w_files w) b userid board) (\<lambda>(fs, b, _).
       run_bind (brc_update (pe_junk e) (pe_rc_open e) fs (brc_addlist (cstr (pw_userid (pe_cuser e))) fname b) userid board) (\<lambda>(fs, b).
         Val (w\<lparr>w_files := fs\<rparr>, b)))"

definition do_post_article ::
  "post_env \<Rightarrow> post_request option \<Rightarrow> world \<Rightarrow> boards \<Rightarrow> brc \<Rightarrow> (world \<times> boards \<times> brc \<times> int) outcome run option" where
  "do_post_article e pr w st b =
     (case pr of None \<Rightarrow> Some (Val (Returns (w, st, b, -1)))
      | Some pr \<Rightarrow>
     (case (pr_title pr, pr_content pr, pr_bp pr, post_author pr) of
        (Some title, Some content, Some bp, Some (userid, nick)) \<Rightarrow>
          (let board = cstr (bh_filename (bc_list st ! bp)); dir = ''boards/'' @ board @ ''/''
           in bindr (Some (get_fname (pe_creat e) (pe_fdopen e) (pe_now e) (take (HOMELEN - 1) dir) ''M.'' HOMELEN (w_files w))) (\<lambda>(fs, name).
                case name of None \<Rightarrow> Some (Val (Returns (w\<lparr>w_files := fs\<rparr>, st, b, -1)))
                | Some fname \<Rightarrow>
                  (let w = w\<lparr>w_files := fs(fname \<mapsto> article_text fs (pe_local e) (pe_rand e) userid nick board title content pr)\<rparr>;
                       (st, n) = get_nextid2 (Some bp) st;
                       fh = new_header (drop (length dir) fname) userid title pr n
                   in bindr (ok (append_record (pe_os e) (pe_pid e) (setwbdir board) (enc_fileheader fh) FHSIZE w)) (\<lambda>(w, _).
                        case updatelastpost (pe_resolved e) w board (pe_cuser e) st of
                          Exits c \<Rightarrow> Some (Val (Exits c))
                        | Returns (st, _) \<Rightarrow>
                            if pr_autopost pr then Some (Val (Returns (w, st, b, 0)))
                            else bindr (Some (mark_own e userid board (cstr (fh_filename fh)) w b)) (\<lambda>(w, b).
                              Some (Val (Returns (w, st, b, 0))))))))
      | _ \<Rightarrow> Some (Val (Returns (w, st, b, -1)))))"

section \<open>An author's own article\<close>

lemma brc_addlist_newer:
  assumes "brc_ok b" "me \<noteq> ''guest''" "brc_ftime f = Some t" "\<forall>s\<in>set (marks b). s < t"
  shows "brc_ok (brc_addlist me f b)" "marks (brc_addlist me f b) = t # take (BRC_MAXNUM - 1) (marks b)"
    "brc_changed (brc_addlist me f b)" "brc_buf (brc_addlist me f b) = brc_buf b" "brc_name (brc_addlist me f b) = brc_name b"
proof -
  have n: "0 < brc_num b" "length (brc_list b) = BRC_MAXNUM" "sorted_wrt (>) (marks b)" "brc_num b \<le> BRC_MAXNUM"
    using assms(1) by (simp_all add: brc_ok_def)
  then obtain x xs where m: "marks b = x # xs" by (cases "marks b") (auto simp: marks_def c_defs)
  then have h: "brc_list b ! 0 = x" using n(1,2) by (cases "brc_list b") (auto simp: marks_def take_Cons')
  have x: "x < t" using m assms(4) by simp
  show "brc_ok (brc_addlist me f b)" using brc_addlist_marks [OF assms(1,2), of f] by blast
  have "marks (brc_addlist me f b) = take BRC_MAXNUM (ins_desc t (marks b))"
    using brc_addlist_marks [OF assms(1,2), of f] assms(3) take_ins_desc [OF n(3), of t] by simp
  then show "marks (brc_addlist me f b) = t # take (BRC_MAXNUM - 1) (marks b)"
    using m x by (simp add: take_Cons' c_defs)
  show "brc_changed (brc_addlist me f b)" "brc_buf (brc_addlist me f b) = brc_buf b" "brc_name (brc_addlist me f b) = brc_name b"
    using assms(2,3) n(1) h x by (simp_all add: brc_addlist_def brc_insert.simps [of t 0] Let_def)
qed

lemma board_marks_facts:
  assumes "brc_records recs d"
  shows "0 < length (board_marks recs board) \<and> length (board_marks recs board) \<le> BRC_MAXNUM
    \<and> (\<forall>t\<in>set (board_marks recs board). int_range t)"
  using assms
proof (induction recs arbitrary: d)
  case (Cons r recs)
  then obtain c e where "brc_rec r c" "brc_records recs e" by auto
  with Cons.IH show ?case by (auto simp: board_marks_def brc_rec_def)
qed (simp add: board_marks_def int_range_def c_defs)

lemma mark_own_marks:
  assumes b: "\<not> brc_changed b" "brc_arrays b" and f: "rc_file (w_files w) userid recs d" "length d \<le> BRC_MAXSIZE - BRC_ITEMSIZE"
    and board: "brc_head board" and s: "sorted_wrt (>) (board_marks recs board)" "\<forall>s\<in>set (board_marks recs board). s < t"
    and t: "int_range t" "brc_ftime fname = Some t" and me: "cstr (pw_userid (pe_cuser e)) \<noteq> ''guest''" and e: "pe_rc_open e"
  shows "\<exists>w' b' o1. mark_own e userid board fname w b = Val (w', b')
    \<and> w' = w\<lparr>w_files := (w_files w)(sethomefile userid ''.boardrc'' \<mapsto> o1)\<rparr>
    \<and> rc_file (w_files w') userid ((board, t # take (BRC_MAXNUM - 1) (board_marks recs board)) # others board recs) o1
    \<and> length o1 \<le> BRC_MAXSIZE"
proof -
  let ?path = "sethomefile userid ''.boardrc''"
  have bl: "length board < BRC_STRLEN" "NUL \<notin> set board" using board by (simp_all add: brc_head_def)
  have "length d \<le> BRC_MAXSIZE" using f(2) by (simp add: c_defs)
  then obtain b1 n where i: "brc_fcgi_init (pe_junk e) True (w_files w) b userid board = Val (w_files w, b1, n)"
    "cstr (brc_name b1) = board" "marks b1 = board_marks recs board" "brc_arrays b1" "brc_num b1 = length (board_marks recs board)"
    using brc_fcgi_init_loads [OF b f(1) _ bl, of "pe_junk e" True] by blast
  have r: "brc_records recs d" using f(1) by (simp add: rc_file_def)
  have ok1: "brc_ok b1" using i(3-5) s(1) board_marks_facts [OF r, of board] by (simp add: brc_ok_def brc_arrays_def)
  define b2 where "b2 = brc_addlist (cstr (pw_userid (pe_cuser e))) fname b1"
  have b2: "brc_ok b2" "marks b2 = t # take (BRC_MAXNUM - 1) (board_marks recs board)" "brc_changed b2"
    "brc_buf b2 = brc_buf b1" "brc_name b2 = brc_name b1"
    using brc_addlist_newer [OF ok1 me t(2)] s(2) i(3) by (simp_all add: b2_def)
  have "brc_open board b2"
    using b2 i(2,4) board t(1) board_marks_facts [OF r, of board] by (auto simp: brc_open_def brc_arrays_def dest: in_set_takeD)
  from brc_update_cut [OF this b2(3) f(1) bl(1), of "pe_junk e"] f(2)
  obtain o1 rest where o1: "brc_records ((board, marks b2) # others board recs) o1" "length (o1 @ rest) = BRC_MAXSIZE"
    "brc_update (pe_junk e) True (w_files w) b2 userid board
      = Val ((w_files w)(?path \<mapsto> o1), b2\<lparr>brc_buf := o1 @ rest, brc_size := length o1, brc_changed := False\<rparr>)"
    by force
  then show ?thesis using i(1) e b2(2) by (simp add: mark_own_def b2_def [symmetric] rc_file_def)
qed

section \<open>Names of articles\<close>

definition article_name :: "int \<Rightarrow> string" where
  "article_name t = ''M.'' @ show_int t @ ''.''"

lemma article_name_no_NUL: "NUL \<notin> set (article_name t)"
proof -
  have "NUL \<notin> set (nat_digits n)" for n using nat_digits_isdigit [of NUL n] by (auto simp: isdigit_def byte_def)
  then show ?thesis by (simp add: article_name_def show_int_def)
qed

lemma get_fname_cases:
  assumes "NUL \<notin> set dir" "length dir + length (article_name t) + 1 < siz"
  defines "stem \<equiv> dir @ article_name t"
  shows "get_fname True True t dir ''M.'' siz fs
    = (if fs (stem @ ''A'') = None then Val (fs(stem @ ''A'' \<mapsto> []), Some (stem @ ''A''))
       else if fs stem = None then Val (fs(stem \<mapsto> []), Some stem) else UB)"
proof -
  have s: "butlast (dir @ ''M.'' @ show_int t @ ''. '') = stem" by (simp add: stem_def article_name_def butlast_append)
  have z: "NUL \<notin> set stem" using assms(1) article_name_no_NUL by (simp add: stem_def)
  have c: "cstr (stem @ ''A'') = stem @ ''A''" "cstr (stem @ [NUL]) = stem" using z by (simp_all add: cstr_id)
  have l: "length name_letters = 27" "name_letters ! 25 = CHR ''A''" "name_letters ! 26 = NUL" by (simp_all add: name_letters_def)
  have "\<not> siz \<le> length (dir @ ''M.'' @ show_int t @ ''. '')" using assms(2) by (simp add: article_name_def)
  then show ?thesis
    using s c l by (simp add: get_fname_def Let_def get_fname_loop.simps [of _ _ _ 25] get_fname_loop.simps [of _ _ _ 26] get_fname_loop.simps [of _ _ _ 27])
qed

text \<open>C3: an article posted to a board on which two were posted in the same second: the suffixes are
  tried in the wrong direction, so only \<^verbatim>\<open>A\<close> and the empty one are, and the name of the third article is
  read from behind the array of letters.\<close>
theorem third_article_in_a_second:
  assumes "pr_title pr \<noteq> None" "pr_content pr \<noteq> None" "pr_bp pr = Some i" "pr_user pr \<noteq> None"
    "board = cstr (bh_filename (bc_list st ! i))" "length board + length (show_int (pe_now e)) + 13 < HOMELEN"
    "pe_creat e" "pe_fdopen e"
    "w_files w (''boards/'' @ board @ ''/M.'' @ show_int (pe_now e) @ ''.A'') \<noteq> None"
    "w_files w (''boards/'' @ board @ ''/M.'' @ show_int (pe_now e) @ ''.'') \<noteq> None"
  shows "do_post_article e (Some pr) w st b = Some UB"
proof -
  let ?dir = "''boards/'' @ board @ ''/''"
  have d: "NUL \<notin> set ?dir" using assms(5) by simp
  have "take (HOMELEN - 1) ?dir = ?dir" using assms(6) by (simp add: HOMELEN_def)
  moreover have "get_fname True True (pe_now e) ?dir ''M.'' HOMELEN (w_files w) = UB"
    using get_fname_cases [OF d, of "pe_now e" HOMELEN "w_files w"] assms(6,9,10) by (simp add: article_name_def)
  ultimately show ?thesis
    using assms(1-4,7,8) by (auto simp: do_post_article_def post_author_def Let_def bindr_def assms(5) [symmetric])
qed
section \<open>What an article changes\<close>

lemma new_header_ok: "fh_ok (new_header fname userid title pr n)"
  by (simp add: new_header_def fh_ok_def array_of_def Let_def int_range_def)

lemma cstr_array_of: "NUL \<notin> set s \<Longrightarrow> 0 < n \<Longrightarrow> cstr (array_of n s) = take (n - 1) s"
proof -
  assume s: "NUL \<notin> set s" "0 < n"
  then have t: "NUL \<notin> set (take (n - 1) s)" by (auto dest: in_set_takeD)
  then show ?thesis by (cases "n - length (take (n - 1) s)") (simp_all add: array_of_def cstr_id del: set_take_subset)
qed

lemma setwbdir_DIR: "setwbdir board = setbfile board DOT_DIR"
  by (simp add: setwbdir_def setbfile_def)

lemma home_boards: "sethomefile u f \<noteq> ''boards/'' @ x"
  by (simp add: sethomefile_def)

lemma article_not_index: "''boards/'' @ board @ ''/'' @ article_name t @ x \<noteq> setwbdir board"
  by (simp add: setwbdir_def article_name_def DOT_DIR_def)

lemma updatelastpost_keeps:
  assumes "updatelastpost True w board u st = Returns (st', r)"
  shows "map bs_nowid (bc_stat st') = map bs_nowid (bc_stat st) \<and> bc_list st' = bc_list st"
proof -
  have "map bs_nowid ((bc_stat st)[k := (bc_stat st ! k)\<lparr>bs_lastpost := x, bs_total := z\<rparr>]) = map bs_nowid (bc_stat st)" for k x z
    by (cases "k < length (bc_stat st)") (simp_all add: map_update list_update_same_conv list_update_beyond)
  with assms show ?thesis
    by (auto simp: updatelastpost_def getbnum_def Let_def split: outcome.splits if_splits prod.splits option.splits)
qed

lemma updatelastpost_returns: "\<exists>st' r. updatelastpost True w board u st = Returns (st', r)"
  by (auto simp: updatelastpost_def getbnum_def Let_def split: option.splits prod.splits)

lemma do_post_article_steps:
  assumes "pr_title pr = Some title" "pr_content pr = Some content" "pr_bp pr = Some i" "post_author pr = Some (userid, nick)"
    "cstr (bh_filename (bc_list st ! i)) = board"
    "get_fname (pe_creat e) (pe_fdopen e) (pe_now e) (take (HOMELEN - 1) (''boards/'' @ board @ ''/'')) ''M.'' HOMELEN (w_files w) = Val (fs, Some fname)"
    "get_nextid2 (Some i) st = (st1, n)" "new_header (drop (length (''boards/'' @ board @ ''/'')) fname) userid title pr n = fh"
    "append_record (pe_os e) (pe_pid e) (setwbdir board) (enc_fileheader fh) FHSIZE
       (w\<lparr>w_files := fs(fname \<mapsto> article_text fs (pe_local e) (pe_rand e) userid nick board title content pr)\<rparr>) = Some (w2, r)"
    "updatelastpost (pe_resolved e) w2 board (pe_cuser e) st1 = Returns (st2, r2)"
  shows "do_post_article e (Some pr) w st b
    = (if pr_autopost pr then Some (Val (Returns (w2, st2, b, 0)))
       else bindr (Some (mark_own e userid board (cstr (fh_filename fh)) w2 b)) (\<lambda>(w, b). Some (Val (Returns (w, st2, b, 0)))))"
  unfolding do_post_article_def
  by (simp only: assms option.case prod.case Let_def bindr_def run.case option.map outcome.case)

record article =
  ar_header :: fileheader
  ar_text :: string

definition published :: "string \<Rightarrow> string \<Rightarrow> string list \<Rightarrow> world \<Rightarrow> article \<Rightarrow> world \<Rightarrow> bool" where
  \<comment> \<open>the file of the article and the index of the board, with its old headers\<close>
  "published board fname rs w a w' \<longleftrightarrow>
     w_files w' (''boards/'' @ board @ ''/'' @ fname) = Some (ar_text a)
     \<and> rec_file w' (setwbdir board) FHSIZE (rs @ [enc_fileheader (ar_header a)])
     \<and> dec_fileheader (enc_fileheader (ar_header a)) = ar_header a"

text \<open>C1: an article with the first name of its second: it is written under that name, its header,
  with the next number of the board, is the last of the index behind the old ones, and the read marks
  of the author, in whatever process they are loaded next, begin with the article's time before the
  59 newest ones; the marks of his other boards are as before.\<close>
theorem article_published:
  assumes env: "calm (pe_os e)" "FHSIZE \<le> accepted (os_writes (pe_os e))" "pe_creat e" "pe_fdopen e" "pe_rc_open e" "pe_resolved e"
      "cstr (pw_userid (pe_cuser e)) \<noteq> ''guest''" "int_range (pe_now e)" "0 \<le> pe_now e"
    and req: "pr_title pr = Some title" "pr_content pr = Some content" "pr_bp pr = Some i" "pr_user pr = Some u" "\<not> pr_autopost pr"
      "userid = cstr (pw_userid u)" "NUL \<notin> set title"
    and board: "board = cstr (bh_filename (bc_list st ! i))" "i < length (bc_stat st)" "brc_head board"
      "length board + length (show_int (pe_now e)) + 13 < HOMELEN"
    and world: "rec_file w (setwbdir board) FHSIZE rs" "w_files w (''boards/'' @ board @ ''/'' @ article_name (pe_now e) @ ''A'') = None"
      "rc_file (w_files w) userid recs d" "length d \<le> BRC_MAXSIZE - BRC_ITEMSIZE"
    and marks: "\<not> brc_changed b" "brc_arrays b" "sorted_wrt (>) (board_marks recs board)" "list_all (\<lambda>s. s < pe_now e) (board_marks recs board)"
  shows "\<exists>w' st' b' fh recs' d'. do_post_article e (Some pr) w st b = Some (Val (Returns (w', st', b', 0)))
    \<and> published board (article_name (pe_now e) @ ''A'') rs w
        \<lparr>ar_header = fh, ar_text = article_text ((w_files w)(''boards/'' @ board @ ''/'' @ article_name (pe_now e) @ ''A'' \<mapsto> []))
            (pe_local e) (pe_rand e) userid (cstr (pw_username u)) board title content pr\<rparr> w'
    \<and> fh_id fh = bs_nowid (bc_stat st ! i) + 1 \<and> bs_nowid (bc_stat st' ! i) = fh_id fh
    \<and> fh_gid fh = (case pr_o_fp pr of None \<Rightarrow> fh_id fh | Some o_fp \<Rightarrow> fh_gid o_fp)
    \<and> cstr (fh_filename fh) = article_name (pe_now e) @ ''A'' \<and> cstr (fh_title fh) = take 66 title
    \<and> rc_file (w_files w') userid recs' d' \<and> board_marks recs' board = pe_now e # take 59 (board_marks recs board)
    \<and> (\<forall>c. c \<noteq> board \<longrightarrow> board_marks recs' c = board_marks recs c)"
proof -
  let ?dir = "''boards/'' @ board @ ''/''" and ?n = "article_name (pe_now e) @ ''A''"
  let ?fs = "(w_files w)(?dir @ ?n \<mapsto> [])"
  let ?text = "article_text ?fs (pe_local e) (pe_rand e) userid (cstr (pw_username u)) board title content pr"
  define w1 where "w1 = w\<lparr>w_files := ?fs(?dir @ ?n \<mapsto> ?text)\<rparr>"
  define fh where "fh = new_header ?n userid title pr (bs_nowid (bc_stat st ! i) + 1)"
  obtain st1 where st1: "get_nextid2 (Some i) st = (st1, bs_nowid (bc_stat st ! i) + 1)" "bs_nowid (bc_stat st1 ! i) = bs_nowid (bc_stat st ! i) + 1"
    "length (bc_stat st1) = length (bc_stat st)"
    using board(2) by (simp add: get_nextid2_def next_id_def Let_def)
  have nul: "NUL \<notin> set ?dir" "NUL \<notin> set ?n" using board(1) article_name_no_NUL by auto
  have len: "length ?n \<le> 71" using board(4) by (simp add: article_name_def HOMELEN_def)
  have dir: "take (HOMELEN - 1) ?dir = ?dir" using board(4) by (simp add: HOMELEN_def)
  have name: "get_fname True True (pe_now e) ?dir ''M.'' HOMELEN (w_files w) = Val (?fs, Some (?dir @ ?n))"
    using get_fname_cases [OF nul(1), of "pe_now e" HOMELEN "w_files w"] board(4) world(2) by (simp add: article_name_def)
  have "rec_file w1 (setwbdir board) FHSIZE rs"
    using world(1) article_not_index [of board "pe_now e" "''A''"] by (simp add: w1_def rec_file_def)
  from append_record_list [OF env(1) this length_enc_fileheader [OF new_header_ok] env(2), of "pe_pid e"]
  obtain w2 where w2: "append_record (pe_os e) (pe_pid e) (setwbdir board) (enc_fileheader fh) FHSIZE w1 = Some (w2, 0)"
    "rec_file w2 (setwbdir board) FHSIZE (rs @ [enc_fileheader fh])" "\<forall>g. g \<noteq> setwbdir board \<longrightarrow> w_files w2 g = w_files w1 g"
    unfolding fh_def by blast
  obtain st2 r where st2: "updatelastpost True w2 board (pe_cuser e) st1 = Returns (st2, r)" using updatelastpost_returns by blast
  have nowid: "bs_nowid (bc_stat st2 ! i) = bs_nowid (bc_stat st ! i) + 1"
    using updatelastpost_keeps [OF st2] st1(2,3) board(2) by (metis length_map nth_map)
  have fn: "cstr (fh_filename fh) = ?n" using nul(2) len by (simp add: fh_def new_header_def cstr_array_of Let_def)
  have rc: "rc_file (w_files w2) userid recs d"
    using world(3) w2(3) home_boards by (simp add: rc_file_def w1_def setwbdir_def sethomefile_def)
  have "brc_ftime ?n = Some (pe_now e)" using env(9) atoi_show_int [of "''.A''" "pe_now e"] by (simp add: article_name_def isdigit_def byte_def)
  from mark_own_marks [OF marks(1,2) rc world(4) board(3) marks(3) _ env(8) this env(7,5)] marks(4)
  obtain w3 b3 o1 where w3: "mark_own e userid board ?n w2 b = Val (w3, b3)"
    "w3 = w2\<lparr>w_files := (w_files w2)(sethomefile userid ''.boardrc'' \<mapsto> o1)\<rparr>"
    "rc_file (w_files w3) userid ((board, pe_now e # take (BRC_MAXNUM - 1) (board_marks recs board)) # others board recs) o1"
    by (auto simp: list_all_iff)
  have run: "do_post_article e (Some pr) w st b = Some (Val (Returns (w3, st2, b3, 0)))"
    using do_post_article_steps [OF req(1-3) _ board(1) [symmetric], of userid "cstr (pw_username u)" e w ?fs "?dir @ ?n" st1
        "bs_nowid (bc_stat st ! i) + 1" fh w2 0 st2 r b] dir name w2(1) st1(1) st2 w3(1) env(3-6) req(4-6) fn
    by (simp add: post_author_def fh_def w1_def bindr_def)
  have "published board ?n rs w \<lparr>ar_header = fh, ar_text = ?text\<rparr> w3"
    using w2(2,3) w3(2) article_not_index [of board "pe_now e" "''A''"] dec_enc_fileheader [OF new_header_ok] home_boards
    by (simp add: published_def rec_file_def w1_def fh_def setwbdir_def sethomefile_def)
  moreover have "fh_id fh = bs_nowid (bc_stat st ! i) + 1" "fh_gid fh = (case pr_o_fp pr of None \<Rightarrow> fh_id fh | Some o_fp \<Rightarrow> fh_gid o_fp)"
    "cstr (fh_title fh) = take 66 title"
    using req(7) by (simp_all add: fh_def new_header_def Let_def cstr_array_of split: option.split)
  moreover have "board_marks ((board, ts) # others board recs) c = (if c = board then ts else board_marks recs c)" for ts c
    by (simp add: board_marks_def map_of_others)
  ultimately show ?thesis using run nowid fn w3(3) by (force simp: c_defs)
qed

section \<open>Mail\<close>

definition MAILBOX_SIZE_SYSOP :: int where "MAILBOX_SIZE_SYSOP = 10000"
definition MAILBOX_SIZE_BM :: int where "MAILBOX_SIZE_BM = 5000"
definition MAILBOX_SIZE_NORMAL :: int where "MAILBOX_SIZE_NORMAL = 2000"
definition MAILBOX_SIZE_LARGE :: int where "MAILBOX_SIZE_LARGE = 10000"
definition MAX_MAIL_HOLD :: int where "MAX_MAIL_HOLD = 20000"
definition MAX_BMMAIL_HOLD :: int where "MAX_BMMAIL_HOLD = 20000"
definition MAX_SYSOPMAIL_HOLD :: int where "MAX_SYSOPMAIL_HOLD = 20000"
definition MAX_POSTRETRY :: nat where "MAX_POSTRETRY = 100"
definition BBS_EBLKLST :: int where "BBS_EBLKLST = -12"
definition BBS_EINTNL :: int where "BBS_EINTNL = -22"
definition BBS_ERMQE :: int where "BBS_ERMQE = -23"

definition getmailboxsize :: "u32 \<Rightarrow> int" where
  "getmailboxsize userlevel =
     (if flagged userlevel PERM_SYSOPS then MAILBOX_SIZE_SYSOP
      else if flagged userlevel PERM_LARGEMAIL then MAILBOX_SIZE_LARGE
      else if flagged userlevel PERM_XEMPT then MAILBOX_SIZE_BM
      else if flagged userlevel PERM_BOARDS then MAILBOX_SIZE_BM
      else if flagged userlevel PERM_REGISTER then MAILBOX_SIZE_NORMAL
      else 15)"

definition getmailboxhold :: "u32 \<Rightarrow> int" where
  "getmailboxhold userlevel =
     (if flagged userlevel PERM_SYSOPS then MAX_SYSOPMAIL_HOLD
      else if flagged userlevel PERM_LARGEMAIL then MAX_SYSOPMAIL_HOLD
      else if flagged userlevel PERM_XEMPT then MAX_BMMAIL_HOLD
      else if flagged userlevel PERM_BOARDS then MAX_BMMAIL_HOLD
      else if flagged userlevel PERM_REGISTER then MAX_MAIL_HOLD
      else MAX_MAIL_HOLD)"

fun pieces :: "nat \<Rightarrow> nat \<Rightarrow> string \<Rightarrow> string list" where
  \<comment> \<open>what \<^verbatim>\<open>fread\<close> of one element gives, again and again, as often as it is complete\<close>
  "pieces 0 sz data = []"
| "pieces (Suc k) sz data = (if sz = 0 \<or> length data < sz then [] else take sz data # pieces k sz (drop sz data))"

definition getmailsize :: "bool \<Rightarrow> bool \<Rightarrow> string \<Rightarrow> string \<Rightarrow> files \<Rightarrow> files \<times> int" where
  \<comment> \<open>whether the cached size is newer than the index, whether files can be opened, the global
     \<^verbatim>\<open>currentuser.userid\<close>, in whose box the sizes are looked up\<close>
  "getmailsize fresh opened me user fs =
     (let index = setmdir user; tmp = take (HOMELEN - 1) (''tmp/'' @ user @ ''.mailsize'')
      in case fs index of
           None \<Rightarrow> (fs, 0)
         | Some data \<Rightarrow>
             if data = [] then (fs, 0)
             else if fresh \<and> opened \<and> (case fs tmp of None \<Rightarrow> False | Some t \<Rightarrow> t \<noteq> []) then (fs, atoi (the (fs tmp)))
             else let mails = (if opened then pieces (length data) FHSIZE data else []);
                      sizes = map (\<lambda>m. case fs (setmfile me (cstr (fh_filename (dec_fileheader m)))) of None \<Rightarrow> 0 | Some t \<Rightarrow> int (length t)) mails;
                      siz = (int (length data) + sum_list sizes) div 1024
                  in (if opened then fs(tmp \<mapsto> show_int siz) else fs, siz))"

definition getmailnum :: "bool \<Rightarrow> string \<Rightarrow> world \<Rightarrow> nat" where
  "getmailnum stat_ok userid w = get_num_records stat_ok (setmdir userid) FHSIZE w"

definition cmpfname :: "string \<Rightarrow> string \<Rightarrow> bool" where
  \<comment> \<open>the record starts with the 13 bytes of the name\<close>
  "cmpfname user ov = strcasecmp_eq user (cstr (take 13 ov))"

definition OVSIZE :: nat where "OVSIZE = 53"

definition next_mail_name :: "string \<Rightarrow> string" where
  "next_mail_name fname =
     (if last fname = CHR ''Z'' then fname @ ''A'' else butlast fname @ [char_of (byte (last fname) + 1)])"

function mail_name :: "bool \<Rightarrow> files \<Rightarrow> string \<Rightarrow> string \<Rightarrow> nat \<Rightarrow> string option" where
  "mail_name creat fs user fname count =
     (if creat \<and> fs (setmfile user fname) = None then Some fname
      else if MAX_POSTRETRY < count then None
      else mail_name creat fs user (next_mail_name fname) (count + 1))"
  by pat_completeness auto
termination
  by (relation "measure (\<lambda>(_, _, _, _, count). MAX_POSTRETRY + 1 - count)") auto

declare mail_name.simps [simp del]

record mail_env =
  me_os :: os
  me_pid :: int
  me_creat :: bool
  me_dir :: bool
  me_fresh :: bool
  me_fopen :: bool
  me_written :: "string \<Rightarrow> string"
  me_now :: int
  me_user :: string

definition mail_header :: "string \<Rightarrow> string \<Rightarrow> string \<Rightarrow> fileheader" where
  "mail_header fname owner title =
     \<lparr>fh_filename = array_of 72 fname, fh_id = 0, fh_gid = 0, fh_owner = array_of 80 owner, fh_title = array_of 67 title,
      fh_szEraser = replicate 13 NUL, fh_level = 0, fh_accessed = replicate 4 NUL, fh_reid = 0, fh_timeDeleted = 0\<rparr>"

definition store_mail :: "mail_env \<Rightarrow> string \<Rightarrow> string \<Rightarrow> string \<Rightarrow> string option \<Rightarrow> string \<Rightarrow> string option \<Rightarrow> world \<Rightarrow> (world \<times> int) option" where
  \<comment> \<open>from the open file on\<close>
  "store_mail e user fname title header text source w = do {
     let path = setmfile user fname;
     let w = w\<lparr>w_files := (w_files w)(path \<mapsto> [])\<rparr>;
     (w, _) \<leftarrow> fb_flock (me_os e) (me_pid e) path LOCK_EX w;
     let out = (case header of None \<Rightarrow> [] | Some h \<Rightarrow> me_written e h) @ me_written e text @ (case source of None \<Rightarrow> [] | Some s \<Rightarrow> me_written e s);
     let w = w\<lparr>w_files := (w_files w)(path \<mapsto> out)\<rparr>;
     (w, _) \<leftarrow> fb_flock (me_os e) (me_pid e) path LOCK_UN w;
     let w = close_fd (me_pid e) path w;
     (w, ret) \<leftarrow> append_record (me_os e) (me_pid e) (setmdir user) (enc_fileheader (mail_header fname (me_user e) title)) FHSIZE w;
     Some (w, if ret = -1 then BBS_EINTNL else 0) }"

definition do_mail_file ::
  "mail_env \<Rightarrow> ucache \<Rightarrow> bool \<Rightarrow> userec \<Rightarrow> string \<Rightarrow> string \<Rightarrow> string option \<Rightarrow> string \<Rightarrow> string option \<Rightarrow> world
     \<Rightarrow> (world \<times> userec \<times> int) run option" where
  \<comment> \<open>whether the directory is there or could be made is \<open>me_dir\<close>; \<open>lookupuser\<close> is a global\<close>
  "do_mail_file e uc ucok lookupuser recv title header text source w =
     bindr (ok (getuserec ucok recv lookupuser uc)) (\<lambda>(lookupuser, num).
       if num = 0 then Some (Val (w, lookupuser, BBS_EINTNL))
       else let user = cstr (pw_userid lookupuser)
            in bindr (search_record (me_os e) (me_pid e) (sethomefile user ''rejects'') (Some (replicate OVSIZE NUL)) OVSIZE
                        (cmpfname (me_user e)) w) (\<lambda>(w, _, hit).
                 if hit \<noteq> 0 then Some (Val (w, lookupuser, BBS_EBLKLST))
                 else let (fs, siz) = getmailsize (me_fresh e) (me_fopen e) (me_user e) user (w_files w); w = w\<lparr>w_files := fs\<rparr>
                      in if getmailboxsize (pw_userlevel lookupuser) * 2 < siz then Some (Val (w, lookupuser, BBS_ERMQE))
                         else if getmailboxhold (pw_userlevel lookupuser) * 2 < int (getmailnum (os_stat (me_os e)) user w)
                         then Some (Val (w, lookupuser, BBS_ERMQE))
                         else if \<not> me_dir e then Some (Val (w, lookupuser, BBS_EINTNL))
                         else case mail_name (me_creat e) fs user (''M.'' @ show_int (me_now e) @ ''.A'') 0 of
                             None \<Rightarrow> Some (Val (w, lookupuser, BBS_EINTNL))
                           | Some fname \<Rightarrow> bindr (ok (store_mail e user fname title header text source w)) (\<lambda>(w, ret).
                               Some (Val (w, lookupuser, ret)))))"

definition mail_file :: "mail_env \<Rightarrow> ucache \<Rightarrow> bool \<Rightarrow> userec \<Rightarrow> string \<Rightarrow> string \<Rightarrow> string \<Rightarrow> world \<Rightarrow> (world \<times> userec \<times> int) run option" where
  "mail_file e uc ucok lookupuser file recv title w =
     bindr (ok (mmap_open (me_os e) (me_pid e) file (fresh_map O_RDONLY) w)) (\<lambda>(w, m, ret).
       if ret < 0 then Some (Val (w, lookupuser, BBS_EINTNL))
       else bindr (Some (mread w m 0 (mm_size m))) (\<lambda>text.
         bindr (do_mail_file e uc ucok lookupuser recv title None text None w) (\<lambda>(w, lookupuser, ret).
           bindr (ok (mmap_close (me_os e) (me_pid e) m w)) (\<lambda>(w, _).
             Some (Val (w, lookupuser, ret))))))"

section \<open>Delivery\<close>

definition reject_list :: "world \<Rightarrow> string \<Rightarrow> string list \<Rightarrow> bool" where
  \<comment> \<open>the records of the users a user takes no mail from\<close>
  "reject_list w user rs \<longleftrightarrow>
     w_files w (sethomefile user ''rejects'') = None \<and> rs = [] \<or> rec_file w (sethomefile user ''rejects'') OVSIZE rs"

lemma search_rejects:
  assumes "calm os" "reject_list w user rs"
  shows "\<exists>w' r. search_record os pid (sethomefile user ''rejects'') rptr OVSIZE (cmpfname me) w
      = Some (Val (w', r, first_hit (cmpfname me) rs)) \<and> w_files w' = w_files w"
proof (cases "rec_file w (sethomefile user ''rejects'') OVSIZE rs")
  case True
  then show ?thesis using search_record_list [OF assms(1) True, of pid rptr "cmpfname me"] by blast
next
  case False
  then have "w_files w (sethomefile user ''rejects'') = None" "rs = []" using assms(2) by (auto simp: reject_list_def)
  then show ?thesis
    by (simp add: search_record_def mmap_open_def mmap_open_fd_def fresh_map_def Let_def first_hit.simps(1))
qed

lemma mail_name_free: "mail_name creat fs user fname count = Some n \<Longrightarrow> fs (setmfile user n) = None"
  by (induction creat fs user fname count rule: mail_name.induct) (subst (asm) (2) mail_name.simps, auto split: if_splits)

lemma mail_name_found:
  assumes "fs (setmfile user ((next_mail_name ^^ k) fname)) = None" "k + count \<le> MAX_POSTRETRY + 1"
  shows "\<exists>n. mail_name True fs user fname count = Some n"
  using assms
proof (induction k arbitrary: fname count)
  case (Suc k)
  then have "\<exists>n. mail_name True fs user (next_mail_name fname) (count + 1) = Some n"
    by (intro Suc.IH) (simp_all add: funpow_swap1)
  with Suc.prems(2) show ?case by (subst mail_name.simps) simp
qed (simp add: mail_name.simps)

lemma getmailsize_files:
  "getmailsize fresh opened me user fs = (fs', s) \<Longrightarrow> f \<noteq> take (HOMELEN - 1) (''tmp/'' @ user @ ''.mailsize'') \<Longrightarrow> fs' f = fs f"
  by (auto simp: getmailsize_def Let_def split: option.splits if_splits)

lemma mail_paths:
  "setmfile u f \<noteq> take (HOMELEN - 1) (''tmp/'' @ x)" "setmdir u \<noteq> take (HOMELEN - 1) (''tmp/'' @ x)"
  by (simp_all add: setmfile_def setmdir_def HOMELEN_def)

lemma mail_header_ok: "fh_ok (mail_header fname owner title)"
  by (simp add: mail_header_def fh_ok_def array_of_def int_range_def)

lemma store_mail_files:
  assumes "calm (me_os e)" "FHSIZE \<le> accepted (os_writes (me_os e))" "me_written e = id" "setmfile user fname \<noteq> setmdir user"
  shows "\<exists>w'. store_mail e user fname title header text source w = Some (w', 0)
    \<and> w_files w' = (w_files w)(setmfile user fname \<mapsto> (case header of None \<Rightarrow> [] | Some h \<Rightarrow> h) @ text @ (case source of None \<Rightarrow> [] | Some s \<Rightarrow> s),
        setmdir user \<mapsto> old_data w (setmdir user) @ enc_fileheader (mail_header fname (me_user e) title))"
proof -
  have lk: "\<exists>w' r. fb_flock (me_os e) (me_pid e) f k u = Some (w', r) \<and> w_files w' = w_files u" for f k u
    using fb_flock_files by blast
  let ?p = "setmfile user fname"
  define out where "out = (case header of None \<Rightarrow> [] | Some h \<Rightarrow> h) @ text @ (case source of None \<Rightarrow> [] | Some s \<Rightarrow> s)"
  obtain w1 r1 where w1: "fb_flock (me_os e) (me_pid e) ?p LOCK_EX (w\<lparr>w_files := (w_files w)(?p \<mapsto> [])\<rparr>) = Some (w1, r1)"
    "w_files w1 = (w_files w)(?p \<mapsto> [])" using lk by fastforce
  obtain w2 r2 where w2: "fb_flock (me_os e) (me_pid e) ?p LOCK_UN (w1\<lparr>w_files := (w_files w1)(?p \<mapsto> out)\<rparr>) = Some (w2, r2)"
    "w_files w2 = (w_files w)(?p \<mapsto> out)" using lk w1(2) by fastforce
  define w3 where "w3 = close_fd (me_pid e) ?p w2"
  have f3: "w_files w3 = (w_files w)(?p \<mapsto> out)" using w2(2) by (simp add: w3_def)
  have l: "length (enc_fileheader (mail_header fname (me_user e) title)) = FHSIZE" by (rule length_enc_fileheader [OF mail_header_ok])
  then have ne: "enc_fileheader (mail_header fname (me_user e) title) \<noteq> []" by (auto simp: FHSIZE_def)
  obtain w4 where w4: "append_record (me_os e) (me_pid e) (setmdir user) (enc_fileheader (mail_header fname (me_user e) title)) FHSIZE w3 = Some (w4, 0)"
    "w_files w4 = (w_files w3)(setmdir user \<mapsto> old_data w3 (setmdir user) @ take FHSIZE (enc_fileheader (mail_header fname (me_user e) title)))"
    using append_record_files [of "me_os e" FHSIZE "enc_fileheader (mail_header fname (me_user e) title)" "me_pid e" "setmdir user" w3] assms(1,2) l ne
    by (auto simp: calm_def)
  have o: "old_data w3 (setmdir user) = old_data w (setmdir user)" using f3 assms(4) by (simp add: old_data_def)
  have "out = (case header of None \<Rightarrow> [] | Some h \<Rightarrow> me_written e h) @ me_written e text @ (case source of None \<Rightarrow> [] | Some s \<Rightarrow> me_written e s)"
    using assms(3) by (simp add: out_def split: option.split)
  then have "store_mail e user fname title header text source w = Some (w4, 0)"
    using w1(1) w2(1) w4(1) by (simp add: store_mail_def w3_def)
  with w4(2) f3 o l show ?thesis by (simp add: out_def)
qed
definition mail_allowed :: "mail_env \<Rightarrow> userec \<Rightarrow> string list \<Rightarrow> world \<Rightarrow> bool" where
  \<comment> \<open>the recipient does not reject the sender and the box is not full\<close>
  "mail_allowed e urec rejects w \<longleftrightarrow>
     list_all (\<lambda>r. \<not> cmpfname (me_user e) r) rejects
     \<and> snd (getmailsize (me_fresh e) (me_fopen e) (me_user e) (cstr (pw_userid urec)) (w_files w)) \<le> getmailboxsize (pw_userlevel urec) * 2
     \<and> int (length (old_data w (setmdir (cstr (pw_userid urec)))) div FHSIZE) \<le> getmailboxhold (pw_userlevel urec) * 2"

lemma getmailnum_old: "os_stat os \<Longrightarrow> getmailnum True user w = length (old_data w (setmdir user)) div FHSIZE"
  by (simp add: getmailnum_def get_num_records_def old_data_def split: option.split)

lemma next_mail_name_M: "x \<noteq> [] \<Longrightarrow> \<exists>y. y \<noteq> [] \<and> next_mail_name (CHR ''M'' # x) = CHR ''M'' # y"
  by (auto simp: next_mail_name_def)

lemma mail_name_M:
  assumes "mail_name creat fs user (''M.'' @ z) count = Some n"
  shows "\<exists>y. n = CHR ''M'' # y"
proof -
  have "mail_name creat fs user fname count = Some n \<Longrightarrow> fname = CHR ''M'' # x \<Longrightarrow> x \<noteq> [] \<Longrightarrow> \<exists>y. n = CHR ''M'' # y" for fname x
  proof (induction creat fs user fname count arbitrary: x rule: mail_name.induct)
    case (1 creat fs user fname count)
    obtain y where y: "y \<noteq> []" "next_mail_name fname = CHR ''M'' # y" using next_mail_name_M [OF "1.prems"(3)] "1.prems"(2) by auto
    from "1.prems"(1,2) "1.IH" [OF _ _ _ y(2,1)] show ?case by (subst (asm) mail_name.simps) (auto split: if_splits)
  qed
  from this [OF assms] show ?thesis by simp
qed

text \<open>C2: a mail to a user who does not reject the sender and whose box is within twice its limits is
  delivered: its text, with the header line and the source, is in a new file of the box, its header
  is the last of the index, and no other file but the cached size of the box has changed. Enough for
  the new name is that one of the 102 tried is free.\<close>
theorem mail_delivered:
  assumes "calm (me_os e)" "FHSIZE \<le> accepted (os_writes (me_os e))" "me_written e = id" "me_dir e" "me_creat e"
    "getuserec ucok recv lookupuser uc = Some (urec, num)" "num \<noteq> 0" "user = cstr (pw_userid urec)"
    "reject_list w user rejects" "mail_allowed e urec rejects w"
    "w_files w (setmfile user ((next_mail_name ^^ k) (''M.'' @ show_int (me_now e) @ ''.A''))) = None" "k \<le> 101"
  shows "\<exists>w' fname. do_mail_file e uc ucok lookupuser recv title header text source w = Some (Val (w', urec, 0))
    \<and> w_files w (setmfile user fname) = None
    \<and> w_files w' (setmfile user fname) = Some ((case header of None \<Rightarrow> [] | Some h \<Rightarrow> h) @ text @ (case source of None \<Rightarrow> [] | Some s \<Rightarrow> s))
    \<and> w_files w' (setmdir user) = Some (old_data w (setmdir user) @ enc_fileheader (mail_header fname (me_user e) title))
    \<and> (\<forall>f. f \<noteq> setmfile user fname \<and> f \<noteq> setmdir user \<and> f \<noteq> take (HOMELEN - 1) (''tmp/'' @ user @ ''.mailsize'')
        \<longrightarrow> w_files w' f = w_files w f)"
proof -
  let ?tmp = "take (HOMELEN - 1) (''tmp/'' @ user @ ''.mailsize'')"
  have h: "first_hit (cmpfname (me_user e)) rejects = 0" using assms(10) by (simp add: first_hit_0 mail_allowed_def list_all_iff)
  obtain w1 r where w1: "search_record (me_os e) (me_pid e) (sethomefile user ''rejects'') (Some (replicate OVSIZE NUL)) OVSIZE (cmpfname (me_user e)) w
      = Some (Val (w1, r, 0))" "w_files w1 = w_files w"
    using search_rejects [OF assms(1,9), of "me_pid e" "Some (replicate OVSIZE NUL)" "me_user e"] h by auto
  obtain fs siz where g: "getmailsize (me_fresh e) (me_fopen e) (me_user e) user (w_files w) = (fs, siz)" by fastforce
  have fs: "f \<noteq> ?tmp \<Longrightarrow> fs f = w_files w f" for f using getmailsize_files [OF g] .
  define w2 where "w2 = w1\<lparr>w_files := fs\<rparr>"
  have q: "siz \<le> getmailboxsize (pw_userlevel urec) * 2" using assms(8,10) g by (simp add: mail_allowed_def)
  have o: "old_data w2 (setmdir user) = old_data w (setmdir user)"
    using fs [OF mail_paths(2)] by (simp add: w2_def old_data_def)
  have n: "int (getmailnum (os_stat (me_os e)) user w2) \<le> getmailboxhold (pw_userlevel urec) * 2"
    using assms(1,8,10) o getmailnum_old [of "me_os e" user w2] by (simp add: mail_allowed_def calm_def)
  have "fs (setmfile user ((next_mail_name ^^ k) (''M.'' @ show_int (me_now e) @ ''.A''))) = None" using fs [OF mail_paths(1)] assms(11) by simp
  then obtain fname where fname: "mail_name True fs user (''M.'' @ show_int (me_now e) @ ''.A'') 0 = Some fname"
    using mail_name_found [of fs user k _ 0] assms(12) by (auto simp: MAX_POSTRETRY_def)
  have free: "w_files w (setmfile user fname) = None" using mail_name_free [OF fname] fs [OF mail_paths(1)] by simp
  have ne: "setmfile user fname \<noteq> setmdir user"
    using mail_name_M [OF fname] by (auto simp: setmfile_def setmdir_def DOT_DIR_def)
  obtain w3 where w3: "store_mail e user fname title header text source w2 = Some (w3, 0)"
    "w_files w3 = (w_files w2)(setmfile user fname \<mapsto> (case header of None \<Rightarrow> [] | Some h \<Rightarrow> h) @ text @ (case source of None \<Rightarrow> [] | Some s \<Rightarrow> s),
        setmdir user \<mapsto> old_data w2 (setmdir user) @ enc_fileheader (mail_header fname (me_user e) title))"
    using store_mail_files [OF assms(1-3) ne, of title header "text" source w2] by blast
  have "do_mail_file e uc ucok lookupuser recv title header text source w = Some (Val (w3, urec, 0))"
    using assms(4-8) w1 g q n fname w3(1) by (simp add: do_mail_file_def bindr_def Let_def w2_def not_less)
  then show ?thesis using free ne w3(2) o fs by (auto simp: w2_def)
qed

text \<open>A mail from a user whom the recipient rejects is refused and changes no file.\<close>
theorem mail_rejected:
  assumes "calm (me_os e)" "getuserec ucok recv lookupuser uc = Some (urec, num)" "num \<noteq> 0"
    "reject_list w (cstr (pw_userid urec)) rejects" "list_ex (cmpfname (me_user e)) rejects"
  shows "\<exists>w'. do_mail_file e uc ucok lookupuser recv title header text source w = Some (Val (w', urec, BBS_EBLKLST))
    \<and> w_files w' = w_files w"
proof -
  have "first_hit (cmpfname (me_user e)) rejects \<noteq> 0" using assms(5) by (auto simp: first_hit_0 list_ex_iff)
  then show ?thesis
    using search_rejects [OF assms(1,4), of "me_pid e" "Some (replicate OVSIZE NUL)" "me_user e"] assms(2,3)
    by (auto simp: do_mail_file_def bindr_def Let_def)
qed

section \<open>Examples\<close>

definition demo_env :: post_env where
  "demo_env = \<lparr>pe_os = demo_os\<lparr>os_writes := [Done 256]\<rparr>, pe_pid = 1, pe_creat = True, pe_fdopen = True, pe_now = 100, pe_local = demo_tm,
     pe_rand = 3, pe_resolved = True, pe_cuser = demo_rec ''zed'', pe_junk = (\<lambda>_. NUL), pe_rc_open = True\<rparr>"

definition demo_request :: post_request where
  "demo_request = \<lparr>pr_autopost = False, pr_crosspost = False, pr_userid = None, pr_nick = None, pr_user = Some (demo_rec ''zed''),
     pr_bp = Some 0, pr_title = Some ''hi'', pr_content = Some ''text'', pr_sig = 0, pr_ip = None, pr_o_fp = None,
     pr_noreply = False, pr_mmark = False\<rparr>"

lemma demo_calm: "calm (demo_os\<lparr>os_writes := [Done 256]\<rparr>)"
  by (simp add: calm_def demo_os_def)

lemma demo_show: "show_int 100 = ''100''" "article_name 100 = ''M.100.''" by code_simp+

lemma demo_board_name: "cstr (bh_filename demo_board) = ''X''" by code_simp

lemma demo_index_rec: "rec_file (demo_index [demo_header 7]) (setwbdir ''X'') FHSIZE [enc_fileheader (demo_header 7)]"
  using demo_index_file [of "[demo_header 7]"] demo_header_ok by (simp add: DIR_path_def setwbdir_DIR demo_board_name)

lemma demo_index_only: "f \<noteq> setwbdir ''X'' \<Longrightarrow> w_files (demo_index fhs) f = None"
  by (simp add: demo_index_def DIR_path_def setwbdir_DIR demo_board_name)

theorem article_published_witness:
  "\<exists>w' st' b' a. do_post_article demo_env (Some demo_request) (demo_index [demo_header 7]) demo_boards brc0 = Some (Val (Returns (w', st', b', 0)))
    \<and> published ''X'' ''M.100.A'' [enc_fileheader (demo_header 7)] (demo_index [demo_header 7]) a w' \<and> fh_id (ar_header a) = 1"
proof -
  have m: "calm (pe_os demo_env)" "FHSIZE \<le> accepted (os_writes (pe_os demo_env))" "pe_creat demo_env" "pe_fdopen demo_env" "pe_rc_open demo_env"
    "pe_resolved demo_env" "cstr (pw_userid (pe_cuser demo_env)) \<noteq> ''guest''" "int_range (pe_now demo_env)" "0 \<le> pe_now demo_env" "pe_now demo_env = 100"
    using demo_calm by (simp_all add: demo_env_def FHSIZE_def demo_rec_id int_range_def)
  have r: "pr_title demo_request = Some ''hi''" "pr_content demo_request = Some ''text''" "pr_bp demo_request = Some 0"
    "pr_user demo_request = Some (demo_rec ''zed'')" "\<not> pr_autopost demo_request" "''zed'' = cstr (pw_userid (demo_rec ''zed''))" "NUL \<notin> set ''hi''"
    by (simp_all add: demo_request_def demo_rec_id)
  have b: "''X'' = cstr (bh_filename (bc_list demo_boards ! 0))" "0 < length (bc_stat demo_boards)" "brc_head ''X''"
    "length ''X'' + length (show_int (pe_now demo_env)) + 13 < HOMELEN"
    using demo_board_name m(10) by (simp_all add: demo_boards_def brc_head_def schar_def byte_def c_defs demo_show HOMELEN_def)
  have f: "w_files (demo_index [demo_header 7]) (''boards/'' @ ''X'' @ ''/'' @ article_name (pe_now demo_env) @ ''A'') = None"
    "rc_file (w_files (demo_index [demo_header 7])) ''zed'' [] []" "length [] \<le> BRC_MAXSIZE - BRC_ITEMSIZE"
    using demo_index_only [of "''boards/X/M.100.A''"] demo_index_only [of "sethomefile ''zed'' ''.boardrc''"] m(10)
    by (simp_all add: demo_show setwbdir_def DOT_DIR_def rc_file_def sethomefile_def)
  have k: "\<not> brc_changed brc0" "brc_arrays brc0" "sorted_wrt (>) (board_marks [] ''X'')" "list_all (\<lambda>s. s < pe_now demo_env) (board_marks [] ''X'')"
    using m(10) by (simp_all add: brc0_def brc_arrays_def board_marks_def c_defs)
  from article_published [OF m(1-9) r b demo_index_rec f k] show ?thesis
    by (force simp: demo_boards_def m(10) demo_show)
qed

theorem third_article_in_a_second_witness:
  "do_post_article demo_env (Some demo_request) \<lparr>w_files = (\<lambda>_. Some []), w_locks = []\<rparr> demo_boards brc0 = Some UB"
proof -
  have "''X'' = cstr (bh_filename (bc_list demo_boards ! 0))" using demo_board_name by (simp add: demo_boards_def)
  from third_article_in_a_second [OF _ _ _ _ this, of demo_request demo_env "\<lparr>w_files = (\<lambda>_. Some []), w_locks = []\<rparr>" brc0] show ?thesis
    by (simp add: demo_request_def demo_env_def demo_show HOMELEN_def)
qed

definition demo_mail_env :: mail_env where
  "demo_mail_env = \<lparr>me_os = demo_os\<lparr>os_writes := [Done 256]\<rparr>, me_pid = 1, me_creat = True, me_dir = True, me_fresh = False, me_fopen = True,
     me_written = id, me_now = 100, me_user = ''guest''\<rparr>"

definition empty_world :: world where "empty_world = \<lparr>w_files = (\<lambda>_. None), w_locks = []\<rparr>"

lemma demo_mail_allowed: "mail_allowed demo_mail_env (demo_rec ''zed'') [] empty_world"
  by (simp add: mail_allowed_def getmailsize_def empty_world_def old_data_def getmailboxsize_def getmailboxhold_def demo_rec_def no_user_def
      flagged_def MAX_MAIL_HOLD_def FHSIZE_def)

theorem mail_delivered_witness:
  "\<exists>w' fname. do_mail_file demo_mail_env one_cache True no_user (name_buf ''zed'') ''hi'' None ''text'' None empty_world
      = Some (Val (w', demo_rec ''zed'', 0))
    \<and> w_files w' (setmfile ''zed'' fname) = Some ''text''"
proof -
  have m: "calm (me_os demo_mail_env)" "FHSIZE \<le> accepted (os_writes (me_os demo_mail_env))" "me_written demo_mail_env = id"
    "me_dir demo_mail_env" "me_creat demo_mail_env"
    using demo_calm by (simp_all add: demo_mail_env_def FHSIZE_def)
  have r: "reject_list empty_world ''zed'' []" by (simp add: reject_list_def empty_world_def)
  have "w_files empty_world (setmfile ''zed'' ((next_mail_name ^^ 0) (''M.'' @ show_int (me_now demo_mail_env) @ ''.A''))) = None"
    by (simp add: empty_world_def)
  from mail_delivered [OF m one_cache_zed _ demo_rec_id [symmetric] r demo_mail_allowed this, of "''hi''" None "''text''" None]
  show ?thesis by force
qed

end
