(* ===== verification/UserInfo.thy ===== *)
theory UserInfo
  imports Boards
begin

text \<open>
  What is shown of a user, \<^verbatim>\<open>lib/uinfo.c\<close>: experience and performance, the names of their levels, the
  days of a calendar, the sign of the zodiac, the days an unused account has left and the positions
  a user holds. \<open>now\<close> is \<^verbatim>\<open>time(NULL)\<close>; the sums are far from the limits of \<^verbatim>\<open>int\<close>, and divisions
  truncate as C's do. The names are those of \<^verbatim>\<open>glossary.h\<close>; the game and the \<^verbatim>\<open>FDQUAN\<close> site are
  compiled in.
\<close>

section \<open>Levels\<close>

definition MAX_PERF :: int where "MAX_PERF = 1000"

definition cexpstr :: "int \<Rightarrow> string" where
  "cexpstr exp =
     (let ce = replicate 10 SPC
      in if exp < 0 then ce
         else let i = c_div exp 2000; i = (if 5 < i then 5 else i); j = c_div (exp - i * 2000) 200; j = (if 9 < j then 9 else j)
              in replicate (nat (j + 1)) (''-=+*#A'' ! nat i) @ drop (nat (j + 1)) ce)"

definition GLY_CPERF0 :: string where "GLY_CPERF0 = bytes [0xB4, 0xD2, 0xB4, 0xD2, 0xB9, 0xFD, 0xBF, 0xCD]"
definition GLY_CPERF1 :: string where "GLY_CPERF1 = bytes [0xC5, 0xD4, 0xB9, 0xDB, 0xD5, 0xDF]"
definition GLY_CPERF2 :: string where "GLY_CPERF2 = bytes [0xBF, 0xEC, 0xC5, 0xAC, 0xC1, 0xA6, 0xD1, 0xBD]"
definition GLY_CPERF3 :: string where "GLY_CPERF3 = bytes [0xBB, 0xB9, 0xB2, 0xBB, 0xB4, 0xED]"
definition GLY_CPERF4 :: string where "GLY_CPERF4 = bytes [0xBA, 0xDC, 0xBA, 0xC3]"
definition GLY_CPERF5 :: string where "GLY_CPERF5 = bytes [0xD3, 0xC5, 0xD0, 0xE3]"
definition GLY_CPERF6 :: string where "GLY_CPERF6 = bytes [0xBA, 0xC3, 0xBC, 0xAB, 0xC1, 0xCB]"
definition GLY_CPERF7 :: string where "GLY_CPERF7 = bytes [0xB1, 0xBE, 0xD5, 0xBE, 0xB3, 0xA3, 0xBF, 0xCD]"
definition GLY_CPERF8 :: string where "GLY_CPERF8 = bytes [0xD6, 0xD0, 0xBC, 0xE1, 0xC1, 0xA6, 0xC1, 0xBF]"
definition GLY_CPERF9 :: string where "GLY_CPERF9 = bytes [0xD7, 0xCA, 0xC9, 0xEE, 0xC8, 0xCB, 0xCA, 0xBF]"
definition GLY_CPERFA :: string where "GLY_CPERFA = bytes [0xBD, 0xAD, 0xBA, 0xFE, 0xD4, 0xAA, 0xC0, 0xCF]"
definition GLY_CPERFB :: string where "GLY_CPERFB = bytes [0xC9, 0xF1, 0xA1, 0xAB, 0xA1, 0xAB]"
definition GLY_MEDAL0 :: string where "GLY_MEDAL0 = bytes [0xC3, 0xBB, 0xD3, 0xD0, 0xB9, 0xB1, 0xCF, 0xD7] @ '','' @ bytes [0xBA, 0xD9, 0xBA, 0xD9]"
definition GLY_MEDAL1 :: string where "GLY_MEDAL1 = bytes [0xD3, 0xD0, 0xB5, 0xE3, 0xB1, 0xED, 0xCF, 0xD6, 0xC1, 0xCB] @ '':)''"
definition GLY_MEDAL2 :: string where "GLY_MEDAL2 = bytes [0xD3, 0xD0, 0xBD, 0xCF, 0xB4, 0xF3, 0xB5, 0xC4, 0xB9, 0xB1, 0xCF, 0xD7]"
definition GLY_MEDAL3 :: string where "GLY_MEDAL3 = bytes [0xB9, 0xE0, 0xCB, 0xAE, 0xD5, 0xBE, 0xBD, 0xA8, 0xC9, 0xE8, 0xD5, 0xDF]"
definition GLY_MEDAL4 :: string where "GLY_MEDAL4 = bytes [0xB9, 0xE0, 0xCB, 0xAE, 0xD5, 0xBE, 0xB5, 0xC4, 0xB9, 0xA6, 0xD8, 0xA9]"
definition GLY_MONEY0 :: string where "GLY_MONEY0 = bytes [0xC7, 0xEE, 0xB9, 0xE2, 0xB5, 0xB0] @ '':P''"
definition GLY_MONEY1 :: string where "GLY_MONEY1 = bytes [0xC3, 0xE3, 0xC7, 0xBF, 0xB6, 0xC8, 0xC8, 0xD5]"
definition GLY_MONEY2 :: string where "GLY_MONEY2 = bytes [0xD0, 0xA1, 0xD3, 0xD0, 0xB2, 0xC6, 0xB8, 0xBB]"
definition GLY_MONEY3 :: string where "GLY_MONEY3 = bytes [0xD3, 0xD0, 0xC7, 0xAE, 0xC8, 0xCB, 0xBC, 0xD2]"
definition GLY_MONEY4 :: string where "GLY_MONEY4 = bytes [0xD0, 0xA1, 0xBF, 0xB5, 0xD6, 0xAE, 0xBC, 0xD2]"
definition GLY_MONEY5 :: string where "GLY_MONEY5 = bytes [0xCD, 0xF2, 0xD4, 0xAA, 0xBB, 0xA7] @ ''!!''"
definition GLY_MONEY6 :: string where "GLY_MONEY6 = bytes [0xD2, 0xBB, 0xB7, 0xBD, 0xB2, 0xC6, 0xB0, 0xD4]"
definition GLY_MONEY7 :: string where "GLY_MONEY7 = bytes [0xCB, 0xAE, 0xD5, 0xBE, 0xB2, 0xC6, 0xC9, 0xF1]"

definition cnummedals :: "int \<Rightarrow> string" where
  "cnummedals num =
     (if num \<le> 0 then GLY_MEDAL0 else if num \<le> 300 then GLY_MEDAL1 else if num \<le> 1000 then GLY_MEDAL2
      else if num \<le> 3000 then GLY_MEDAL3 else GLY_MEDAL4)"

definition cmoney :: "int \<Rightarrow> string" where
  "cmoney num =
     (if num \<le> 100 then GLY_MONEY0 else if num \<le> 3000 then GLY_MONEY1 else if num \<le> 10000 then GLY_MONEY2
      else if num \<le> 50000 then GLY_MONEY3 else if num \<le> 150000 then GLY_MONEY4 else if num \<le> 300000 then GLY_MONEY5
      else if num \<le> 500000 then GLY_MONEY6 else GLY_MONEY7)"

definition cperf :: "int \<Rightarrow> string" where
  "cperf perf =
     (if perf \<le> 100 then GLY_CPERF0 else if perf \<le> 200 then GLY_CPERF1 else if perf \<le> 400 then GLY_CPERF2
      else if perf \<le> 500 then GLY_CPERF3 else if perf \<le> 550 then GLY_CPERF4 else if perf \<le> 600 then GLY_CPERF5
      else if perf \<le> 650 then GLY_CPERF6 else if perf \<le> 700 then GLY_CPERF7 else if perf \<le> 800 then GLY_CPERF8
      else if perf \<le> 900 then GLY_CPERF9 else if perf < 1000 then GLY_CPERFA else GLY_CPERFB)"

definition countexp :: "int \<Rightarrow> userec \<Rightarrow> int" where
  "countexp now udata =
     (if cstr (pw_userid udata) = ''guest'' then 0
      else let exp = pw_numposts udata + c_div (pw_numlogins udata) 5 + c_div (now - pw_firstlogin udata) 86400 + c_div (pw_stay udata) 3600;
               exp = (if 12000 < exp then 12000 else exp)
           in if 0 < exp then exp else 0)"

definition countperf :: "int \<Rightarrow> userec \<Rightarrow> int run" where
  \<comment> \<open>\<open>UB\<close>: a division by zero\<close>
  "countperf now udata =
     (if cstr (pw_userid udata) = ''guest'' then Val 0
      else let reg_days = c_div (now - pw_firstlogin udata) 86400 + 1;
               perf = (if 250 < c_div reg_days 4 then 250 else c_div reg_days 4);
               perf = perf + (if 250 < c_div (pw_stay udata) 14400 then 250 else c_div (pw_stay udata) 14400)
           in if reg_days = 0 then UB
              else let perf = perf + (if 500 < c_div (pw_stay udata) (36 * reg_days) then 500 else c_div (pw_stay udata) (36 * reg_days));
                       perf = (if MAX_PERF < perf then MAX_PERF else perf)
                   in Val (if perf < 0 then 0 else perf))"

section \<open>Days\<close>

definition julian_day :: "int \<Rightarrow> int \<Rightarrow> int \<Rightarrow> int" where
  "julian_day year month day =
     (let a = c_div (14 - month) 12; y = year + 4800 - a; m = month + 12 * a - 3
      in day + c_div (153 * m + 2) 5 + 365 * y + c_div y 4 - c_div y 100 + c_div y 400 - 32045)"

definition days_elapsed :: "int \<Rightarrow> int \<Rightarrow> int \<Rightarrow> int \<Rightarrow> int" where
  "days_elapsed year month day now = c_div (now - 43200) 86400 + 2440588 - julian_day year month day"

definition zodiac :: "string list" where
  "zodiac = [bytes [0xC4, 0xA6, 0xF4, 0xC9, 0xD7, 0xF9],
     bytes [0xCB, 0xAE, 0xC6, 0xBF, 0xD7, 0xF9],
     bytes [0xCB, 0xAB, 0xD3, 0xE3, 0xD7, 0xF9],
     bytes [0xC4, 0xB5, 0xD1, 0xF2, 0xD7, 0xF9],
     bytes [0xBD, 0xF0, 0xC5, 0xA3, 0xD7, 0xF9],
     bytes [0xCB, 0xAB, 0xD7, 0xD3, 0xD7, 0xF9],
     bytes [0xBE, 0xDE, 0xD0, 0xB7, 0xD7, 0xF9],
     bytes [0xCA, 0xA8, 0xD7, 0xD3, 0xD7, 0xF9],
     bytes [0xB4, 0xA6, 0xC5, 0xAE, 0xD7, 0xF9],
     bytes [0xCC, 0xEC, 0xB3, 0xD3, 0xD7, 0xF9],
     bytes [0xCC, 0xEC, 0xD0, 0xAB, 0xD7, 0xF9],
     bytes [0xC9, 0xE4, 0xCA, 0xD6, 0xD7, 0xF9]]"

definition horoscope :: "int \<Rightarrow> int \<Rightarrow> string" where
  "horoscope month day =
     (if month = 1 then if day < 21 then zodiac ! 0 else zodiac ! 1
      else if month = 2 then if day < 19 then zodiac ! 1 else zodiac ! 2
      else if month = 3 then if day < 21 then zodiac ! 2 else zodiac ! 3
      else if month = 4 then if day < 21 then zodiac ! 3 else zodiac ! 4
      else if month = 5 then if day < 21 then zodiac ! 4 else zodiac ! 5
      else if month = 6 then if day < 22 then zodiac ! 5 else zodiac ! 6
      else if month = 7 then if day < 23 then zodiac ! 6 else zodiac ! 7
      else if month = 8 then if day < 23 then zodiac ! 7 else zodiac ! 8
      else if month = 9 then if day < 23 then zodiac ! 8 else zodiac ! 9
      else if month = 10 then if day < 24 then zodiac ! 9 else zodiac ! 10
      else if month = 11 then if day < 23 then zodiac ! 10 else zodiac ! 11
      else if month = 12 then if day < 22 then zodiac ! 11 else zodiac ! 0
      else bytes [0xB2, 0xBB, 0xCF, 0xEA, 0xD7, 0xF9])"

definition compute_user_value :: "int \<Rightarrow> userec \<Rightarrow> int" where
  "compute_user_value now urec =
     (let val1 = now - pw_lastlogin urec; val2 = now - pw_firstlogin urec; userid = cstr (pw_userid urec)
      in if userid = ''new'' then 30 * 60 - val1
         else if flagged (pw_userlevel urec) PERM_XEMPT \<or> userid = ''SYSOP'' \<or> userid = ''guest'' then 999
         else if \<not> flagged (pw_userlevel urec) PERM_REGISTER then 14 - c_div val1 (24 * 60 * 60)
         else if 5 * 365 * 24 * 60 * 60 \<le> val2 then 666 - c_div val1 (24 * 60 * 60)
         else if 2 * 365 * 24 * 60 * 60 \<le> val2 then 365 - c_div val1 (24 * 60 * 60)
         else 150 - c_div val1 (24 * 60 * 60))"

section \<open>Positions\<close>

definition show_volunteer :: "files \<Rightarrow> string \<Rightarrow> appender \<Rightarrow> appender \<times> bool" where
  "show_volunteer fs userid a =
     (case fs (sethomefile userid ''.volunteer'') of
        None \<Rightarrow> (a, False)
      | Some data \<Rightarrow>
          (let a = strappend a (''['' @ bytes [0x1B] @ ''[1;33m'');
               a = fold (\<lambda>tmp a. strappend a (cstr tmp)) (fgets_all STRLEN data) a
           in (strappend a (bytes [0x1B] @ ''[m]''), True)))"

definition show_bm :: "files \<Rightarrow> string \<Rightarrow> appender \<Rightarrow> appender \<times> bool" where
  \<comment> \<open>the last byte of a line, as a rule its end, becomes a blank; a line starts with no NUL\<close>
  "show_bm fs userid a =
     (case fs (sethomefile userid ''.bmfile'') of
        None \<Rightarrow> (a, False)
      | Some data \<Rightarrow>
          (let a = strappend a (''['' @ bytes [0x1B] @ ''[1;33m'');
               a = fold (\<lambda>tmp a. strappend a (butlast (cstr tmp) @ '' '')) (fgets_all STRLEN data) a
           in (strappend a (bytes [0x1B] @ ''[32m'' @ bytes [0xB0, 0xE6, 0xB0, 0xE6, 0xD6, 0xF7, 0x1B] @ ''[m]''), True)))"

definition position_if :: "bool \<Rightarrow> string \<Rightarrow> appender \<times> bool \<Rightarrow> appender \<times> bool" where
  \<comment> \<open>a position held is appended and ends being \<open>normal\<close>\<close>
  "position_if held s an = (if held then (strappend (fst an) s, False) else an)"

definition show_position :: "files \<Rightarrow> userec \<Rightarrow> appender \<Rightarrow> appender" where
  "show_position fs user a =
     (let has = flagged (pw_userlevel user); userid = cstr (pw_userid user)
      in if has PERM_SPECIAL9
         then if has PERM_SYSOPS then strappend a (''['' @ bytes [0x1B] @ ''[1;32m'' @ bytes [0xD5, 0xBE, 0xB3, 0xA4, 0x1B] @ ''[m]'')
              else if has PERM_ANNOUNCE then strappend a (''['' @ bytes [0x1B] @ ''[1;32m'' @ bytes [0xD5, 0xBE, 0xCE, 0xF1, 0x1B] @ ''[m]'')
              else if has PERM_OCHAT then strappend a (''['' @ bytes [0x1B] @ ''[1;32m'' @ bytes [0xCA, 0xB5, 0xCF, 0xB0, 0xD5, 0xBE, 0xCE, 0xF1, 0x1B] @ ''[m]'')
              else if has PERM_SPECIAL0 then strappend a (''['' @ bytes [0x1B] @ ''[1;32m'' @ bytes [0xD5, 0xBE, 0xCE, 0xF1, 0xCE, 0xAF, 0xD4, 0xB1, 0xBB, 0xE1, 0xC3, 0xD8, 0xCA, 0xE9, 0x1B] @ ''[m]'')
              else strappend a (''['' @ bytes [0x1B] @ ''[1;32m'' @ bytes [0xC0, 0xEB, 0xC8, 0xCE, 0xD5, 0xBE, 0xCE, 0xF1, 0x1B] @ ''[m]'')
         else let an = position_if (has PERM_XEMPT \<and> has PERM_LONGLIFE \<and> has PERM_LARGEMAIL) (''['' @ bytes [0x1B] @ ''[1;32m'' @ bytes [0xC8, 0xD9, 0xD3, 0xFE, 0xB0, 0xE6, 0xD6, 0xF7, 0x1B] @ ''[m]'') (a, True);
                  (a, shown) = show_volunteer fs userid (fst an);
                  an = (a, snd an \<and> \<not> shown);
                  (a, shown) = (if has PERM_BOARDS then show_bm fs userid (fst an) else (fst an, False));
                  an = (a, snd an \<and> \<not> shown);
                  an = position_if (has PERM_ARBI) (''['' @ bytes [0x1B] @ ''[1;32m'' @ bytes [0xD6, 0xD9, 0xB2, 0xC3, 0xD7, 0xE9, 0x1B] @ ''[m]'') an;
                  an = position_if (has PERM_SERV) (''['' @ bytes [0x1B] @ ''[1;32m'' @ bytes [0xC5, 0xE0, 0xD1, 0xB5, 0xD7, 0xE9, 0x1B] @ ''[m]'') an;
                  an = position_if (has PERM_SPECIAL3) (''['' @ bytes [0x1B] @ ''[1;32m'' @ bytes [0xC3, 0xC0, 0xB9, 0xA4, 0xD7, 0xE9, 0x1B] @ ''[m]'') an;
                  an = position_if (has PERM_TECH) (''['' @ bytes [0x1B] @ ''[1;32m'' @ bytes [0xBC, 0xBC, 0xCA, 0xF5, 0xD7, 0xE9, 0x1B] @ ''[m]'') an
              in if snd an then strappend (fst an) (''['' @ bytes [0x1B] @ ''[1;32m'' @ bytes [0xC8, 0xAA, 0xD5, 0xBE, 0xCD, 0xF8, 0xD3, 0xD1, 0x1B] @ ''[m]'') else fst an)"

section \<open>Levels stay in range\<close>

text \<open>For every record at every time the experience is from 0 to 12000 and its bar is ten characters:
  the mark of the level, one of six of 2000 points each, once for every step of 200 begun within the
  level, and blanks.\<close>
theorem experience_bar:
  "0 \<le> countexp now u \<and> countexp now u \<le> 12000
   \<and> (let i = nat (min 5 (countexp now u div 2000)); j = nat (min 9 ((countexp now u - 2000 * int i) div 200))
      in cexpstr (countexp now u) = replicate (j + 1) (''-=+*#A'' ! i) @ replicate (9 - j) SPC)"
proof -
  define x where "x = countexp now u"
  have x: "0 \<le> x" "x \<le> 12000" by (simp_all add: x_def countexp_def Let_def)
  define i where "i = min 5 (x div 2000)"
  have i: "0 \<le> i" "i \<le> 5" "2000 * i \<le> x" using x by (auto simp: i_def min_def)
  define j where "j = min 9 ((x - 2000 * i) div 200)"
  have j: "0 \<le> j" "j \<le> 9" using x i by (auto simp: j_def pos_imp_zdiv_nonneg_iff)
  have c: "c_div x 2000 = x div 2000" "c_div (x - i * 2000) 200 = (x - 2000 * i) div 200"
    using x i by (simp_all add: c_div_nonneg mult.commute)
  have "(if 5 < c_div x 2000 then 5 else c_div x 2000) = i" unfolding i_def c(1) by simp
  moreover have "(if 9 < c_div (x - i * 2000) 200 then 9 else c_div (x - i * 2000) 200) = j" unfolding j_def c(2) by simp
  ultimately have "cexpstr x = replicate (nat (j + 1)) (''-=+*#A'' ! nat i) @ drop (nat (j + 1)) (replicate 10 SPC)"
    using x(1) unfolding cexpstr_def Let_def by (simp only: not_less [symmetric] if_False)
  then have "cexpstr x = replicate (nat j + 1) (''-=+*#A'' ! nat i) @ replicate (9 - nat j) SPC"
    using j by (simp add: nat_add_distrib)
  moreover have "int (nat i) = i" using i by simp
  ultimately show ?thesis using x unfolding Let_def x_def [symmetric] i_def [symmetric] by (simp only: j_def [symmetric])
qed

text \<open>The performance is a number from 0 to 1000, unless the account's first login is one day or
  more, but less than two, in the future: then the days since it come out as none, and they are divided by.\<close>
theorem performance_range:
  "countperf now u =
     (if cstr (pw_userid u) \<noteq> ''guest'' \<and> 86400 \<le> pw_firstlogin u - now \<and> pw_firstlogin u - now < 172800 then UB
      else Val (the_val (countperf now u)))
   \<and> (countperf now u \<noteq> UB \<longrightarrow> 0 \<le> the_val (countperf now u) \<and> the_val (countperf now u) \<le> 1000)"
proof -
  have z: "c_div (now - f) 86400 + 1 = 0 \<longleftrightarrow> 86400 \<le> f - now \<and> f - now < 172800" for f
  proof (cases "0 \<le> now - f")
    case True
    then show ?thesis by (simp add: c_div_nonneg)
  next
    case False
    then have "c_div (now - f) 86400 = - ((f - now) div 86400)" by (simp add: c_div_def)
    moreover have "x div 86400 = 1 \<longleftrightarrow> 86400 \<le> x \<and> x < 172800" for x :: int
    proof
      assume "x div 86400 = 1"
      then have "x = 86400 + x mod 86400" using div_mult_mod_eq [of x 86400] by simp
      moreover have "0 \<le> x mod 86400" "x mod 86400 < 86400" by simp_all
      ultimately show "86400 \<le> x \<and> x < 172800" by linarith
    next
      assume "86400 \<le> x \<and> x < 172800"
      then show "x div 86400 = 1" by (intro int_div_pos_eq [of _ _ _ "x - 86400"]) auto
    qed
    ultimately show ?thesis by linarith
  qed
  define days where "days = c_div (now - pw_firstlogin u) 86400 + 1"
  define p where "p = (if 250 < c_div days 4 then 250 else c_div days 4) + (if 250 < c_div (pw_stay u) 14400 then 250 else c_div (pw_stay u) 14400)
    + (if 500 < c_div (pw_stay u) (36 * days) then 500 else c_div (pw_stay u) (36 * days))"
  define q where "q = (if (if MAX_PERF < p then MAX_PERF else p) < 0 then 0 else if MAX_PERF < p then MAX_PERF else p)"
  have e: "countperf now u = (if cstr (pw_userid u) = ''guest'' then Val 0 else if days = 0 then UB else Val q)"
    unfolding countperf_def Let_def days_def [symmetric] p_def [symmetric] q_def [symmetric] by (rule refl)
  have "0 \<le> q" "q \<le> 1000" by (simp_all add: q_def MAX_PERF_def)
  moreover have "days = 0 \<longleftrightarrow> 86400 \<le> pw_firstlogin u - now \<and> pw_firstlogin u - now < 172800" using z by (simp add: days_def)
  ultimately show ?thesis unfolding e by simp
qed
section \<open>The calendar\<close>

definition leap :: "int \<Rightarrow> bool" where
  "leap y \<longleftrightarrow> 4 dvd y \<and> (\<not> 100 dvd y \<or> 400 dvd y)"

definition month_days :: "int \<Rightarrow> int \<Rightarrow> int" where
  "month_days y m = (if m = 2 then if leap y then 29 else 28 else if m \<in> {4, 6, 9, 11} then 30 else 31)"

type_synonym date = "int \<times> int \<times> int"

definition is_date :: "date \<Rightarrow> bool" where
  "is_date t \<longleftrightarrow> (case t of (y, m, d) \<Rightarrow> 0 < y \<and> 1 \<le> m \<and> m \<le> 12 \<and> 1 \<le> d \<and> d \<le> month_days y m)"

definition next_day :: "date \<Rightarrow> date" where
  "next_day t = (case t of (y, m, d) \<Rightarrow>
     if d < month_days y m then (y, m, d + 1) else if m < 12 then (y, m + 1, 1) else (y + 1, 1, 1))"

lemma next_day_date: "is_date t \<Longrightarrow> is_date (next_day t)"
  by (auto simp: is_date_def next_day_def month_days_def split: prod.splits if_splits)

abbreviation jd :: "date \<Rightarrow> int" where
  "jd t \<equiv> (case t of (y, m, d) \<Rightarrow> julian_day y m d)"

lemma div_Suc_int: "0 < k \<Longrightarrow> (n + 1) div k = n div k + (if k dvd n + 1 then 1 else 0)" for k n :: int
proof -
  assume k: "0 < k"
  define q r where "q = n div k" and "r = n mod k"
  have n: "n = k * q + r" "0 \<le> r" "r < k" using k by (simp_all add: q_def r_def)
  show ?thesis
  proof (cases "r + 1 = k")
    case True
    then have e: "n + 1 = k * (q + 1)" using n(1) by (simp add: algebra_simps)
    then show ?thesis using k unfolding q_def [symmetric] by simp
  next
    case False
    then have m: "n + 1 = k * q + (r + 1)" "r + 1 < k" using n by simp_all
    then have d: "(n + 1) div k = q" using n(2) by (intro int_div_pos_eq) auto
    have "(n + 1) mod k = r + 1" using m n(2) by (intro int_mod_pos_eq) auto
    then have "\<not> k dvd n + 1" using n(2) by (simp add: dvd_eq_mod_eq_0)
    with d show ?thesis by (simp add: q_def)
  qed
qed

lemma months: "1 \<le> m \<Longrightarrow> m \<le> 12 \<Longrightarrow> m \<in> {1, 2, 3, 4, 5, 6, 7, 8, 9, 10, 11, 12}" for m :: int
  by simp presburger

definition year_days :: "int \<Rightarrow> int" where
  "year_days y = 365 * y + y div 4 - y div 100 + y div 400 - 32045"

lemma year_days_next: "year_days (y + 4800) = year_days (y + 4799) + (if leap y then 366 else 365)"
proof -
  have d: "4 dvd y + 4800 \<longleftrightarrow> 4 dvd y" "100 dvd y + 4800 \<longleftrightarrow> 100 dvd y" "400 dvd y + 4800 \<longleftrightarrow> 400 dvd y"
    by (intro dvd_add_left_iff; simp)+
  have e: "y + 4799 + 1 = y + 4800" by simp
  note h = div_Suc_int [of 4 "y + 4799", OF zero_less_numeral, unfolded e d(1)]
    div_Suc_int [of 100 "y + 4799", OF zero_less_numeral, unfolded e d(2)]
    div_Suc_int [of 400 "y + 4799", OF zero_less_numeral, unfolded e d(3)]
  have "400 dvd y \<Longrightarrow> 100 dvd y" "100 dvd y \<Longrightarrow> 4 dvd y"
    by (rule dvd_trans [of 100 400 y]; simp) (rule dvd_trans [of 4 100 y]; simp)
  then show ?thesis unfolding year_days_def h leap_def
    by (cases "4 dvd y"; cases "100 dvd y"; cases "400 dvd y") (simp_all only: if_True if_False simp_thms, simp_all)
qed

lemma julian_day_eq:
  assumes "0 < y" "1 \<le> m" "m \<le> 12"
  shows "julian_day y m d = (if m \<le> 2 then d + (153 * (m + 9) + 2) div 5 + year_days (y + 4799)
    else d + (153 * (m - 3) + 2) div 5 + year_days (y + 4800))"
proof -
  have "c_div (14 - m) 12 = (if m \<le> 2 then 1 else 0)" using months [OF assms(2,3)] by (auto simp: c_div_nonneg)
  then show ?thesis using assms by (simp add: julian_day_def Let_def c_div_nonneg year_days_def algebra_simps)
qed

lemma julian_day_next:
  assumes "is_date t"
  shows "jd (next_day t) = jd t + 1"
proof (cases t)
  case (fields y m d)
  have a: "0 < y" "1 \<le> m" "m \<le> 12" "1 \<le> d" "d \<le> month_days y m" using assms fields by (simp_all add: is_date_def)
  show ?thesis
  proof (cases "d < month_days y m")
    case True
    then show ?thesis using a fields by (simp add: next_day_def julian_day_eq)
  next
    case False
    then have d: "d = month_days y m" using a by simp
    show ?thesis
      using months [OF a(2,3)] a d fields year_days_next [of y] year_days_next [of y, unfolded add.commute [of y 4800]]
      by (auto simp: next_day_def julian_day_eq month_days_def)
  qed
qed

lemma julian_day_after: "is_date t \<Longrightarrow> jd ((next_day ^^ n) t) = jd t + int n \<and> is_date ((next_day ^^ n) t)"
  by (induction n) (auto simp: julian_day_next next_day_date)

text \<open>C38: \<open>days_elapsed\<close> counts the days of the Gregorian calendar: when $k$ whole days have passed since
  noon (UTC) of 1 January 1970, the result for a date from which \<open>n\<close> days lead to the same day is \<open>n\<close>.\<close>
theorem days_elapsed_counts:
  assumes "is_date (y, m, d)" "(next_day ^^ n) (y, m, d) = (next_day ^^ k) (1970, 1, 1)"
    "43200 + 86400 * int k \<le> now" "now < 43200 + 86400 * (int k + 1)"
  shows "days_elapsed y m d now = int n"
proof -
  have "is_date (1970, 1, 1)" by (simp add: is_date_def month_days_def)
  then have "jd (y, m, d) + int n = jd (1970, 1, 1) + int k"
    using julian_day_after [OF assms(1), of n] julian_day_after [of "(1970, 1, 1)" k] assms(2) by metis
  moreover have "julian_day 1970 1 1 = 2440588" by (simp add: julian_day_def c_div_def)
  moreover have "(now - 43200) div 86400 = int k" using assms(3,4) by (intro int_div_pos_eq [of _ _ _ "now - 43200 - 86400 * int k"]) auto
  ultimately show ?thesis using assms(3) by (simp add: days_elapsed_def c_div_nonneg)
qed
theorem days_elapsed_counts_witness: "days_elapsed 1969 12 31 216000 = 3"
  using days_elapsed_counts [of 1969 12 31 3 2 216000]
  by (simp add: is_date_def next_day_def month_days_def numeral_eq_Suc)

end
