(* ===== verification/MimeHeader.thy ===== *)
theory MimeHeader
  imports Prelude "HOL-Library.Monad_Syntax"
begin

text \<open>
  Mail headers with encoded words, \<^verbatim>\<open>lib/mmdecode.c\<close>: quoted-printable and base64 are decoded where they
  are. The string is a list without its NUL; \<open>dst\<close> is what has been written to the 256 bytes of
  \<open>buf\<close>. \<open>Overrun\<close>, and so \<open>None\<close>, is a read behind the NUL or a write behind the end of \<open>buf\<close>.
  A shift of the -1 for a bad digit is what the machine does. What is encoded is decoded to itself,
  with the exceptions the theorems show.
\<close>

unbundle bit_operations_syntax

section \<open>Definitions\<close>

definition qp_code :: "nat \<Rightarrow> int" where
  "qp_code x =
     (if byte (CHR ''0'') \<le> x \<and> x \<le> byte (CHR ''9'') then int x - int (byte (CHR ''0''))
      else if byte (CHR ''a'') \<le> x \<and> x \<le> byte (CHR ''f'') then int x - int (byte (CHR ''a'')) + 10
      else if byte (CHR ''A'') \<le> x \<and> x \<le> byte (CHR ''F'') then int x - int (byte (CHR ''A'')) + 10
      else -1)"

definition base64_code :: "nat \<Rightarrow> int" where
  "base64_code x =
     (if byte (CHR ''A'') \<le> x \<and> x \<le> byte (CHR ''Z'') then int x - int (byte (CHR ''A''))
      else if byte (CHR ''a'') \<le> x \<and> x \<le> byte (CHR ''z'') then int x - int (byte (CHR ''a'')) + 26
      else if byte (CHR ''0'') \<le> x \<and> x \<le> byte (CHR ''9'') then int x - int (byte (CHR ''0'')) + 52
      else if x = byte (CHR ''+'') then 62
      else if x = byte (CHR ''/'') then 63
      else -1)"

record mm_code =
  IS_QP :: bool
  IS_BASE64 :: bool
  IS_TRAN :: bool

definition no_code :: mm_code where
  "no_code = \<lparr>IS_QP = False, IS_BASE64 = False, IS_TRAN = False\<rparr>"

fun mm_head :: "nat \<Rightarrow> mm_code \<Rightarrow> string \<Rightarrow> mm_code \<times> string option" where
  \<comment> \<open>behind \<^verbatim>\<open>=?\<close>: the encoding is read up to the second question mark; the rest, or the end of the string\<close>
  "mm_head c2 code [] = (code, None)"
| "mm_head c2 code (c1 # src) =
     (if c1 = CHR ''?'' then (if 1 \<le> c2 then (code, Some src) else mm_head (c2 + 1) code src)
      else mm_head c2
        (if c2 = 1 \<and> c1 = CHR ''Q'' then no_code\<lparr>IS_QP := True\<rparr>
         else if c2 = 1 \<and> c1 = CHR ''B'' then no_code\<lparr>IS_BASE64 := True\<rparr> else code) src)"

datatype mm_next = Again mm_code string string | Home mm_code string | Line mm_code string | Overrun

definition store :: "int \<Rightarrow> string \<Rightarrow> (string \<Rightarrow> mm_next) \<Rightarrow> mm_next" where
  \<comment> \<open>\<^verbatim>\<open>*dst++ = b\<close>\<close>
  "store b dst k = (if length dst < 256 then k (dst @ [char_of (nat (b mod 256))]) else Overrun)"

definition b64_group :: "char \<Rightarrow> char \<Rightarrow> char \<Rightarrow> char \<Rightarrow> mm_code \<Rightarrow> string \<Rightarrow> string \<Rightarrow> mm_next" where
  \<comment> \<open>four characters of base64, of which the last may be padding\<close>
  "b64_group c1 c2 c3 c4 code src dst =
     (let d2 = base64_code (byte c2); d3 = base64_code (byte c3)
      in store (push_bit 2 (base64_code (byte c1)) OR drop_bit 4 (d2 AND 0x30)) dst (\<lambda>dst.
           if c3 = CHR ''='' then Again (code\<lparr>IS_BASE64 := False, IS_TRAN := True\<rparr>) src dst
           else store (push_bit 4 (d2 AND 0xF) OR drop_bit 2 (d3 AND 0x3c)) dst (\<lambda>dst.
             if c4 = CHR ''='' then Again (code\<lparr>IS_BASE64 := False, IS_TRAN := True\<rparr>) src dst
             else store (push_bit 6 (d3 AND 0x03) OR base64_code (byte c4)) dst (\<lambda>dst.
               Again (code\<lparr>IS_TRAN := True\<rparr>) src dst))))"

definition b64_step :: "mm_code \<Rightarrow> char \<Rightarrow> string \<Rightarrow> string \<Rightarrow> mm_next" where
  "b64_step code c1 src dst =
     (case src of
        [] \<Rightarrow> Overrun
      | c2 # src \<Rightarrow>
          if c1 = CHR ''='' \<or> c2 = CHR ''='' then Again (code\<lparr>IS_BASE64 := False\<rparr>) src dst
          else (case src of
                  c3 # c4 # src \<Rightarrow> b64_group c1 c2 c3 c4 code src dst
                | _ \<Rightarrow> Home code dst))"

definition qp_step :: "mm_code \<Rightarrow> string \<Rightarrow> string \<Rightarrow> mm_next" where
  "qp_step code src dst =
     (case src of
        x # y # src \<Rightarrow> store (push_bit 4 (qp_code (byte x)) OR qp_code (byte y)) dst (Again (code\<lparr>IS_TRAN := True\<rparr>) src)
      | _ \<Rightarrow> Home code dst)"

definition mm_step :: "mm_code \<Rightarrow> char \<Rightarrow> string \<Rightarrow> string \<Rightarrow> mm_next" where
  \<comment> \<open>one turn of the loop: \<open>c1\<close> has been read, \<open>src\<close> is what follows\<close>
  "mm_step code c1 src dst =
     (if c1 = CHR ''?'' \<and> take 1 src = ''=''
      then if code \<noteq> no_code
           then Again (code\<lparr>IS_QP := False, IS_BASE64 := False\<rparr>) (if take 2 src = ''= '' then drop 2 src else drop 1 src) dst
           else Again code src dst
      else if c1 = LF then Line code dst
      else if (IS_QP code \<or> IS_BASE64 code) \<and> c1 = CHR ''_'' then store (int (byte SPC)) dst (Again code src)
      else if IS_QP code \<and> c1 = CHR ''='' then qp_step code src dst
      else if IS_BASE64 code then b64_step code c1 src dst
      else if c1 = CHR ''='' \<and> take 1 src = ''?''
      then (case mm_head 0 code (drop 1 src) of
              (code, None) \<Rightarrow> Home code dst
            | (code, Some src) \<Rightarrow> Again code src dst)
      else store (int (byte c1)) dst (Again code src))"

lemma mm_head_length: "mm_head c2 code src = (code', Some rest) \<Longrightarrow> length rest < length src"
  by (induction c2 code src rule: mm_head.induct) (auto split: if_splits)

lemma store_Again: "store b dst k = Again c s d \<Longrightarrow> \<exists>x. k (dst @ [x]) = Again c s d"
  by (auto simp: store_def split: if_splits)

lemma b64_group_length: "b64_group c1 c2 c3 c4 code src dst = Again c s d \<Longrightarrow> s = src \<and> length d \<le> length dst + 3"
  by (auto simp: b64_group_def Let_def dest!: store_Again split: if_splits)

lemma b64_step_length: "b64_step code c1 src dst = Again c s d \<Longrightarrow> length s \<le> length src \<and> length d + length s \<le> length dst + length src + 1"
  by (auto simp: b64_step_def dest!: b64_group_length split: list.splits if_splits)

lemma qp_step_length: "qp_step code src dst = Again c s d \<Longrightarrow> length s \<le> length src \<and> length d + length s \<le> length dst + length src + 1"
  by (auto simp: qp_step_def dest!: store_Again split: list.splits)

lemma mm_step_length:
  assumes "mm_step code c1 src dst = Again c s d"
  shows "length s \<le> length src \<and> length d + length s \<le> length dst + length src + 1"
proof (cases "mm_head 0 code (drop 1 src)")
  case (Pair code' r)
  then show ?thesis
    using assms mm_head_length [of 0 code "drop 1 src" code']
    by (auto simp: mm_step_def dest!: store_Again b64_step_length qp_step_length split: if_splits option.splits)
qed

function mm_loop :: "mm_code \<Rightarrow> string \<Rightarrow> string \<Rightarrow> mm_next" where
  "mm_loop code [] dst = Home code dst"
| "mm_loop code (c1 # src) dst =
     (case mm_step code c1 src dst of Again code src dst \<Rightarrow> mm_loop code src dst | r \<Rightarrow> r)"
  by pat_completeness auto
termination
  by (relation "measure (\<lambda>(_, src, _). length src)") (auto dest!: mm_step_length)

definition mmdecode :: "string \<Rightarrow> string option" where
  \<comment> \<open>\<^verbatim>\<open>_mmdecode\<close>: the string afterwards; \<^verbatim>\<open>strcpy\<close> takes what is before the first NUL written\<close>
  "mmdecode str =
     (case mm_loop no_code str [] of
        Home code dst \<Rightarrow> if IS_TRAN code then if length dst < 256 then Some (cstr dst) else None else Some str
      | Line _ dst \<Rightarrow> if length dst < 256 then Some (cstr dst) else None
      | _ \<Rightarrow> None)"

section \<open>Never longer\<close>

lemma mm_step_end:
  "mm_step code c1 src dst \<in> {Home c d, Line c d} \<Longrightarrow> d = dst"
  by (auto simp: mm_step_def store_def qp_step_def b64_step_def b64_group_def Let_def
      split: if_splits option.splits prod.splits list.splits)

lemma mm_loop_length:
  "mm_loop code src dst \<in> {Home c d, Line c d} \<Longrightarrow> length d \<le> length dst + length src"
proof (induction code src dst rule: mm_loop.induct)
  case (2 code c1 src dst)
  show ?case
  proof (cases "mm_step code c1 src dst")
    case (Again code' src' dst')
    then show ?thesis using "2.IH" [OF Again] "2.prems" mm_step_length [OF Again] by auto
  next
    case (Home x21 x22)
    then show ?thesis using "2.prems" mm_step_end [of code c1 src dst x21 x22] by auto
  next
    case (Line x31 x32)
    then show ?thesis using "2.prems" mm_step_end [of code c1 src dst x31 x32] by auto
  qed (use "2.prems" in auto)
qed auto

text \<open>Decoding never makes a header longer, so that what is copied back fits where it was.\<close>

theorem mmdecode_fits:
  assumes "mmdecode str = Some r"
  shows "length r \<le> length str"
proof -
  have "length (cstr d) \<le> length d" for d unfolding cstr_def by (rule length_takeWhile_le)
  then show ?thesis
    using assms mm_loop_length [of no_code str "[]"]
    by (auto simp: mmdecode_def split: mm_next.splits if_splits intro: order_trans)
qed

section \<open>Base64\<close>

definition digit64 :: "nat \<Rightarrow> char" where
  "digit64 n =
     (if n < 26 then char_of (byte (CHR ''A'') + n) else if n < 52 then char_of (byte (CHR ''a'') + n - 26)
      else if n < 62 then char_of (byte (CHR ''0'') + n - 52) else if n = 62 then CHR ''+'' else CHR ''/'')"

fun enc64 :: "string \<Rightarrow> string" where
  \<comment> \<open>the encoding of a text, as its definition has it\<close>
  "enc64 [] = []"
| "enc64 [a] = [digit64 (byte a div 4), digit64 (byte a mod 4 * 16), CHR ''='', CHR ''='']"
| "enc64 [a, b] = [digit64 (byte a div 4), digit64 (byte a mod 4 * 16 + byte b div 16), digit64 (byte b mod 16 * 4), CHR ''='']"
| "enc64 (a # b # c # s) =
     [digit64 (byte a div 4), digit64 (byte a mod 4 * 16 + byte b div 16), digit64 (byte b mod 16 * 4 + byte c div 64),
      digit64 (byte c mod 64)] @ enc64 s"

lemma byte_literals:
  "byte (CHR ''A'') = 65" "byte (CHR ''Z'') = 90" "byte (CHR ''a'') = 97" "byte (CHR ''z'') = 122" "byte (CHR ''0'') = 48"
  "byte (CHR ''9'') = 57" "byte (CHR ''+'') = 43" "byte (CHR ''/'') = 47" "byte (CHR ''?'') = 63" "byte LF = 10"
  "byte (CHR ''_'') = 95" "byte (CHR ''='') = 61" "byte (CHR ''F'') = 70" "byte (CHR ''f'') = 102" "byte SPC = 32"
  by (simp_all add: byte_def)

lemma digit64:
  assumes "n < 64"
  shows "base64_code (byte (digit64 n)) = int n" "digit64 n \<noteq> CHR ''?''" "digit64 n \<noteq> LF" "digit64 n \<noteq> CHR ''_''" "digit64 n \<noteq> CHR ''=''"
proof -
  have b: "byte (digit64 n) = (if n < 26 then 65 + n else if n < 52 then 71 + n else if n < 62 then n - 4 else if n = 62 then 43 else 47)"
    using assms by (simp add: digit64_def byte_literals byte_char_of)
  then show "base64_code (byte (digit64 n)) = int n" using assms by (auto simp: base64_code_def byte_literals of_nat_diff)
  have "byte (digit64 n) \<notin> {63, 10, 95, 61}" using assms unfolding b by auto
  then show "digit64 n \<noteq> CHR ''?''" "digit64 n \<noteq> LF" "digit64 n \<noteq> CHR ''_''" "digit64 n \<noteq> CHR ''=''"
    using byte_literals by auto
qed

lemma masks:
  "list_all (\<lambda>n. int n AND 0xF = int (n mod 16) \<and> drop_bit 4 (int n AND 0x30) = int (n div 16) \<and>
     drop_bit 2 (int n AND 0x3c) = int (n div 4) \<and> int n AND 0x03 = int (n mod 4)) [0..<64]"
  by code_simp

lemma joins:
  "list_all (\<lambda>n. list_all (\<lambda>k. push_bit 2 (int n) OR int k = int (4 * n + k)) [0..<4]) [0..<64]"
  "list_all (\<lambda>n. list_all (\<lambda>k. push_bit 4 (int n) OR int k = int (16 * n + k)) [0..<16]) [0..<16]"
  "list_all (\<lambda>n. list_all (\<lambda>k. push_bit 6 (int n) OR int k = int (64 * n + k)) [0..<64]) [0..<4]"
  by code_simp+

lemma six_bits:
  assumes "p < 64" "q < 64"
  shows "push_bit 2 (int p) OR drop_bit 4 (int q AND 0x30) = int (4 * p + q div 16)"
    "push_bit 4 (int p AND 0xF) OR drop_bit 2 (int q AND 0x3c) = int (16 * (p mod 16) + q div 4)"
    "push_bit 6 (int p AND 0x03) OR int q = int (64 * (p mod 4) + q)"
proof -
  have m: "int n AND 0xF = int (n mod 16)" "drop_bit 4 (int n AND 0x30) = int (n div 16)"
     "drop_bit 2 (int n AND 0x3c) = int (n div 4)" "int n AND 0x03 = int (n mod 4)" if "n < 64" for n
    using masks that by (auto simp: list_all_iff)
  have "q div 16 < 4" "q div 4 < 16" using assms by auto
  then show "push_bit 2 (int p) OR drop_bit 4 (int q AND 0x30) = int (4 * p + q div 16)"
    "push_bit 4 (int p AND 0xF) OR drop_bit 2 (int q AND 0x3c) = int (16 * (p mod 16) + q div 4)"
    "push_bit 6 (int p AND 0x03) OR int q = int (64 * (p mod 4) + q)"
    using joins assms unfolding m [OF assms(1)] m [OF assms(2)] by (auto simp: list_all_iff)
qed

lemma char_of_int_byte [simp]: "char_of (nat (int (byte c) mod 256)) = c"
  by (simp add: byte_def zmod_int [symmetric, of _ 256, simplified] nat_mod_distrib)

definition b64_mode :: "bool \<Rightarrow> mm_code" where
  "b64_mode t = \<lparr>IS_QP = False, IS_BASE64 = True, IS_TRAN = t\<rparr>"

definition tran :: mm_code where
  "tran = \<lparr>IS_QP = False, IS_BASE64 = False, IS_TRAN = True\<rparr>"

lemma store_ok: "length dst < 256 \<Longrightarrow> store (int (byte c)) dst k = k (dst @ [c])"
  by (simp add: store_def)

lemma b64_step_digits:
  assumes "n1 < 64" "n2 < 64"
  shows "mm_step (b64_mode t) (digit64 n1) (digit64 n2 # c3 # c4 # src) dst = b64_group (digit64 n1) (digit64 n2) c3 c4 (b64_mode t) src dst"
  using digit64 [OF assms(1)] digit64 [OF assms(2)]
  by (simp add: mm_step_def b64_step_def b64_mode_def no_code_def)

lemma two_digits:
  fixes p q m :: nat
  assumes "q < m"
  shows "(p * m + q) div m = p" "(p * m + q) mod m = q"
  using assms by auto

lemma group_bytes:
  fixes a b c :: char
  shows "4 * (byte a div 4) + (byte a mod 4 * 16 + byte b div 16) div 16 = byte a"
    "16 * ((byte a mod 4 * 16 + byte b div 16) mod 16) + (byte b mod 16 * 4 + byte c div 64) div 4 = byte b"
    "64 * ((byte b mod 16 * 4 + byte c div 64) mod 4) + byte c mod 64 = byte c"
    "4 * (byte a div 4) + byte a mod 4 * 16 div 16 = byte a"
    "16 * ((byte a mod 4 * 16 + byte b div 16) mod 16) + byte b mod 16 * 4 div 4 = byte b"
    "byte a div 4 < 64" "byte a mod 4 * 16 + byte b div 16 < 64" "byte b mod 16 * 4 + byte c div 64 < 64" "byte c mod 64 < 64"
    "byte a mod 4 * 16 < 64" "byte b mod 16 * 4 < 64"
proof -
  have d: "byte b div 16 < 16" "byte c div 64 < 4" "byte a div 4 < 64" "byte a mod 4 < 4" "byte b mod 16 < 16"
    using byte_lt [of a] byte_lt [of b] byte_lt [of c] by (auto simp: less_mult_imp_div_less)
  note t = two_digits [OF d(1)] two_digits [OF d(2)]
  show "4 * (byte a div 4) + (byte a mod 4 * 16 + byte b div 16) div 16 = byte a"
    "16 * ((byte a mod 4 * 16 + byte b div 16) mod 16) + (byte b mod 16 * 4 + byte c div 64) div 4 = byte b"
    "64 * ((byte b mod 16 * 4 + byte c div 64) mod 4) + byte c mod 64 = byte c"
    "4 * (byte a div 4) + byte a mod 4 * 16 div 16 = byte a"
    "16 * ((byte a mod 4 * 16 + byte b div 16) mod 16) + byte b mod 16 * 4 div 4 = byte b"
    unfolding t by (simp_all add: mult_div_mod_eq)
  show "byte a div 4 < 64" "byte a mod 4 * 16 + byte b div 16 < 64" "byte b mod 16 * 4 + byte c div 64 < 64" "byte c mod 64 < 64"
    "byte a mod 4 * 16 < 64" "byte b mod 16 * 4 < 64"
    using d by auto
qed

lemma b64_group_digits:
  assumes "n1 < 64" "n2 < 64"
  shows "length dst < 256 \<Longrightarrow> b64_group (digit64 n1) (digit64 n2) (CHR ''='') c4 code src dst =
      Again (code\<lparr>IS_BASE64 := False, IS_TRAN := True\<rparr>) src (dst @ [char_of (4 * n1 + n2 div 16)])"
    and "length dst + 1 < 256 \<Longrightarrow> n3 < 64 \<Longrightarrow> b64_group (digit64 n1) (digit64 n2) (digit64 n3) (CHR ''='') code src dst =
      Again (code\<lparr>IS_BASE64 := False, IS_TRAN := True\<rparr>) src (dst @ [char_of (4 * n1 + n2 div 16), char_of (16 * (n2 mod 16) + n3 div 4)])"
    and "length dst + 2 < 256 \<Longrightarrow> n3 < 64 \<Longrightarrow> n4 < 64 \<Longrightarrow>
      b64_group (digit64 n1) (digit64 n2) (digit64 n3) (digit64 n4) code src dst = Again (code\<lparr>IS_TRAN := True\<rparr>) src
        (dst @ [char_of (4 * n1 + n2 div 16), char_of (16 * (n2 mod 16) + n3 div 4), char_of (64 * (n3 mod 4) + n4)])"
proof -
  have st: "store (int n) d k = k (d @ [char_of n])" if "length d < 256" for n d k
    using that by (simp add: store_def nat_mod_distrib)
  show "b64_group (digit64 n1) (digit64 n2) (CHR ''='') c4 code src dst =
      Again (code\<lparr>IS_BASE64 := False, IS_TRAN := True\<rparr>) src (dst @ [char_of (4 * n1 + n2 div 16)])"
    if "length dst < 256"
    using that unfolding b64_group_def Let_def digit64(1) [OF assms(1)] digit64(1) [OF assms(2)] six_bits(1) [OF assms(1,2)]
    by (subst st) simp_all
  show "b64_group (digit64 n1) (digit64 n2) (digit64 n3) (CHR ''='') code src dst =
      Again (code\<lparr>IS_BASE64 := False, IS_TRAN := True\<rparr>) src (dst @ [char_of (4 * n1 + n2 div 16), char_of (16 * (n2 mod 16) + n3 div 4)])"
    if "length dst + 1 < 256" and n3: "n3 < 64"
    using that(1) digit64(5) [OF n3]
    unfolding b64_group_def Let_def digit64(1) [OF assms(1)] digit64(1) [OF assms(2)] digit64(1) [OF n3]
      six_bits(1) [OF assms(1,2)] six_bits(2) [OF assms(2) n3]
    by (subst st, simp, subst st) simp_all
  show "b64_group (digit64 n1) (digit64 n2) (digit64 n3) (digit64 n4) code src dst = Again (code\<lparr>IS_TRAN := True\<rparr>) src
        (dst @ [char_of (4 * n1 + n2 div 16), char_of (16 * (n2 mod 16) + n3 div 4), char_of (64 * (n3 mod 4) + n4)])"
    if "length dst + 2 < 256" and n3: "n3 < 64" and n4: "n4 < 64"
    using that(1) digit64(5) [OF n3] digit64(5) [OF n4]
    unfolding b64_group_def Let_def digit64(1) [OF assms(1)] digit64(1) [OF assms(2)] digit64(1) [OF n3] digit64(1) [OF n4]
      six_bits(1) [OF assms(1,2)] six_bits(2) [OF assms(2) n3] six_bits(3) [OF n3 n4]
    by (subst st, simp, subst st, simp, subst st) simp_all
qed

lemma end_of_word:
  assumes "code \<noteq> no_code"
  shows "mm_loop code ''?='' dst = Home (code\<lparr>IS_QP := False, IS_BASE64 := False\<rparr>) dst"
  using assms by (simp add: mm_step_def)

lemma base64_loop:
  "length dst + length s + 1 \<le> 256 \<Longrightarrow>
   mm_loop (b64_mode t) (enc64 s @ ''?='') dst = Home (tran\<lparr>IS_TRAN := t \<or> s \<noteq> []\<rparr>) (dst @ s)"
proof (induction s arbitrary: t dst rule: enc64.induct)
  case 1
  then show ?case by (simp add: mm_step_def b64_mode_def no_code_def tran_def)
next
  case (2 a)
  have st: "mm_step (b64_mode t) (digit64 (byte a div 4)) (digit64 (byte a mod 4 * 16) # CHR ''='' # CHR ''='' # ''?='') dst =
      Again ((b64_mode t)\<lparr>IS_BASE64 := False, IS_TRAN := True\<rparr>) ''?='' (dst @ [a])"
  proof -
    have l: "length dst < 256" using "2.prems" by simp
    show ?thesis
      unfolding b64_step_digits [OF group_bytes(6,10)] b64_group_digits(1) [OF group_bytes(6,10) l] group_bytes(4) char_of_byte ..
  qed
  have ne: "(b64_mode t)\<lparr>IS_BASE64 := False, IS_TRAN := True\<rparr> \<noteq> no_code" by (simp add: b64_mode_def no_code_def)
  have "mm_loop (b64_mode t) (enc64 [a] @ ''?='') dst = mm_loop ((b64_mode t)\<lparr>IS_BASE64 := False, IS_TRAN := True\<rparr>) ''?='' (dst @ [a])"
    by (simp only: enc64.simps append.simps mm_loop.simps st mm_next.case)
  then show ?case unfolding end_of_word [OF ne] by (simp add: b64_mode_def tran_def)
next
  case (3 a b)
  have st: "mm_step (b64_mode t) (digit64 (byte a div 4))
      (digit64 (byte a mod 4 * 16 + byte b div 16) # digit64 (byte b mod 16 * 4) # CHR ''='' # ''?='') dst =
      Again ((b64_mode t)\<lparr>IS_BASE64 := False, IS_TRAN := True\<rparr>) ''?='' (dst @ [a, b])"
  proof -
    have l: "length dst + 1 < 256" using "3.prems" by simp
    show ?thesis
      unfolding b64_step_digits [OF group_bytes(6,7)] b64_group_digits(2) [OF group_bytes(6,7) l group_bytes(11)]
        group_bytes(1,5) char_of_byte ..
  qed
  have ne: "(b64_mode t)\<lparr>IS_BASE64 := False, IS_TRAN := True\<rparr> \<noteq> no_code" by (simp add: b64_mode_def no_code_def)
  have "mm_loop (b64_mode t) (enc64 [a, b] @ ''?='') dst = mm_loop ((b64_mode t)\<lparr>IS_BASE64 := False, IS_TRAN := True\<rparr>) ''?='' (dst @ [a, b])"
    by (simp only: enc64.simps append.simps mm_loop.simps st mm_next.case)
  then show ?case unfolding end_of_word [OF ne] by (simp add: b64_mode_def tran_def)
next
  case (4 a b c s)
  have st: "mm_step (b64_mode t) (digit64 (byte a div 4))
      (digit64 (byte a mod 4 * 16 + byte b div 16) # digit64 (byte b mod 16 * 4 + byte c div 64) # digit64 (byte c mod 64) # enc64 s @ ''?='') dst =
      Again (b64_mode True) (enc64 s @ ''?='') (dst @ [a, b, c])"
  proof -
    have l: "length dst + 2 < 256" using "4.prems" by simp
    have m: "(b64_mode t)\<lparr>IS_TRAN := True\<rparr> = b64_mode True" by (simp add: b64_mode_def)
    show ?thesis
      unfolding b64_step_digits [OF group_bytes(6,7)] b64_group_digits(3) [OF group_bytes(6,7) l group_bytes(8,9)]
        group_bytes(1-3) char_of_byte m ..
  qed
  have "mm_loop (b64_mode t) (enc64 (a # b # c # s) @ ''?='') dst = mm_loop (b64_mode True) (enc64 s @ ''?='') (dst @ [a, b, c])"
    by (simp only: enc64.simps append.simps mm_loop.simps st mm_next.case)
  then show ?case using "4.IH" [of "dst @ [a, b, c]" True] "4.prems" by simp
qed

lemma mm_head_word:
  assumes "CHR ''?'' \<notin> set cs"
  shows "mm_head 0 code (cs @ ''?B?'' @ src) = (no_code\<lparr>IS_BASE64 := True\<rparr>, Some src)"
    and "mm_head 0 code (cs @ ''?Q?'' @ src) = (no_code\<lparr>IS_QP := True\<rparr>, Some src)"
  using assms by (induction cs) auto

lemma mm_loop_word:
  assumes "CHR ''?'' \<notin> set cs"
  shows "mm_loop no_code (''=?'' @ cs @ ''?B?'' @ src) [] = mm_loop (no_code\<lparr>IS_BASE64 := True\<rparr>) src []"
    and "mm_loop no_code (''=?'' @ cs @ ''?Q?'' @ src) [] = mm_loop (no_code\<lparr>IS_QP := True\<rparr>) src []"
  using mm_head_word [OF assms, of no_code src] by (simp_all add: mm_step_def no_code_def)

text \<open>C39: a text in base64, in a header word of any character set, is decoded to just that text.\<close>

theorem base64_word_decoded:
  assumes "CHR ''?'' \<notin> set cs" "NUL \<notin> set s" "s \<noteq> []" "length s < 256"
  shows "mmdecode (''=?'' @ cs @ ''?B?'' @ enc64 s @ ''?='') = Some s"
proof -
  have m: "no_code\<lparr>IS_BASE64 := True\<rparr> = b64_mode False" by (simp add: no_code_def b64_mode_def)
  have l: "length [] + length s + 1 \<le> 256" using assms(4) by simp
  show ?thesis
    unfolding mmdecode_def mm_loop_word(1) [OF assms(1)] m base64_loop [OF l] mm_next.case
    using assms by (simp add: cstr_id tran_def)
qed

lemma base64_word_decoded_witness: "mmdecode ''=?gb2312?B?aGVsbG8=?='' = Some ''hello''"
proof -
  have e: "enc64 ''hello'' = ''aGVsbG8=''" by code_simp
  have "mmdecode (''=?'' @ ''gb2312'' @ ''?B?'' @ enc64 ''hello'' @ ''?='') = Some ''hello''"
    by (rule base64_word_decoded) simp_all
  then show ?thesis unfolding e by simp
qed

section \<open>Quoted-printable\<close>

definition hex_digit :: "nat \<Rightarrow> char" where
  "hex_digit n = char_of (if n < 10 then byte (CHR ''0'') + n else byte (CHR ''A'') + n - 10)"

definition qp_plain :: "char \<Rightarrow> bool" where
  "qp_plain c \<longleftrightarrow> isalpha c \<or> isdigit c"

definition qp_char :: "char \<Rightarrow> string" where
  "qp_char c = (if qp_plain c then [c] else if c = SPC then ''_'' else [CHR ''='', hex_digit (byte c div 16), hex_digit (byte c mod 16)])"

definition qp_escaped :: "char \<Rightarrow> bool" where
  "qp_escaped c \<longleftrightarrow> \<not> qp_plain c \<and> c \<noteq> SPC"

definition qp_mode :: "bool \<Rightarrow> mm_code" where
  "qp_mode t = \<lparr>IS_QP = True, IS_BASE64 = False, IS_TRAN = t\<rparr>"

lemma qp_code_hex: "n < 16 \<Longrightarrow> qp_code (byte (hex_digit n)) = int n"
  by (auto simp: qp_code_def hex_digit_def byte_literals byte_char_of of_nat_diff)

lemma nibbles: "push_bit 4 (int (byte c div 16)) OR int (byte c mod 16) = int (byte c)"
proof -
  have "byte c div 16 < 16" using byte_lt [of c] by (simp add: less_mult_imp_div_less)
  moreover have "byte c mod 16 < 16" by simp
  ultimately have "push_bit 4 (int (byte c div 16)) OR int (byte c mod 16) = int (16 * (byte c div 16) + byte c mod 16)"
    using joins(2) [unfolded list_all_iff, THEN bspec, THEN bspec, of "byte c div 16" "byte c mod 16"] by simp
  then show ?thesis by simp
qed

lemma qp_plain_neq:
  assumes "qp_plain c"
  shows "c \<noteq> CHR ''?''" "c \<noteq> LF" "c \<noteq> CHR ''_''" "c \<noteq> CHR ''=''"
proof -
  have "byte c \<notin> {63, 10, 95, 61}" using assms by (auto simp: qp_plain_def isalpha_def isupper_def islower_def isdigit_def)
  then show "c \<noteq> CHR ''?''" "c \<noteq> LF" "c \<noteq> CHR ''_''" "c \<noteq> CHR ''=''" using byte_literals by auto
qed

lemma qp_char_loop:
  assumes "length dst < 256"
  shows "mm_loop (qp_mode t) (qp_char c @ src) dst = mm_loop (qp_mode (t \<or> qp_escaped c)) src (dst @ [c])"
proof (cases "qp_plain c")
  case True
  then have "mm_step (qp_mode t) c src dst = Again (qp_mode t) src (dst @ [c])"
    using qp_plain_neq [OF True] assms by (simp add: mm_step_def qp_mode_def store_ok)
  then show ?thesis using True by (simp add: qp_char_def qp_escaped_def)
next
  case p: False
  show ?thesis
  proof (cases "c = SPC")
    case True
    have "mm_step (qp_mode t) (CHR ''_'') src dst = Again (qp_mode t) src (dst @ [SPC])"
      using assms by (simp add: mm_step_def qp_mode_def store_ok)
    then show ?thesis using True p by (simp add: qp_char_def qp_escaped_def)
  next
    case False
    have "byte c div 16 < 16" "byte c mod 16 < 16" using byte_lt [of c] by (simp_all add: less_mult_imp_div_less)
    then have "mm_step (qp_mode t) (CHR ''='') (hex_digit (byte c div 16) # hex_digit (byte c mod 16) # src) dst =
        Again (qp_mode True) src (dst @ [c])"
      using assms by (simp add: mm_step_def qp_step_def qp_mode_def qp_code_hex nibbles store_ok)
    then show ?thesis using False p by (simp add: qp_char_def qp_escaped_def)
  qed
qed

lemma qp_loop:
  "length dst + length s \<le> 256 \<Longrightarrow>
   mm_loop (qp_mode t) (concat (map qp_char s) @ ''?='') dst =
     Home (tran\<lparr>IS_TRAN := t \<or> (\<exists>c\<in>set s. qp_escaped c)\<rparr>) (dst @ s)"
proof (induction s arbitrary: t dst)
  case Nil
  then show ?case by (simp add: mm_step_def qp_mode_def no_code_def tran_def)
next
  case (Cons c s)
  then have "length dst < 256" "length (dst @ [c]) + length s \<le> 256" by auto
  then show ?case
    using Cons.IH [of "dst @ [c]" "t \<or> qp_escaped c"] qp_char_loop [of dst t c "concat (map qp_char s) @ ''?=''"]
    by (simp add: disj_assoc)
qed

text \<open>C40: a text in quoted-printable is decoded to just that text if at least one of its bytes had to be
  escaped; a word of letters, digits and blanks is left as it is, blanks written as underscores included.\<close>

theorem qp_word_decoded:
  assumes "CHR ''?'' \<notin> set cs" "NUL \<notin> set s" "length s < 256"
  shows "mmdecode (''=?'' @ cs @ ''?Q?'' @ concat (map qp_char s) @ ''?='') =
    Some (if \<exists>c\<in>set s. qp_escaped c then s else ''=?'' @ cs @ ''?Q?'' @ concat (map qp_char s) @ ''?='')"
proof -
  have m: "no_code\<lparr>IS_QP := True\<rparr> = qp_mode False" by (simp add: no_code_def qp_mode_def)
  have l: "length [] + length s \<le> 256" using assms(3) by simp
  show ?thesis
    unfolding mmdecode_def mm_loop_word(2) [OF assms(1)] m qp_loop [OF l] mm_next.case
    using assms by (simp add: cstr_id tran_def)
qed

lemma qp_word_decoded_witness:
  "mmdecode ''=?gb2312?Q?=42!?='' \<noteq> None \<and> mmdecode ''=?gb2312?Q?hi_there?='' = Some ''=?gb2312?Q?hi_there?=''"
proof -
  have e: "concat (map qp_char ''hi there'') = ''hi_there''" "list_ex qp_escaped ''hi there'' = False" by code_simp+
  have "mmdecode (''=?'' @ ''gb2312'' @ ''?Q?'' @ concat (map qp_char ''hi there'') @ ''?='') =
     Some (if \<exists>c\<in>set ''hi there''. qp_escaped c then ''hi there''
           else ''=?'' @ ''gb2312'' @ ''?Q?'' @ concat (map qp_char ''hi there'') @ ''?='')"
    by (rule qp_word_decoded) simp_all
  moreover have "\<not> (\<exists>c\<in>set ''hi there''. qp_escaped c)" using e(2) unfolding list_ex_iff by blast
  moreover have "mmdecode ''=?gb2312?Q?=42!?='' \<noteq> None" by code_simp
  ultimately show ?thesis unfolding e(1) by simp
qed

text \<open>A text in base64 that ends after the first character of a group is read behind its NUL.\<close>

lemma base64_cut_short: "mmdecode ''=?gb2312?B?aGVsbG8hA'' = None"
  by code_simp

lemma mmdecode_fits_witness: "length ''hello'' \<le> length ''=?gb2312?B?aGVsbG8=?=''"
  by (rule mmdecode_fits) code_simp

end
