(* ===== verification/WebRequest.thy ===== *)
theory WebRequest
  imports Posting
begin

text \<open>
  Web requests: \<^verbatim>\<open>www/libweb.c\<close>. The parameters of a request come from its query string, its cookie and
  the data posted; a session is found by the cookie; what is sent back is escaped for XML. The
  environment, the input and the clock are arguments; the arrays of parameters are a list of pairs, and
  \<open>None\<close> is a write behind them. \<^verbatim>\<open>malloc\<close> succeeds. Fixed headers and the file of upload limits are
  left out.
\<close>

unbundle bit_operations_syntax

section \<open>Parameters\<close>

definition hex2dec :: "char \<Rightarrow> int" where
  "hex2dec c =
     (let b = int (byte (toupper c))
      in if 48 \<le> b \<and> b \<le> 57 then b - 48 else if 65 \<le> b \<and> b \<le> 70 then b - 55 else 0)"

fun url_decode :: "string \<Rightarrow> string \<times> int" where
  \<comment> \<open>in place: what is written, up to the NUL it ends with, and the result\<close>
  "url_decode [] = ([], 0)"
| "url_decode (c # s) =
     (if c = CHR ''+'' then map_prod (Cons SPC) id (url_decode s)
      else if c = CHR ''%''
      then (case s of
              x # y # s \<Rightarrow> map_prod (Cons (char_of (nat ((hex2dec x * 16 + hex2dec y) mod 256)))) id (url_decode s)
            | _ \<Rightarrow> ([], -1))
      else map_prod (Cons c) id (url_decode s))"

definition MAX_PARAMS :: nat where "MAX_PARAMS = 256"
definition PARAM_NAMELEN :: nat where "PARAM_NAMELEN = 80"
definition MAX_CONTENT_LENGTH :: nat where "MAX_CONTENT_LENGTH = 5 * 1024 * 1024"

type_synonym params = "(string \<times> string) list"

definition param_add :: "string \<Rightarrow> string \<Rightarrow> params \<Rightarrow> (params \<times> int) option" where
  \<comment> \<open>the limit is \<^verbatim>\<open>sizeof(param_val) - 1\<close>, in bytes: eight times the number of entries, less one\<close>
  "param_add name val ps =
     (if MAX_PARAMS * 8 - 1 \<le> length ps then Some (ps, -1)
      else if MAX_PARAMS \<le> length ps then None
      else Some (ps @ [(take (PARAM_NAMELEN - 1) name, val)], 0))"

function strtok :: "char \<Rightarrow> string \<Rightarrow> string list" where
  \<comment> \<open>what the calls of \<^verbatim>\<open>strtok\<close> return, one after the other\<close>
  "strtok delim s =
     (let s = dropWhile (\<lambda>c. c = delim) s
      in if s = [] then [] else takeWhile (\<lambda>c. c \<noteq> delim) s # strtok delim (dropWhile (\<lambda>c. c \<noteq> delim) s))"
  by pat_completeness auto
termination
proof (relation "measure (\<lambda>(_, s). length s)", simp, goal_cases)
  case (1 delim s x)
  then obtain c cs where "x = c # cs" "c \<noteq> delim" using hd_dropWhile [of "\<lambda>c. c = delim" s] by (metis list.exhaust list.sel(1))
  moreover have "length x \<le> length s" using 1(1) by (simp add: length_dropWhile_le)
  ultimately show ?case using length_dropWhile_le [of "\<lambda>c. c \<noteq> delim" cs] by simp
qed

declare strtok.simps [simp del]

definition trimmed :: "string \<Rightarrow> string" where
  \<comment> \<open>\<^verbatim>\<open>trim\<close> of a string that lies in a buffer; what stands before it does not matter\<close>
  "trimmed s = cstr (the (trim NUL (Some (s @ [NUL]))))"

fun parse_tokens :: "string list \<Rightarrow> params \<Rightarrow> (params \<times> int) option" where
  "parse_tokens [] ps = Some (ps, 0)"
| "parse_tokens (t2 # ts) ps =
     (if CHR ''='' \<in> set t2
      then (case param_add (trimmed (takeWhile (\<lambda>c. c \<noteq> CHR ''='') t2))
                   (cstr (fst (url_decode (tl (dropWhile (\<lambda>c. c \<noteq> CHR ''='') t2))))) ps of
              None \<Rightarrow> None
            | Some (ps, r) \<Rightarrow> if r < 0 then Some (ps, -1) else parse_tokens ts ps)
      else parse_tokens ts ps)"

definition param_parse :: "string \<Rightarrow> char \<Rightarrow> params \<Rightarrow> (params \<times> int) option" where
  "param_parse buf delim ps = parse_tokens (strtok delim buf) ps"

definition param_init :: "string \<Rightarrow> string \<Rightarrow> params option" where
  \<comment> \<open>\<^verbatim>\<open>QUERY_STRING\<close> and \<^verbatim>\<open>HTTP_COOKIE\<close>; the parameters of the request before are freed\<close>
  "param_init query cookie =
     (case param_parse (take 1023 query) (CHR ''&'') [] of
        None \<Rightarrow> None
      | Some (ps, _) \<Rightarrow> map_option fst (param_parse (take 1023 cookie) (CHR '';'') ps))"

definition parse_post_data :: "nat \<Rightarrow> string \<Rightarrow> params \<Rightarrow> (params \<times> int) option" where
  \<comment> \<open>\<^verbatim>\<open>CONTENT_LENGTH\<close> and the input\<close>
  "parse_post_data len input ps =
     (if len = 0 then Some (ps, 0)
      else let n = min len MAX_CONTENT_LENGTH
           in if length input < n then Some (ps, BBS_EINTNL)
              else map_option (\<lambda>(ps, _). (ps, 0)) (param_parse (cstr (take n input)) (CHR ''&'') ps))"

definition getparm :: "string \<Rightarrow> params \<Rightarrow> string" where
  "getparm name ps = (case find (\<lambda>p. strcasecmp_eq (fst p) name) ps of None \<Rightarrow> [] | Some p \<Rightarrow> snd p)"

fun referer_from :: "nat \<Rightarrow> string \<Rightarrow> string" where
  \<comment> \<open>behind the \<open>i\<close>-th slash there still is; the slash itself is put back\<close>
  "referer_from 0 r = CHR ''/'' # r"
| "referer_from (Suc i) [] = []"
| "referer_from (Suc i) (c # r) = referer_from (if c = CHR ''/'' then i else Suc i) r"

definition get_referer :: "string \<Rightarrow> string" where
  "get_referer r = referer_from 3 r"

section \<open>Output\<close>

definition xml_subst :: "char \<Rightarrow> string option" where
  "xml_subst c =
     (if c = CHR ''<'' then Some ''&lt;'' else if c = CHR ''>'' then Some ''&gt;'' else if c = CHR ''&'' then Some ''&amp;''
      else if c = ESC then Some ''>1b'' else if c = CR then Some [] else None)"

fun xml_loop :: "string \<Rightarrow> string \<Rightarrow> string \<Rightarrow> string" where
  \<comment> \<open>\<open>pend\<close>: the characters from \<^verbatim>\<open>last\<close> to \<^verbatim>\<open>c\<close>, not written yet; \<open>out\<close>: what has been written\<close>
  "xml_loop pend [] out = out @ pend"
| "xml_loop pend (c # s) out =
     (if c = NUL then out @ pend
      else case xml_subst c of Some subst \<Rightarrow> xml_loop [] s (out @ pend @ subst) | None \<Rightarrow> xml_loop (pend @ [c]) s out)"

definition xml_fputs2 :: "string \<Rightarrow> nat \<Rightarrow> string" where
  "xml_fputs2 s n = xml_loop [] (if n = 0 then cstr s else take n s) []"

definition xml_fputs :: "string \<Rightarrow> string" where
  "xml_fputs s = xml_fputs2 s 0"

definition xml_printfile :: "string option \<Rightarrow> string \<times> int" where
  \<comment> \<open>the bytes of the file, if it can be mapped\<close>
  "xml_printfile file =
     (case file of None \<Rightarrow> ([], -1) | Some s \<Rightarrow> (if s \<noteq> [] then xml_fputs2 s (length s) else [], 0))"

section \<open>Sessions\<close>

definition MAXACTIVE :: int where "MAXACTIVE = 10"

definition strtol_int :: "string \<Rightarrow> int" where
  \<comment> \<open>\<^verbatim>\<open>strtol\<close>, limited to a \<^verbatim>\<open>long\<close>, assigned to an \<^verbatim>\<open>int\<close>\<close>
  "strtol_int s = int32 (max (-(2 ^ 63)) (min (2 ^ 63 - 1) (atoi s)))"

definition user_init :: "bool \<Rightarrow> int \<Rightarrow> params \<Rightarrow> string \<Rightarrow> int \<Rightarrow> ucache \<Rightarrow> utmpfile \<Rightarrow> userec \<Rightarrow>
    utmpfile \<times> (userec \<times> nat) option" where
  \<comment> \<open>the account and the slot of the session, or none; \<open>clear\<close> is the account of zeros, and \<^verbatim>\<open>IDLE\<close> is 0\<close>
  "user_init there now ps fromhost mode uc ut clear =
     (let id = getparm ''utmpuserid'' ps; i = strtol_int (getparm ''utmpnum'' ps); key = strtol_int (getparm ''utmpkey'' ps)
      in if i \<le> 0 \<or> MAXACTIVE < i then (ut, None)
         else let y = ut_uinfo ut ! nat (i - 1)
              in if take 16 (cstr (ui_from y)) \<noteq> take 16 fromhost \<or> ui_utmpkey y \<noteq> key \<or> ui_active y = 0
                    \<or> cstr (ui_userid y) = [] \<or> \<not> is_web_user (ui_mode y)
                 then (ut, None)
                 else if strcasecmp_eq (cstr (ui_userid y)) ''new'' \<or> strcasecmp_eq (cstr (ui_userid y)) ''guest'' then (ut, None)
                 else let x = fst (getuserbyuid there clear (nat (ui_uid y)) uc)
                      in if cstr (pw_userid x) \<noteq> id then (ut, None)
                         else (ut\<lparr>ut_uinfo := (ut_uinfo ut)[nat (i - 1) :=
                                 y\<lparr>ui_idle_time := now, ui_mode := if get_web_mode 0 \<noteq> mode then mode else ui_mode y\<rparr>]\<rparr>,
                               Some (x, nat (i - 1))))"

section \<open>Small routines\<close>

definition iconexp :: "int \<Rightarrow> int option \<times> int" where
  \<comment> \<open>the icon, not set for a negative number, and how often it is repeated\<close>
  "iconexp e =
     (if e < 0 then (None, 0)
      else let i = min 5 (e div 2000); j = min 9 ((e - i * 2000) div 200) in (Some i, j + 1))"

definition user_perm :: "userec \<Rightarrow> u32 \<Rightarrow> bool" where
  "user_perm x level \<longleftrightarrow> (if level \<noteq> 0 then pw_userlevel x AND level \<noteq> 0 else True)"

definition getfiletime :: "string \<Rightarrow> string \<Rightarrow> int" where
  \<comment> \<open>of the names of the file and its owner\<close>
  "getfiletime filename owner =
     (if take 1 filename = ''s'' then atoi (drop (length owner + 20) filename) else atoi (drop 2 filename))"

definition bbsmail_search :: "string list option \<Rightarrow> string option \<Rightarrow> nat option" where
  \<comment> \<open>of the file names in an index: the last that is equal\<close>
  "bbsmail_search names file =
     (case (names, file) of
        (Some names, Some f) \<Rightarrow> find (\<lambda>i. names ! i = f) (rev [0..<length names])
      | _ \<Rightarrow> None)"

definition valid_mailname :: "string \<Rightarrow> bool" where
  "valid_mailname file \<longleftrightarrow>
     (if take 11 file = ''sharedmail/''
      then \<not> (contains (drop 11 file) ''..'' \<or> CHR ''/'' \<in> set (drop 11 file))
      else \<not> (take 2 file \<noteq> ''M.'' \<or> contains file ''..'' \<or> CHR ''/'' \<in> set file))"

definition get_permission :: "bool \<Rightarrow> u32 \<Rightarrow> string" where
  "get_permission loginok level =
     [if loginok then CHR ''l'' else SPC, if HAS_PERM2 PERM_TALK level then CHR ''t'' else SPC,
      if HAS_PERM2 PERM_CLOAK level then CHR ''#'' else SPC,
      if HAS_PERM2 PERM_OBOARDS level \<and> HAS_PERM2 PERM_SPECIAL0 level then CHR ''f'' else SPC]"

fun check_gbk_loop :: "bool \<Rightarrow> string \<Rightarrow> bool" where
  "check_gbk_loop gbk [] = gbk"
| "check_gbk_loop gbk (c # s) = check_gbk_loop (\<not> gbk \<and> hibit c) s"

definition check_gbk :: "string \<Rightarrow> nat" where
  \<comment> \<open>where to end the string, so that no half of a character is left\<close>
  "check_gbk title = (if check_gbk_loop False title then length title - 1 else length title)"

definition printable_filter :: "string \<Rightarrow> string" where
  "printable_filter str = filter (\<lambda>c. hibit c \<or> isprint c) str"

section \<open>Encoding and decoding of values\<close>

lemma hex2dec_digit: "0 \<le> h \<Longrightarrow> h < 16 \<Longrightarrow> hex2dec (url_digit h) = h"
proof -
  assume h: "0 \<le> h" "h < 16"
  then have b: "byte (url_digit h) = nat (if 9 < h then 55 + h else 48 + h)"
    by (simp add: url_digit_def byte_char_of)
  then have "toupper (url_digit h) = url_digit h" using h by (auto simp: toupper_def islower_def)
  then show ?thesis using h b by (simp add: hex2dec_def)
qed

lemma url_digit_neq: "0 \<le> h \<Longrightarrow> h < 16 \<Longrightarrow> url_digit h \<notin> {NUL, CHR ''&'', CHR ''='', CHR ''%'', CHR ''+''}"
proof -
  assume h: "0 \<le> h" "h < 16"
  then have "byte (url_digit h) = nat (if 9 < h then 55 + h else 48 + h)"
    by (simp add: url_digit_def byte_char_of)
  then have "byte (url_digit h) \<notin> {0, 38, 61, 37, 43}" using h by auto
  moreover have "byte NUL = 0" "byte (CHR ''&'') = 38" "byte (CHR ''='') = 61" "byte (CHR ''%'') = 37" "byte (CHR ''+'') = 43"
    by (simp_all add: byte_def)
  ultimately show ?thesis by auto
qed

lemma percent_decoded:
  "char_of (nat ((int (byte c div 16) * 16 + int (byte c mod 16)) mod 256)) = c"
proof -
  have "int (byte c div 16 * 16 + byte c mod 16) = int (byte c)" by simp
  then have "int (byte c div 16) * 16 + int (byte c mod 16) = int (byte c)" by (simp only: of_nat_add of_nat_mult of_nat_numeral)
  then show ?thesis by (simp flip: of_nat_mod add: mod_less)
qed

text \<open>C13: what \<open>strtourl\<close> makes of a 7-bit text for a link, \<open>url_decode\<close> reads back in the next request,
  except for plus signs: one does not escape them and the other makes blanks of them.\<close>

theorem url_roundtrip_but_plus:
  assumes "\<forall>c\<in>set s. \<not> hibit c"
  shows "url_decode (strtourl s) = (map (\<lambda>c. if c = CHR ''+'' then SPC else c) s, 0)"
  using assms
proof (induction s)
  case Nil
  then show ?case by simp
next
  case (Cons c s)
  then have c: "byte c < 128" by (simp add: hibit_def)
  have d: "c_div (schar c) 16 = int (byte c div 16)" "c_mod (schar c) 16 = int (byte c mod 16)"
    using c by (simp_all add: schar_def c_div_nonneg c_mod_nonneg zdiv_int zmod_int)
  have h: "int (byte c div 16) < 16" "int (byte c mod 16) < 16" using c by auto
  have "c = CHR ''+'' \<Longrightarrow> isprint c" by (simp add: isprint_def byte_def)
  then show ?case
    using Cons d hex2dec_digit [OF _ h(1)] hex2dec_digit [OF _ h(2)] percent_decoded [of c] by auto
qed

lemma url_roundtrip_but_plus_witness: "url_decode (strtourl ''a+b%c'') = (''a b%c'', 0)"
  using url_roundtrip_but_plus [of "''a+b%c''"] by (simp add: hibit_def byte_def)

section \<open>A query is parsed to its pairs\<close>

definition url_value :: "string \<Rightarrow> string" where
  \<comment> \<open>a value with every byte escaped, as a browser may send it\<close>
  "url_value v = concat (map (\<lambda>c. [CHR ''%'', url_digit (int (byte c div 16)), url_digit (int (byte c mod 16))]) v)"

definition query :: "params \<Rightarrow> string" where
  "query ps = concat (map (\<lambda>(k, v). k @ CHR ''='' # url_value v @ ''&'') ps)"

definition name_ok :: "string \<Rightarrow> bool" where
  "name_ok k \<longleftrightarrow> (\<forall>c\<in>set k. 32 < byte c \<and> c \<noteq> CHR ''='' \<and> c \<noteq> CHR ''&'') \<and> length k < PARAM_NAMELEN"

lemma digits_of_byte:
  "0 \<le> int (byte c div 16)" "int (byte c div 16) < 16" "0 \<le> int (byte c mod 16)" "int (byte c mod 16) < 16"
  using byte_lt [of c] by (simp_all add: less_mult_imp_div_less)

lemma url_value_decoded: "url_decode (url_value v) = (v, 0)"
proof (induction v)
  case (Cons c v)
  then show ?case
    using hex2dec_digit [OF digits_of_byte(1,2), of c] hex2dec_digit [OF digits_of_byte(3,4), of c] percent_decoded [of c]
    by (simp add: url_value_def)
qed (simp add: url_value_def)

lemma url_value_chars: "c \<in> set (url_value v) \<Longrightarrow> c \<noteq> CHR ''&'' \<and> c \<noteq> CHR ''='' \<and> c \<noteq> NUL"
proof -
  assume "c \<in> set (url_value v)"
  then obtain d where "c \<in> set [CHR ''%'', url_digit (int (byte d div 16)), url_digit (int (byte d mod 16))]"
    unfolding url_value_def set_concat set_map by blast
  then show ?thesis using url_digit_neq [OF digits_of_byte(1,2), of d] url_digit_neq [OF digits_of_byte(3,4), of d] by auto
qed

lemma strtok_token:
  assumes "t \<noteq> []" "delim \<notin> set t"
  shows "strtok delim (t @ delim # s) = t # strtok delim (delim # s)"
proof -
  have "dropWhile (\<lambda>c. c = delim) (t @ delim # s) = t @ delim # s" using assms by (cases t) auto
  moreover have "\<forall>x\<in>set t. x \<noteq> delim" using assms(2) by auto
  ultimately show ?thesis using assms(1) by (subst strtok.simps) (simp add: Let_def takeWhile_append dropWhile_append)
qed

lemma strtok_skip: "strtok delim (delim # s) = strtok delim s"
  by (subst strtok.simps, subst (2) strtok.simps) simp

lemma strtok_Nil [simp]: "strtok delim [] = []"
  by (subst strtok.simps) simp

lemma strtok_query:
  assumes "\<forall>p\<in>set ps. name_ok (fst p)"
  shows "strtok (CHR ''&'') (query ps) = map (\<lambda>(k, v). k @ CHR ''='' # url_value v) ps"
  using assms
proof (induction ps)
  case (Cons p ps)
  obtain k v where p: "p = (k, v)" by (cases p)
  have "CHR ''&'' \<notin> set (k @ CHR ''='' # url_value v)" using Cons.prems url_value_chars by (auto simp: p name_ok_def)
  then have "strtok (CHR ''&'') ((k @ CHR ''='' # url_value v) @ CHR ''&'' # query ps) =
      (k @ CHR ''='' # url_value v) # strtok (CHR ''&'') (CHR ''&'' # query ps)"
    by (intro strtok_token) simp_all
  moreover have "query (p # ps) = (k @ CHR ''='' # url_value v) @ CHR ''&'' # query ps" by (simp add: query_def p)
  ultimately show ?case using Cons by (simp add: p strtok_skip)
qed (simp add: query_def)

lemma trimmed_id:
  assumes "name_ok k"
  shows "trimmed k = k"
proof -
  have k: "\<forall>c\<in>set k. 32 < byte c" using assms by (simp add: name_ok_def)
  then have n: "NUL \<notin> set k" by (auto simp: byte_def)
  have nb: "\<forall>c\<in>set k. \<not> blank c" "\<forall>c\<in>set (rev k). \<not> blank c" using k by (auto simp: blank_def)
  have "dropWhile blank k = k" using nb(1) by (cases k) auto
  moreover have "dropWhile blank (rev k) = rev k" using nb(2) by (cases "rev k") auto
  ultimately have "strip_right k = k" "dropWhile blank k = k" by (simp_all add: strip_right_def)
  then show ?thesis using trim_spec [OF n, of NUL "[]"] by (cases "trim NUL (Some (k @ [NUL]))") (auto simp: trimmed_def)
qed

lemma parse_tokens_query:
  assumes "\<forall>p\<in>set ps. name_ok (fst p) \<and> NUL \<notin> set (snd p)" "length ps0 \<le> MAX_PARAMS"
  shows "parse_tokens (map (\<lambda>(k, v). k @ CHR ''='' # url_value v) ps) ps0 =
    (if length ps0 + length ps \<le> MAX_PARAMS then Some (ps0 @ ps, 0) else None)"
  using assms
proof (induction ps arbitrary: ps0)
  case (Cons p ps)
  obtain k v where p: "p = (k, v)" by (cases p)
  have k: "name_ok k" "NUL \<notin> set v" using Cons.prems p by auto
  then have e: "\<forall>c\<in>set k. c \<noteq> CHR ''=''" by (simp add: name_ok_def)
  have t: "takeWhile (\<lambda>c. c \<noteq> CHR ''='') (k @ CHR ''='' # url_value v) = k"
    "dropWhile (\<lambda>c. c \<noteq> CHR ''='') (k @ CHR ''='' # url_value v) = CHR ''='' # url_value v"
    using e by (simp_all add: takeWhile_append dropWhile_append)
  have v: "cstr (fst (url_decode (url_value v))) = v" using k(2) by (simp add: url_value_decoded cstr_id)
  have add: "param_add k v ps0 = (if length ps0 < MAX_PARAMS then Some (ps0 @ [(k, v)], 0) else None)"
  proof -
    have "length k < 80" using k(1) by (simp add: name_ok_def PARAM_NAMELEN_def)
    then show ?thesis using Cons.prems(2) by (simp add: param_add_def MAX_PARAMS_def PARAM_NAMELEN_def)
  qed
  show ?case
  proof (cases "length ps0 < MAX_PARAMS")
    case True
    then have "length (ps0 @ [(k, v)]) \<le> MAX_PARAMS" by simp
    then show ?thesis using Cons.IH [of "ps0 @ [(k, v)]"] Cons.prems(1) True add t v trimmed_id [OF k(1)] by (simp add: p)
  next
    case False
    then show ?thesis using add t v trimmed_id [OF k(1)] by (simp add: p)
  qed
qed simp

text \<open>C11: a query of pairs is parsed to just these pairs, in their order, whatever the bytes of the values;
  but the check of the number of parameters counts bytes instead of entries, so that the one after the
  256th is written behind the arrays.\<close>

theorem query_parsed:
  assumes "\<forall>p\<in>set ps. name_ok (fst p) \<and> NUL \<notin> set (snd p)"
  shows "param_parse (query ps) (CHR ''&'') [] = (if length ps \<le> MAX_PARAMS then Some (ps, 0) else None)"
  using assms strtok_query [of ps] parse_tokens_query [of ps "[]"] by (simp add: param_parse_def)

lemma query_parsed_witness:
  "param_parse (query [(''u'', ''a&b''), (''p'', '''')]) (CHR ''&'') [] = Some ([(''u'', ''a&b''), (''p'', '''')], 0)
   \<and> param_parse (query (replicate 257 (''u'', ''''))) (CHR ''&'') [] = None"
proof -
  have n: "name_ok ''u''" "name_ok ''p''" by (simp_all add: name_ok_def byte_def PARAM_NAMELEN_def)
  then have "param_parse (query [(''u'', ''a&b''), (''p'', '''')]) (CHR ''&'') [] = Some ([(''u'', ''a&b''), (''p'', '''')], 0)"
    using query_parsed [of "[(''u'', ''a&b''), (''p'', '''')]"] by (simp add: MAX_PARAMS_def)
  moreover have "param_parse (query (replicate 257 (''u'', ''''))) (CHR ''&'') [] = None"
    using n query_parsed [of "replicate 257 (''u'', '''')"] by (simp add: MAX_PARAMS_def)
  ultimately show ?thesis by blast
qed

section \<open>What is sent can be read\<close>

definition xml_char :: "char \<Rightarrow> string" where
  "xml_char c = (case xml_subst c of Some s \<Rightarrow> s | None \<Rightarrow> [c])"

lemma xml_loop_eq: "NUL \<notin> set s \<Longrightarrow> xml_loop pend s out = out @ pend @ concat (map xml_char s)"
  by (induction pend s out rule: xml_loop.induct) (auto simp: xml_char_def split: option.splits)

lemma xml_fputs_eq: "NUL \<notin> set s \<Longrightarrow> xml_fputs s = concat (map xml_char s)"
  by (simp add: xml_fputs_def xml_fputs2_def cstr_id xml_loop_eq)

function xml_read :: "string \<Rightarrow> string" where
  \<comment> \<open>entities, and the escape that stands for itself in the pages\<close>
  "xml_read [] = []"
| "xml_read (c # s) =
     (if c = CHR ''&'' \<and> take 3 s = ''lt;'' then CHR ''<'' # xml_read (drop 3 s)
      else if c = CHR ''&'' \<and> take 3 s = ''gt;'' then CHR ''>'' # xml_read (drop 3 s)
      else if c = CHR ''&'' \<and> take 4 s = ''amp;'' then CHR ''&'' # xml_read (drop 4 s)
      else if c = CHR ''>'' \<and> take 2 s = ''1b'' then ESC # xml_read (drop 2 s)
      else c # xml_read s)"
  by pat_completeness auto
termination
  by (relation "measure length") auto

lemma xml_read_char: "xml_read (xml_char c @ s) = (if c = CR then xml_read s else c # xml_read s)"
  by (auto simp: xml_char_def xml_subst_def)

text \<open>C12: what is written of a text has no opening angle bracket in it, so that a text cannot open a tag, and
  reads back as the text without its carriage returns.\<close>

theorem xml_escaped:
  assumes "NUL \<notin> set s"
  shows "CHR ''<'' \<notin> set (xml_fputs s) \<and> xml_read (xml_fputs s) = filter (\<lambda>c. c \<noteq> CR) s"
proof -
  have "CHR ''<'' \<notin> set (concat (map xml_char s))"
    by (auto simp: xml_char_def xml_subst_def split: if_splits option.splits)
  moreover have "xml_read (concat (map xml_char s)) = filter (\<lambda>c. c \<noteq> CR) s"
    by (induction s) (auto simp: xml_read_char)
  ultimately show ?thesis using xml_fputs_eq [OF assms] by simp
qed

lemma xml_escaped_witness: "CHR ''<'' \<notin> set (xml_fputs ''a<b'') \<and> xml_read (xml_fputs ''a<b'') = ''a<b''"
  using xml_escaped [of "''a<b''"] by simp

end
