(* ===== verification/Editor.thy ===== *)
theory Editor
  imports TermInput TextFiles
begin

text \<open>
  The text editor, \<^verbatim>\<open>src/edit.c\<close>: the doubly linked list of the lines of an article, the cursor, the
  marked block, and what the keys do to them. The lines are nodes of an explicit store, addressed by
  numbers, so that pointers that are left on a freed line show. \<open>None\<close> is undefined behaviour: a null
  or freed pointer, a byte outside \<^verbatim>\<open>data\<close>, a string without its NUL, or a loop that does not end.
  \<^verbatim>\<open>ALLOWAUTOWRAP\<close> is compiled in. Painting the screen is left out.
\<close>

unbundle bit_operations_syntax

section \<open>Lines\<close>

type_synonym ptr = "nat option"

record textline =
  tl_prev :: ptr
  tl_next :: ptr
  tl_len :: int
  tl_attr :: "8 word"
  tl_data :: string

definition M_MARK :: "8 word" where "M_MARK = 0x01"

record editor =
  ed_heap :: "nat \<Rightarrow> textline option"
  ed_fresh :: nat
  ed_junk :: string
  firstline :: ptr
  can_edit_begin :: ptr
  can_edit_end :: ptr
  top_of_win :: ptr
  currline :: ptr
  mark_begin :: ptr
  mark_end :: ptr
  currpnt :: int
  curr_window_line :: int
  currln :: int
  mark_on :: int
  redraw_everything :: bool
  insert_character :: bool
  linelen :: int
  enabledbchar :: bool
  editansi :: bool
  lastindent :: int
  shifttmp :: int

definition deref :: "editor \<Rightarrow> ptr \<Rightarrow> textline option" where
  "deref st p = (case p of None \<Rightarrow> None | Some a \<Rightarrow> ed_heap st a)"

definition upd :: "ptr \<Rightarrow> (textline \<Rightarrow> textline) \<Rightarrow> editor \<Rightarrow> editor option" where
  "upd p f st =
     (case p of None \<Rightarrow> None
      | Some a \<Rightarrow> (case ed_heap st a of None \<Rightarrow> None | Some l \<Rightarrow> Some (st\<lparr>ed_heap := (ed_heap st)(a \<mapsto> f l)\<rparr>)))"

definition data_at :: "textline \<Rightarrow> int \<Rightarrow> nat option" where
  \<comment> \<open>the byte before \<^verbatim>\<open>data\<close> in the struct is \<^verbatim>\<open>attr\<close>\<close>
  "data_at l i =
     (if i = -1 then Some (unat (tl_attr l))
      else if 0 \<le> i \<and> i < int (length (tl_data l)) then Some (byte (tl_data l ! nat i)) else None)"

definition line_str :: "textline \<Rightarrow> int \<Rightarrow> string option" where
  \<comment> \<open>the string from a position on\<close>
  "line_str l i =
     (if 0 \<le> i \<and> i \<le> int (length (tl_data l)) \<and> NUL \<in> set (drop (nat i) (tl_data l))
      then Some (cstr (drop (nat i) (tl_data l))) else None)"

definition put_data :: "int \<Rightarrow> string \<Rightarrow> textline \<Rightarrow> textline option" where
  \<comment> \<open>bytes written from a position on\<close>
  "put_data i s l =
     (if 0 \<le> i \<and> nat i + length s \<le> length (tl_data l)
      then Some (l\<lparr>tl_data := take (nat i) (tl_data l) @ s @ drop (nat i + length s) (tl_data l)\<rparr>) else None)"

definition with_line :: "ptr \<Rightarrow> (textline \<Rightarrow> textline option) \<Rightarrow> editor \<Rightarrow> editor option" where
  "with_line p f st = do { l \<leftarrow> deref st p; l \<leftarrow> f l; upd p (\<lambda>_. l) st }"

definition high :: "nat \<Rightarrow> bool" where
  "high b \<longleftrightarrow> 128 \<le> b"

section \<open>Moving along the list\<close>

function back_line :: "editor \<Rightarrow> ptr \<Rightarrow> int \<Rightarrow> int \<Rightarrow> (ptr \<times> int) option" where
  \<comment> \<open>the position and \<^verbatim>\<open>moveln\<close>\<close>
  "back_line st pos num moveln =
     (if num \<le> 0 \<or> pos = None \<or> pos = can_edit_begin st then Some (pos, moveln)
      else do { l \<leftarrow> deref st pos; back_line st (tl_prev l) (num - 1) (moveln + 1) })"
  by pat_completeness auto
termination
  by (relation "measure (\<lambda>(_, _, num, _). nat num)") auto

function forward_line :: "editor \<Rightarrow> ptr \<Rightarrow> int \<Rightarrow> int \<Rightarrow> (ptr \<times> int) option" where
  "forward_line st pos num moveln =
     (if num \<le> 0 then Some (pos, moveln)
      else do { l \<leftarrow> deref st pos;
                if tl_next l = None \<or> tl_next l = can_edit_end st then Some (pos, moveln)
                else forward_line st (tl_next l) (num - 1) (moveln + 1) })"
  by pat_completeness auto
termination
  by (relation "measure (\<lambda>(_, _, num, _). nat num)") auto

declare back_line.simps [simp del] forward_line.simps [simp del]

partial_function (option) count_from :: "editor \<Rightarrow> ptr \<Rightarrow> int \<Rightarrow> int option" where
  "count_from st pos moveln =
     (if pos = can_edit_end st then Some moveln
      else do { l \<leftarrow> deref st pos; if tl_next l = None then Some moveln else count_from st (tl_next l) (moveln + 1) })"

definition countline :: "editor \<Rightarrow> int option" where
  "countline st = count_from st (can_edit_begin st) 0"

partial_function (option) lineno_from :: "editor \<Rightarrow> ptr \<Rightarrow> int \<Rightarrow> int option" where
  "lineno_from st p cnt =
     (if p = top_of_win st \<or> p = None then Some cnt
      else do { l \<leftarrow> deref st p; lineno_from st (tl_prev l) (cnt + 1) })"

definition getlineno :: "editor \<Rightarrow> int option" where
  "getlineno st = lineno_from st (currline st) 0"

definition killsp :: "string \<Rightarrow> string" where
  "killsp s = dropWhile (\<lambda>c. c = SPC) s"

function goline_loop :: "editor \<Rightarrow> ptr \<Rightarrow> int \<Rightarrow> int \<Rightarrow> (ptr \<times> int) option" where
  "goline_loop st p count n =
     (if n \<le> count then Some (p, count)
      else if p = None then Some (p, count)
      else do { l \<leftarrow> deref st p;
                if tl_next l = can_edit_end st then Some (p, count) else goline_loop st (tl_next l) (count + 1) n })"
  by pat_completeness auto
termination
  by (relation "measure (\<lambda>(_, _, count, n). nat (n - count))") auto

declare goline_loop.simps [simp del]

definition goline :: "int \<Rightarrow> editor \<Rightarrow> editor option" where
  "goline n st =
     (let n = (if n < 0 then 1 else n)
      in if n = 0 then Some st
         else do { (p, count) \<leftarrow> goline_loop st (can_edit_begin st) 1 n;
                   let count = (if count = n then count - 1 else count);
                   Some (st\<lparr>currln := count - 1, curr_window_line := 0, top_of_win := p, currline := p\<rparr>) })"

definition find_str :: "string \<Rightarrow> string \<Rightarrow> nat option" where
  \<comment> \<open>\<^verbatim>\<open>strstr\<close>\<close>
  "find_str s t = find (\<lambda>i. take (length t) (drop i s) = t) [0..<length s + 1]"

partial_function (option) search_from :: "editor \<Rightarrow> string \<Rightarrow> ptr \<Rightarrow> int \<Rightarrow> (ptr \<times> int \<times> int option) option" where
  \<comment> \<open>the line where it stops, \<^verbatim>\<open>count\<close>, and the new \<^verbatim>\<open>currpnt\<close> if the text was found\<close>
  "search_from st text p count =
     (if p = None \<or> p = can_edit_end st then Some (p, count, None)
      else do { l \<leftarrow> deref st p;
                let tt = (if count = 0 then currpnt st else 0);
                s \<leftarrow> line_str l tt;
                case find_str s text of
                  Some i \<Rightarrow> Some (p, count + 1, Some (tt + int i + int (length text)))
                | None \<Rightarrow> search_from st text (tl_next l) (count + 1) })"

definition searchline :: "string \<Rightarrow> editor \<Rightarrow> editor option" where
  "searchline text st = do {
     (p, count, addr) \<leftarrow> search_from st text (currline st) 0;
     case addr of
       Some i \<Rightarrow> Some (st\<lparr>currpnt := i, currln := currln st + count - 1, curr_window_line := 0, top_of_win := p, currline := p\<rparr>)
     | None \<Rightarrow> goline (currln st + 1) st }"

section \<open>Changing the list\<close>

definition alloc_line :: "editor \<Rightarrow> editor \<times> ptr" where
  \<comment> \<open>\<open>ed_junk\<close>: what \<^verbatim>\<open>malloc\<close> leaves in \<^verbatim>\<open>data\<close>; a failure ends the program\<close>
  "alloc_line st =
     (st\<lparr>ed_heap := (ed_heap st)(ed_fresh st \<mapsto>
           \<lparr>tl_prev = None, tl_next = None, tl_len = 0, tl_attr = 0, tl_data = (ed_junk st)[0 := NUL]\<rparr>),
         ed_fresh := ed_fresh st + 1\<rparr>, Some (ed_fresh st))"

definition append_line :: "ptr \<Rightarrow> ptr \<Rightarrow> editor \<Rightarrow> editor option" where
  \<comment> \<open>\<^verbatim>\<open>append\<close>\<close>
  "append_line p line st =
     (if p = None then Some st
      else do { l \<leftarrow> deref st line;
                st \<leftarrow> upd p (\<lambda>n. n\<lparr>tl_next := tl_next l\<rparr>) st;
                let st = (if line = can_edit_end st then st\<lparr>can_edit_end := p\<rparr> else st);
                st \<leftarrow> (if tl_next l \<noteq> None then upd (tl_next l) (\<lambda>n. n\<lparr>tl_prev := p\<rparr>) st else Some st);
                st \<leftarrow> upd line (\<lambda>n. n\<lparr>tl_next := p\<rparr>) st;
                upd p (\<lambda>n. n\<lparr>tl_prev := line\<rparr>) st })"

definition free_line :: "ptr \<Rightarrow> editor \<Rightarrow> editor" where
  "free_line p st = (case p of None \<Rightarrow> st | Some a \<Rightarrow> st\<lparr>ed_heap := (ed_heap st)(a := None)\<rparr>)"

definition unlink_marks :: "ptr \<Rightarrow> textline \<Rightarrow> editor \<Rightarrow> editor" where
  \<comment> \<open>the pointers that \<open>delete_line\<close> moves off the line before it takes it out\<close>
  "unlink_marks line l st =
     st\<lparr>mark_begin := if mark_begin st = line then if tl_next l = can_edit_end st then None else tl_next l else mark_begin st,
        mark_end := if mark_end st = line then if line = can_edit_begin st then None else tl_prev l else mark_end st,
        can_edit_begin := if line = can_edit_begin st then tl_next l else can_edit_begin st\<rparr>"

definition delete_line :: "ptr \<Rightarrow> editor \<Rightarrow> editor option" where
  "delete_line line st =
     (if line = None then Some st
      else do {
        l \<leftarrow> deref st line;
        if line = can_edit_begin st \<and> tl_next l = can_edit_end st
        then do {
          st \<leftarrow> with_line line (\<lambda>l. map_option (\<lambda>l. l\<lparr>tl_len := 0, tl_attr := tl_attr l AND NOT M_MARK\<rparr>) (put_data 0 [NUL] l)) st;
          Some (st\<lparr>mark_begin := None, mark_end := None, currpnt := 0\<rparr>) }
        else do {
          let st = unlink_marks line l st;
          st \<leftarrow> (if line = firstline st
                then map_option (\<lambda>st. st\<lparr>firstline := tl_next l\<rparr>) (upd (tl_next l) (\<lambda>n. n\<lparr>tl_prev := None\<rparr>) st)
                else do { st \<leftarrow> upd (tl_next l) (\<lambda>n. n\<lparr>tl_prev := tl_prev l\<rparr>) st;
                          upd (tl_prev l) (\<lambda>n. n\<lparr>tl_next := tl_next l\<rparr>) st });
          Some (free_line line st) } })"

definition high_before :: "string \<Rightarrow> nat \<Rightarrow> nat" where
  \<comment> \<open>how many bytes before a position, one after the other, have their high bit set\<close>
  "high_before d pos = length (takeWhile (\<lambda>c. high (byte c)) (rev (take pos d)))"

definition esc_chars :: string where "esc_chars = ''[0123456789;''"

fun esc_start :: "string \<Rightarrow> nat \<Rightarrow> nat" where
  \<comment> \<open>the loop of \<open>split\<close> that goes back over the parameters of a control sequence: where \<open>i\<close> stops\<close>
  "esc_start d i =
     (if 0 < i \<and> d ! i \<noteq> ESC then if d ! i \<notin> set esc_chars \<and> d ! i \<noteq> NUL then i else esc_start d (i - 1) else i)"

declare esc_start.simps [simp del]

definition split_pos :: "textline \<Rightarrow> nat \<Rightarrow> nat option" where
  \<comment> \<open>\<open>pos\<close>, moved so that no two-byte character and no control sequence is cut\<close>
  "split_pos l pos = do {
     c \<leftarrow> data_at l (int pos - 1);
     let pos = (if high c \<and> odd (high_before (tl_data l) pos) then pos - 1 else pos);
     if pos = 0 then Some 0
     else do {
       c \<leftarrow> data_at l (int pos - 1);
       if char_of c \<in> set esc_chars \<or> c = 0
       then let i = esc_start (tl_data l) (pos - 1)
            in Some (if tl_data l ! i = ESC then if pos - i < 20 then i else pos - 1 else pos)
       else Some pos } }"

definition split :: "ptr \<Rightarrow> int \<Rightarrow> editor \<Rightarrow> editor option" where
  "split line pos st = do {
     l \<leftarrow> deref st line;
     if tl_len l < pos then Some st
     else do {
       pos \<leftarrow> split_pos l (nat pos);
       let (st, p) = alloc_line st;
       s \<leftarrow> line_str l (int pos);
       st \<leftarrow> upd line (\<lambda>n. n\<lparr>tl_len := int pos\<rparr>) st;
       st \<leftarrow> with_line p (\<lambda>n. map_option (\<lambda>n. n\<lparr>tl_len := tl_len l - int pos, tl_attr := tl_attr l\<rparr>) (put_data 0 (s @ [NUL]) n)) st;
       st \<leftarrow> with_line line (put_data (int pos) [NUL]) st;
       st \<leftarrow> append_line p line st;
       let st = (if mark_end st = None \<and> line = mark_begin st \<or> line = mark_end st then st\<lparr>mark_end := p\<rparr> else st);
       let st = (if line = currline st \<and> int pos \<le> currpnt st
                 then st\<lparr>currline := p, currpnt := currpnt st - int pos, curr_window_line := curr_window_line st + 1, currln := currln st + 1\<rparr>
                 else st);
       Some (st\<lparr>redraw_everything := True\<rparr>) } }"

definition shown_len :: "textline \<Rightarrow> int option" where
  \<comment> \<open>\<^verbatim>\<open>len - num_ans_chr(data)\<close>\<close>
  "shown_len l = map_option (\<lambda>s. tl_len l - int (num_ans_chr s)) (line_str l 0)"

fun back_while :: "(char \<Rightarrow> bool) \<Rightarrow> string \<Rightarrow> nat \<Rightarrow> nat" where
  \<comment> \<open>\<^verbatim>\<open>while (s != p->data && ...) s--\<close>\<close>
  "back_while P d 0 = 0"
| "back_while P d (Suc i) = (if P (d ! Suc i) then back_while P d i else Suc i)"

definition signature_line :: "textline \<Rightarrow> (textline \<times> bool) option" where
  \<comment> \<open>the test for a signature, which assigns to the second byte of every line that starts with \<^verbatim>\<open>-\<close>\<close>
  "signature_line n =
     (if tl_data n \<noteq> [] \<and> hd (tl_data n) = CHR ''-'' then map_option (\<lambda>n. (n, tl_len n = 2)) (put_data 1 ''-'' n)
      else Some (n, False))"

partial_function (option) join :: "ptr \<Rightarrow> editor \<Rightarrow> (editor \<times> bool) option" where
  "join line st = do {
     l \<leftarrow> deref st line;
     if tl_next l = None \<or> tl_next l = can_edit_end st then Some (st, True)
     else do {
       n \<leftarrow> deref st (tl_next l);
       (n, sig) \<leftarrow> signature_line n;
       st \<leftarrow> upd (tl_next l) (\<lambda>_. n) st;
       if sig then Some (st, True)
       else do {
         a \<leftarrow> shown_len l;
         b \<leftarrow> shown_len n;
         let ovfl = a + b - linelen st;
         if ovfl < 0
         then do {
           s \<leftarrow> line_str l 0;
           t \<leftarrow> line_str n 0;
           st \<leftarrow> with_line line (\<lambda>l. map_option (\<lambda>l. l\<lparr>tl_len := tl_len l + tl_len n,
                    tl_attr := if tl_attr n AND M_MARK \<noteq> 0 then tl_attr n else tl_attr l\<rparr>) (put_data (int (length s)) (t @ [NUL]) l)) st;
           let st = (if mark_begin st = tl_next l then st\<lparr>mark_begin := line\<rparr> else st);
           let st = (if mark_end st = tl_next l then st\<lparr>mark_end := line\<rparr> else st);
           st \<leftarrow> delete_line (tl_next l) st;
           Some (st, True) }
         else do {
           s \<leftarrow> line_str n 0;
           let i = seekthestr s (tl_len n - ovfl - 1);
           let i = back_while (\<lambda>c. c = SPC) (tl_data n) i;
           let i = back_while (\<lambda>c. c \<noteq> SPC) (tl_data n) i;
           if i = 0 \<or> 8 < linelen st - int i then Some (st, True)
           else do {
             st \<leftarrow> split (tl_next l) (int i + 1) st;
             p \<leftarrow> deref st (tl_next l);
             b \<leftarrow> shown_len p;
             if linelen st \<le> a + b then Some (st, True)
             else do {
               (st, _) \<leftarrow> join line st;
               l \<leftarrow> deref st line;
               p \<leftarrow> deref st (tl_next l);
               b \<leftarrow> shown_len p;
               st \<leftarrow> (if 1 \<le> tl_len p \<and> b + 1 < linelen st
                     then do { c \<leftarrow> data_at p (tl_len p - 1);
                               if char_of c \<noteq> SPC
                               then do { s \<leftarrow> line_str p 0;
                                         with_line (tl_next l) (\<lambda>p. map_option (\<lambda>p. p\<lparr>tl_len := tl_len p + 1\<rparr>)
                                           (put_data (int (length s)) [SPC, NUL] p)) st }
                               else Some st }
                     else Some st);
               Some (st, False) } } } } } }"

partial_function (option) join_on :: "ptr \<Rightarrow> editor \<Rightarrow> editor option" where
  \<comment> \<open>the loops that call \<open>join\<close> line after line; past the last line the editor complains and goes on, or ends\<close>
  "join_on p st = do {
     (st, done) \<leftarrow> join p st;
     if done then Some st
     else do { l \<leftarrow> deref st p; if tl_next l = None then Some st else join_on (tl_next l) st } }"

section \<open>Characters\<close>

partial_function (option) wrap_long :: "ptr \<Rightarrow> editor \<Rightarrow> editor option" where
  \<comment> \<open>lines that are too long already are cut first\<close>
  "wrap_long p st = do {
     l \<leftarrow> deref st p;
     s \<leftarrow> line_str l 0;
     if linelen st < tl_len l - int (num_ans_chr s)
     then do { st \<leftarrow> split p (int (seekthestr s (linelen st))) st;
               l \<leftarrow> deref st p;
               wrap_long (tl_next l) st }
     else Some st }"

definition put_char :: "char \<Rightarrow> ptr \<Rightarrow> editor \<Rightarrow> editor option" where
  \<comment> \<open>the character itself, over another one or between two\<close>
  "put_char ch p st = do {
     l \<leftarrow> deref st p;
     if currpnt st < tl_len l \<and> \<not> insert_character st
     then do { st' \<leftarrow> with_line p (put_data (currpnt st) [ch]) st; Some (st'\<lparr>currpnt := currpnt st + 1\<rparr>) }
     else if tl_len l < int WRAPMARGIN
     then do {
       l \<leftarrow> put_data (currpnt st + 1) (take (nat (tl_len l + 1 - currpnt st)) (drop (nat (currpnt st)) (tl_data l))) l;
       l \<leftarrow> put_data (currpnt st) [ch] l;
       st' \<leftarrow> upd p (\<lambda>_. l\<lparr>tl_len := tl_len l + 1\<rparr>) st;
       Some (st'\<lparr>currpnt := currpnt st + 1\<rparr>) }
     else Some st }"

definition word_break :: "textline \<Rightarrow> (nat \<times> bool) option" where
  \<comment> \<open>the position of the blank before the last word, or of the last character but one; \<open>wordwrap\<close>\<close>
  "word_break l = do {
     s \<leftarrow> line_str l 0;
     let d = tl_data l;
     let i = back_while (\<lambda>c. c = SPC) d (seekthestr s (tl_len l - 1));
     let j = back_while (\<lambda>c. c \<noteq> SPC \<and> \<not> high (byte c)) d i;
     Some (if \<not> high (byte (d ! i)) \<and> d ! j = SPC then (j, True) else (seekthestr s (tl_len l - 2), False)) }"

definition wrap_line :: "ptr \<Rightarrow> editor \<Rightarrow> editor option" where
  \<comment> \<open>the end of \<open>insert_char\<close>: a full line is cut, and what is cut off joined to the lines below\<close>
  "wrap_line p st = do {
     l \<leftarrow> deref st p;
     a \<leftarrow> shown_len l;
     if a < linelen st - 1 \<and> tl_len l < int WRAPMARGIN then Some st
     else do {
       (i, wordwrap) \<leftarrow> word_break l;
       st \<leftarrow> split p (int i + 1) st;
       l \<leftarrow> deref st p;
       let p = tl_next l;
       l \<leftarrow> deref st p;
       st \<leftarrow> (if wordwrap \<and> 1 \<le> tl_len l
             then do { c \<leftarrow> data_at l (tl_len l - 1);
                       if char_of c \<noteq> SPC
                       then with_line p (\<lambda>l. map_option (\<lambda>n. n\<lparr>tl_len := tl_len l + 1\<rparr>) (put_data (tl_len l) [SPC, NUL] l)) st
                       else Some st }
             else Some st);
       join_on p st } }"

definition insert_char :: "char \<Rightarrow> editor \<Rightarrow> editor option" where
  "insert_char ch st = do {
     let p = currline st;
     l \<leftarrow> deref st p;
     if tl_len l < currpnt st then Some st
     else do {
       st' \<leftarrow> wrap_long p st;
       st \<leftarrow> put_char ch p (st'\<lparr>currln := currln st\<rparr>);
       wrap_line p st } }"

fun ve_insert_str :: "string \<Rightarrow> editor \<Rightarrow> editor option" where
  "ve_insert_str [] st = Some st"
| "ve_insert_str (c # s) st = do { st \<leftarrow> insert_char c st; ve_insert_str s st }"

definition dbchar_patch :: "bool \<Rightarrow> textline \<Rightarrow> int \<Rightarrow> (bool \<times> bool) option" where
  \<comment> \<open>\<open>patch\<close>: a two-byte character goes as a whole; \<open>currDEC\<close>: the cursor is on its second byte\<close>
  "dbchar_patch dbl l i = do {
     c \<leftarrow> data_at l i;
     if dbl \<and> high c
     then (if odd (high_before (tl_data l) (nat i)) then Some (True, True)
           else if i < tl_len l - 1 then do { c \<leftarrow> data_at l (i + 1); Some (high c, False) }
           else Some (False, False))
     else Some (False, False) }"

definition close_gap :: "nat \<Rightarrow> nat \<Rightarrow> textline \<Rightarrow> textline option" where
  \<comment> \<open>the bytes from \<open>i + w\<close> on, up to the one at \<open>len + w - 1\<close>, move to \<open>i\<close>\<close>
  "close_gap i w l =
     (if nat (tl_len l) + w \<le> length (tl_data l)
      then map_option (\<lambda>l. l\<lparr>tl_len := tl_len l - int w\<rparr>) (put_data (int i) (take (nat (tl_len l) - i) (drop (i + w) (tl_data l))) l)
      else None)"

definition delete_char :: "editor \<Rightarrow> editor option" where
  "delete_char st = do {
     l \<leftarrow> deref st (currline st);
     if tl_len l = 0 \<or> tl_len l \<le> currpnt st then Some st
     else if currpnt st < 0 then None
     else do {
       (patch, currDEC) \<leftarrow> dbchar_patch (enabledbchar st) l (currpnt st);
       let i = (if currDEC then currpnt st - 1 else currpnt st);
       with_line (currline st) (close_gap (nat i) (if patch then 2 else 1)) (st\<lparr>currpnt := i\<rparr>) } }"

section \<open>Loading and saving\<close>

definition vedit_init :: "editor \<Rightarrow> editor option" where
  \<comment> \<open>the editor starts with no line; \<open>process_ESC_action ('M', '0')\<close> finds none to unmark\<close>
  "vedit_init st = do {
     let (st, p) = alloc_line st;
     let (st, q) = alloc_line (st\<lparr>firstline := p, can_edit_begin := p, currline := p, currpnt := 0, top_of_win := p\<rparr>);
     st \<leftarrow> upd p (\<lambda>l. l\<lparr>tl_next := q\<rparr>) st;
     st \<leftarrow> upd q (\<lambda>l. l\<lparr>tl_prev := p\<rparr>) st;
     Some (st\<lparr>can_edit_end := q, curr_window_line := 0, currln := 0, redraw_everything := False,
              mark_on := 0, mark_begin := None, mark_end := None\<rparr>) }"

partial_function (option) fp_lines :: "editor \<Rightarrow> ptr \<Rightarrow> string \<Rightarrow> string option" where
  "fp_lines st p out =
     (if p = can_edit_end st then Some out
      else do { l \<leftarrow> deref st p;
                s \<leftarrow> line_str l 0;
                fp_lines st (tl_next l) (if s \<noteq> [] then out @ s @ [LF] else out) })"

definition insert_to_fp :: "editor \<Rightarrow> string option" where
  \<comment> \<open>what is written: the lines that are not empty, and a reset if one of them has an escape\<close>
  "insert_to_fp st = do {
     out \<leftarrow> fp_lines st (can_edit_begin st) [];
     Some (if ESC \<in> set out then out @ ESC # ''[0m'' @ [LF] else out) }"

partial_function (option) tab_loop :: "editor \<Rightarrow> editor option" where
  "tab_loop st = do { st \<leftarrow> insert_char SPC st; if currpnt st AND 3 \<noteq> 0 then tab_loop st else Some st }"

definition insertch_from_fp :: "char \<Rightarrow> editor \<Rightarrow> editor option" where
  "insertch_from_fp ch st = do {
     let backup_linelen = linelen st;
     let st = st\<lparr>linelen := int WRAPMARGIN\<rparr>;
     st \<leftarrow> (if isprint2 ch \<or> ch = ESC
           then if currpnt st < 254 then insert_char ch st
                else if currpnt st < 255 then insert_char (CHR ''.'') st else Some st
           else if int (byte ch) = Ctrl (CHR ''I'') then tab_loop st
           else if ch = LF then split (currline st) (currpnt st) st
           else Some st);
     Some (st\<lparr>linelen := backup_linelen\<rparr>) }"

fun insert_from_fp :: "string \<Rightarrow> editor \<Rightarrow> editor option" where
  "insert_from_fp [] st = Some st"
| "insert_from_fp (c # file) st = do { st \<leftarrow> insertch_from_fp c st; insert_from_fp file st }"

partial_function (option) origin_from :: "string \<Rightarrow> editor \<Rightarrow> ptr \<Rightarrow> ptr option" where
  \<comment> \<open>from the end back to the beginning: the line that has the board's mark and is no quotation\<close>
  "origin_from mark st p =
     (if p = can_edit_begin st then Some p
      else do { l \<leftarrow> deref st p;
                s \<leftarrow> line_str l 0;
                if find_str s mark \<noteq> None \<and> take 1 s \<noteq> '':'' then Some p else origin_from mark st (tl_prev l) })"

definition origin_mark :: "string \<Rightarrow> string \<Rightarrow> string option" where
  \<comment> \<open>what the line with the origin of an article contains; it is printed into 80 bytes\<close>
  "origin_mark board host =
     (let mark = '':'' @ bytes [0xA1, 0xA4] @ board @ '' '' @ host @ bytes [0xA1, 0xA4]
      in if length mark < STRLEN then Some mark else None)"

definition read_file :: "string \<Rightarrow> string \<Rightarrow> string option \<Rightarrow> editor \<Rightarrow> (editor \<times> bool option) option" where
  \<comment> \<open>the file's content, or none: then it is created and the editor left as it is. The result tells
      whether an origin line is to be added; it is unset for a new file\<close>
  "read_file board host file st = do {
     st \<leftarrow> (if currline st = None then vedit_init st else Some st);
     case file of
       None \<Rightarrow> Some (st, None)
     | Some text \<Rightarrow> do {
         mark \<leftarrow> origin_mark board host;
         st \<leftarrow> insert_from_fp text st;
         p \<leftarrow> origin_from mark st (can_edit_end st);
         let st = (if p \<noteq> can_edit_begin st then st\<lparr>can_edit_end := p\<rparr> else st);
         Some (st, Some (p \<noteq> can_edit_end st)) } }"

partial_function (option) last_of :: "editor \<Rightarrow> ptr \<Rightarrow> ptr option" where
  "last_of st p = do { l \<leftarrow> deref st p; if tl_next l = None then Some p else last_of st (tl_next l) }"

partial_function (option) trim_end :: "ptr \<Rightarrow> editor \<Rightarrow> editor option" where
  \<comment> \<open>empty lines at the end are freed\<close>
  "trim_end p st = do {
     l \<leftarrow> deref st p;
     s \<leftarrow> line_str l 0;
     if p \<noteq> can_edit_begin st \<and> (s = [] \<or> s = [LF])
     then do { st \<leftarrow> upd (tl_prev l) (\<lambda>v. v\<lparr>tl_next := None\<rparr>) (free_line p st); trim_end (tl_prev l) st }
     else Some (st\<lparr>can_edit_end := p\<rparr>) }"

definition EDITMARK :: string where
  "EDITMARK = ESC # ''[m'' @ ESC # ''[1;36m'' @ bytes [0xA1, 0xF9] @ '' '' @ bytes [0xD0, 0xDE, 0xB8, 0xC4] @ '':'' @ bytes [0xA1, 0xA4]"

partial_function (option) write_lines :: "bool \<Rightarrow> ptr \<Rightarrow> string \<Rightarrow> editor \<Rightarrow> (editor \<times> string) option" where
  \<comment> \<open>the lines are written, but for the edit marks of earlier edits, and freed\<close>
  "write_lines aborted p out st =
     (if p = None then Some (st, out)
      else do { l \<leftarrow> deref st p;
                s \<leftarrow> line_str l 0;
                let out = (if \<not> aborted \<and> take 17 s \<noteq> take 17 EDITMARK then out @ s @ [LF] else out);
                write_lines aborted (tl_next l) out (free_line p st) })"

definition write_text :: "bool \<Rightarrow> editor \<Rightarrow> (editor \<times> string) option" where
  \<comment> \<open>the part of \<open>write_file\<close> that writes the text and gives up the lines\<close>
  "write_text aborted st = do {
     st \<leftarrow> (if can_edit_end st = None then None else do { p \<leftarrow> last_of st (can_edit_end st); trim_end p st });
     (st, out) \<leftarrow> write_lines aborted (firstline st) [] st;
     Some (st\<lparr>currline := None, can_edit_end := None, firstline := None, can_edit_begin := None\<rparr>, out) }"

partial_function (option) keep_lines :: "ptr \<Rightarrow> string \<Rightarrow> editor \<Rightarrow> (editor \<times> string) option" where
  "keep_lines p out st =
     (if p = None then Some (st, out)
      else do { l \<leftarrow> deref st p;
                s \<leftarrow> line_str l 0;
                let out = (if tl_next l \<noteq> None \<or> s \<noteq> [] then out @ s @ [LF] else out);
                keep_lines (tl_next l) out (free_line p st) })"

definition keep_fail_post :: "editor \<Rightarrow> (editor \<times> string) option" where
  \<comment> \<open>when the connection is lost\<close>
  "keep_fail_post st = keep_lines (firstline st) [] st"

section \<open>Marked blocks\<close>

definition mark_line :: "bool \<Rightarrow> textline \<Rightarrow> textline" where
  "mark_line on l = l\<lparr>tl_attr := if on then tl_attr l OR M_MARK else tl_attr l AND NOT M_MARK\<rparr>"

partial_function (option) unmark_from :: "ptr \<Rightarrow> editor \<Rightarrow> editor option" where
  "unmark_from p st =
     (if p = None \<or> p = can_edit_end st then Some st
      else do { l \<leftarrow> deref st p; st \<leftarrow> upd p (mark_line False) st; unmark_from (tl_next l) st })"

partial_function (option) mark_from :: "nat \<Rightarrow> ptr \<Rightarrow> editor \<Rightarrow> editor option" where
  \<comment> \<open>\<open>pass_mark\<close>: how many of the two ends have been passed\<close>
  "mark_from pass_mark p st =
     (if p = can_edit_end st then Some st
      else do { l \<leftarrow> deref st p;
                let e = (p = mark_begin st \<or> p = mark_end st);
                let pass_mark = (if e then pass_mark + 1 else pass_mark);
                st \<leftarrow> upd p (mark_line (e \<or> pass_mark = 1)) st;
                mark_from pass_mark (tl_next l) st })"

definition mark_block :: "editor \<Rightarrow> (editor \<times> int) option" where
  "mark_block st = do {
     st \<leftarrow> unmark_from (can_edit_begin st) st;
     if mark_begin st = None \<and> mark_end st = None then Some (st, 0)
     else if mark_begin st = mark_end st then do { st \<leftarrow> upd (mark_begin st) (mark_line True) st; Some (st, 2) }
     else if mark_begin st = None then do { st \<leftarrow> upd (mark_end st) (mark_line True) st; Some (st, 1) }
     else if mark_end st = None then do { st \<leftarrow> upd (mark_begin st) (mark_line True) st; Some (st, 1) }
     else do { st \<leftarrow> mark_from 0 (can_edit_begin st) st; Some (st, 2) } }"

definition clear_mark :: "editor \<Rightarrow> editor" where
  "clear_mark st = st\<lparr>mark_on := 0, mark_begin := None, mark_end := None\<rparr>"

partial_function (option) copy_marked :: "ptr \<Rightarrow> editor \<Rightarrow> editor option" where
  \<comment> \<open>\<open>p\<close> goes through the list that grows at the cursor\<close>
  "copy_marked p st =
     (if p = can_edit_end st then Some st
      else do { l \<leftarrow> deref st p;
                if tl_attr l AND M_MARK = 0 then Some st
                else do { s \<leftarrow> line_str l 0;
                          st \<leftarrow> ve_insert_str s st;
                          st \<leftarrow> split (currline st) (currpnt st) st;
                          l \<leftarrow> deref st p;
                          copy_marked (tl_next l) st } })"

partial_function (option) delete_marked :: "ptr \<Rightarrow> editor \<Rightarrow> editor option" where
  "delete_marked p st =
     (if p = can_edit_end st then Some st
      else do { l \<leftarrow> deref st p;
                if tl_attr l AND M_MARK \<noteq> 0
                then do { st \<leftarrow> delete_line p st; delete_marked (can_edit_begin st) st }
                else delete_marked (tl_next l) st })"

definition process_MARK_action :: "char \<Rightarrow> editor \<Rightarrow> editor option" where
  \<comment> \<open>the messages left out\<close>
  "process_MARK_action arg st =
     (if arg = CHR ''0'' then map_option clear_mark (unmark_from (can_edit_begin st) st)
      else if arg = CHR ''1'' then do {
        let st = (if mark_begin st \<noteq> None then st\<lparr>mark_end := currline st\<rparr> else st\<lparr>mark_begin := currline st\<rparr>);
        (st, m) \<leftarrow> mark_block st;
        Some (st\<lparr>mark_on := m\<rparr>) }
      else if arg = CHR ''2'' then do {
        (st, m) \<leftarrow> mark_block st;
        let st = st\<lparr>mark_on := m\<rparr>;
        if m \<noteq> 0
        then do { l \<leftarrow> deref st (currline st);
                  if tl_attr l AND M_MARK = 0 then copy_marked (mark_begin st) st else Some st }
        else Some st }
      else if arg = CHR ''3'' then do {
        (st, m) \<leftarrow> mark_block st;
        let st = st\<lparr>mark_on := m\<rparr>;
        if m = 0 then Some st
        else do { st \<leftarrow> delete_marked (can_edit_begin st) st; goline 1 (clear_mark st) } }
      else Some st)"

partial_function (option) clip_from :: "editor \<Rightarrow> ptr \<Rightarrow> string \<Rightarrow> string option" where
  "clip_from st p out =
     (if p = can_edit_end st then Some out
      else do { l \<leftarrow> deref st p;
                if tl_attr l AND M_MARK = 0 then Some out
                else do { s \<leftarrow> line_str l 0; clip_from st (tl_next l) (out @ s @ [LF]) } })"

definition write_clip :: "editor \<Rightarrow> string option" where
  \<comment> \<open>what goes to a page of the clipboard: the block, or the whole text\<close>
  "write_clip st = (if mark_on st \<noteq> 0 then clip_from st (mark_begin st) [] else insert_to_fp st)"

definition set_linelen :: "string \<Rightarrow> editor \<Rightarrow> editor" where
  \<comment> \<open>\<open>set\<close>, given what was typed\<close>
  "set_linelen tmp st =
     (if tmp = [] then st
      else let n = atoi tmp + 1 in st\<lparr>linelen := if n < 11 then 11 else if int WRAPMARGIN < n then int WRAPMARGIN else n\<rparr>)"

definition go_line :: "string \<Rightarrow> editor \<Rightarrow> editor option" where
  \<comment> \<open>\<open>go\<close>\<close>
  "go_line tmp st = (if tmp = [] then Some st else goline (atoi tmp) st)"

section \<open>Keys\<close>

definition KEY_TAB :: int where "KEY_TAB = 9"
definition KEY_INS :: int where "KEY_INS = 0x0202"
definition KEY_BACKSPACE :: int where "KEY_BACKSPACE = 0x7f"
definition KEY_PGUP :: int where "KEY_PGUP = 0x0205"
definition KEY_PGDN :: int where "KEY_PGDN = 0x0206"

definition key_left :: "editor \<Rightarrow> editor option" where
  "key_left st = do {
     l \<leftarrow> deref st (currline st);
     if 0 < currpnt st then Some (st\<lparr>currpnt := currpnt st - 1\<rparr>)
     else if currline st \<noteq> can_edit_begin st \<and> tl_prev l \<noteq> None
     then do { v \<leftarrow> deref st (tl_prev l);
               Some (st\<lparr>curr_window_line := curr_window_line st - 1, currln := currln st - 1,
                        currline := tl_prev l, currpnt := tl_len v\<rparr>) }
     else Some st }"

definition key_right :: "editor \<Rightarrow> editor option" where
  "key_right st = do {
     l \<leftarrow> deref st (currline st);
     if tl_len l \<noteq> currpnt st then Some (st\<lparr>currpnt := currpnt st + 1\<rparr>)
     else if tl_next l \<noteq> None \<and> tl_next l \<noteq> can_edit_end st
     then Some (st\<lparr>currpnt := 0, curr_window_line := curr_window_line st + 1, currln := currln st + 1, currline := tl_next l\<rparr>)
     else Some st }"

definition key_up :: "editor \<Rightarrow> editor option" where
  "key_up st =
     (if currline st = can_edit_begin st then Some st
      else do { l \<leftarrow> deref st (currline st);
                v \<leftarrow> deref st (tl_prev l);
                Some (st\<lparr>currln := currln st - 1, curr_window_line := curr_window_line st - 1, currline := tl_prev l,
                         currpnt := if lastindent st < tl_len v then lastindent st else tl_len v\<rparr>) })"

definition key_down :: "editor \<Rightarrow> editor option" where
  "key_down st = do {
     l \<leftarrow> deref st (currline st);
     if tl_next l = can_edit_end st then Some st
     else do { v \<leftarrow> deref st (tl_next l);
               Some (st\<lparr>currline := tl_next l, curr_window_line := curr_window_line st + 1, currln := currln st + 1,
                        currpnt := if lastindent st < tl_len v then lastindent st else tl_len v\<rparr>) } }"

definition page_end :: "editor \<Rightarrow> editor option" where
  \<comment> \<open>the end of \<open>KEY_PGUP\<close> and \<open>KEY_PGDN\<close>\<close>
  "page_end st = do {
     n \<leftarrow> getlineno st;
     l \<leftarrow> deref st (currline st);
     Some (st\<lparr>curr_window_line := n, currpnt := if tl_len l < currpnt st then tl_len l else currpnt st, redraw_everything := True\<rparr>) }"

definition key_pgup :: "int \<Rightarrow> editor \<Rightarrow> editor option" where
  "key_pgup lns st = do {
     (tp, _) \<leftarrow> back_line st (top_of_win st) (lns - 2) 0;
     (cur, moveln) \<leftarrow> back_line st (currline st) (lns - 2) 0;
     page_end (st\<lparr>top_of_win := tp, currline := cur, currln := currln st - moveln\<rparr>) }"

definition key_pgdn :: "editor \<Rightarrow> editor option" where
  "key_pgdn st = do {
     (tp, _) \<leftarrow> forward_line st (top_of_win st) 22 0;
     (cur, moveln) \<leftarrow> forward_line st (currline st) 22 0;
     page_end (st\<lparr>top_of_win := tp, currline := cur, currln := currln st + moveln\<rparr>) }"

definition key_tail_of_file :: "editor \<Rightarrow> editor option" where
  "key_tail_of_file st = do {
     e \<leftarrow> deref st (can_edit_end st);
     (tp, _) \<leftarrow> back_line st (tl_prev e) 22 0;
     let st = st\<lparr>top_of_win := tp\<rparr>;
     moveln \<leftarrow> countline st;
     let st = st\<lparr>currln := moveln, currline := tl_prev e\<rparr>;
     n \<leftarrow> getlineno st;
     Some (st\<lparr>curr_window_line := n, currpnt := 0, redraw_everything := True\<rparr>) }"

definition key_backspace :: "editor \<Rightarrow> editor option" where
  "key_backspace st =
     (if currpnt st = 0
      then if currline st = can_edit_begin st then Some st
      else do {
        l \<leftarrow> deref st (currline st);
        v \<leftarrow> deref st (tl_prev l);
        let st = st\<lparr>currln := currln st - 1, currline := tl_prev l, currpnt := tl_len v, curr_window_line := curr_window_line st - 1\<rparr>;
        st \<leftarrow> (if curr_window_line st < 0
              then do { t \<leftarrow> deref st (top_of_win st); Some (st\<lparr>top_of_win := tl_next t\<rparr>) }
              else Some st);
        n \<leftarrow> deref st (tl_next v);
        s \<leftarrow> line_str n 0;
        st \<leftarrow> (if killsp s = [] then delete_line (tl_next v) st else join_on (currline st) st);
        Some (st\<lparr>redraw_everything := True\<rparr>) }
      else delete_char (st\<lparr>currpnt := currpnt st - 1\<rparr>))"

definition cut_line :: "int \<Rightarrow> textline \<Rightarrow> textline option" where
  "cut_line i l = map_option (\<lambda>l. l\<lparr>tl_len := i\<rparr>) (put_data i [NUL] l)"

definition key_ctrl_k :: "editor \<Rightarrow> editor option" where
  "key_ctrl_k st = do {
     l \<leftarrow> deref st (currline st);
     if tl_next l = can_edit_end st
     then let i = (if currpnt st < tl_len l then currpnt st else 0)
          in with_line (currline st) (cut_line i) (st\<lparr>currpnt := i\<rparr>)
     else if tl_len l = 0
     then do { let st = (if currline st = top_of_win st then st\<lparr>top_of_win := tl_next l\<rparr> else st);
               st \<leftarrow> delete_line (currline st) st;
               Some (st\<lparr>currline := tl_next l, redraw_everything := True\<rparr>) }
     else if tl_len l = currpnt st
     then map_option (\<lambda>st. st\<lparr>redraw_everything := True\<rparr>) (join_on (currline st) st)
     else let i = (if odd (high_before (tl_data l) (nat (currpnt st))) then currpnt st - 1 else currpnt st)
          in with_line (currline st) (cut_line i) (st\<lparr>currpnt := i\<rparr>) }"

definition no_touch :: "editor \<Rightarrow> bool option" where
  "no_touch st = do {
     l \<leftarrow> deref st (currline st);
     if editansi st then map_option (\<lambda>s. ESC \<in> set s) (line_str l 0) else Some False }"

definition key_start :: "int \<Rightarrow> editor \<Rightarrow> editor" where
  "key_start ch st =
     (if ch \<in> {Ctrl (CHR ''P''), KEY_UP, Ctrl (CHR ''N''), KEY_DOWN}
      then if lastindent st = -1 then st\<lparr>lastindent := currpnt st\<rparr> else st
      else st\<lparr>lastindent := -1\<rparr>)"

function forward_window :: "editor \<Rightarrow> ptr \<Rightarrow> int \<Rightarrow> (ptr \<times> bool) option" where
  \<comment> \<open>the top of the window goes down, at most to the last line; whether it moved\<close>
  "forward_window st tp n =
     (if n \<le> 0 then Some (tp, False)
      else do { t \<leftarrow> deref st tp;
                if tl_next t \<noteq> can_edit_end st
                then map_option (\<lambda>(tp, _). (tp, True)) (forward_window st (tl_next t) (n - 1))
                else forward_window st tp (n - 1) })"
  by pat_completeness auto
termination
  by (relation "measure (\<lambda>(_, _, n). nat n)") auto

declare forward_window.simps [simp del]

definition key_window :: "int \<Rightarrow> editor \<Rightarrow> editor option" where
  \<comment> \<open>the end of \<open>vedit_key\<close>: the line of the cursor comes back into the window\<close>
  "key_window lns st = do {
     st \<leftarrow> (if curr_window_line st < 0
           then if top_of_win st \<noteq> can_edit_begin st
                then do { t \<leftarrow> deref st (top_of_win st);
                          Some (st\<lparr>curr_window_line := 0, top_of_win := tl_prev t, redraw_everything := True\<rparr>) }
                else Some (st\<lparr>curr_window_line := 0\<rparr>)
           else Some st);
     if lns - 1 \<le> curr_window_line st
     then do {
       let n = curr_window_line st - lns + 2;
       (tp, moveln) \<leftarrow> forward_window st (top_of_win st) n;
       Some (st\<lparr>top_of_win := tp, curr_window_line := curr_window_line st - n, redraw_everything := redraw_everything st \<or> moveln\<rparr>) }
     else Some st }"

definition key_end :: "int \<Rightarrow> editor \<Rightarrow> editor option" where
  "key_end lns st = do {
     st \<leftarrow> key_window lns st;
     let st = (if editansi st then st\<lparr>redraw_everything := True\<rparr> else st);
     let shift = (if int STRLEN < currpnt st + 2 then c_div (currpnt st) (int STRLEN - 2) * (int STRLEN - 2) else 0);
     Some (if shifttmp st \<noteq> shift \<or> redraw_everything st then st\<lparr>redraw_everything := True, shifttmp := shift\<rparr> else st) }"

definition vedit_ctrl_k :: "int \<Rightarrow> editor \<Rightarrow> editor option" where
  \<comment> \<open>\<^verbatim>\<open>vedit_key (Ctrl ('K'))\<close>, as the keys that call it do\<close>
  "vedit_ctrl_k lns st = do {
     let st = st\<lparr>lastindent := -1\<rparr>;
     nt \<leftarrow> no_touch st;
     st \<leftarrow> (if nt then Some st else key_ctrl_k st);
     key_end lns st }"

fun tab_key :: "nat \<Rightarrow> editor \<Rightarrow> editor option" where
  "tab_key 0 st = Some st"
| "tab_key (Suc count) st = do { st \<leftarrow> insert_char SPC st; if currpnt st AND 3 = 0 then Some st else tab_key count st }"

definition key_action :: "int \<Rightarrow> int \<Rightarrow> editor \<Rightarrow> editor option" where
  \<comment> \<open>the switch of \<open>vedit_key\<close>\<close>
  "key_action lns ch st = do {
     nt \<leftarrow> no_touch st;
     l \<leftarrow> deref st (currline st);
     if ch < 0x100 \<and> isprint2_key ch then (if nt then Some st else insert_char (char_of (nat (ch mod 256))) st)
     else if ch = Ctrl (CHR ''I'') then (if nt then Some st else tab_key 4 st)
     else if ch = 10 \<or> ch = 13 then (if nt then Some st else split (currline st) (currpnt st) st)
     else if ch = Ctrl (CHR ''R'') then Some (st\<lparr>enabledbchar := \<not> enabledbchar st\<rparr>)
     else if ch = Ctrl (CHR ''G'') \<or> ch = Ctrl (CHR ''Q'') then Some (st\<lparr>redraw_everything := True\<rparr>)
     else if ch = KEY_LEFT then key_left st
     else if ch = Ctrl (CHR ''C'') then map_option (\<lambda>st. st\<lparr>redraw_everything := True\<rparr>) (process_MARK_action (CHR ''2'') st)
     else if ch = Ctrl (CHR ''U'') then map_option (\<lambda>st. st\<lparr>redraw_everything := True\<rparr>) (process_MARK_action (CHR ''1'') st)
     else if ch = Ctrl (CHR ''V'') \<or> ch = KEY_RIGHT then key_right st
     else if ch = Ctrl (CHR ''P'') \<or> ch = KEY_UP then key_up st
     else if ch = Ctrl (CHR ''N'') \<or> ch = KEY_DOWN then key_down st
     else if ch = Ctrl (CHR ''B'') \<or> ch = KEY_PGUP then key_pgup lns st
     else if ch = Ctrl (CHR ''F'') \<or> ch = KEY_PGDN then key_pgdn st
     else if ch = Ctrl (CHR ''A'') \<or> ch = KEY_HOME then Some (st\<lparr>currpnt := 0\<rparr>)
     else if ch = Ctrl (CHR ''E'') \<or> ch = KEY_END then Some (st\<lparr>currpnt := tl_len l\<rparr>)
     else if ch = Ctrl (CHR ''S'')
     then Some (st\<lparr>top_of_win := can_edit_begin st, currline := can_edit_begin st, currpnt := 0,
                   curr_window_line := 0, currln := 0, redraw_everything := True\<rparr>)
     else if ch = Ctrl (CHR ''T'') then key_tail_of_file st
     else if ch = Ctrl (CHR ''O'') \<or> ch = KEY_INS then Some (st\<lparr>insert_character := \<not> insert_character st\<rparr>)
     else if ch = Ctrl (CHR ''H'') \<or> ch = KEY_BACKSPACE then (if nt then Some st else key_backspace st)
     else if ch = Ctrl (CHR ''D'') \<or> ch = KEY_DEL
     then (if nt then Some st else if tl_len l = currpnt st then vedit_ctrl_k lns st else delete_char st)
     else if ch = Ctrl (CHR ''Y'')
     then do { st \<leftarrow> upd (currline st) (\<lambda>l. l\<lparr>tl_len := 0\<rparr>) (st\<lparr>currpnt := 0\<rparr>); vedit_ctrl_k lns st }
     else if ch = Ctrl (CHR ''K'') then (if nt then Some st else key_ctrl_k st)
     else Some st }"

definition vedit_key :: "int \<Rightarrow> int \<Rightarrow> editor \<Rightarrow> editor option" where
  "vedit_key lns ch st = do { st \<leftarrow> key_action lns ch (key_start ch st); key_end lns st }"

section \<open>A session\<close>

partial_function (option) skip_header :: "ptr \<Rightarrow> editor \<Rightarrow> ptr option" where
  "skip_header p st = do {
     l \<leftarrow> deref st p;
     if tl_next l \<noteq> can_edit_end st \<and> 0 < tl_len l then skip_header (tl_next l) st else Some p }"

definition raw_start :: "bool \<Rightarrow> editor \<Rightarrow> editor option" where
  \<comment> \<open>the beginning of \<open>raw_vedit\<close>, after \<open>read_file\<close>: a header that must not change is out of reach\<close>
  "raw_start modifyheader st = do {
     st \<leftarrow> (if modifyheader then Some st
           else do { p \<leftarrow> skip_header (firstline st) st;
                     l \<leftarrow> deref st p;
                     let p = (if tl_next l \<noteq> can_edit_end st then tl_next l else p);
                     Some (st\<lparr>top_of_win := p, can_edit_begin := p\<rparr>) });
     Some (st\<lparr>currline := top_of_win st, curr_window_line := 0, currln := 0, currpnt := 0\<rparr>) }"

definition QUOTE_MARK :: string where
  "QUOTE_MARK = bytes [0xB5, 0xC4, 0xB4, 0xF3, 0xD7, 0xF7, 0xD6, 0xD0, 0xCC, 0xE1, 0xB5, 0xBD] @ '': '' @ bytes [0xA1, 0xBF]"

partial_function (option) article_counts :: "editor \<Rightarrow> ptr \<Rightarrow> nat \<Rightarrow> nat \<Rightarrow> nat \<Rightarrow> (nat \<times> nat \<times> nat) option" where
  \<comment> \<open>\<open>total\<close>, \<open>lines\<close> and \<open>len\<close> of \<open>valid_article\<close>\<close>
  "article_counts st p all_lines lines len =
     (if p = None \<or> p = can_edit_end st then Some (all_lines, lines, len)
      else do { l \<leftarrow> deref st p;
                s \<leftarrow> line_str l 0;
                if take 1 s \<notin> {'':'', ''>'', ''=''} \<and> find_str s QUOTE_MARK = None
                then article_counts st (tl_next l) (all_lines + 1) (lines + 1) (len + length s)
                else article_counts st (tl_next l) (all_lines + 1) lines len })"

definition quotes_too_much :: "editor \<Rightarrow> bool option" where
  \<comment> \<open>whether \<open>valid_article\<close> warns: fewer than 35 lines in 100 are the author's own\<close>
  "quotes_too_much st = do {
     (all_lines, lines, _) \<leftarrow> article_counts st (can_edit_begin st) 0 0 0;
     Some (lines * 100 < all_lines * 35) }"

declare
  count_from.simps [code]
  lineno_from.simps [code]
  search_from.simps [code]
  join.simps [code]
  join_on.simps [code]
  wrap_long.simps [code]
  fp_lines.simps [code]
  tab_loop.simps [code]
  origin_from.simps [code]
  last_of.simps [code]
  trim_end.simps [code]
  write_lines.simps [code]
  keep_lines.simps [code]
  unmark_from.simps [code]
  mark_from.simps [code]
  copy_marked.simps [code]
  delete_marked.simps [code]
  clip_from.simps [code]
  skip_header.simps [code]
  article_counts.simps [code]

section \<open>The text as a list of strings\<close>

definition tl_ok :: "textline \<Rightarrow> bool" where
  \<comment> \<open>\<open>len\<close> is the length of the string in \<open>data\<close>\<close>
  "tl_ok l \<longleftrightarrow> length (tl_data l) = 256 \<and> NUL \<in> set (tl_data l) \<and> tl_len l = int (length (cstr (tl_data l)))"

definition hd_or :: "nat list \<Rightarrow> ptr \<Rightarrow> ptr" where
  "hd_or xs n = (case xs of [] \<Rightarrow> n | x # _ \<Rightarrow> Some x)"

definition last_or :: "ptr \<Rightarrow> nat list \<Rightarrow> ptr" where
  "last_or p xs = (if xs = [] then p else Some (last xs))"

fun dll :: "(nat \<Rightarrow> textline option) \<Rightarrow> ptr \<Rightarrow> nat list \<Rightarrow> ptr \<Rightarrow> bool" where
  \<comment> \<open>nodes linked both ways, with what comes before and after them\<close>
  "dll h p [] n \<longleftrightarrow> True"
| "dll h p (a # xs) n \<longleftrightarrow>
     (\<exists>l. h a = Some l \<and> tl_ok l \<and> tl_prev l = p \<and> tl_next l = hd_or xs n) \<and> dll h (Some a) xs n"

definition ed_ok :: "editor \<Rightarrow> nat list \<Rightarrow> nat list \<Rightarrow> nat list \<Rightarrow> bool" where
  \<comment> \<open>the lines out of reach, the ones that can be edited, and those from \<open>can_edit_end\<close> on\<close>
  "ed_ok st pre ls post \<longleftrightarrow>
     dll (ed_heap st) None (pre @ ls @ post) None \<and> distinct (pre @ ls @ post) \<and>
     (\<forall>a\<in>set (pre @ ls @ post). a < ed_fresh st) \<and> ls \<noteq> [] \<and> post \<noteq> [] \<and> length (ed_junk st) = 256 \<and>
     firstline st = Some (hd (pre @ ls)) \<and> can_edit_begin st = Some (hd ls) \<and> can_edit_end st = Some (hd post)"

definition texts :: "editor \<Rightarrow> nat list \<Rightarrow> string list" where
  "texts st ls = map (\<lambda>a. cstr (tl_data (the (ed_heap st a)))) ls"

lemma hd_or_simps [simp]: "hd_or [] n = n" "hd_or (x # xs) n = Some x" "hd_or (xs @ ys) n = hd_or xs (hd_or ys n)"
  by (auto simp: hd_or_def split: list.splits)

lemma last_or_simps [simp]: "last_or p [] = p" "last_or p (x # xs) = last_or (Some x) xs" "last_or p (xs @ ys) = last_or (last_or p xs) ys"
  by (auto simp: last_or_def)

lemma dll_append [simp]: "dll h p (xs @ ys) n \<longleftrightarrow> dll h p xs (hd_or ys n) \<and> dll h (last_or p xs) ys n"
  by (induction xs arbitrary: p) auto

lemma dll_upd [simp]: "a \<notin> set xs \<Longrightarrow> dll (h(a := v)) p xs n \<longleftrightarrow> dll h p xs n"
  by (induction xs arbitrary: p) auto

lemma texts_append [simp]: "texts st (xs @ ys) = texts st xs @ texts st ys" "texts st [] = []"
  "texts st (a # xs) = cstr (tl_data (the (ed_heap st a))) # texts st xs"
  by (simp_all add: texts_def)

lemma texts_upd: "a \<notin> set xs \<Longrightarrow> ed_heap st' = (ed_heap st)(a := v) \<Longrightarrow> texts st' xs = texts st xs"
  by (auto simp: texts_def)

lemma cstr_drop: "j \<le> length (cstr d) \<Longrightarrow> cstr (drop j d) = drop j (cstr d)"
  unfolding cstr_def
proof (induction j arbitrary: d)
  case (Suc j)
  then show ?case by (cases d) (auto split: if_splits)
qed simp

lemma cstr_take_pre:
  assumes "j \<le> length (cstr d)"
  shows "take j d = take j (cstr d)"
proof -
  have "take j (cstr d @ dropWhile (\<lambda>c. c \<noteq> NUL) d) = take j (cstr d)" using assms by simp
  then show ?thesis unfolding cstr_def by (metis takeWhile_dropWhile_id)
qed

lemma cstr_no_NUL [simp]: "NUL \<notin> set (cstr d)"
  unfolding cstr_def by (auto dest: set_takeWhileD)

lemma cstr_terminated: "NUL \<notin> set s \<Longrightarrow> cstr (s @ NUL # t) = s"
  unfolding cstr_def by (induction s) auto

lemma tl_ok_length:
  assumes "tl_ok l"
  shows "length (cstr (tl_data l)) < 256"
proof -
  have "cstr (tl_data l) \<noteq> tl_data l" using assms cstr_no_NUL [of "tl_data l"] unfolding tl_ok_def by metis
  then have "length (cstr (tl_data l)) \<noteq> length (tl_data l)"
    unfolding cstr_def by (metis append_eq_conv_conj takeWhile_eq_take take_all order_refl)
  then show ?thesis using assms length_takeWhile_le [of _ "tl_data l"] unfolding cstr_def tl_ok_def by (metis le_neq_implies_less)
qed

lemma line_str_ok:
  assumes "tl_ok l" "j \<le> length (cstr (tl_data l))"
  shows "line_str l (int j) = Some (drop j (cstr (tl_data l)))"
proof -
  have "NUL \<notin> set (take j (tl_data l))" using cstr_take_pre [OF assms(2)] in_set_takeD cstr_no_NUL by metis
  then have "NUL \<in> set (drop j (tl_data l))"
    using assms(1) append_take_drop_id [of j "tl_data l"] unfolding tl_ok_def by (metis Un_iff set_append)
  then show ?thesis using assms tl_ok_length [OF assms(1)] cstr_drop [OF assms(2)] by (simp add: line_str_def tl_ok_def)
qed

lemma put_string:
  \<comment> \<open>a string written at a position of another one\<close>
  assumes "tl_ok l" "j \<le> length (cstr (tl_data l))" "NUL \<notin> set s" "j + length s < 256"
  shows "\<exists>l'. put_data (int j) (s @ [NUL]) l = Some l' \<and> cstr (tl_data l') = take j (cstr (tl_data l)) @ s \<and>
    length (tl_data l') = 256 \<and> NUL \<in> set (tl_data l') \<and>
    tl_prev l' = tl_prev l \<and> tl_next l' = tl_next l \<and> tl_len l' = tl_len l \<and> tl_attr l' = tl_attr l"
proof -
  have "cstr (take j (cstr (tl_data l)) @ s @ NUL # drop (j + length s + 1) (tl_data l)) = take j (cstr (tl_data l)) @ s"
    using cstr_terminated [of "take j (cstr (tl_data l)) @ s"] assms(3) in_set_takeD [of NUL j] by fastforce
  then show ?thesis using assms cstr_take_pre [OF assms(2)] by (simp add: put_data_def tl_ok_def)
qed

lemma dll_insert:
  assumes "dll h None (us @ a # n # ws) None" "distinct (us @ a # n # ws)" "b \<notin> set (us @ a # n # ws)"
    and "h a = Some l" "h n = Some ln"
    and "tl_ok la" "tl_prev la = tl_prev l" "tl_next la = Some b"
    and "tl_ok lb" "tl_prev lb = Some a" "tl_next lb = Some n"
  shows "dll (h(a \<mapsto> la, b \<mapsto> lb, n \<mapsto> ln\<lparr>tl_prev := Some b\<rparr>)) None (us @ a # b # n # ws) None"
  using assms by (auto simp: tl_ok_def)

lemma esc_start_le: "esc_start d i \<le> i"
proof (induction d i rule: esc_start.induct)
  case (1 d i)
  then show ?case by (subst esc_start.simps) (auto intro: le_trans)
qed

lemma split_pos_le:
  assumes "tl_ok l" "pos \<le> length (cstr (tl_data l))"
  shows "\<exists>k \<le> pos. split_pos l pos = Some k"
proof -
  have at: "\<exists>c. data_at l (int j - 1) = Some c" if "j \<le> pos" for j
    using that assms tl_ok_length [OF assms(1)] by (cases "j = 0") (auto simp: data_at_def tl_ok_def)
  obtain c where c: "data_at l (int pos - 1) = Some c" using at by blast
  define p where "p = (if high c \<and> odd (high_before (tl_data l) pos) then pos - 1 else pos)"
  have p: "p \<le> pos" unfolding p_def by simp
  obtain e where e: "data_at l (int p - 1) = Some e" using at [OF p] by blast
  have i: "esc_start (tl_data l) (p - 1) \<le> p" using esc_start_le [of "tl_data l" "p - 1"] by linarith
  show ?thesis
    using c e p i order_trans [OF i p] unfolding split_pos_def
    by (auto simp: Let_def p_def [symmetric])
qed

lemma upd_Some [simp]: "ed_heap st a = Some l \<Longrightarrow> upd (Some a) f st = Some (st\<lparr>ed_heap := (ed_heap st)(a \<mapsto> f l)\<rparr>)"
  by (simp add: upd_def)

lemma deref_Some [simp]: "deref st (Some a) = ed_heap st a"
  by (simp add: deref_def)

lemma with_line_Some [simp]:
  "ed_heap st a = Some l \<Longrightarrow> f l = Some l' \<Longrightarrow> with_line (Some a) f st = Some (st\<lparr>ed_heap := (ed_heap st)(a \<mapsto> l')\<rparr>)"
  by (simp add: with_line_def)

definition new_line :: "editor \<Rightarrow> textline" where
  "new_line st = \<lparr>tl_prev = None, tl_next = None, tl_len = 0, tl_attr = 0, tl_data = (ed_junk st)[0 := NUL]\<rparr>"

lemma new_line_ok: "length (ed_junk st) = 256 \<Longrightarrow> tl_ok (new_line st) \<and> cstr (tl_data (new_line st)) = []"
  by (cases "ed_junk st") (auto simp: new_line_def tl_ok_def cstr_def)

lemma split_eq:
  assumes l: "ed_heap st a = Some l" "tl_ok l" and pos: "0 \<le> pos" "pos \<le> tl_len l"
    and n: "tl_next l = Some n" "ed_heap st n = Some ln" "n \<noteq> a" and b: "ed_fresh st \<notin> {a, n}"
    and e: "can_edit_end st \<noteq> Some a" and j: "length (ed_junk st) = 256"
  shows "\<exists>k la lb st'. split (Some a) pos st = Some st' \<and> k \<le> nat pos \<and>
      tl_ok la \<and> cstr (tl_data la) = take k (cstr (tl_data l)) \<and> tl_prev la = tl_prev l \<and> tl_next la = Some (ed_fresh st) \<and>
      tl_ok lb \<and> cstr (tl_data lb) = drop k (cstr (tl_data l)) \<and> tl_prev lb = Some a \<and> tl_next lb = Some n \<and>
      ed_heap st' = (ed_heap st)(a \<mapsto> la, ed_fresh st \<mapsto> lb, n \<mapsto> ln\<lparr>tl_prev := Some (ed_fresh st)\<rparr>) \<and>
      ed_fresh st' = ed_fresh st + 1 \<and> ed_junk st' = ed_junk st \<and> firstline st' = firstline st \<and>
      can_edit_begin st' = can_edit_begin st \<and> can_edit_end st' = can_edit_end st \<and>
      (currline st', currpnt st') = (if currline st = Some a \<and> int k \<le> currpnt st then (Some (ed_fresh st), currpnt st - int k)
                                     else (currline st, currpnt st))"
proof -
  have "nat pos \<le> length (cstr (tl_data l))" using pos l(2) by (simp add: tl_ok_def)
  then obtain k where k: "k \<le> nat pos" "split_pos l (nat pos) = Some k" and kl: "k \<le> length (cstr (tl_data l))"
    using split_pos_le [OF l(2), of "nat pos"] by auto
  let ?t = "cstr (tl_data l)"
  have s: "line_str l (int k) = Some (drop k ?t)" by (rule line_str_ok [OF l(2) kl])
  have small: "0 + length (drop k ?t) < 256" "k + length [] < 256" using tl_ok_length [OF l(2)] kl by auto
  have sub: "NUL \<notin> set (drop k ?t)" using in_set_dropD cstr_no_NUL by metis
  obtain lb where lb: "put_data 0 (drop k ?t @ [NUL]) (new_line st) = Some lb" "cstr (tl_data lb) = drop k ?t"
      "length (tl_data lb) = 256" "NUL \<in> set (tl_data lb)"
    using put_string [of "new_line st" 0 "drop k ?t"] new_line_ok [OF j] sub small by auto
  have l': "tl_ok l \<longleftrightarrow> tl_ok l" by simp
  obtain la where la: "put_data (int k) [NUL] (l\<lparr>tl_len := int k\<rparr>) = Some la" "cstr (tl_data la) = take k ?t"
      "length (tl_data la) = 256" "NUL \<in> set (tl_data la)" "tl_prev la = tl_prev l" "tl_len la = int k"
  proof -
    obtain l1 where "put_data (int k) ([] @ [NUL]) l = Some l1" "cstr (tl_data l1) = take k ?t @ []"
      "length (tl_data l1) = 256" "NUL \<in> set (tl_data l1)" "tl_prev l1 = tl_prev l"
      using put_string [OF l(2) kl _ small(2)] by auto
    then show ?thesis using that [of "l1\<lparr>tl_len := int k\<rparr>"] by (auto simp: put_data_def split: if_splits)
  qed
  have nx: "tl_next la = Some n" "tl_next lb = None" using la(1) lb(1) n(1) by (auto simp: put_data_def new_line_def split: if_splits)
  have len: "tl_len l - int k = int (length (drop k ?t))" using l(2) kl by (simp add: tl_ok_def)
  let ?la = "la\<lparr>tl_next := Some (ed_fresh st)\<rparr>"
  let ?lb = "lb\<lparr>tl_len := tl_len l - int k, tl_attr := tl_attr l, tl_prev := Some a, tl_next := Some n\<rparr>"
  have ok: "tl_ok ?la" "tl_ok ?lb" using la lb len kl by (simp_all add: tl_ok_def)
  have neq: "a \<noteq> n" "ed_fresh st \<noteq> a" "ed_fresh st \<noteq> n" "a \<noteq> ed_fresh st" "n \<noteq> ed_fresh st" using n(3) b by auto
  show ?thesis
    apply (rule exI [of _ k], rule exI [of _ ?la], rule exI [of _ ?lb])
    using k l(1) n(2) neq e lb la nx ok s pos
    unfolding split_def alloc_line_def append_line_def new_line_def [symmetric]
    by (auto simp: Let_def fun_upd_twist)
qed

lemma dll_node:
  assumes "dll h p (us @ a # ws) n"
  shows "\<exists>l. h a = Some l \<and> tl_ok l \<and> tl_prev l = last_or p us \<and> tl_next l = hd_or ws n"
  using assms by simp

lemma hd_append_hd: "ls \<noteq> [] \<Longrightarrow> hd_or (ls @ post) n = Some (hd ls)"
  by (cases ls) simp_all

lemma texts_three:
  assumes "ed_heap st' = (ed_heap st)(a \<mapsto> la, b \<mapsto> lb, n \<mapsto> ln)" "ed_heap st n = Some l" "tl_data ln = tl_data l"
    "a \<notin> set xs" "b \<notin> set xs"
  shows "texts st' xs = texts st xs"
  using assms by (auto simp: texts_def)

text \<open>C4: Return at any position of a line puts a new line after it and moves the rest of the text there,
  without losing a byte and at most to the left of the position asked for (so that no character and no colour
  code is cut); the list stays linked both ways, and the cursor stays at its character.\<close>

theorem split_refines:
  assumes ok: "ed_ok st pre (xs @ a # ys) post" and l: "ed_heap st a = Some l" and pos: "0 \<le> pos" "pos \<le> tl_len l"
  shows "\<exists>st' b k. split (Some a) pos st = Some st' \<and> k \<le> nat pos \<and> ed_ok st' pre (xs @ a # b # ys) post \<and>
     texts st' (pre @ xs @ a # b # ys @ post) =
       texts st (pre @ xs) @ take k (cstr (tl_data l)) # drop k (cstr (tl_data l)) # texts st (ys @ post) \<and>
     (currline st', currpnt st') = (if currline st = Some a \<and> int k \<le> currpnt st then (Some b, currpnt st - int k)
                                    else (currline st, currpnt st))"
proof -
  have "post \<noteq> []" using ok by (simp add: ed_ok_def)
  then obtain n ws where ws: "ys @ post = n # ws" by (cases "ys @ post") auto
  let ?us = "pre @ xs"
  have all: "pre @ (xs @ a # ys) @ post = ?us @ a # n # ws" using ws by simp
  note ok0 = ok [unfolded ed_ok_def all]
  have lk: "dll (ed_heap st) None (?us @ a # n # ws) None" and di: "distinct (?us @ a # n # ws)"
    and fr: "\<forall>x\<in>set (?us @ a # n # ws). x < ed_fresh st" and j: "length (ed_junk st) = 256"
    and fl: "firstline st = Some (hd (pre @ xs @ a # ys))" "can_edit_begin st = Some (hd (xs @ a # ys))" "can_edit_end st = Some (hd post)"
    using ok0 by blast+
  have la: "tl_ok l" "tl_next l = Some n" using dll_node [OF lk] l by auto
  obtain ln where ln: "ed_heap st n = Some ln" using lk by auto
  have ne: "n \<noteq> a" "ed_fresh st \<notin> set (?us @ a # n # ws)" using di fr by auto
  have "a \<notin> set post" using ok by (auto simp: ed_ok_def)
  then have e: "can_edit_end st \<noteq> Some a" using fl(3) \<open>post \<noteq> []\<close> hd_in_set by fastforce
  obtain k l1 l2 st' where *: "split (Some a) pos st = Some st'" "k \<le> nat pos"
      "tl_ok l1" "cstr (tl_data l1) = take k (cstr (tl_data l))" "tl_prev l1 = tl_prev l" "tl_next l1 = Some (ed_fresh st)"
      "tl_ok l2" "cstr (tl_data l2) = drop k (cstr (tl_data l))" "tl_prev l2 = Some a" "tl_next l2 = Some n"
      "ed_heap st' = (ed_heap st)(a \<mapsto> l1, ed_fresh st \<mapsto> l2, n \<mapsto> ln\<lparr>tl_prev := Some (ed_fresh st)\<rparr>)"
      "ed_fresh st' = ed_fresh st + 1" "ed_junk st' = ed_junk st" "firstline st' = firstline st"
      "can_edit_begin st' = can_edit_begin st" "can_edit_end st' = can_edit_end st"
      "(currline st', currpnt st') = (if currline st = Some a \<and> int k \<le> currpnt st then (Some (ed_fresh st), currpnt st - int k)
                                     else (currline st, currpnt st))"
    using split_eq [OF l la(1) pos la(2) ln ne(1) _ e j] ne(2) by auto
  let ?b = "ed_fresh st"
  have lk': "dll (ed_heap st') None (?us @ a # ?b # n # ws) None"
    unfolding *(11) by (rule dll_insert [OF lk di ne(2) l ln *(3,5,6) *(7,9,10)])
  have all': "pre @ (xs @ a # ?b # ys) @ post = ?us @ a # ?b # n # ws" using ws by simp
  have "distinct (?us @ a # ?b # n # ws)" "\<forall>x\<in>set (?us @ a # ?b # n # ws). x < ed_fresh st + 1"
    using di ne(2) fr by (auto simp: less_Suc_eq)
  moreover have "hd (pre @ xs @ a # ?b # ys) = hd (pre @ xs @ a # ys)" "hd (xs @ a # ?b # ys) = hd (xs @ a # ys)"
    by (cases pre; cases xs; simp)+
  ultimately have ok': "ed_ok st' pre (xs @ a # ?b # ys) post"
    using lk' j fl \<open>post \<noteq> []\<close> *(12-16) unfolding ed_ok_def all' by simp
  have tx: "texts st' us = texts st us" if "a \<notin> set us" "?b \<notin> set us" for us
    using texts_three [OF *(11) ln _ that] by simp
  have "texts st' ?us = texts st ?us" "texts st' (n # ws) = texts st (n # ws)"
    using tx [of ?us] tx [of "n # ws"] di ne(2) by simp_all
  moreover have "cstr (tl_data (the (ed_heap st' a))) = take k (cstr (tl_data l))"
     "cstr (tl_data (the (ed_heap st' ?b))) = drop k (cstr (tl_data l))"
    using * ne by auto
  ultimately have "texts st' (pre @ xs @ a # ?b # ys @ post) =
      texts st (pre @ xs) @ take k (cstr (tl_data l)) # drop k (cstr (tl_data l)) # texts st (ys @ post)"
    using ws by simp
  then show ?thesis using * ok' by blast
qed

lemma ed_ok_node:
  \<comment> \<open>a line of the text, the line after it, and what there is before\<close>
  assumes ok: "ed_ok st pre (xs @ a # ys) post"
  obtains n ws l ln where "ys @ post = n # ws" "dll (ed_heap st) None ((pre @ xs) @ a # n # ws) None"
    "distinct ((pre @ xs) @ a # n # ws)" "\<forall>x\<in>set ((pre @ xs) @ a # n # ws). x < ed_fresh st"
    "ed_heap st a = Some l" "tl_ok l" "tl_prev l = last_or None (pre @ xs)" "tl_next l = Some n"
    "ed_heap st n = Some ln" "tl_ok ln" "tl_prev ln = Some a" "tl_next ln = hd_or ws None"
    "can_edit_begin st = Some (hd (xs @ a # ys))" "can_edit_end st = Some (hd post)"
    "firstline st = Some (hd (pre @ xs @ a # ys))" "post \<noteq> []" "length (ed_junk st) = 256"
proof -
  have p: "post \<noteq> []" using ok by (simp add: ed_ok_def)
  then obtain n ws where ws: "ys @ post = n # ws" by (cases "ys @ post") auto
  have all: "pre @ (xs @ a # ys) @ post = (pre @ xs) @ a # n # ws" using ws by simp
  note ok0 = ok [unfolded ed_ok_def all]
  have lk: "dll (ed_heap st) None ((pre @ xs) @ a # n # ws) None" using ok0 by blast
  obtain l where l: "ed_heap st a = Some l" "tl_ok l" "tl_prev l = last_or None (pre @ xs)" "tl_next l = Some n"
    using dll_node [OF lk] by auto
  obtain ln where ln: "ed_heap st n = Some ln" "tl_ok ln" "tl_prev ln = Some a" "tl_next ln = hd_or ws None"
    using dll_node [of "ed_heap st" None "(pre @ xs) @ [a]" n ws None] lk by auto
  show ?thesis using that [OF ws lk _ _ l ln] ok0 p by simp
qed

lemma ed_ok_ends:
  assumes "ed_ok st pre (xs @ a # ys) post"
  shows "can_edit_begin st = Some a \<longleftrightarrow> xs = []" "firstline st = Some a \<longleftrightarrow> pre @ xs = []"
    "hd_or (ys @ post) None = can_edit_end st \<longleftrightarrow> ys = []" "can_edit_end st \<noteq> Some a"
proof -
  have d: "distinct (pre @ xs @ a # ys @ post)" and f: "can_edit_begin st = Some (hd (xs @ a # ys))"
    "firstline st = Some (hd (pre @ xs @ a # ys))" "can_edit_end st = Some (hd post)" "post \<noteq> []"
    using assms by (auto simp: ed_ok_def)
  show "can_edit_begin st = Some a \<longleftrightarrow> xs = []" using d f(1) by (cases xs) auto
  show "firstline st = Some a \<longleftrightarrow> pre @ xs = []" using d f(2) by (cases "pre @ xs") (auto simp: append_eq_Cons_conv)
  show "hd_or (ys @ post) None = can_edit_end st \<longleftrightarrow> ys = []" using d f(3,4) by (cases ys; cases post) auto
  show "can_edit_end st \<noteq> Some a" using d f(3,4) by (cases post) auto
qed

lemma dll_remove:
  assumes "dll h None (us @ a # n # ws) None" "distinct (us @ a # n # ws)" "h n = Some ln" "h a = Some l" "tl_ok ln"
  shows "us = [] \<Longrightarrow> dll (h(n \<mapsto> ln\<lparr>tl_prev := None\<rparr>, a := None)) None (n # ws) None"
    and "us = vs @ [p] \<Longrightarrow> h p = Some lp \<Longrightarrow>
      dll (h(n \<mapsto> ln\<lparr>tl_prev := tl_prev l\<rparr>, p \<mapsto> lp\<lparr>tl_next := tl_next l\<rparr>, a := None)) None (us @ n # ws) None"
  using assms by (auto simp: tl_ok_def)

lemma unlink_marks_simps [simp]:
  "ed_heap (unlink_marks (Some a) l st) = ed_heap st" "firstline (unlink_marks (Some a) l st) = firstline st"
  "can_edit_end (unlink_marks (Some a) l st) = can_edit_end st" "ed_fresh (unlink_marks (Some a) l st) = ed_fresh st"
  "ed_junk (unlink_marks (Some a) l st) = ed_junk st" "currline (unlink_marks (Some a) l st) = currline st"
  "currpnt (unlink_marks (Some a) l st) = currpnt st"
  "can_edit_begin (unlink_marks (Some a) l st) = (if Some a = can_edit_begin st then tl_next l else can_edit_begin st)"
  by (simp_all add: unlink_marks_def)

lemma delete_line_refines:
  assumes ok: "ed_ok st pre (xs @ a # ys) post" and ne: "xs @ ys \<noteq> []"
  shows "\<exists>st'. delete_line (Some a) st = Some st' \<and> ed_ok st' pre (xs @ ys) post \<and> ed_heap st' a = None \<and>
     texts st' (pre @ xs @ ys @ post) = texts st (pre @ xs @ ys @ post) \<and>
     currline st' = currline st \<and> currpnt st' = currpnt st"
proof -
  obtain us where us: "us = pre @ xs" by simp
  obtain n ws l ln where ws: "ys @ post = n # ws" and lk: "dll (ed_heap st) None (us @ a # n # ws) None"
    and di: "distinct (us @ a # n # ws)" and fr: "\<forall>x\<in>set (us @ a # n # ws). x < ed_fresh st"
    and l: "ed_heap st a = Some l" "tl_ok l" "tl_prev l = last_or None us" "tl_next l = Some n"
    and ln: "ed_heap st n = Some ln" "tl_ok ln"
    and f: "can_edit_begin st = Some (hd (xs @ a # ys))" "can_edit_end st = Some (hd post)"
    "firstline st = Some (hd (pre @ xs @ a # ys))" "post \<noteq> []" "length (ed_junk st) = 256"
    using ed_ok_node [OF ok] unfolding us by metis
  note ends = ed_ok_ends [OF ok, folded us]
  have only: "\<not> (can_edit_begin st = Some a \<and> Some n = can_edit_end st)" using ends(1,3) ne ws by auto
  let ?st1 = "unlink_marks (Some a) l st"
  have d: "(Some a = can_edit_begin st \<and> tl_next l = can_edit_end st) = False" using only l(4) by auto
  have n: "n \<noteq> a" "n \<notin> set us" "a \<notin> set us" "a \<notin> set (n # ws)" using di by auto
  obtain h st2 where st2: "delete_line (Some a) st = Some st2" "ed_heap st2 = h" "dll h None (us @ n # ws) None" "h a = None"
      "\<forall>x. x \<noteq> a \<longrightarrow> map_option tl_data (h x) = map_option tl_data (ed_heap st x)"
      "firstline st2 = (if us = [] then Some n else firstline st)" "can_edit_begin st2 = can_edit_begin ?st1"
      "can_edit_end st2 = can_edit_end st" "ed_fresh st2 = ed_fresh st" "ed_junk st2 = ed_junk st" "currline st2 = currline st"
      "currpnt st2 = currpnt st"
  proof (cases "us = []")
    case True
    let ?h = "(ed_heap st)(n \<mapsto> ln\<lparr>tl_prev := None\<rparr>, a := None)"
    have "delete_line (Some a) st = Some (?st1\<lparr>ed_heap := ?h, firstline := Some n\<rparr>)"
      using True l(4) ln(1) ends(2) l(1) d by (auto simp: delete_line_def Let_def free_line_def)
    moreover have "dll ?h None (us @ n # ws) None" using dll_remove(1) [OF lk di ln(1) l(1) ln(2) True] True by simp
    ultimately show ?thesis using that [of "?st1\<lparr>ed_heap := ?h, firstline := Some n\<rparr>" ?h] True ln n by simp
  next
    case False
    then obtain vs p where vs: "us = vs @ [p]" by (cases us rule: rev_cases) auto
    obtain lp where lp: "ed_heap st p = Some lp" using lk unfolding vs by auto
    have p: "p \<noteq> n" "p \<noteq> a" using di unfolding vs by auto
    have fst: "Some a \<noteq> firstline st" using False ends(2) by metis
    have pv: "tl_prev l = Some p" using l(3) vs by simp
    let ?h = "(ed_heap st)(n \<mapsto> ln\<lparr>tl_prev := tl_prev l\<rparr>, p \<mapsto> lp\<lparr>tl_next := tl_next l\<rparr>, a := None)"
    have "delete_line (Some a) st = Some (?st1\<lparr>ed_heap := ?h\<rparr>)"
      using fst l(4) ln(1) lp p pv l(1) d by (auto simp: delete_line_def Let_def free_line_def)
    moreover have "dll ?h None (us @ n # ws) None" by (rule dll_remove(2) [OF lk di ln(1) l(1) ln(2) vs lp])
    ultimately show ?thesis using that [of "?st1\<lparr>ed_heap := ?h\<rparr>" ?h] False ln n lp p l(3) by auto
  qed
  have all: "pre @ (xs @ ys) @ post = us @ n # ws" using ws us by simp
  have "distinct (us @ n # ws)" "\<forall>x\<in>set (us @ n # ws). x < ed_fresh st" using di fr by auto
  moreover have "(if us = [] then Some n else firstline st) = Some (hd (pre @ xs @ ys))"
    using f(3) ne ws us by (cases us) (auto simp: Cons_eq_append_conv neq_Nil_conv)
  moreover have "can_edit_begin ?st1 = Some (hd (xs @ ys))"
    using f(1) ends(1) ne ws l(4) by (cases xs) (auto simp: neq_Nil_conv)
  ultimately have "ed_ok st2 pre (xs @ ys) post" using st2 f ne unfolding ed_ok_def all by simp
  moreover have "texts st2 vs = texts st vs" if "a \<notin> set vs" "\<forall>x\<in>set vs. ed_heap st x \<noteq> None" for vs
  proof -
    have "tl_data (the (ed_heap st2 x)) = tl_data (the (ed_heap st x))" if mem: "x \<in> set vs" for x
    proof -
      obtain v where v: "ed_heap st x = Some v" "x \<noteq> a" using mem \<open>a \<notin> set vs\<close> \<open>\<forall>x\<in>set vs. ed_heap st x \<noteq> None\<close> by auto
      then show ?thesis using st2(2) st2(5) [rule_format, OF v(2)] by auto
    qed
    then show ?thesis by (simp add: texts_def)
  qed
  moreover have "a \<notin> set (pre @ xs @ ys @ post)" "\<forall>x\<in>set (pre @ xs @ ys @ post). ed_heap st x \<noteq> None"
  proof -
    have nodes: "\<forall>x\<in>set us. h x \<noteq> None" if "dll h p us m" for h p us m using that by (induction us arbitrary: p) auto
    have s: "set (pre @ xs @ ys @ post) = set (us @ n # ws)" using ws us by auto
    show "a \<notin> set (pre @ xs @ ys @ post)" using n unfolding s by simp
    show "\<forall>x\<in>set (pre @ xs @ ys @ post). ed_heap st x \<noteq> None" using nodes [OF lk] unfolding s by simp
  qed
  ultimately show ?thesis using st2 by auto
qed

lemma ed_ok_put:
  \<comment> \<open>another content of one line\<close>
  assumes ok: "ed_ok st pre (xs @ a # ys) post" and l: "ed_heap st a = Some l"
    and l': "tl_ok l'" "tl_prev l' = tl_prev l" "tl_next l' = tl_next l"
    and st': "ed_heap st' = (ed_heap st)(a \<mapsto> l')" "ed_fresh st' = ed_fresh st" "ed_junk st' = ed_junk st"
      "firstline st' = firstline st" "can_edit_begin st' = can_edit_begin st" "can_edit_end st' = can_edit_end st"
  shows "ed_ok st' pre (xs @ a # ys) post \<and>
    texts st' (pre @ xs) = texts st (pre @ xs) \<and> texts st' (ys @ post) = texts st (ys @ post)"
proof -
  have d: "a \<notin> set (pre @ xs)" "a \<notin> set (ys @ post)" using ok by (auto simp: ed_ok_def)
  have "dll (ed_heap st') None ((pre @ xs) @ a # (ys @ post)) None"
    using ok l l' d st'(1) unfolding ed_ok_def by simp
  then have "ed_ok st' pre (xs @ a # ys) post" using ok st'(2-) unfolding ed_ok_def by simp
  moreover have "texts st' (pre @ xs) = texts st (pre @ xs)" "texts st' (ys @ post) = texts st (ys @ post)"
    using texts_upd [OF d(1) st'(1)] texts_upd [OF d(2) st'(1)] by auto
  ultimately show ?thesis using st'(1) by simp
qed

lemma ed_ok_line:
  assumes "ed_ok st pre (xs @ a # ys) post"
  obtains l where "ed_heap st a = Some l" "tl_ok l"
  using ed_ok_node [OF assms] by metis

lemma shown_len_ok: "tl_ok l \<Longrightarrow> shown_len l = Some (tl_len l - int (num_ans_chr (cstr (tl_data l))))"
  using line_str_ok [of l 0] by (simp add: shown_len_def)

lemma signature_line_ok:
  assumes "tl_ok l" "take 1 (cstr (tl_data l)) \<noteq> ''-''"
  shows "signature_line l = Some (l, False)"
  using assms by (cases "tl_data l") (auto simp: signature_line_def cstr_def split: if_splits)

definition cols :: "editor \<Rightarrow> nat \<Rightarrow> int" where
  \<comment> \<open>the columns a line takes: its bytes but those of escape sequences\<close>
  "cols st a = (let t = cstr (tl_data (the (ed_heap st a))) in int (length t) - int (num_ans_chr t))"

lemma join_unfold:
  assumes ok: "ed_ok st pre (xs @ a # b # ys) post"
    and dash: "take 1 (cstr (tl_data (the (ed_heap st b)))) \<noteq> ''-''"
    and fit: "cols st a + cols st b < linelen st"
    and l: "ed_heap st a = Some l" "tl_ok l" and m: "ed_heap st b = Some m" "tl_ok m"
  shows "join (Some a) st = do {
     st \<leftarrow> with_line (Some a) (\<lambda>k. map_option (\<lambda>k. k\<lparr>tl_len := tl_len k + tl_len m,
              tl_attr := if tl_attr m AND M_MARK \<noteq> 0 then tl_attr m else tl_attr k\<rparr>)
              (put_data (int (length (cstr (tl_data l)))) (cstr (tl_data m) @ [NUL]) k)) st;
     let st = (if mark_begin st = Some b then st\<lparr>mark_begin := Some a\<rparr> else st);
     let st = (if mark_end st = Some b then st\<lparr>mark_end := Some a\<rparr> else st);
     st \<leftarrow> delete_line (Some b) st;
     Some (st, True) }"
proof -
  have nx: "tl_next l = Some b" and e: "can_edit_end st \<noteq> Some b"
    using ok l(1) ed_ok_ends(4) [of st pre "xs @ [a]" b ys post] by (auto simp: ed_ok_def)
  have "(ed_heap st)(b \<mapsto> m) = ed_heap st" using m(1) by (rule fun_upd_idem)
  then have u: "upd (Some b) (\<lambda>_. m) st = Some st" using m(1) by (simp add: upd_def)
  have "signature_line m = Some (m, False)" using signature_line_ok [OF m(2)] dash m(1) by simp
  moreover have "shown_len l = Some (cols st a)" "shown_len m = Some (cols st b)"
    using l m by (simp_all add: shown_len_ok cols_def tl_ok_def Let_def)
  moreover have "line_str l 0 = Some (cstr (tl_data l))" "line_str m 0 = Some (cstr (tl_data m))"
    using line_str_ok [of l 0] line_str_ok [of m 0] l m by simp_all
  ultimately show ?thesis using nx e u l(1) m(1) fit by (subst join.simps) (simp add: Let_def)
qed

text \<open>C5: joining a line with the next one, when both fit and the next one does not begin with a dash, leaves
  one line with the text of both, takes the other out of the list and changes nothing else.\<close>

theorem join_refines:
  assumes ok: "ed_ok st pre (xs @ a # b # ys) post"
    and dash: "take 1 (cstr (tl_data (the (ed_heap st b)))) \<noteq> ''-''"
    and fit: "cols st a + cols st b < linelen st"
    and room: "length (concat (texts st [a, b])) < 256"
  shows "\<exists>st'. join (Some a) st = Some (st', True) \<and> ed_ok st' pre (xs @ a # ys) post \<and>
     texts st' (pre @ xs @ a # ys @ post) = texts st (pre @ xs) @ concat (texts st [a, b]) # texts st (ys @ post) \<and>
     currline st' = currline st \<and> currpnt st' = currpnt st"
proof -
  obtain l where l: "ed_heap st a = Some l" "tl_ok l" using ed_ok_line [OF ok] by blast
  obtain m where m: "ed_heap st b = Some m" "tl_ok m" using ed_ok_line [of st pre "xs @ [a]" b ys post] ok by auto
  let ?s = "cstr (tl_data l)" and ?t = "cstr (tl_data m)"
  obtain l1 where l1: "put_data (int (length ?s)) (?t @ [NUL]) l = Some l1" "cstr (tl_data l1) = ?s @ ?t"
      "length (tl_data l1) = 256" "NUL \<in> set (tl_data l1)" "tl_prev l1 = tl_prev l" "tl_next l1 = tl_next l" "tl_len l1 = tl_len l"
    using put_string [OF l(2), of "length ?s" ?t] room l m by auto
  define l2 where "l2 = l1\<lparr>tl_len := tl_len l1 + tl_len m, tl_attr := if tl_attr m AND M_MARK \<noteq> 0 then tl_attr m else tl_attr l1\<rparr>"
  have l2: "tl_ok l2" "tl_prev l2 = tl_prev l" "tl_next l2 = tl_next l" "cstr (tl_data l2) = ?s @ ?t"
    using l1 l(2) m(2) by (simp_all add: l2_def tl_ok_def)
  define st1 where "st1 = st\<lparr>ed_heap := (ed_heap st)(a \<mapsto> l2), mark_begin := if mark_begin st = Some b then Some a else mark_begin st,
      mark_end := if mark_end st = Some b then Some a else mark_end st\<rparr>"
  have "join (Some a) st = do { st \<leftarrow> delete_line (Some b) st1; Some (st, True) }"
    unfolding join_unfold [OF ok dash fit l m] using l l1(1) by (simp add: l2_def [symmetric] Let_def st1_def)
  moreover have ok1: "ed_ok st1 pre (xs @ a # b # ys) post \<and>
      texts st1 (pre @ xs) = texts st (pre @ xs) \<and> texts st1 ((b # ys) @ post) = texts st ((b # ys) @ post)"
    by (rule ed_ok_put [OF ok l(1) l2(1-3)]) (simp_all add: st1_def)
  then have "ed_ok st1 pre ((xs @ [a]) @ b # ys) post" "(xs @ [a]) @ ys \<noteq> []" by auto
  from delete_line_refines [OF this] obtain st' where st': "delete_line (Some b) st1 = Some st'"
      "ed_ok st' pre (xs @ a # ys) post" "texts st' (pre @ xs @ a # ys @ post) = texts st1 (pre @ xs @ a # ys @ post)"
      "currline st' = currline st1" "currpnt st' = currpnt st1"
    by auto
  moreover have "texts st1 (pre @ xs @ a # ys @ post) = texts st (pre @ xs) @ (?s @ ?t) # texts st (ys @ post)"
    using conjunct2 [OF ok1] l2(4) by (simp add: st1_def [THEN arg_cong [of _ _ ed_heap]])
  ultimately show ?thesis using l m by (simp add: st1_def)
qed

text \<open>C6: what has to fit is what the lines show, but \<open>strcat\<close> copies the colour codes as well: two lines that
  show little and hold 256 bytes together are written past the end of \<open>data\<close>.\<close>

theorem join_overflow:
  assumes ok: "ed_ok st pre (xs @ a # b # ys) post"
    and dash: "take 1 (cstr (tl_data (the (ed_heap st b)))) \<noteq> ''-''"
    and fit: "cols st a + cols st b < linelen st"
    and long: "256 \<le> length (concat (texts st [a, b]))"
  shows "join (Some a) st = None"
proof -
  obtain l where l: "ed_heap st a = Some l" "tl_ok l" using ed_ok_line [OF ok] by blast
  obtain m where m: "ed_heap st b = Some m" "tl_ok m" using ed_ok_line [of st pre "xs @ [a]" b ys post] ok by auto
  have "put_data (int (length (cstr (tl_data l)))) (cstr (tl_data m) @ [NUL]) l = None"
    using long l m by (simp add: put_data_def tl_ok_def)
  then show ?thesis unfolding join_unfold [OF ok dash fit l m] using l by (simp add: with_line_def)
qed

lemma tl_ok_data:
  assumes "tl_ok l"
  obtains r where "tl_data l = cstr (tl_data l) @ NUL # r" "length (cstr (tl_data l)) + length r = 255"
proof -
  define r where "r = dropWhile (\<lambda>c. c \<noteq> NUL) (tl_data l)"
  have t: "tl_data l = cstr (tl_data l) @ r" unfolding r_def cstr_def by simp
  have "r \<noteq> []" using assms t cstr_no_NUL [of "tl_data l"] unfolding tl_ok_def by force
  then obtain r' where r': "r = NUL # r'" using hd_dropWhile [of "\<lambda>c. c \<noteq> NUL" "tl_data l"] unfolding r_def by (cases "dropWhile (\<lambda>c. c \<noteq> NUL) (tl_data l)") auto
  then have "length (cstr (tl_data l) @ NUL # r') = 256" using assms t unfolding tl_ok_def by metis
  then show ?thesis using that [of r'] t r' by simp
qed

lemma tl_ok_make:
  assumes "tl_data l = t @ NUL # r" "NUL \<notin> set t" "length t + length r = 255" "tl_len l = int (length t)"
  shows "tl_ok l \<and> cstr (tl_data l) = t"
  using assms cstr_terminated [of t r] by (auto simp: tl_ok_def)

lemma put_char_ok:
  assumes l: "ed_heap st a = Some l" "tl_ok l" and t: "t = cstr (tl_data l)"
    and i: "currpnt st = int i" "i \<le> length t" and ch: "ch \<noteq> NUL" and room: "length t < 255"
    and ins: "insert_character st \<or> i = length t"
  shows "\<exists>l'. put_char ch (Some a) st = Some (st\<lparr>ed_heap := (ed_heap st)(a \<mapsto> l'), currpnt := int i + 1\<rparr>) \<and> tl_ok l' \<and>
     cstr (tl_data l') = take i t @ ch # drop i t \<and> tl_prev l' = tl_prev l \<and> tl_next l' = tl_next l"
proof -
  obtain r where r: "tl_data l = t @ NUL # r" "length t + length r = 255" using tl_ok_data [OF l(2)] unfolding t by blast
  have len: "tl_len l = int (length t)" using l(2) unfolding t tl_ok_def by simp
  have n: "nat (int (length t) + 1 - int i) = length t - i + 1" "nat (int i + 1) = i + 1" using i(2) by auto
  have g: "take (length t - i + 1) (drop i (tl_data l)) = drop i t @ [NUL]" using i(2) r(1) by simp
  let ?d1 = "take (i + 1) (tl_data l) @ (drop i t @ [NUL]) @ drop (length t + 2) (tl_data l)"
  have p1: "put_data (int i + 1) (drop i t @ [NUL]) l = Some (l\<lparr>tl_data := ?d1\<rparr>)"
    using i(2) r room n(2) by (simp add: put_data_def add.commute add.left_commute)
  let ?d2 = "(take i t @ ch # drop i t) @ NUL # drop (length t + 2) (tl_data l)"
  have "take i ?d1 = take i t" "drop (i + 1) ?d1 = drop i t @ NUL # drop (length t + 2) (tl_data l)" using i(2) r by auto
  then have p2: "put_data (int i) [ch] (l\<lparr>tl_data := ?d1\<rparr>) = Some (l\<lparr>tl_data := ?d2\<rparr>)"
    using i(2) r by (simp add: put_data_def)
  let ?l = "l\<lparr>tl_data := ?d2, tl_len := tl_len l + 1\<rparr>"
  have NULs: "NUL \<notin> set (take i t @ ch # drop i t)"
  proof -
    have "NUL \<notin> set t" by (simp add: t)
    then show ?thesis using ch by (auto dest: in_set_takeD in_set_dropD)
  qed
  have "tl_ok ?l \<and> cstr (tl_data ?l) = take i t @ ch # drop i t"
    by (rule tl_ok_make [OF _ NULs]) (use r i(2) room len in auto)
  moreover have "put_char ch (Some a) st = Some (st\<lparr>ed_heap := (ed_heap st)(a \<mapsto> ?l), currpnt := int i + 1\<rparr>)"
    using l(1) len i ins room n g p1 p2 unfolding put_char_def
    by (auto simp: WRAPMARGIN_def Let_def)
  ultimately show ?thesis by (intro exI [of _ ?l]) auto
qed

lemma insert_char_refines:
  assumes ok: "ed_ok st pre (xs @ a # ys) post" and cur: "currline st = Some a" "currpnt st = int i" "i \<le> length t"
    and t: "t = cstr (tl_data (the (ed_heap st a)))" and ins: "insert_character st" and ch: "ch \<noteq> NUL"
    and t': "t' = take i t @ ch # drop i t" and old: "cols st a \<le> linelen st"
    and fit: "int (length t') - int (num_ans_chr t') < linelen st - 1" "length t' < 255"
  shows "\<exists>st'. insert_char ch st = Some st' \<and> ed_ok st' pre (xs @ a # ys) post \<and>
     texts st' (pre @ xs @ a # ys @ post) = texts st (pre @ xs) @ t' # texts st (ys @ post) \<and>
     currline st' = Some a \<and> currpnt st' = int i + 1"
proof -
  obtain l where l: "ed_heap st a = Some l" "tl_ok l" using ed_ok_line [OF ok] by blast
  have tl: "t = cstr (tl_data l)" using t l by simp
  have len: "tl_len l = int (length t)" using l(2) tl by (simp add: tl_ok_def)
  have "line_str l 0 = Some t" using line_str_ok [OF l(2), of 0] tl by simp
  then have w: "wrap_long (Some a) st = Some st"
    using old l len tl by (subst wrap_long.simps) (simp add: cols_def Let_def)
  let ?st = "st\<lparr>currln := currln st\<rparr>"
  have "length t < 255" using fit(2) t' cur(3) by simp
  then obtain l' where l': "put_char ch (Some a) st = Some (st\<lparr>ed_heap := (ed_heap st)(a \<mapsto> l'), currpnt := int i + 1\<rparr>)"
      "tl_ok l'" "cstr (tl_data l') = t'" "tl_prev l' = tl_prev l" "tl_next l' = tl_next l"
    using put_char_ok [OF l tl cur(2,3) ch] ins t' by blast
  define st' where "st' = st\<lparr>ed_heap := (ed_heap st)(a \<mapsto> l'), currpnt := int i + 1\<rparr>"
  have len': "tl_len l' = int (length t')" using l'(2,3) by (simp add: tl_ok_def)
  have "wrap_line (Some a) st' = Some st'"
    using shown_len_ok [OF l'(2)] l'(3) len' fit unfolding wrap_line_def st'_def by (simp add: WRAPMARGIN_def)
  then have "insert_char ch st = Some st'"
    unfolding insert_char_def using cur l(1) len w l'(1) by (simp add: st'_def Let_def)
  moreover have "ed_ok st' pre (xs @ a # ys) post \<and> texts st' (pre @ xs) = texts st (pre @ xs) \<and>
      texts st' (ys @ post) = texts st (ys @ post)"
    by (rule ed_ok_put [OF ok l(1) l'(2,4,5)]) (simp_all add: st'_def)
  ultimately show ?thesis using l'(3) cur by (simp add: st'_def)
qed

fun chars :: "string \<Rightarrow> string list" where
  \<comment> \<open>the characters of a line, read from the left: two bytes with the high bit are one\<close>
  "chars [] = []"
| "chars [c] = [[c]]"
| "chars (c # d # s) = (if high (byte c) \<and> high (byte d) then [c, d] # chars s else [c] # chars (d # s))"

lemma concat_chars: "concat (chars t) = t"
  by (induction t rule: chars.induct) auto

lemma high_before_0 [simp]: "high_before s 0 = 0"
  by (simp add: high_before_def)

lemma high_before_Cons:
  "high_before (c # s) (Suc i) =
     high_before s i + (if high (byte c) \<and> (\<forall>x\<in>set (take i s). high (byte x)) then 1 else 0)"
  by (auto simp: high_before_def takeWhile_append takeWhile_eq_all_conv [THEN iffD2])

definition char_start :: "string \<Rightarrow> nat \<Rightarrow> nat" where
  "char_start t i = (if high (byte (t ! i)) \<and> odd (high_before t i) then i - 1 else i)"

definition char_width :: "string \<Rightarrow> nat \<Rightarrow> nat" where
  "char_width t i =
     (if high (byte (t ! i)) \<and> (odd (high_before t i) \<or> i + 1 < length t \<and> high (byte (t ! (i + 1)))) then 2 else 1)"

lemma char_shift:
  \<comment> \<open>a character before the others does not change how they are found\<close>
  assumes "\<not> high (byte c) \<or> s \<noteq> [] \<and> \<not> high (byte (hd s))" "i < length s"
  shows "char_start (c # s) (Suc i) = Suc (char_start s i) \<and> char_width (c # s) (Suc i) = char_width s i"
proof (cases i)
  case 0
  then show ?thesis using assms by (cases s) (auto simp: char_start_def char_width_def high_before_Cons)
next
  case (Suc j)
  then have "high_before (c # s) (Suc i) = high_before s i"
    using assms by (cases s) (auto simp: high_before_Cons)
  moreover have "odd (high_before s i) \<Longrightarrow> i \<noteq> 0" by (cases i) auto
  ultimately show ?thesis by (auto simp: char_start_def char_width_def)
qed

lemma char_shift_two:
  assumes "high (byte c)" "high (byte d)" "i < length s"
  shows "char_start (c # d # s) (Suc (Suc i)) = Suc (Suc (char_start s i)) \<and> char_width (c # d # s) (Suc (Suc i)) = char_width s i"
proof -
  have "odd (high_before (c # d # s) (Suc (Suc i))) = odd (high_before s i)"
    using assms by (auto simp: high_before_Cons)
  moreover have "odd (high_before s i) \<Longrightarrow> i \<noteq> 0" by (cases i) auto
  ultimately show ?thesis by (auto simp: char_start_def char_width_def)
qed

lemma chars_span:
  assumes "i < length t"
  shows "\<exists>us u vs. chars t = us @ u # vs \<and> length (concat us) = char_start t i \<and> length u = char_width t i"
  using assms
proof (induction t arbitrary: i rule: chars.induct)
  case (2 c)
  then show ?case by (intro exI [of _ "[]"] exI [of _ "[c]"]) (auto simp: char_start_def char_width_def)
next
  case (3 c d s)
  show ?case
  proof (cases "high (byte c) \<and> high (byte d)")
    case True
    show ?thesis
    proof (cases "i < 2")
      case True
      then have "i = 0 \<or> i = 1" by auto
      then have "char_start (c # d # s) i = 0 \<and> char_width (c # d # s) i = 2"
        using \<open>high (byte c) \<and> high (byte d)\<close> by (auto simp: char_start_def char_width_def high_before_Cons)
      then show ?thesis using \<open>high (byte c) \<and> high (byte d)\<close>
        by (intro exI [of _ "[]"] exI [of _ "[c, d]"] exI [of _ "chars s"]) auto
    next
      case False
      then obtain j where j: "i = Suc (Suc j)" "j < length s" using "3.prems" by (metis One_nat_def Suc_1 add_diff_inverse_nat add_2_eq_Suc length_Cons Suc_less_eq)
      then obtain us u vs where "chars s = us @ u # vs" "length (concat us) = char_start s j" "length u = char_width s j"
        using "3.IH"(1) True by blast
      then show ?thesis using True char_shift_two [of c d j s] j
        by (intro exI [of _ "[c, d] # us"] exI [of _ u] exI [of _ vs]) auto
    qed
  next
    case False
    show ?thesis
    proof (cases i)
      case 0
      have "char_start (c # d # s) 0 = 0 \<and> char_width (c # d # s) 0 = 1"
        using False by (auto simp: char_start_def char_width_def)
      then show ?thesis using False 0
        by (intro exI [of _ "[]"] exI [of _ "[c]"] exI [of _ "chars (d # s)"]) auto
    next
      case (Suc j)
      then have j: "j < length (d # s)" using "3.prems" by simp
      then obtain us u vs where "chars (d # s) = us @ u # vs" "length (concat us) = char_start (d # s) j" "length u = char_width (d # s) j"
        using "3.IH"(2) False by blast
      then show ?thesis using False char_shift [of c "d # s" j] j Suc
        by (intro exI [of _ "[c] # us"] exI [of _ u] exI [of _ vs]) auto
    qed
  qed
qed simp

lemma close_gap_ok:
  assumes l: "tl_ok l" and t: "t = cstr (tl_data l)" and w: "0 < w" "j + w \<le> length t" "length t + w \<le> 256"
  shows "\<exists>l'. close_gap j w l = Some l' \<and> tl_ok l' \<and> cstr (tl_data l') = take j t @ drop (j + w) t \<and>
     tl_prev l' = tl_prev l \<and> tl_next l' = tl_next l"
proof -
  obtain r where r: "tl_data l = t @ NUL # r" "length t + length r = 255" using tl_ok_data [OF l] unfolding t by blast
  have len: "nat (tl_len l) = length t" "tl_len l = int (length t)" using l unfolding t tl_ok_def by simp_all
  have g: "take (length t - j) (drop (j + w) (tl_data l)) = drop (j + w) t @ NUL # take (w - 1) r"
    using w r(1) by (cases w) auto
  let ?d = "(take j t @ drop (j + w) t) @ NUL # take (w - 1) r @ NUL # r"
  have p: "put_data (int j) (drop (j + w) t @ NUL # take (w - 1) r) l = Some (l\<lparr>tl_data := ?d\<rparr>)"
    using w r by (auto simp: put_data_def min_def)
  let ?l = "l\<lparr>tl_data := ?d, tl_len := tl_len l - int w\<rparr>"
  have "NUL \<notin> set t" by (simp add: t)
  then have "NUL \<notin> set (take j t @ drop (j + w) t)" by (auto dest: in_set_takeD in_set_dropD)
  then have "tl_ok ?l \<and> cstr (tl_data ?l) = take j t @ drop (j + w) t"
    by (rule tl_ok_make [rotated]) (use w r len in auto)
  moreover have "close_gap j w l = Some ?l"
    using p g w r len l by (simp add: close_gap_def tl_ok_def)
  ultimately show ?thesis by (intro exI [of _ ?l]) auto
qed

lemma dbchar_patch_ok:
  assumes l: "tl_ok l" and t: "t = cstr (tl_data l)" and i: "i < length t"
  shows "dbchar_patch True l (int i) = Some (char_width t i = 2, char_start t i < i)"
proof -
  obtain r where r: "tl_data l = t @ NUL # r" using tl_ok_data [OF l] unfolding t by blast
  have len: "tl_len l = int (length t)" using l unfolding t tl_ok_def by simp
  have hb: "high_before (tl_data l) i = high_before t i" using r i by (simp add: high_before_def)
  have "data_at l (int i) = Some (byte (t ! i))" using r i by (simp add: data_at_def nth_append)
  moreover have "i + 1 < length t \<Longrightarrow> data_at l (int i + 1) = Some (byte (t ! (i + 1)))"
    using r by (simp add: data_at_def nth_append nat_add_distrib)
  moreover have "odd (high_before t i) \<Longrightarrow> 0 < i" by (cases i) auto
  ultimately show ?thesis using hb len i
    by (auto simp: dbchar_patch_def char_width_def char_start_def)
qed

text \<open>C7: the delete key takes away exactly the character the cursor is on, as the line reads from the left,
  one byte or two, also when the cursor is on its second byte, and the cursor goes to where it was.\<close>

theorem delete_char_refines:
  assumes ok: "ed_ok st pre (xs @ a # ys) post" and cur: "currline st = Some a" "currpnt st = int i" "i < length t"
    and t: "t = cstr (tl_data (the (ed_heap st a)))" and dbl: "enabledbchar st" and room: "length t < 255"
  shows "\<exists>st' us u vs. delete_char st = Some st' \<and> ed_ok st' pre (xs @ a # ys) post \<and>
     chars t = us @ u # vs \<and> length (concat us) \<le> i \<and> i < length (concat us) + length u \<and>
     texts st' (pre @ xs @ a # ys @ post) = texts st (pre @ xs) @ concat (us @ vs) # texts st (ys @ post) \<and>
     currline st' = Some a \<and> currpnt st' = int (length (concat us))"
proof -
  obtain l where l: "ed_heap st a = Some l" "tl_ok l" using ed_ok_line [OF ok] by blast
  have tl: "t = cstr (tl_data l)" using t l by simp
  have len: "tl_len l = int (length t)" using l(2) tl by (simp add: tl_ok_def)
  obtain us u vs where sp: "chars t = us @ u # vs" "length (concat us) = char_start t i" "length u = char_width t i"
    using chars_span [OF cur(3)] by blast
  let ?j = "char_start t i" and ?w = "char_width t i"
  have tt: "t = concat us @ u @ concat vs" using sp(1) concat_chars [of t] by simp
  have w: "0 < ?w" "?w \<le> 2" by (auto simp: char_width_def)
  have jw: "?j + ?w \<le> length t" using tt sp by (metis length_append le_add1 add.assoc)
  have ji: "?j \<le> i" by (simp add: char_start_def)
  have ij: "i < ?j + ?w"
    using w(1) unfolding char_start_def char_width_def by (cases i) auto
  have "length t + ?w \<le> 256 \<or> length t + ?w = 256" using room w(2) by linarith
  then obtain l' where l': "close_gap ?j ?w l = Some l'" "tl_ok l'" "cstr (tl_data l') = take ?j t @ drop (?j + ?w) t"
      "tl_prev l' = tl_prev l" "tl_next l' = tl_next l"
    using close_gap_ok [OF l(2) tl w(1) jw] by auto
  have tx: "cstr (tl_data l') = concat (us @ vs)"
    using l'(3) tt sp(2,3) by (metis append_eq_conv_conj concat_append drop_append length_append append.assoc take_append)
  have "t \<noteq> []" using cur(3) by auto
  have pt: "(if ?w = 2 then 2 else 1) = ?w" by (auto simp: char_width_def)
  have st: "(if ?j < i then currpnt st - 1 else currpnt st) = int ?j" using cur(2,3) by (auto simp: char_start_def split: if_splits)
  define st' where "st' = st\<lparr>ed_heap := (ed_heap st)(a \<mapsto> l'), currpnt := int ?j\<rparr>"
  have "delete_char st = Some st'"
    using cur l(1) len dbl dbchar_patch_ok [OF l(2) tl cur(3)] l'(1) \<open>t \<noteq> []\<close>
    unfolding delete_char_def by (simp add: st'_def Let_def st pt split del: if_split)
  moreover have "ed_ok st' pre (xs @ a # ys) post \<and> texts st' (pre @ xs) = texts st (pre @ xs) \<and>
      texts st' (ys @ post) = texts st (ys @ post)"
    by (rule ed_ok_put [OF ok l(1) l'(2,4,5)]) (simp_all add: st'_def)
  ultimately show ?thesis using sp ji ij tx cur
    by (intro exI [of _ st'] exI [of _ us] exI [of _ u] exI [of _ vs]) (simp add: st'_def)
qed

lemma Ctrl_eval:
  "Ctrl (CHR ''A'') = 1" "Ctrl (CHR ''B'') = 2" "Ctrl (CHR ''C'') = 3" "Ctrl (CHR ''D'') = 4" "Ctrl (CHR ''E'') = 5"
  "Ctrl (CHR ''F'') = 6" "Ctrl (CHR ''G'') = 7" "Ctrl (CHR ''H'') = 8" "Ctrl (CHR ''I'') = 9" "Ctrl (CHR ''K'') = 11"
  "Ctrl (CHR ''N'') = 14" "Ctrl (CHR ''O'') = 15" "Ctrl (CHR ''P'') = 16" "Ctrl (CHR ''Q'') = 17" "Ctrl (CHR ''R'') = 18"
  "Ctrl (CHR ''S'') = 19" "Ctrl (CHR ''T'') = 20" "Ctrl (CHR ''U'') = 21" "Ctrl (CHR ''V'') = 22" "Ctrl (CHR ''Y'') = 25"
  by (simp_all add: Ctrl_def byte_def)

lemmas key_values = KEY_TAB_def KEY_INS_def KEY_BACKSPACE_def KEY_PGUP_def KEY_PGDN_def
  KEY_UP_def KEY_DOWN_def KEY_RIGHT_def KEY_LEFT_def KEY_HOME_def KEY_DEL_def KEY_END_def

definition cursor_ok :: "editor \<Rightarrow> nat list \<Rightarrow> bool" where
  \<comment> \<open>the cursor is on a line that can be edited, at one of its characters or behind the last\<close>
  "cursor_ok st ls \<longleftrightarrow>
     (\<exists>a\<in>set ls. currline st = Some a \<and> 0 \<le> currpnt st \<and>
        currpnt st \<le> int (length (cstr (tl_data (the (ed_heap st a)))))) \<and> -1 \<le> lastindent st"

definition same_text :: "editor \<Rightarrow> editor \<Rightarrow> bool" where
  \<comment> \<open>only the cursor, the window and the modes differ\<close>
  "same_text st st' \<longleftrightarrow>
     ed_heap st' = ed_heap st \<and> ed_fresh st' = ed_fresh st \<and> ed_junk st' = ed_junk st \<and> firstline st' = firstline st \<and>
     can_edit_begin st' = can_edit_begin st \<and> can_edit_end st' = can_edit_end st"

lemma same_text_ok: "same_text st st' \<Longrightarrow> ed_ok st' pre ls post \<longleftrightarrow> ed_ok st pre ls post"
  by (simp add: same_text_def ed_ok_def)

lemma same_text_texts: "same_text st st' \<Longrightarrow> texts st' ls = texts st ls"
  by (simp add: same_text_def texts_def)

lemma no_touch_ok:
  assumes "ed_ok st pre (xs @ a # ys) post" "currline st = Some a"
  shows "\<exists>nt. no_touch st = Some nt"
proof -
  obtain l where "ed_heap st a = Some l" "tl_ok l" using ed_ok_line [OF assms(1)] by blast
  then show ?thesis using assms(2) line_str_ok [of l 0] by (cases "editansi st") (auto simp: no_touch_def)
qed

lemma key_end_inside:
  assumes "0 \<le> curr_window_line st" "curr_window_line st < lns - 1"
  shows "\<exists>st'. key_end lns st = Some st' \<and> same_text st st' \<and> currline st' = currline st \<and> currpnt st' = currpnt st \<and>
    curr_window_line st' = curr_window_line st"
proof -
  have w: "key_window lns st = Some st" using assms by (simp add: key_window_def)
  show ?thesis unfolding key_end_def w by (simp add: Let_def same_text_def)
qed

definition cursor_keys :: "int set" where
  "cursor_keys = {KEY_LEFT, KEY_RIGHT, KEY_UP, KEY_DOWN, KEY_HOME, KEY_END}"

definition cursor_key :: "int \<Rightarrow> textline \<Rightarrow> editor \<Rightarrow> editor option" where
  "cursor_key ch l st =
     (if ch = KEY_LEFT then key_left st else if ch = KEY_RIGHT then key_right st else if ch = KEY_UP then key_up st
      else if ch = KEY_DOWN then key_down st else if ch = KEY_HOME then Some (st\<lparr>currpnt := 0\<rparr>) else Some (st\<lparr>currpnt := tl_len l\<rparr>))"

lemma key_action_cursor:
  assumes "no_touch st = Some nt" "deref st (currline st) = Some l" "ch \<in> cursor_keys"
  shows "key_action lns ch st = cursor_key ch l st"
proof -
  consider "ch = KEY_LEFT" | "ch = KEY_RIGHT" | "ch = KEY_UP" | "ch = KEY_DOWN" | "ch = KEY_HOME" | "ch = KEY_END"
    using assms(3) by (auto simp: cursor_keys_def)
  then show ?thesis
    by cases (simp_all add: key_action_def assms(1,2) cursor_key_def key_values Ctrl_eval)
qed

text \<open>C8: the cursor keys do not change the text, follow no wrong pointer, and leave the cursor on a line that
  can be edited, between its beginning and its end.\<close>

theorem cursor_keys_typed:
  assumes ok: "ed_ok st pre (xs @ a # ys) post" and cur: "currline st = Some a" "0 \<le> currpnt st"
      "currpnt st \<le> int (length (cstr (tl_data (the (ed_heap st a)))))" and li: "-1 \<le> lastindent st"
    and ch: "ch \<in> cursor_keys"
  shows "\<exists>st'. key_action lns ch (key_start ch st) = Some st' \<and> same_text st st' \<and> cursor_ok st' (xs @ a # ys)"
proof -
  let ?st = "key_start ch st"
  have s: "same_text st ?st" "currline ?st = Some a" "currpnt ?st = currpnt st" "-1 \<le> lastindent ?st"
    "ch \<in> {KEY_UP, KEY_DOWN} \<Longrightarrow> 0 \<le> lastindent ?st"
    using cur li by (auto simp: key_start_def same_text_def)
  have ok': "ed_ok ?st pre (xs @ a # ys) post" using ok same_text_ok [OF s(1)] by simp
  have hp: "ed_heap ?st = ed_heap st" "can_edit_begin ?st = can_edit_begin st" "can_edit_end ?st = can_edit_end st"
    using s(1) by (auto simp: same_text_def)
  obtain n ws l ln where n: "ys @ post = n # ws" "ed_heap st a = Some l" "tl_ok l"
      "tl_prev l = last_or None (pre @ xs)" "tl_next l = Some n" "ed_heap st n = Some ln" "tl_ok ln"
    using ed_ok_node [OF ok] by metis
  note ends = ed_ok_ends [OF ok]
  have len: "tl_len l = int (length (cstr (tl_data l)))" "tl_len ln = int (length (cstr (tl_data ln)))"
    using n by (simp_all add: tl_ok_def)
  obtain nt where nt: "no_touch ?st = Some nt" using no_touch_ok [OF ok' s(2)] by blast
  have prev: "\<exists>p v. tl_prev l = Some p \<and> ed_heap st p = Some v \<and> p \<in> set xs \<and> 0 \<le> tl_len v \<and>
      tl_len v = int (length (cstr (tl_data v)))" if "xs \<noteq> []"
  proof -
    obtain zs p where p: "xs = zs @ [p]" using \<open>xs \<noteq> []\<close> by (cases xs rule: rev_cases) auto
    then obtain v where "ed_heap st p = Some v" "tl_ok v" using ed_ok_line [of st pre zs p "a # ys" post] ok by auto
    then show ?thesis using n(4) p by (auto simp: tl_ok_def)
  qed
  have nxt: "can_edit_end st = Some n \<longleftrightarrow> ys = []" "n \<in> set ys \<or> ys = []" using ends(3) n(1) by (cases ys; simp)+
  have act: "key_action lns ch ?st = cursor_key ch l ?st"
    by (rule key_action_cursor [OF nt _ ch]) (use s(2) hp n(2) in simp)
  have c3: "currpnt st \<le> tl_len l" using cur(3) n(2) len by simp
  consider "ch = KEY_LEFT" | "ch = KEY_RIGHT" | "ch = KEY_UP" | "ch = KEY_DOWN" | "ch = KEY_HOME" | "ch = KEY_END"
    using ch by (auto simp: cursor_keys_def)
  then show ?thesis
  proof cases
    case 1
    then show ?thesis
      using act prev s cur(2) c3 n(2) hp ends(1) len
      by (cases "xs = []") (auto simp: cursor_key_def key_left_def same_text_def cursor_ok_def)
  next
    case 2
    then show ?thesis
      using act s cur(2) c3 n hp nxt len
      by (auto simp: cursor_key_def key_values key_right_def same_text_def cursor_ok_def)
  next
    case 3
    then show ?thesis
      using act prev s cur(2) c3 n(2) hp ends(1) len
      by (cases "xs = []") (auto simp: cursor_key_def key_values key_up_def same_text_def cursor_ok_def)
  next
    case 4
    then show ?thesis
      using act s cur(2) c3 n hp nxt len
      by (auto simp: cursor_key_def key_values key_down_def same_text_def cursor_ok_def)
  next
    case 5
    then show ?thesis
      using act s cur(2) c3 n(2) hp len
      by (auto simp: cursor_key_def key_values same_text_def cursor_ok_def)
  next
    case 6
    then show ?thesis
      using act s cur(2) c3 n(2) hp len
      by (auto simp: cursor_key_def key_values same_text_def cursor_ok_def)
  qed
qed

lemma cut_line_ok:
  assumes "tl_ok l" "j \<le> length (cstr (tl_data l))"
  shows "\<exists>l'. cut_line (int j) l = Some l' \<and> tl_ok l' \<and> cstr (tl_data l') = take j (cstr (tl_data l)) \<and>
     tl_prev l' = tl_prev l \<and> tl_next l' = tl_next l"
proof -
  have s: "j + length [] < 256" using assms(2) tl_ok_length [OF assms(1)] by simp
  obtain l1 where "put_data (int j) ([] @ [NUL]) l = Some l1" "cstr (tl_data l1) = take j (cstr (tl_data l)) @ []"
      "length (tl_data l1) = 256" "NUL \<in> set (tl_data l1)" "tl_prev l1 = tl_prev l" "tl_next l1 = tl_next l"
    using put_string [OF assms _ s] by auto
  then show ?thesis using assms(2) by (intro exI [of _ "l1\<lparr>tl_len := int j\<rparr>"]) (simp add: cut_line_def tl_ok_def)
qed

lemma ctrl_k_last_line:
  assumes ok: "ed_ok st pre (xs @ [a]) post" and cur: "currline st = Some a" "currpnt st = int i"
    and t: "t = cstr (tl_data (the (ed_heap st a)))" and i: "i \<le> length t"
  shows "\<exists>st'. key_ctrl_k st = Some st' \<and> ed_ok st' pre (xs @ [a]) post \<and>
     texts st' (pre @ xs @ a # post) = texts st (pre @ xs) @ (if i < length t then take i t else []) # texts st post \<and>
     currline st' = Some a \<and> currpnt st' = (if i < length t then int i else 0) \<and> curr_window_line st' = curr_window_line st"
proof -
  obtain l where l: "ed_heap st a = Some l" "tl_ok l" using ed_ok_line [of st pre xs a "[]" post] ok by auto
  have tl: "t = cstr (tl_data l)" using t l by simp
  have len: "tl_len l = int (length t)" using l(2) tl by (simp add: tl_ok_def)
  have nx: "tl_next l = can_edit_end st"
    using ed_ok_node [of st pre xs a "[]" post] ok l(1) by (metis append_Nil list.sel(1) option.inject)
  let ?j = "if i < length t then i else 0"
  have j: "?j \<le> length (cstr (tl_data l))" using tl by simp
  obtain l' where l': "cut_line (int ?j) l = Some l'" "tl_ok l'" "cstr (tl_data l') = take ?j t"
      "tl_prev l' = tl_prev l" "tl_next l' = tl_next l"
    using cut_line_ok [OF l(2) j] unfolding tl by blast
  define st' where "st' = st\<lparr>ed_heap := (ed_heap st)(a \<mapsto> l'), currpnt := int ?j\<rparr>"
  have "key_ctrl_k st = Some st'"
    using cur l(1) len nx l'(1) unfolding key_ctrl_k_def st'_def by (auto simp: Let_def)
  moreover have "ed_ok st' pre (xs @ [a]) post \<and> texts st' (pre @ xs) = texts st (pre @ xs) \<and>
      texts st' ([] @ post) = texts st ([] @ post)"
    by (rule ed_ok_put [OF ok l(1) l'(2,4,5)]) (simp_all add: st'_def)
  ultimately show ?thesis using l'(3) cur by (simp add: st'_def)
qed

text \<open>C9: the delete key at the end of the last line, where there is nothing to delete, erases the whole line.\<close>

theorem del_last_line:
  assumes ok: "ed_ok st pre (xs @ [a]) post" and cur: "currline st = Some a" "currpnt st = int (length t)"
    and t: "t = cstr (tl_data (the (ed_heap st a)))" and ed: "\<not> editansi st"
    and win: "0 \<le> curr_window_line st" "curr_window_line st < lns - 1"
  shows "\<exists>st'. vedit_key lns KEY_DEL st = Some st' \<and> ed_ok st' pre (xs @ [a]) post \<and> currpnt st' = 0 \<and>
     texts st' (pre @ xs @ a # post) = texts st (pre @ xs) @ [] # texts st post"
proof -
  let ?st = "st\<lparr>lastindent := -1\<rparr>"
  have same: "same_text st ?st" by (simp add: same_text_def)
  have ok1: "ed_ok ?st pre (xs @ [a]) post" using ok same_text_ok [OF same] by simp
  obtain l where l: "ed_heap st a = Some l" "tl_ok l" using ed_ok_line [of st pre xs a "[]" post] ok by auto
  have len: "tl_len l = currpnt st" using l t cur(2) by (simp add: tl_ok_def)
  obtain st1 where st1: "key_ctrl_k ?st = Some st1" "ed_ok st1 pre (xs @ [a]) post" "currpnt st1 = 0" "currline st1 = Some a"
      "texts st1 (pre @ xs @ a # post) = texts ?st (pre @ xs) @ [] # texts ?st post" "curr_window_line st1 = curr_window_line st"
    using ctrl_k_last_line [OF ok1, of "length t" t] cur t by auto
  obtain st2 where st2: "key_end lns st1 = Some st2" "same_text st1 st2" "currpnt st2 = currpnt st1" "curr_window_line st2 = curr_window_line st1"
    using key_end_inside [of st1 lns] st1(6) win by auto
  obtain st3 where st3: "key_end lns st2 = Some st3" "same_text st2 st3" "currpnt st3 = currpnt st2"
    using key_end_inside [of st2 lns] st1(6) st2(4) win by auto
  have nt: "no_touch ?st = Some False" using cur(1) l(1) ed by (simp add: no_touch_def)
  have "key_action lns KEY_DEL ?st = vedit_ctrl_k lns ?st"
    using nt cur l(1) len by (simp add: key_action_def key_values Ctrl_eval)
  also have "\<dots> = Some st2" using nt st1(1) st2(1) by (simp add: vedit_ctrl_k_def Let_def)
  finally have "vedit_key lns KEY_DEL st = Some st3"
    using st3(1) by (simp add: vedit_key_def key_start_def key_values Ctrl_eval)
  moreover have "same_text st1 st3" using st2(2) st3(2) by (simp add: same_text_def)
  moreover have "ed_ok st3 pre (xs @ [a]) post" using st1(2) same_text_ok [OF \<open>same_text st1 st3\<close>] by simp
  moreover have "texts st3 (pre @ xs @ a # post) = texts st (pre @ xs) @ [] # texts st post"
    by (simp only: same_text_texts [OF \<open>same_text st1 st3\<close>] st1(5) same_text_texts [OF same])
  ultimately show ?thesis using st1(3) st2(3) st3(3) by simp
qed

section \<open>The properties at concrete texts\<close>

definition line_of :: "string \<Rightarrow> ptr \<Rightarrow> ptr \<Rightarrow> textline" where
  "line_of s p n = \<lparr>tl_prev = p, tl_next = n, tl_len = int (length s), tl_attr = 0, tl_data = s @ replicate (256 - length s) NUL\<rparr>"

definition two_lines :: "string \<Rightarrow> string \<Rightarrow> editor" where
  \<comment> \<open>a text of two lines, the cursor at its beginning\<close>
  "two_lines s t =
     \<lparr>ed_heap = [0 \<mapsto> line_of s None (Some 1), 1 \<mapsto> line_of t (Some 0) (Some 2), 2 \<mapsto> line_of [] (Some 1) None],
      ed_fresh = 3, ed_junk = replicate 256 (CHR ''?''), firstline = Some 0, can_edit_begin = Some 0, can_edit_end = Some 2,
      top_of_win = Some 0, currline = Some 0, mark_begin = None, mark_end = None, currpnt = 0, curr_window_line = 0, currln = 0,
      mark_on = 0, redraw_everything = False, insert_character = True, linelen = 79, enabledbchar = True, editansi = False,
      lastindent = -1, shifttmp = 0\<rparr>"

lemma line_of_ok: "length s < 256 \<Longrightarrow> NUL \<notin> set s \<Longrightarrow> tl_ok (line_of s p n) \<and> cstr (tl_data (line_of s p n)) = s"
  by (rule tl_ok_make [where r = "replicate (255 - length s) NUL"])
     (auto simp: line_of_def Suc_diff_le replicate_Suc [symmetric] simp del: replicate_Suc)

lemma two_lines_ok:
  assumes "length s < 256" "length t < 256" "NUL \<notin> set s" "NUL \<notin> set t"
  shows "ed_ok (two_lines s t) [] [0, 1] [2]"
    and "ed_heap (two_lines s t) 0 = Some (line_of s None (Some 1))" "ed_heap (two_lines s t) 1 = Some (line_of t (Some 0) (Some 2))"
    and "cstr (tl_data (the (ed_heap (two_lines s t) 0))) = s" "cstr (tl_data (the (ed_heap (two_lines s t) 1))) = t"
    and "cstr (tl_data (the (ed_heap (two_lines s t) 2))) = []"
proof -
  note ok = line_of_ok [OF assms(1,3)] line_of_ok [OF assms(2,4)] line_of_ok [of "[]"]
  show "ed_ok (two_lines s t) [] [0, 1] [2]" using ok by (simp add: ed_ok_def two_lines_def line_of_def)
  show "ed_heap (two_lines s t) 0 = Some (line_of s None (Some 1))" "ed_heap (two_lines s t) 1 = Some (line_of t (Some 0) (Some 2))"
    by (simp_all add: two_lines_def)
  show "cstr (tl_data (the (ed_heap (two_lines s t) 0))) = s" "cstr (tl_data (the (ed_heap (two_lines s t) 1))) = t"
    "cstr (tl_data (the (ed_heap (two_lines s t) 2))) = []" using ok by (simp_all add: two_lines_def)
qed

definition colour :: "nat \<Rightarrow> string" where "colour n = concat (replicate n (ESC # ''[1;31m''))"

lemma colour_30: "length (colour 30) = 210" "num_ans_chr (colour 30) = 210" "NUL \<notin> set (colour 30)" "take 1 (colour 30) \<noteq> ''-''"
  by code_simp+

lemma two_lines_split:
  assumes "ed_ok st [] [0, 1] [2]"
  shows "ed_ok st [] ([] @ 0 # [1]) [2]" "ed_ok st [] ([] @ 0 # 1 # []) [2]" "ed_ok st [] ([0] @ [1]) [2]"
  using assms by simp_all

lemma split_refines_witness:
  "\<exists>st' b k. split (Some 0) 1 (two_lines ''hi'' ''yo'') = Some st' \<and> k \<le> 1 \<and> ed_ok st' [] [0, b, 1] [2] \<and>
     texts st' [0, b, 1, 2] = [take k ''hi'', drop k ''hi'', ''yo'', []]"
proof -
  have h: "length ''hi'' < 256" "length ''yo'' < 256" "NUL \<notin> set ''hi''" "NUL \<notin> set ''yo''" by simp_all
  note ok = two_lines_ok [OF h]
  have l: "0 \<le> (1::int)" "1 \<le> tl_len (line_of ''hi'' None (Some 1))" by (simp_all add: line_of_def)
  have t: "cstr (tl_data (line_of ''hi'' None (Some 1))) = ''hi''" using line_of_ok h by blast
  obtain st' b k where st': "split (Some 0) 1 (two_lines ''hi'' ''yo'') = Some st'" "k \<le> nat 1" "ed_ok st' [] ([] @ 0 # b # [1]) [2]"
    "texts st' ([] @ [] @ 0 # b # [1] @ [2]) =
       texts (two_lines ''hi'' ''yo'') ([] @ []) @ take k ''hi'' # drop k ''hi'' # texts (two_lines ''hi'' ''yo'') ([1] @ [2])"
    using split_refines [OF two_lines_split(1) [OF ok(1)] ok(2) l, unfolded t] by blast
  have "texts (two_lines ''hi'' ''yo'') ([1] @ [2]) = [''yo'', []]" by (simp only: texts_append ok(4-6) append.simps)
  then show ?thesis using st' by (intro exI [of _ st'] exI [of _ b] exI [of _ k]) simp
qed

lemma join_refines_witness:
  "\<exists>st'. join (Some 0) (two_lines ''hi'' ''yo'') = Some (st', True) \<and> ed_ok st' [] [0] [2] \<and> texts st' [0, 2] = [''hiyo'', []]"
proof -
  have h: "length ''hi'' < 256" "length ''yo'' < 256" "NUL \<notin> set ''hi''" "NUL \<notin> set ''yo''" by simp_all
  note ok = two_lines_ok [OF h]
  have "num_ans_chr ''hi'' = 0" "num_ans_chr ''yo'' = 0" by code_simp+
  then have f: "cols (two_lines ''hi'' ''yo'') 0 + cols (two_lines ''hi'' ''yo'') 1 < linelen (two_lines ''hi'' ''yo'')"
    unfolding cols_def ok(4-6) Let_def by (simp add: two_lines_def)
  have d: "take 1 (cstr (tl_data (the (ed_heap (two_lines ''hi'' ''yo'') 1)))) \<noteq> ''-''" unfolding ok(4-6) by simp
  have t: "texts (two_lines ''hi'' ''yo'') [0, 1] = [''hi'', ''yo'']" "texts (two_lines ''hi'' ''yo'') ([] @ [2]) = [[]]"
    by (simp_all only: texts_append ok(4-6) append.simps)
  have r: "length (concat (texts (two_lines ''hi'' ''yo'') [0, 1])) < 256" unfolding t by simp
  obtain st' where st': "join (Some 0) (two_lines ''hi'' ''yo'') = Some (st', True)" "ed_ok st' [] ([] @ 0 # []) [2]"
    "texts st' ([] @ [] @ 0 # [] @ [2]) =
       texts (two_lines ''hi'' ''yo'') ([] @ []) @ concat [''hi'', ''yo''] # [[]]"
    using join_refines [OF two_lines_split(2) [OF ok(1)] d f r, unfolded t] by blast
  then show ?thesis by (intro exI [of _ st']) simp
qed

lemma join_overflow_witness: "join (Some 0) (two_lines (colour 30) (colour 30)) = None"
proof -
  have h: "length (colour 30) < 256" using colour_30(1) by simp
  note ok = two_lines_ok [OF h h colour_30(3) colour_30(3)]
  let ?st = "two_lines (colour 30) (colour 30)"
  have f: "cols ?st 0 + cols ?st 1 < linelen ?st" unfolding cols_def ok(4-6) Let_def using colour_30 by (simp add: two_lines_def)
  have d: "take 1 (cstr (tl_data (the (ed_heap ?st 1)))) \<noteq> ''-''" unfolding ok(4-6) by (rule colour_30(4))
  have "256 \<le> length (concat (texts ?st [0, 1]))" using colour_30(1) by (simp only: texts_append ok(4-6)) simp
  then show ?thesis by (rule join_overflow [OF two_lines_split(2) [OF ok(1)] d f])
qed

lemma delete_char_refines_witness:
  "\<exists>st' us u vs. delete_char (two_lines (bytes [0xB0, 0xA1, 65]) ''yo'') = Some st' \<and>
     chars (bytes [0xB0, 0xA1, 65]) = us @ u # vs \<and> length (concat us) \<le> 0 \<and> 0 < length (concat us) + length u \<and>
     texts st' [0, 1, 2] = [concat (us @ vs), ''yo'', []]"
proof -
  let ?t = "bytes [0xB0, 0xA1, 65]"
  have h: "length ?t < 256" "length ''yo'' < 256" "NUL \<notin> set ?t" "NUL \<notin> set ''yo''" by code_simp+
  note ok = two_lines_ok [OF h]
  let ?st = "two_lines ?t ''yo''"
  have c: "currline ?st = Some 0" "currpnt ?st = int 0" "enabledbchar ?st" by (simp_all add: two_lines_def)
  have n: "0 < length ?t" "length ?t < 255" by code_simp+
  have t: "texts ?st ([] @ []) = []" "texts ?st ([1] @ [2]) = [''yo'', []]" by (simp_all only: texts_append ok(4-6) append.simps)
  obtain st' us u vs where st': "delete_char ?st = Some st'" "chars ?t = us @ u # vs" "length (concat us) \<le> 0"
    "0 < length (concat us) + length u" "texts st' ([] @ [] @ 0 # [1] @ [2]) = [] @ concat (us @ vs) # [''yo'', []]"
    using delete_char_refines [OF two_lines_split(1) [OF ok(1)] c(1,2) n(1) ok(4) [symmetric] c(3) n(2), unfolded t] by blast
  have "texts st' [0, 1, 2] = [concat (us @ vs), ''yo'', []]" using st'(5) by simp
  then show ?thesis using st'(1-4) by blast
qed

lemma del_last_line_witness:
  "\<exists>st'. vedit_key 24 KEY_DEL (two_lines ''hi'' ''yo'' \<lparr>currline := Some 1, currpnt := 2\<rparr>) = Some st' \<and>
     texts st' [0, 1, 2] = [''hi'', [], []]"
proof -
  let ?st = "two_lines ''hi'' ''yo'' \<lparr>currline := Some 1, currpnt := 2\<rparr>"
  have h: "length ''hi'' < 256" "length ''yo'' < 256" "NUL \<notin> set ''hi''" "NUL \<notin> set ''yo''" by simp_all
  note ok = two_lines_ok [OF h]
  have s: "same_text (two_lines ''hi'' ''yo'') ?st" by (simp add: same_text_def)
  have ok': "ed_ok ?st [] [0, 1] [2]" using ok(1) same_text_ok [OF s] by simp
  have hp: "ed_heap ?st = ed_heap (two_lines ''hi'' ''yo'')" by simp
  have y: "''yo'' = cstr (tl_data (the (ed_heap ?st 1)))" unfolding hp ok(4-6) by simp
  have c: "currline ?st = Some 1" "currpnt ?st = int (length ''yo'')" "\<not> editansi ?st" "0 \<le> curr_window_line ?st" "curr_window_line ?st < 24 - 1"
    by (simp_all add: two_lines_def)
  have t: "texts ?st ([] @ [0]) = [''hi'']" "texts ?st [2] = [[]]" by (simp_all only: texts_append ok(4-6) hp append.simps)
  obtain st' where st': "vedit_key 24 KEY_DEL ?st = Some st'" "texts st' ([] @ [0] @ 1 # [2]) = [''hi''] @ [] # [[]]"
    using del_last_line [OF two_lines_split(3) [OF ok'] c(1,2) y c(3-5), unfolded t] by blast
  then show ?thesis by (intro exI [of _ st']) simp
qed

lemma cursor_keys_typed_witness:
  "\<exists>st'. key_action 24 KEY_DOWN (key_start KEY_DOWN (two_lines ''hi'' ''yo'')) = Some st' \<and>
     same_text (two_lines ''hi'' ''yo'') st' \<and> cursor_ok st' [0, 1]"
proof -
  have h: "length ''hi'' < 256" "length ''yo'' < 256" "NUL \<notin> set ''hi''" "NUL \<notin> set ''yo''" by simp_all
  note ok = two_lines_ok [OF h]
  let ?st = "two_lines ''hi'' ''yo''"
  have c: "currline ?st = Some 0" "0 \<le> currpnt ?st" "-1 \<le> lastindent ?st" "currpnt ?st \<le> int (length (cstr (tl_data (the (ed_heap ?st 0)))))"
    unfolding ok(4-6) by (simp_all add: two_lines_def)
  have k: "KEY_DOWN \<in> cursor_keys" by (simp add: cursor_keys_def)
  show ?thesis
    using cursor_keys_typed [OF two_lines_split(1) [OF ok(1)] c(1,2,4,3) k] by simp
qed

end
