(* ===== verification/ChatTexts.thy ===== *)
theory ChatTexts
  imports Prelude
begin

text \<open>
  The texts of the chat server (src/station.c), byte for byte as the source file has them (GBK
  with terminal escape sequences), and the formatting that the \<^verbatim>\<open>printf\<close> family does
  with them. A format string is kept as the list of its literal parts and directives. The
  lemmas give the length of what each format prints, for the bounds of the buffers.
\<close>

datatype fmt =
    Lit string
  | Str  \<comment> \<open>\<^verbatim>\<open>%s\<close>\<close>
  | StrL nat  \<comment> \<open>\<^verbatim>\<open>%-ns\<close>\<close>
  | StrM nat  \<comment> \<open>\<^verbatim>\<open>%.ms\<close>\<close>
  | StrW nat nat  \<comment> \<open>\<^verbatim>\<open>%n.ms\<close>\<close>
  | Dec  \<comment> \<open>\<^verbatim>\<open>%d\<close>\<close>
  | DecW nat  \<comment> \<open>\<^verbatim>\<open>%nd\<close>\<close>
  | Chr  \<comment> \<open>\<^verbatim>\<open>%c\<close>\<close>

datatype farg = As string | Ad int | Ac char

fun sprintf :: "fmt list \<Rightarrow> farg list \<Rightarrow> string" where
  "sprintf (Lit s # fs) as = s @ sprintf fs as"
| "sprintf (Str # fs) (As s # as) = s @ sprintf fs as"
| "sprintf (StrL n # fs) (As s # as) = pad_right n s @ sprintf fs as"
| "sprintf (StrM m # fs) (As s # as) = take m s @ sprintf fs as"
| "sprintf (StrW n m # fs) (As s # as) = pad_left n (take m s) @ sprintf fs as"
| "sprintf (Dec # fs) (Ad i # as) = show_int i @ sprintf fs as"
| "sprintf (DecW n # fs) (Ad i # as) = pad_left n (show_int i) @ sprintf fs as"
| "sprintf (Chr # fs) (Ac c # as) = c # sprintf fs as"
| "sprintf _ _ = []"

named_theorems text_len \<open>lengths of the texts\<close>

lemma length_bytes [simp]: "length (bytes ns) = length ns"
  by (simp add: bytes_def)

lemma length_pad_left [simp]: "length (pad_left n s) = max n (length s)"
  by (simp add: pad_left_def)

lemma length_pad_right [simp]: "length (pad_right n s) = max n (length s)"
  by (simp add: pad_right_def)

section \<open>Messages\<close>

definition topic_1 :: string where
  "topic_1 =
     bytes [213, 226, 192, 239, 202, 199, 185, 250, 188, 202, 187, 225, 206, 238, 214, 208,
     208, 196]"

definition topic_2 :: string where
  "topic_2 =
     bytes [189, 241, 204, 236, 206, 210, 195, 199, 210, 170, 204, 214, 194, 219, 181, 196,
     202, 199, 46, 46, 46]"

definition msg_not_op :: string where
  "msg_not_op =
     bytes [27, 91, 49, 59, 51, 55, 109, 161, 239, 27, 91, 51, 50, 109, 196, 250, 178, 187,
     202, 199, 213, 226, 207, 225, 183, 191, 181, 196, 192, 207, 180, 243, 27, 91, 51, 55, 109,
     32, 161, 239, 27, 91, 109]"

definition msg_no_such_id :: "fmt list" where
  "msg_no_such_id =
     [Lit (bytes [27, 91, 49, 59, 51, 55, 109, 161, 239, 27, 91, 51, 50, 109, 32, 91, 27, 91,
     51, 54, 109]), Str, Lit (bytes [27, 91, 51, 50, 109, 93, 32, 178, 187, 212, 218, 213, 226,
     188, 228, 207, 225, 183, 191, 192, 239, 27, 91, 51, 55, 109, 32, 161, 239, 27, 91, 109])]"

definition msg_not_here :: "fmt list" where
  "msg_not_here =
     [Lit (bytes [27, 91, 49, 59, 51, 55, 109, 161, 239, 32, 27, 91, 51, 50, 109, 91, 27, 91,
     51, 54, 109]), Str, Lit (bytes [27, 91, 51, 50, 109, 93, 32, 178, 162, 195, 187, 211, 208,
     199, 176, 192, 180, 177, 190, 187, 225, 210, 233, 204, 252, 27, 91, 51, 55, 109, 32, 161,
     239, 27, 91, 109])]"

definition fmt_left :: "fmt list" where
  "fmt_left =
     [Lit (bytes [27, 91, 49, 59, 51, 55, 109, 161, 239, 32, 27, 91, 51, 50, 109, 91, 27, 91,
     51, 54, 109]), Str, Lit (bytes [27, 91, 51, 50, 109, 93, 32, 194, 253, 194, 253, 192, 235,
     191, 170, 193, 203, 32, 27, 91, 51, 55, 109, 161, 239, 27, 91, 51, 55, 109])]"

definition fmt_lost :: "fmt list" where
  "fmt_lost =
     [Lit (bytes [27, 91, 49, 59, 51, 55, 109, 161, 239, 32, 27, 91, 51, 50, 109, 91, 27, 91,
     51, 54, 109]), Str, Lit (bytes [27, 91, 51, 50, 109, 93, 32, 207, 241, 182, 207, 193, 203,
     207, 223, 181, 196, 183, 231, 243, 221, 32, 46, 46, 46, 32, 27, 91, 51, 55, 109, 161, 239,
     27, 91, 51, 55, 109])]"

definition fmt_kicked :: "fmt list" where
  "fmt_kicked =
     [Lit (bytes [27, 91, 49, 59, 51, 55, 109, 161, 239, 32, 27, 91, 51, 50, 109, 91, 27, 91,
     51, 54, 109]), Str, Lit (bytes [27, 91, 51, 50, 109, 93, 32, 177, 187, 192, 207, 180, 243,
     184, 207, 179, 246, 200, 165, 193, 203, 32, 27, 91, 51, 55, 109, 161, 239, 27, 91, 51, 55,
     109])]"

definition txt_need_name :: string where
  "txt_need_name =
     bytes [27, 91, 49, 59, 51, 49, 109, 161, 242, 32, 27, 91, 51, 55, 109, 199, 235, 214, 184,
     182, 168, 208, 194, 181, 196, 193, 196, 204, 236, 202, 210, 195, 251, 179, 198, 32, 27,
     91, 51, 49, 109, 161, 242, 27, 91, 109]"

definition fmt_renamed :: "fmt list" where
  "fmt_renamed =
     [Lit (bytes [27, 91, 49, 59, 51, 55, 109, 161, 239, 32, 27, 91, 51, 50, 109, 91, 27, 91,
     51, 54, 109]), Str, Lit (bytes [27, 91, 51, 50, 109, 93, 32, 189, 171, 193, 196, 204, 236,
     202, 210, 195, 251, 179, 198, 184, 196, 206, 170, 32, 27, 91, 49, 59, 51, 51, 109]), StrM
     11, Lit (bytes [32, 27, 91, 51, 55, 109, 161, 239, 27, 91, 51, 55, 109])]"

definition txt_need_topic :: string where
  "txt_need_topic =
     bytes [27, 91, 49, 59, 51, 49, 109, 161, 242, 32, 27, 91, 51, 55, 109, 199, 235, 214, 184,
     182, 168, 187, 176, 204, 226, 32, 27, 91, 51, 49, 109, 161, 242, 27, 91, 109]"

definition fmt_topic_changed :: "fmt list" where
  "fmt_topic_changed =
     [Lit (bytes [27, 91, 49, 59, 51, 55, 109, 161, 239, 32, 27, 91, 51, 50, 109, 91, 27, 91,
     51, 54, 109]), Str, Lit (bytes [27, 91, 51, 50, 109, 93, 32, 189, 171, 187, 176, 204, 226,
     184, 196, 206, 170, 32, 27, 91, 49, 59, 51, 51, 109]), StrW 42 42, Lit (bytes [32, 27, 91,
     51, 55, 109, 161, 239, 27, 91, 51, 55, 109])]"

definition txt_no_new_room :: string where
  "txt_no_new_room =
     bytes [27, 91, 49, 59, 51, 49, 109, 161, 242, 32, 27, 91, 51, 55, 109, 177, 167, 199, 184,
     163, 172, 196, 250, 178, 187, 196, 220, 191, 170, 208, 194, 176, 252, 207, 225, 32, 27,
     91, 51, 49, 109, 161, 242, 27, 91, 109]"

definition txt_rooms_full :: string where
  "txt_rooms_full =
     bytes [27, 91, 49, 59, 51, 49, 109, 161, 242, 32, 27, 91, 51, 55, 109, 206, 210, 195, 199,
     181, 196, 183, 191, 188, 228, 194, 250, 193, 203, 224, 184, 32, 27, 91, 51, 49, 109, 161,
     242, 27, 91, 109]"

definition txt_room_locked :: string where
  "txt_room_locked =
     bytes [27, 91, 49, 59, 51, 49, 109, 161, 242, 32, 27, 91, 51, 55, 109, 177, 190, 183, 191,
     201, 204, 204, 214, 187, 250, 195, 220, 214, 208, 163, 172, 183, 199, 199, 235, 206, 240,
     200, 235, 32, 27, 91, 51, 49, 109, 161, 242, 27, 91, 109]"

definition fmt_entered :: "fmt list" where
  "fmt_entered =
     [Lit (bytes [27, 91, 49, 59, 51, 49, 109, 161, 245, 32, 27, 91, 51, 55, 109, 91, 27, 91,
     51, 54, 59, 49, 109]), Str, Lit (bytes [27, 91, 51, 55, 109, 93, 32, 189, 248, 200, 235,
     32, 27, 91, 51, 53, 109]), Str, Lit (bytes [32, 27, 91, 51, 55, 109, 176, 252, 207, 225,
     32, 27, 91, 51, 49, 109, 161, 245, 27, 91, 51, 55, 109])]"

definition fmt_welcome :: "fmt list" where
  "fmt_welcome =
     [Lit (bytes [27, 91, 49, 59, 51, 49, 109, 161, 245, 27, 91, 51, 55, 109, 32, 187, 182,
     211, 173, 185, 226, 193, 217, 161, 186, 27, 91, 51, 50, 109]), Str, Lit (bytes [27, 91,
     51, 55, 109, 161, 187, 181, 196, 161, 190, 27, 91, 51, 54, 109]), Str, Lit (bytes [27, 91,
     51, 55, 109, 161, 191, 27, 91, 51, 49, 109, 161, 245, 27, 91, 51, 55, 109])]"

definition fmt_rooms_busy :: "fmt list" where
  "fmt_rooms_busy =
     [Lit (bytes [27, 91, 49, 59, 51, 49, 109, 161, 245, 27, 91, 51, 55, 109, 32, 196, 191,
     199, 176, 210, 209, 190, 173, 211, 208, 32, 27, 91, 49, 59, 51, 51, 109]), Dec, Lit (bytes
     [32, 27, 91, 51, 55, 109, 188, 228, 187, 225, 210, 233, 202, 210, 211, 208, 191, 205, 200,
     203, 32, 27, 91, 51, 49, 109, 161, 245, 27, 91, 51, 55, 109])]"

definition fmt_people :: "fmt list" where
  "fmt_people =
     [Lit (bytes [27, 91, 49, 59, 51, 49, 109, 161, 245, 32, 27, 91, 51, 55, 109, 177, 190,
     187, 225, 210, 233, 204, 252, 196, 218, 185, 178, 211, 208, 32, 27, 91, 51, 54, 109]),
     Dec, Lit (bytes [27, 91, 51, 55, 109, 32, 200, 203, 32])]"

definition fmt_secret_people :: "fmt list" where
  "fmt_secret_people =
     [Lit (bytes [91, 27, 91, 51, 54, 109]), Dec, Lit (bytes [27, 91, 51, 55, 109, 32, 200,
     203, 212, 218, 184, 223, 187, 250, 195, 220, 204, 214, 194, 219, 202, 210, 93])]"

definition txt_people_end :: string where
  "txt_people_end =
     bytes [27, 91, 51, 49, 109, 161, 245, 27, 91, 51, 55, 109]"

definition txt_no_listing :: string where
  "txt_no_listing =
     bytes [27, 91, 49, 59, 51, 49, 109, 161, 242, 32, 27, 91, 51, 55, 109, 177, 167, 199, 184,
     163, 161, 192, 207, 180, 243, 178, 187, 200, 195, 196, 250, 191, 180, 211, 208, 196, 196,
     208, 169, 183, 191, 188, 228, 211, 208, 191, 205, 200, 203, 32, 27, 91, 51, 49, 109, 161,
     242, 27, 91, 109]"

definition txt_rooms_head :: string where
  "txt_rooms_head =
     bytes [27, 91, 49, 59, 51, 51, 59, 52, 52, 109, 32, 204, 184, 204, 236, 202, 210, 195,
     251, 179, 198, 32, 32, 169, 166, 200, 203, 202, 253, 169, 166, 187, 176, 204, 226, 32, 32,
     32, 32, 32, 32, 32, 32, 27, 91, 109]"

definition fmt_room_line :: "fmt list" where
  "fmt_room_line =
     [Lit (bytes [32, 27, 91, 49, 59, 51, 50, 109]), StrL 12, Lit (bytes [27, 91, 51, 55, 109,
     169, 166, 27, 91, 51, 54, 109]), DecW 4, Lit (bytes [27, 91, 51, 55, 109, 169, 166, 27,
     91, 51, 51, 109]), Str, Lit (bytes [27, 91, 51, 55, 109])]"

definition txt_users_head :: string where
  "txt_users_head =
     bytes [27, 91, 49, 59, 51, 51, 59, 52, 52, 109, 32, 193, 196, 204, 236, 180, 250, 186,
     197, 169, 166, 202, 185, 211, 195, 213, 223, 180, 250, 186, 197, 32, 32, 169, 166, 193,
     196, 32, 32, 32, 32, 204, 236, 32, 32, 32, 32, 202, 210, 161, 245, 79, 112, 161, 245, 192,
     180, 215, 212, 32, 32, 32, 32, 32, 32, 32, 32, 32, 32, 32, 32, 32, 32, 32, 32, 32, 32, 32,
     32, 32, 32, 32, 32, 32, 32, 27, 91, 109]"

definition fmt_user_line :: "fmt list" where
  "fmt_user_line =
     [Lit (bytes [27, 91, 49, 59, 53, 109]), Chr, Lit (bytes [27, 91, 48, 59, 49, 59, 51, 55,
     109]), StrL 8, Lit (bytes [169, 166, 27, 91, 51, 49, 109]), Str, StrL 12, Lit (bytes [27,
     91, 51, 55, 109, 169, 166, 27, 91, 51, 50, 109]), StrL 14, Lit (bytes [27, 91, 51, 55,
     109, 161, 245, 27, 91, 51, 52, 109]), StrL 2, Lit (bytes [27, 91, 51, 55, 109, 161, 245,
     27, 91, 51, 53, 109]), StrL 30, Lit (bytes [27, 91, 51, 55, 109])]"

definition txt_outsider :: string where
  "txt_outsider =
     bytes [27, 91, 49, 59, 51, 53, 109]"

definition txt_insider :: string where
  "txt_insider =
     bytes [27, 91, 49, 59, 51, 54, 109]"

definition fmt_no_room :: "fmt list" where
  "fmt_no_room =
     [Lit (bytes [27, 91, 49, 59, 51, 49, 109, 161, 242, 32, 27, 91, 51, 55, 109, 195, 187,
     32]), Str, Lit (bytes [32, 213, 226, 184, 246, 183, 191, 188, 228, 224, 184, 32, 27, 91,
     51, 49, 109, 161, 242, 27, 91, 51, 55, 109])]"

definition txt_no_secrets :: string where
  "txt_no_secrets =
     bytes [27, 91, 49, 59, 51, 49, 109, 161, 242, 32, 27, 91, 51, 55, 109, 177, 190, 187, 225,
     210, 233, 204, 252, 181, 196, 183, 191, 188, 228, 189, 212, 185, 171, 191, 170, 181, 196,
     163, 172, 195, 187, 211, 208, 195, 216, 195, 220, 32, 27, 91, 51, 49, 109, 161, 242, 27,
     91, 51, 55, 109]"

definition txt_map_head :: string where
  "txt_map_head =
     bytes [27, 91, 49, 59, 51, 51, 59, 52, 52, 109, 32, 193, 196, 204, 236, 180, 250, 186,
     197, 32, 202, 185, 211, 195, 213, 223, 180, 250, 186, 197, 32, 32, 169, 166, 32, 193, 196,
     204, 236, 180, 250, 186, 197, 32, 202, 185, 211, 195, 213, 223, 180, 250, 186, 197, 32,
     32, 169, 166, 32, 193, 196, 204, 236, 180, 250, 186, 197, 32, 202, 185, 211, 195, 213,
     223, 180, 250, 186, 197, 32, 27, 91, 109]"

definition fmt_map_item :: "fmt list" where
  "fmt_map_item =
     [Lit (bytes [27, 91, 49, 59, 51, 52, 59, 53, 109]), Chr, Lit (bytes [27, 91, 109, 27, 91,
     49, 109]), StrL 8, Chr, Str, StrL 12, Str, Lit (bytes [27, 91, 51, 55, 109])]"

definition txt_flags_usage :: string where
  "txt_flags_usage =
     bytes [27, 91, 49, 59, 51, 49, 109, 161, 209, 32, 27, 91, 51, 55, 109, 199, 235, 184, 230,
     203, 223, 185, 241, 204, 168, 196, 250, 210, 170, 181, 196, 183, 191, 188, 228, 202, 199,
     58, 32, 123, 91, 27, 91, 51, 50, 109, 43, 27, 91, 51, 55, 109, 40, 201, 232, 182, 168, 41,
     93, 91, 27, 91, 51, 50, 109, 45, 27, 91, 51, 55, 109, 40, 200, 161, 207, 251, 41, 93, 125,
     123, 91, 27, 91, 51, 50, 109, 108, 27, 91, 51, 55, 109, 40, 203, 248, 215, 161, 41, 93,
     91, 27, 91, 51, 50, 109, 115, 27, 91, 51, 55, 109, 40, 195, 216, 195, 220, 41, 93, 125,
     27, 91, 109]"

definition fmt_bad_flag :: "fmt list" where
  "fmt_bad_flag =
     [Lit (bytes [27, 91, 49, 59, 51, 49, 109, 161, 242, 32, 27, 91, 51, 55, 109, 177, 167,
     199, 184, 163, 172, 191, 180, 178, 187, 182, 174, 196, 250, 181, 196, 210, 226, 203, 188,
     163, 186, 91, 27, 91, 51, 54, 109]), Chr, Lit (bytes [27, 91, 51, 55, 109, 93, 32, 27, 91,
     51, 49, 109, 161, 242, 27, 91, 51, 55, 109])]"

definition fmt_flag_set :: "fmt list" where
  "fmt_flag_set =
     [Lit (bytes [27, 91, 49, 59, 51, 55, 109, 161, 239, 27, 91, 51, 50, 109, 32, 213, 226,
     183, 191, 188, 228, 177, 187, 32]), Str, Lit ('' ''), Str, Str, Lit (bytes [181, 196, 208,
     206, 202, 189, 32, 27, 91, 51, 55, 109, 161, 239, 27, 91, 51, 55, 109])]"

definition txt_bad_nick :: string where
  "txt_bad_nick =
     bytes [27, 91, 49, 59, 51, 49, 109, 161, 242, 32, 27, 91, 51, 55, 109, 196, 250, 181, 196,
     195, 251, 215, 214, 202, 199, 178, 187, 202, 199, 208, 180, 180, 237, 193, 203, 27, 91,
     51, 49, 109, 32, 161, 242, 27, 91, 109]"

definition txt_nick_in_use :: string where
  "txt_nick_in_use =
     bytes [27, 91, 49, 59, 51, 49, 109, 161, 242, 32, 27, 91, 51, 55, 109, 177, 167, 199, 184,
     163, 161, 211, 208, 200, 203, 184, 250, 196, 250, 205, 172, 195, 251, 163, 172, 203, 249,
     210, 212, 196, 250, 178, 187, 196, 220, 189, 248, 192, 180, 32, 27, 91, 51, 49, 109, 161,
     242, 27, 91, 109]"

definition fmt_new_nick :: "fmt list" where
  "fmt_new_nick =
     [Lit (bytes [27, 91, 49, 59, 51, 49, 109, 161, 242, 32, 27, 91, 51, 54, 109]), Str, Lit
     (bytes [32, 27, 91, 48, 59, 51, 55, 109, 210, 209, 190, 173, 184, 196, 195, 251, 206, 170,
     32, 27, 91, 49, 59, 51, 51, 109]), Str, Lit (bytes [32, 27, 91, 51, 49, 109, 161, 242, 27,
     91, 51, 55, 109])]"

definition fmt_who_is_that :: "fmt list" where
  "fmt_who_is_that =
     [Lit (bytes [27, 91, 49, 59, 51, 49, 109, 32, 161, 242, 27, 91, 51, 55, 109, 32, 196, 199,
     206, 187, 178, 206, 211, 235, 213, 223, 189, 208, 202, 178, 247, 225, 195, 251, 215, 214,
     32, 27, 91, 51, 49, 109, 161, 242, 27, 91, 51, 55, 109])]"

definition fmt_note_from :: "fmt list" where
  "fmt_note_from =
     [Lit (bytes [27, 91, 49, 59, 51, 50, 109, 32, 161, 249, 32, 27, 91, 51, 54, 109]), Str,
     Lit (bytes [32, 27, 91, 51, 55, 109, 180, 171, 214, 189, 204, 245, 208, 161, 195, 216,
     202, 233, 192, 180, 181, 189, 27, 91, 51, 55, 109, 58, 32])]"

definition fmt_note_given :: "fmt list" where
  "fmt_note_given =
     [Lit (bytes [27, 91, 49, 59, 51, 50, 109, 32, 161, 249, 32, 27, 91, 51, 55, 109, 214, 189,
     204, 245, 210, 209, 190, 173, 189, 187, 184, 248, 193, 203, 32, 27, 91, 51, 54, 109]),
     Str, Lit (bytes [27, 91, 51, 55, 109, 58, 32])]"

definition fmt_say_what :: "fmt list" where
  "fmt_say_what =
     [Lit (bytes [27, 91, 49, 59, 51, 49, 109, 32, 161, 242, 27, 91, 51, 55, 109, 32, 196, 250,
     210, 170, 184, 250, 182, 212, 183, 189, 203, 181, 208, 169, 202, 178, 247, 225, 209, 189,
     163, 191, 27, 91, 51, 49, 109, 161, 242, 27, 91, 51, 55, 109])]"

definition fmt_act :: "fmt list" where
  "fmt_act =
     [Lit (bytes [27, 91, 49, 59, 51, 54, 109]), Str, Lit (bytes [32, 27, 91, 51, 55, 109]),
     Str, Lit (bytes [27, 91, 51, 55, 109])]"

definition fmt_cloak :: "fmt list" where
  "fmt_cloak =
     [Lit (bytes [27, 91, 49, 59, 51, 54, 109]), Str, Lit (bytes [32, 27, 91, 51, 55, 109]),
     Str, Lit (bytes [32, 210, 254, 201, 237, 215, 180, 204, 172, 46, 46, 46, 27, 91, 51, 55,
     109])]"

definition txt_only_here :: string where
  "txt_only_here =
     bytes [27, 91, 49, 59, 51, 49, 109, 161, 242, 32, 27, 91, 51, 55, 109, 196, 250, 214, 187,
     196, 220, 212, 218, 213, 226, 192, 239, 193, 196, 204, 236, 32, 27, 91, 51, 49, 109, 161,
     242, 27, 91, 109]"

definition txt_which_room :: string where
  "txt_which_room =
     bytes [27, 91, 49, 59, 51, 49, 109, 161, 242, 32, 27, 91, 51, 55, 109, 199, 235, 206, 202,
     196, 196, 184, 246, 183, 191, 188, 228, 32, 27, 91, 51, 49, 109, 161, 242, 27, 91, 109]"

definition txt_bad_room :: string where
  "txt_bad_room =
     bytes [27, 91, 49, 59, 51, 49, 109, 161, 242, 27, 91, 51, 55, 109, 183, 191, 188, 228,
     195, 251, 214, 208, 178, 187, 196, 220, 211, 208, 161, 190, 42, 58, 47, 37, 161, 191, 181,
     200, 178, 187, 186, 207, 183, 168, 215, 214, 183, 251, 27, 91, 51, 49, 109, 161, 242, 27,
     91, 51, 55, 109]"

definition fmt_already_op :: "fmt list" where
  "fmt_already_op =
     [Lit (bytes [27, 91, 49, 59, 51, 55, 109, 161, 239, 32, 27, 91, 51, 50, 109, 196, 250,
     205, 252, 193, 203, 196, 250, 177, 190, 192, 180, 190, 205, 202, 199, 192, 207, 180, 243,
     224, 184, 32, 27, 91, 51, 55, 109, 161, 239, 27, 91, 51, 55, 109])]"

definition fmt_new_op :: "fmt list" where
  "fmt_new_op =
     [Lit (bytes [27, 91, 49, 59, 51, 55, 109, 161, 239, 32, 27, 91, 51, 54, 109, 32]), Str,
     Lit (bytes [27, 91, 51, 50, 109, 190, 246, 182, 168, 200, 195, 32, 27, 91, 51, 53, 109]),
     Str, Lit (bytes [32, 27, 91, 51, 50, 109, 181, 177, 192, 207, 180, 243, 32, 27, 91, 51,
     55, 109, 161, 239, 27, 91, 51, 55, 109])]"

definition fmt_coming :: "fmt list" where
  "fmt_coming =
     [Lit (bytes [27, 91, 49, 59, 51, 55, 109, 161, 239, 32, 27, 91, 51, 54, 109]), Str, Lit
     (bytes [32, 27, 91, 51, 50, 109, 181, 200, 210, 187, 207, 194, 190, 205, 192, 180, 32, 27,
     91, 51, 55, 109, 161, 239, 27, 91, 109])]"

definition fmt_invites :: "fmt list" where
  "fmt_invites =
     [Lit (bytes [27, 91, 49, 59, 51, 55, 109, 161, 239, 32, 27, 91, 51, 54, 109]), Str, Lit
     (bytes [32, 27, 91, 51, 50, 109, 209, 251, 199, 235, 196, 250, 181, 189, 32, 91, 27, 91,
     51, 51, 109]), Str, Lit (bytes [27, 91, 51, 50, 109, 93, 32, 183, 191, 188, 228, 193, 196,
     204, 236, 27, 91, 51, 55, 109, 32, 161, 239, 27, 91, 109])]"

definition txt_no_shouting :: string where
  "txt_no_shouting =
     bytes [27, 91, 49, 59, 51, 49, 109, 161, 242, 32, 27, 91, 51, 55, 109, 196, 250, 178, 187,
     191, 201, 210, 212, 212, 218, 187, 225, 210, 233, 204, 252, 196, 218, 180, 243, 201, 249,
     208, 250, 187, 169, 32, 27, 91, 51, 49, 109, 161, 242, 27, 91, 109]"

definition txt_wall_what :: string where
  "txt_wall_what =
     bytes [27, 91, 49, 59, 51, 55, 109, 161, 239, 32, 27, 91, 51, 50, 109, 185, 227, 178, 165,
     196, 218, 200, 221, 202, 199, 202, 178, 247, 225, 32, 27, 91, 51, 55, 109, 161, 239, 27,
     91, 109]"

definition fmt_wall_from :: "fmt list" where
  "fmt_wall_from =
     [Lit (bytes [27, 91, 49, 109, 32, 68, 105, 110, 103, 32, 68, 111, 110, 103, 33, 33, 32,
     180, 171, 180, 239, 202, 210, 177, 168, 184, 230, 163, 186, 32, 27, 91, 51, 54, 109]),
     Str, Lit (bytes [27, 91, 51, 55, 109, 32, 211, 208, 187, 176, 182, 212, 180, 243, 188,
     210, 208, 251, 178, 188, 163, 186, 27, 91, 109])]"

definition fmt_wall :: "fmt list" where
  "fmt_wall =
     [Lit (bytes [27, 91, 49, 59, 51, 52, 109, 161, 190, 27, 91, 51, 51, 109]), Str, Lit (bytes
     [27, 91, 51, 52, 109, 161, 191, 27, 91, 109])]"

definition fmt_which :: "fmt list" where
  "fmt_which =
     [Lit (bytes [27, 91, 49, 59, 51, 49, 109, 161, 242, 32, 27, 91, 51, 55, 109, 199, 235,
     206, 202, 196, 196, 188, 228, 183, 191, 188, 228, 32, 27, 91, 51, 49, 109, 161, 242, 27,
     91, 109])]"

definition fmt_party :: "fmt list" where
  "fmt_party =
     [Lit (bytes [27, 91, 49, 59, 51, 54, 109]), Str, Lit (bytes [32, 27, 91, 51, 50, 109]),
     Str, Lit (bytes [27, 91, 51, 51, 109, 32]), Str, Lit (bytes [32, 27, 91, 51, 50, 109]),
     Str, Lit (bytes [27, 91, 51, 55, 109])]"

definition fmt_speak :: "fmt list" where
  "fmt_speak =
     [Lit (bytes [27, 91, 49, 59, 51, 54, 109]), Str, Lit (bytes [32, 27, 91, 51, 50, 109]),
     Str, Lit (bytes [163, 186, 27, 91, 51, 51, 109, 32]), Str, Lit (bytes [27, 91, 51, 55,
     109])]"

definition fmt_condition :: "fmt list" where
  "fmt_condition =
     [Lit (bytes [27, 91, 49, 59, 51, 54, 109]), Str, Lit (bytes [32, 27, 91, 51, 51, 109]),
     Str, Lit (bytes [27, 91, 51, 55, 109])]"

definition fmt_bad_command :: "fmt list" where
  "fmt_bad_command =
     [Lit (bytes [27, 91, 49, 59, 51, 49, 109, 32, 161, 242, 32, 27, 91, 51, 55, 109, 177, 167,
     199, 184, 163, 172, 191, 180, 178, 187, 182, 174, 196, 250, 181, 196, 210, 226, 203, 188,
     163, 186, 27, 91, 51, 54, 109, 47]), Str, Lit (bytes [32, 27, 91, 51, 49, 109, 161, 242,
     27, 91, 51, 55, 109])]"

definition party_data :: "(string \<times> string \<times> string) list" where
  "party_data = [
     (''admire'', bytes [182, 212], bytes [181, 196, 190, 176, 209, 246, 214, 174, 199, 233,
     211, 204, 200, 231, 204, 207, 204, 207, 189, 173, 203, 174, 193, 172, 195, 224, 178, 187,
     190, 248]),
     (''agree'', bytes [205, 234, 200, 171, 205, 172, 210, 226], bytes [181, 196, 191, 180,
     183, 168]),
     (''bearhug'', bytes [200, 200, 199, 233, 181, 216, 211, 181, 177, 167], ''''),
     (''ben'', bytes [208, 166, 186, 199, 186, 199, 181, 216, 182, 212], bytes [203, 181, 163,
     186, 161, 176, 177, 191, 44, 32, 193, 172, 213, 226, 182, 188, 178, 187, 214, 170, 181,
     192, 46, 46, 46, 32, 58, 80, 161, 177]),
     (''bless'', bytes [215, 163, 184, 163], bytes [208, 196, 207, 235, 202, 194, 179, 201]),
     (''bow'', bytes [177, 207, 185, 167, 177, 207, 190, 180, 181, 216, 207, 242], bytes [190,
     207, 185, 170]),
     (''bye'', bytes [207, 242], bytes [210, 187, 185, 176, 202, 214, 181, 192, 163, 186, 161,
     176, 199, 224, 201, 189, 210, 192, 190, 201, 163, 172, 197, 231, 203, 174, 179, 163, 192,
     180, 163, 172, 212, 219, 195, 199, 207, 194, 187, 216, 212, 217, 187, 225, 33, 161, 177]),
     (''bye1'', bytes [191, 222, 191, 222, 204, 228, 204, 228, 181, 216, 192, 173, 215, 197],
     bytes [181, 196, 210, 194, 189, 199, 58, 161, 176, 201, 225, 178, 187, 181, 195, 196, 227,
     215, 223, 176, 161, 46, 46, 46, 161, 177]),
     (''bye2'', bytes [198, 224, 205, 241, 181, 216, 182, 212], bytes [203, 181, 181, 192, 58,
     161, 176, 202, 192, 201, 207, 195, 187, 211, 208, 178, 187, 201, 162, 181, 196, 209, 231,
     207, 175, 163, 172, 206, 210, 207, 200, 215, 223, 210, 187, 178, 189, 193, 203, 163, 172,
     180, 243, 188, 210, 182, 224, 177, 163, 214, 216, 46, 161, 177]),
     (''byebye'', bytes [205, 251, 215, 197], bytes [192, 235, 200, 165, 181, 196, 177, 179,
     211, 176, 189, 165, 189, 165, 207, 251, 202, 167, 163, 172, 193, 189, 181, 206, 190, 167,
     211, 168, 181, 196, 192, 225, 187, 168, 180, 211, 200, 249, 177, 223, 187, 172, 194, 228]),
     (''bite'', bytes [186, 221, 186, 221, 181, 216, 210, 167, 193, 203], bytes [210, 187, 191,
     218, 163, 172, 176, 209, 203, 251, 205, 180, 181, 195, 205, 219, 205, 219, 180, 243, 189,
     208, 46, 46, 46, 213, 230, 203, 172, 44, 185, 254, 185, 254, 163, 161]),
     (''blink'', bytes [188, 217, 215, 176, 202, 178, 195, 180, 210, 178, 178, 187, 214, 170,
     181, 192, 163, 172, 182, 212], bytes [204, 236, 213, 230, 181, 216, 213, 163, 193, 203,
     213, 163, 209, 219, 190, 166]),
     (''breath'', bytes [58, 184, 207, 191, 236, 184, 248], bytes [215, 246, 200, 203, 185,
     164, 186, 244, 206, 252, 33]),
     (''brother'', bytes [182, 212], bytes [210, 187, 177, 167, 200, 173, 44, 32, 181, 192, 58,
     161, 176, 196, 209, 181, 195, 196, 227, 206, 210, 184, 206, 181, 168, 207, 224, 213, 213,
     44, 178, 187, 200, 244, 196, 227, 206, 210, 210, 229, 189, 225, 189, 240, 192, 188, 44,
     210, 226, 207, 194, 200, 231, 186, 206, 63, 161, 177]),
     (''bigfoot'', bytes [201, 236, 179, 246, 180, 243, 189, 197, 163, 172, 182, 212, 215,
     188], bytes [181, 196, 200, 253, 180, 231, 189, 240, 193, 171, 186, 221, 186, 221, 181,
     216, 178, 200, 207, 194, 200, 165]),
     (''consider'', bytes [191, 170, 202, 188, 200, 207, 213, 230, 191, 188, 194, 199, 201,
     177, 203, 192], bytes [181, 196, 191, 201, 196, 220, 208, 212, 186, 205, 188, 188, 202,
     245, 196, 209, 182, 200]),
     (''caress'', bytes [184, 167, 195, 254], ''''),
     (''cringe'', bytes [207, 242], bytes [177, 176, 185, 170, 199, 252, 207, 165, 163, 172,
     210, 161, 206, 178, 198, 242, 193, 175]),
     (''cry'', bytes [207, 242], bytes [186, 191, 223, 251, 180, 243, 191, 222]),
     (''cry1'', bytes [212, 189, 207, 235, 212, 189, 201, 203, 208, 196, 163, 172, 178, 187,
     189, 251, 197, 191, 212, 218], bytes [181, 196, 188, 231, 176, 242, 201, 207, 186, 191,
     223, 251, 180, 243, 191, 222, 198, 240, 192, 180]),
     (''cry2'', bytes [198, 203, 212, 218], bytes [201, 237, 201, 207, 163, 172, 191, 222, 181,
     195, 203, 192, 200, 165, 187, 238, 192, 180, 58, 161, 176, 177, 240, 215, 223, 209, 189,
     33, 184, 213, 197, 221, 181, 196, 183, 189, 177, 227, 195, 230, 196, 227, 187, 185, 195,
     187, 179, 212, 205, 234, 196, 216, 33, 161, 177]),
     (''comfort'', bytes [206, 194, 209, 212, 176, 178, 206, 191], ''''),
     (''clap'', bytes [207, 242], bytes [200, 200, 193, 210, 185, 196, 213, 198]),
     (''dance'', bytes [192, 173, 193, 203], bytes [181, 196, 202, 214, 244, 230, 244, 230,
     198, 240, 206, 232]),
     (''die'', bytes [186, 220, 191, 225, 181, 216, 204, 205, 179, 246, 210, 187, 176, 209,
     183, 192, 208, 226, 203, 174, 199, 185, 163, 172, 161, 176, 197, 246, 33, 161, 177, 210,
     187, 199, 185, 176, 209], bytes [184, 248, 177, 208, 193, 203, 46]),
     (''dogleg'', bytes [202, 199, 213, 253, 215, 218, 185, 183, 205, 200, 205, 245, 161, 171,
     205, 244, 205, 244, 161, 171, 44, 32, 202, 185, 190, 162, 197, 196, 197, 196], bytes [181,
     196, 194, 237, 198, 168]),
     (''dontno'', bytes [182, 212], bytes [210, 161, 210, 161, 205, 183, 203, 181, 181, 192,
     58, 32, 161, 176, 213, 226, 184, 246, 46, 46, 46, 206, 210, 178, 187, 214, 170, 181, 192,
     46, 46, 46, 161, 177]),
     (''dontdo'', bytes [182, 212], bytes [203, 181, 58, 161, 176, 208, 161, 197, 243, 211,
     209, 163, 172, 32, 178, 187, 191, 201, 210, 212, 213, 226, 209, 249, 197, 182, 163, 172,
     213, 226, 209, 249, 215, 246, 202, 199, 178, 187, 186, 195, 181, 196, 211, 180, 161, 177]),
     (''drivel'', bytes [182, 212, 214, 248], bytes [193, 247, 191, 218, 203, 174]),
     (''dunno'', bytes [181, 201, 180, 243, 209, 219, 190, 166, 163, 172, 204, 236, 213, 230,
     181, 216, 206, 202, 163, 186], bytes [163, 172, 196, 227, 203, 181, 202, 178, 195, 180,
     206, 210, 178, 187, 182, 174, 210, 174, 46, 46, 46, 32, 58, 40]),
     (''dlook'', bytes [180, 244, 180, 244, 181, 216, 205, 251, 215, 197], bytes [163, 172,
     191, 218, 203, 174, 187, 169, 192, 178, 192, 178, 181, 216, 193, 247, 193, 203, 210, 187,
     181, 216]),
     (''dove'', bytes [184, 248, 193, 203], bytes [210, 187, 191, 233, 68, 79, 86, 69, 163,
     172, 203, 181, 58, 161, 176, 196, 197, 163, 172, 184, 248, 196, 227, 210, 187, 191, 233,
     68, 79, 86, 69, 163, 172, 210, 170, 186, 195, 186, 195, 204, 253, 187, 176, 197, 182, 161,
     177]),
     (''emlook'', bytes [201, 207, 207, 194, 182, 203, 207, 234, 193, 203], bytes [193, 189,
     209, 219, 161, 176, 190, 205, 196, 227, 208, 161, 215, 211, 209, 189, 44, 206, 210, 181,
     177, 202, 199, 203, 173, 196, 216, 44, 210, 178, 184, 210, 212, 218, 213, 226, 192, 239,
     200, 246, 210, 176, 33, 161, 177]),
     (''face'', bytes [205, 231, 198, 164, 181, 196, 182, 212], bytes [215, 246, 193, 203, 184,
     246, 185, 237, 193, 179, 46]),
     (''faceless'', bytes [182, 212, 215, 197], bytes [180, 243, 189, 208, 181, 192, 163, 186,
     161, 176, 186, 217, 186, 217, 44, 32, 196, 227, 181, 196, 195, 230, 215, 211, 194, 244,
     182, 224, 201, 217, 199, 174, 210, 187, 189, 239, 63, 161, 177]),
     (''farewell'', bytes [186, 172, 192, 225, 44, 210, 192, 210, 192, 178, 187, 201, 225, 181,
     216, 207, 242], bytes [181, 192, 177, 240]),
     (''fear'', bytes [182, 212], bytes [194, 182, 179, 246, 197, 194, 197, 194, 181, 196, 177,
     237, 199, 233]),
     (''flook'', bytes [179, 213, 179, 213, 181, 216, 205, 251, 215, 197], bytes [44, 32, 196,
     199, 201, 238, 199, 233, 181, 196, 209, 219, 201, 241, 203, 181, 195, 247, 193, 203, 210,
     187, 199, 208, 46]),
     (''forgive'', bytes [180, 243, 182, 200, 181, 196, 182, 212], bytes [203, 181, 163, 186,
     203, 227, 193, 203, 163, 172, 212, 173, 193, 194, 196, 227, 193, 203]),
     (''giggle'', bytes [182, 212, 214, 248], bytes [201, 181, 201, 181, 181, 196, 180, 244,
     208, 166]),
     (''grin'', bytes [182, 212], bytes [194, 182, 179, 246, 208, 176, 182, 241, 181, 196, 208,
     166, 200, 221]),
     (''growl'', bytes [182, 212], bytes [197, 216, 207, 248, 178, 187, 210, 209]),
     (''hammer'', bytes [190, 217, 198, 240, 187, 221, 207, 227, 181, 196, 53, 48, 48, 48, 48,
     48, 48, 48, 84, 204, 250, 180, 184, 205, 249], bytes [201, 207, 211, 195, 193, 166, 210,
     187, 199, 195, 33, 44, 32, 239, 207, 33]),
     (''hand'', bytes [184, 250], bytes [206, 213, 202, 214]),
     (''heng'', bytes [191, 180, 182, 188, 178, 187, 191, 180], bytes [210, 187, 209, 219, 163,
     172, 32, 186, 223, 193, 203, 210, 187, 201, 249, 163, 172, 184, 223, 184, 223, 181, 196,
     176, 209, 205, 183, 209, 239, 198, 240, 192, 180, 193, 203, 44, 178, 187, 208, 188, 210,
     187, 185, 203, 181, 196, 209, 249, 215, 211, 46, 46, 46]),
     (''hi'', bytes [182, 212], bytes [186, 220, 211, 208, 192, 241, 195, 178, 181, 216, 203,
     181, 193, 203, 210, 187, 201, 249, 163, 186, 161, 176, 72, 105, 33, 32, 196, 227, 186,
     195, 33, 161, 177]),
     (''hug'', bytes [199, 225, 199, 225, 181, 216, 211, 181, 177, 167], ''''),
     (''kick'', bytes [176, 209], bytes [204, 223, 181, 196, 203, 192, 200, 165, 187, 238, 192,
     180]),
     (''kiss'', bytes [199, 225, 206, 199], bytes [181, 196, 193, 179, 188, 213]),
     (''laugh'', bytes [180, 243, 201, 249, 179, 176, 208, 166], ''''),
     (''look'', bytes [212, 244, 212, 244, 181, 216, 191, 180, 215, 197], bytes [163, 172, 178,
     187, 214, 170, 181, 192, 212, 218, 180, 242, 202, 178, 195, 180, 226, 200, 214, 247, 210,
     226, 161, 163]),
     (''love'', bytes [201, 238, 199, 233, 181, 216, 205, 251, 215, 197], bytes [163, 172, 183,
     162, 207, 214, 215, 212, 188, 186, 176, 174, 201, 207, 193, 203, 116, 97]),
     (''lovelook'', bytes [210, 187, 203, 171, 203, 174, 205, 244, 205, 244, 181, 196, 180,
     243, 209, 219, 190, 166, 186, 172, 199, 233, 194, 246, 194, 246, 181, 216, 191, 180, 215,
     197], ''!''),
     (''missyou'', bytes [204, 240, 204, 240, 210, 187, 208, 166, 163, 172, 209, 219, 214, 208,
     200, 180, 193, 247, 207, 194, 209, 219, 192, 225, 58], bytes [163, 172, 213, 230, 181,
     196, 202, 199, 196, 227, 194, 240, 163, 172, 213, 226, 178, 187, 202, 199, 215, 246, 195,
     206, 163, 191]),
     (''meet'', bytes [182, 212], bytes [210, 187, 177, 167, 200, 173, 163, 172, 203, 181, 181,
     192, 163, 186, 161, 176, 190, 195, 206, 197, 180, 243, 195, 251, 163, 172, 189, 241, 200,
     213, 210, 187, 188, 251, 163, 172, 213, 230, 202, 199, 200, 253, 201, 250, 211, 208, 208,
     210, 163, 161, 161, 177]),
     (''moon'', bytes [192, 173, 215, 197], bytes [181, 196, 208, 161, 202, 214, 163, 172, 214,
     184, 215, 197, 179, 245, 201, 253, 181, 196, 212, 194, 193, 193, 203, 181, 163, 186, 161,
     176, 204, 236, 201, 207, 195, 247, 212, 194, 163, 172, 202, 199, 206, 210, 195, 199, 181,
     196, 214, 164, 200, 203, 161, 177]),
     (''nod'', bytes [207, 242], bytes [181, 227, 205, 183, 179, 198, 202, 199]),
     (''nudge'', bytes [211, 195, 202, 214, 214, 226, 182, 165], bytes [181, 196, 183, 202,
     182, 199, 215, 211]),
     (''oh'', bytes [182, 212], bytes [203, 181, 163, 186, 161, 176, 197, 182, 163, 172, 189,
     180, 215, 211, 176, 161, 163, 161, 161, 177]),
     (''pad'', bytes [199, 225, 197, 196], bytes [181, 196, 188, 231, 176, 242]),
     (''papa'', bytes [189, 244, 213, 197, 181, 216, 182, 212], bytes [203, 181, 163, 186, 161,
     176, 206, 210, 186, 195, 197, 194, 197, 194, 197, 182, 46, 46, 46, 161, 177]),
     (''papaya'', bytes [199, 195, 193, 203, 199, 195], bytes [181, 196, 196, 190, 185, 207,
     196, 212, 180, 252]),
     (''praise'', bytes [182, 212], bytes [203, 181, 181, 192, 58, 32, 185, 251, 200, 187, 184,
     223, 195, 247, 33, 32, 197, 229, 183, 254, 197, 229, 183, 254, 33]),
     (''pinch'', bytes [211, 195, 193, 166, 181, 196, 176, 209], bytes [197, 161, 181, 195,
     186, 218, 199, 224]),
     (''poor'', bytes [192, 173, 215, 197], bytes [181, 196, 202, 214, 203, 181, 163, 186, 161,
     176, 191, 201, 193, 175, 181, 196, 186, 162, 215, 211, 163, 161, 161, 177, 209, 219, 192,
     225, 224, 167, 224, 167, 181, 216, 181, 244, 193, 203, 207, 194, 192, 180, 46, 46, 46, 46,
     46]),
     (''punch'', bytes [186, 221, 186, 221, 215, 225, 193, 203], bytes [210, 187, 182, 217]),
     (''puke'', bytes [182, 212, 215, 197], bytes [205, 194, 176, 161, 205, 194, 176, 161, 163,
     172, 190, 221, 203, 181, 205, 194, 182, 224, 188, 184, 180, 206, 190, 205, 207, 176, 185,
     223, 193, 203]),
     (''pure'', bytes [182, 212], bytes [194, 182, 179, 246, 180, 191, 213, 230, 181, 196, 208,
     166, 200, 221]),
     (''qmarry'', bytes [207, 242], bytes [211, 194, 184, 210, 181, 216, 185, 242, 193, 203,
     207, 194, 192, 180, 163, 186, 196, 227, 212, 184, 210, 226, 188, 222, 184, 248, 206, 210,
     194, 240, 45, 45, 45, 213, 230, 202, 199, 211, 194, 198, 248, 191, 201, 188, 206, 176,
     161, 33]),
     (''report'', bytes [205, 181, 205, 181, 181, 216, 182, 212], bytes [203, 181, 163, 186,
     161, 176, 177, 168, 184, 230, 206, 210, 186, 195, 194, 240, 163, 191, 161, 177]),
     (''rose'', bytes [205, 187, 200, 187, 180, 211, 201, 237, 186, 243, 196, 195, 179, 246,
     210, 187, 182, 228, 45, 96, 45, 44, 45, 60, 64, 32, 201, 238, 199, 233, 181, 216, 207,
     215, 184, 248], bytes [163, 161]),
     (''rose999'', bytes [182, 212], bytes [179, 170, 181, 192, 163, 186, 161, 176, 206, 210,
     210, 209, 190, 173, 206, 170, 196, 227, 214, 214, 207, 194, 163, 172, 190, 197, 176, 217,
     190, 197, 202, 174, 190, 197, 182, 228, 195, 181, 185, 229, 161, 173, 161, 173, 161, 177]),
     (''run'', bytes [198, 248, 180, 173, 211, 245, 211, 245, 181, 216, 182, 212], bytes [203,
     181, 58, 206, 210, 187, 187, 193, 203, 176, 203, 198, 165, 191, 236, 194, 237, 200, 213,
     210, 185, 188, 230, 179, 204, 184, 207, 192, 180, 46, 196, 220, 212, 217, 188, 251, 181,
     189, 196, 227, 203, 192, 193, 203, 210, 178, 208, 196, 184, 202]),
     (''shrug'', bytes [206, 222, 196, 206, 181, 216, 207, 242], bytes [203, 202, 193, 203,
     203, 202, 188, 231, 176, 242]),
     (''sigh'', bytes [182, 212], bytes [204, 190, 193, 203, 210, 187, 191, 218, 198, 248, 44,
     181, 192, 58, 32, 212, 248, 190, 173, 178, 215, 186, 163, 196, 209, 206, 170, 203, 174,
     44, 179, 253, 200, 180, 206, 215, 201, 189, 178, 187, 202, 199, 212, 198, 46, 46, 46]),
     (''slap'', bytes [197, 190, 197, 190, 181, 196, 176, 205, 193, 203], bytes [210, 187, 182,
     217, 182, 250, 185, 226]),
     (''smooch'', bytes [211, 181, 206, 199, 215, 197], ''''),
     (''snicker'', bytes [186, 217, 186, 217, 186, 217, 46, 46, 181, 196, 182, 212], bytes
     [199, 212, 208, 166]),
     (''sniff'', bytes [182, 212], bytes [224, 205, 214, 174, 210, 212, 177, 199]),
     (''spank'', bytes [211, 195, 176, 205, 213, 198, 180, 242], bytes [181, 196, 205, 206,
     178, 191]),
     (''squeeze'', bytes [189, 244, 189, 244, 181, 216, 211, 181, 177, 167, 215, 197], ''''),
     (''sorry'', bytes [184, 208, 181, 189, 182, 212], bytes [202, 174, 182, 254, 205, 242,
     183, 214, 181, 196, 199, 184, 210, 226, 44, 32, 211, 218, 202, 199, 181, 205, 201, 249,
     203, 181, 181, 192, 58, 206, 210, 184, 208, 181, 189, 183, 199, 179, 163, 181, 196, 177,
     167, 199, 184, 33]),
     (''thank'', bytes [207, 242], bytes [181, 192, 208, 187]),
     (''tickle'', bytes [185, 190, 223, 180, 33, 185, 190, 223, 180, 33, 201, 166], bytes [181,
     196, 209, 247]),
     (''wake'', bytes [197, 172, 193, 166, 181, 216, 210, 161, 210, 161], bytes [163, 172, 212,
     218, 198, 228, 182, 250, 177, 223, 180, 243, 189, 208, 163, 186, 161, 176, 191, 236, 208,
     209, 208, 209, 163, 172, 187, 225, 215, 197, 193, 185, 181, 196, 163, 161, 161, 177]),
     (''wakeup'', bytes [210, 161, 215, 197], bytes [163, 172, 202, 212, 215, 197, 176, 209,
     203, 251, 189, 208, 208, 209, 161, 163, 180, 243, 201, 249, 212, 218, 203, 251, 182, 250,
     177, 223, 180, 243, 189, 208, 163, 186, 161, 184, 32, 214, 237, 33, 32, 198, 240, 192,
     180, 193, 203, 33, 32, 161, 185]),
     (''wave'', bytes [182, 212, 215, 197], bytes [198, 180, 195, 252, 181, 216, 210, 161, 202,
     214]),
     (''welcome'', bytes [200, 200, 193, 210, 187, 182, 211, 173], bytes [181, 196, 181, 189,
     192, 180]),
     (''wink'', bytes [182, 212], bytes [201, 241, 195, 216, 181, 216, 213, 163, 213, 163, 209,
     219, 190, 166]),
     (''zap'', bytes [182, 212], bytes [183, 232, 191, 241, 181, 216, 185, 165, 187, 247]),
     (''xinku'', bytes [184, 208, 182, 175, 181, 195, 200, 200, 192, 225, 211, 175, 191, 244,
     163, 172, 207, 242, 215, 197], bytes [213, 241, 177, 219, 184, 223, 186, 244, 163, 186,
     161, 176, 202, 215, 179, 164, 208, 193, 191, 224, 193, 203, 163, 161, 161, 177]),
     (''bupa'', bytes [176, 174, 193, 175, 181, 216, 195, 254, 215, 197], bytes [181, 196, 205,
     183, 44, 203, 181, 58, 161, 176, 208, 161, 195, 195, 195, 195, 44, 178, 187, 197, 194, 44,
     202, 220, 193, 203, 202, 178, 195, 180, 206, 175, 199, 252, 180, 243, 184, 231, 184, 231,
     204, 230, 196, 227, 177, 168, 179, 240, 33, 161, 177]),
     (''gril'', bytes [184, 207, 189, 244, 184, 248], bytes [180, 183, 180, 183, 177, 179, 44,
     208, 196, 207, 235, 58, 186, 162, 215, 211, 208, 161, 44, 177, 240, 178, 237, 185, 253,
     198, 248, 200, 165, 46]),
     ('':)..'', bytes [182, 212], bytes [180, 185, 207, 209, 200, 253, 179, 223, 163, 172, 178,
     187, 214, 170, 181, 192, 207, 194, 210, 187, 178, 189, 187, 225, 211, 208, 186, 206, 190,
     217, 182, 175]),
     (''?'', bytes [186, 220, 210, 201, 187, 243, 181, 196, 191, 180, 215, 197], ''''),
     (''@@'', bytes [213, 246, 180, 243, 193, 203, 209, 219, 190, 166, 190, 170, 198, 230, 181,
     216, 182, 162, 215, 197], bytes [58, 161, 176, 213, 226, 46, 46, 46, 213, 226, 210, 178,
     204, 171, 46, 46, 46, 46, 161, 177]),
     (''@@!'', bytes [186, 221, 186, 221, 181, 216, 181, 201, 193, 203], bytes [210, 187, 209,
     219, 44, 32, 203, 251, 193, 162, 191, 204, 177, 187, 191, 180, 181, 195, 203, 245, 208,
     161, 193, 203, 210, 187, 176, 235])]"

definition speak_data :: "(string \<times> string \<times> string) list" where
  "speak_data = [
     (''ask'', bytes [209, 175, 206, 202], ''''),
     (''chant'', bytes [184, 232, 203, 204], ''''),
     (''cheer'', bytes [186, 200, 178, 201], ''''),
     (''chuckle'', bytes [199, 225, 208, 166], ''''),
     (''curse'', bytes [214, 228, 194, 238], ''''),
     (''demand'', bytes [210, 170, 199, 243], ''''),
     (''frown'', bytes [245, 190, 195, 188], ''''),
     (''groan'', bytes [201, 235, 210, 247], ''''),
     (''grumble'', bytes [183, 162, 192, 206, 201, 167], ''''),
     (''hum'', bytes [224, 171, 224, 171, 215, 212, 211, 239], ''''),
     (''moan'', bytes [177, 175, 204, 190], ''''),
     (''notice'', bytes [215, 162, 210, 226], ''''),
     (''order'', bytes [195, 252, 193, 238], ''''),
     (''ponder'', bytes [201, 242, 203, 188], ''''),
     (''pout'', bytes [224, 217, 214, 248, 215, 236, 203, 181], ''''),
     (''pray'', bytes [198, 237, 181, 187], ''''),
     (''request'', bytes [191, 210, 199, 243], ''''),
     (''shout'', bytes [180, 243, 189, 208], ''''),
     (''sing'', bytes [179, 170, 184, 232], ''''),
     (''smile'', bytes [206, 162, 208, 166], ''''),
     (''smirk'', bytes [188, 217, 208, 166], ''''),
     (''swear'', bytes [183, 162, 202, 196], ''''),
     (''tease'', bytes [179, 176, 208, 166], ''''),
     (''whimper'', bytes [206, 216, 209, 202, 181, 196, 203, 181], ''''),
     (''yawn'', bytes [185, 254, 199, 183, 193, 172, 204, 236], ''''),
     (''yell'', bytes [180, 243, 186, 176], '''')]"

definition condition_data :: "(string \<times> string \<times> string) list" where
  "condition_data = [
     (''acid'', bytes [203, 181, 181, 192, 163, 186, 161, 176, 186, 195, 200, 226, 194, 239,
     224, 161, 126, 126, 126, 161, 177], ''''),
     (''addoil'', bytes [205, 251, 191, 213, 184, 223, 186, 176, 58, 32, 188, 211, 211, 205,
     33, 33], ''''),
     (''applaud'', bytes [197, 190, 197, 190, 197, 190, 197, 190, 197, 190, 197, 190, 197, 190,
     46, 46, 46, 46], ''''),
     (''blush'', bytes [193, 179, 182, 188, 186, 236, 193, 203], ''''),
     (''boss'', bytes [183, 197, 201, 249, 180, 243, 189, 208, 163, 186, 205, 219, 200, 251,
     163, 172, 178, 187, 181, 195, 193, 203, 163, 172, 192, 207, 176, 229, 192, 180, 193, 203,
     163, 172, 206, 210, 210, 170, 204, 211, 193, 203, 163, 172, 212, 217, 188, 251, 193, 203,
     184, 247, 206, 187, 46], ''''),
     (''bug'', bytes [180, 243, 201, 249, 203, 181, 161, 176, 177, 168, 184, 230, 213, 190,
     179, 164, 163, 172, 206, 210, 215, 165, 181, 189, 210, 187, 214, 187, 179, 230, 215, 211,
     161, 177, 161, 163], ''''),
     (''cool'', bytes [180, 243, 189, 208, 198, 240, 192, 180, 163, 186, 205, 219, 200, 251,
     161, 171, 161, 171, 161, 171, 186, 195, 99, 111, 111, 108, 197, 182, 161, 171, 161, 171],
     ''''),
     (''cough'', bytes [191, 200, 193, 203, 188, 184, 201, 249], ''''),
     (''die'', bytes [191, 218, 205, 194, 176, 215, 196, 173, 163, 172, 203, 171, 209, 219,
     210, 187, 183, 173, 163, 172, 201, 237, 204, 229, 180, 164, 193, 203, 188, 184, 207, 194,
     163, 172, 178, 187, 182, 175, 193, 203, 163, 172, 196, 227, 210, 187, 191, 180, 203, 192,
     193, 203, 161, 163], ''''),
     (''goeat'', bytes [181, 196, 182, 199, 215, 211, 211, 214, 185, 190, 185, 190, 181, 196,
     189, 208, 193, 203, 44, 176, 166, 44, 178, 187, 181, 195, 178, 187, 200, 165, 179, 212,
     202, 179, 204, 195, 196, 199, 35, 36, 37, 38, 181, 196, 183, 185, 178, 203, 193, 203],
     ''''),
     (''faint'', bytes [223, 219, 181, 177, 210, 187, 201, 249, 163, 172, 212, 206, 181, 185,
     212, 218, 181, 216, 46, 46, 46], ''''),
     (''faint1'', bytes [191, 218, 214, 208, 191, 241, 197, 231, 207, 202, 209, 170, 163, 172,
     183, 173, 201, 237, 181, 185, 212, 218, 181, 216, 201, 207, 161, 163], ''''),
     (''haha'', bytes [185, 254, 185, 254, 185, 254, 185, 254, 46, 46, 46, 46, 46, 46], ''''),
     (''handup'', bytes [198, 180, 195, 252, 181, 216, 201, 236, 179, 164, 215, 212, 188, 186,
     181, 196, 202, 214, 177, 219, 163, 172, 184, 223, 201, 249, 189, 208, 181, 192, 163, 186,
     161, 176, 206, 210, 163, 172, 206, 210, 163, 172, 206, 210, 163, 161, 161, 177], ''''),
     (''happy'', bytes [114, 45, 111, 45, 79, 45, 109, 46, 46, 46, 46, 204, 253, 193, 203, 213,
     230, 203, 172, 163, 161], ''''),
     (''heihei'', bytes [192, 228, 208, 166, 210, 187, 201, 249], ''''),
     (''jump'', bytes [184, 223, 208, 203, 181, 216, 207, 241, 208, 161, 186, 162, 215, 211,
     203, 198, 181, 196, 163, 172, 212, 218, 193, 196, 204, 236, 202, 210, 192, 239, 177, 196,
     177, 196, 204, 248, 204, 248, 161, 163], ''''),
     (''pavid'', bytes [193, 179, 201, 171, 178, 212, 176, 215, 33, 186, 195, 207, 241, 190,
     229, 197, 194, 202, 178, 247, 225, 33], ''''),
     (''puke'', bytes [213, 230, 182, 241, 208, 196, 163, 172, 206, 210, 204, 253, 193, 203,
     182, 188, 207, 235, 205, 194], ''''),
     (''shake'', bytes [210, 161, 193, 203, 210, 161, 205, 183], ''''),
     (''sleep'', bytes [90, 122, 122, 122, 122, 122, 122, 122, 122, 122, 163, 172, 213, 230,
     206, 222, 193, 196, 163, 172, 182, 188, 191, 236, 203, 175, 214, 248, 193, 203], ''''),
     (''so'', bytes [190, 205, 189, 180, 215, 211, 33, 33], ''''),
     (''strut'', bytes [180, 243, 210, 161, 180, 243, 176, 218, 181, 216, 215, 223], ''''),
     (''suicide'', bytes [213, 230, 207, 235, 194, 242, 191, 233, 182, 185, 184, 175, 192, 180,
     210, 187, 205, 183, 215, 178, 203, 192, 44, 32, 195, 254, 193, 203, 195, 254, 201, 237,
     177, 223, 211, 214, 195, 187, 193, 227, 199, 174, 44, 32, 214, 187, 186, 195, 200, 204,
     210, 187, 202, 214], ''''),
     (''toe'', bytes [190, 245, 181, 195, 213, 230, 202, 199, 206, 222, 193, 196, 44, 32, 211,
     218, 202, 199, 215, 168, 208, 196, 181, 216, 205, 230, 198, 240, 215, 212, 188, 186, 181,
     196, 189, 197, 214, 186, 205, 183, 192, 180], ''''),
     (''tongue'', bytes [205, 194, 193, 203, 205, 194, 201, 224, 205, 183], ''''),
     (''think'', bytes [205, 225, 214, 248, 205, 183, 207, 235, 193, 203, 210, 187, 207, 194],
     ''''),
     (''wa'', bytes [205, 219, 163, 161, 58, 45, 79], ''''),
     (''wawl'', bytes [190, 170, 204, 236, 182, 175, 181, 216, 181, 196, 191, 222], ''''),
     (''xixi'', bytes [205, 181, 208, 166, 163, 186, 206, 251, 206, 251, 161, 171, 161, 171],
     ''''),
     (''ya'', bytes [181, 195, 210, 226, 181, 196, 215, 247, 179, 246, 202, 164, 192, 251, 181,
     196, 202, 214, 202, 198, 33, 32, 161, 184, 32, 86, 32, 161, 185, 58, 161, 176, 32, 185,
     254, 185, 254, 185, 254, 46, 46, 46, 161, 177], ''''),
     ('':('', bytes [179, 238, 195, 188, 191, 224, 193, 179, 181, 196, 44, 210, 187, 184, 177,
     181, 185, 195, 185, 209, 249], ''''),
     ('':)'', bytes [181, 196, 193, 179, 201, 207, 194, 182, 179, 246, 211, 228, 191, 236, 181,
     196, 177, 237, 199, 233, 46], ''''),
     ('':D'', bytes [192, 214, 181, 196, 186, 207, 178, 187, 194, 163, 215, 236], ''''),
     ('':P'', bytes [205, 194, 193, 203, 205, 194, 201, 224, 205, 183, 44, 178, 238, 181, 227,
     210, 167, 181, 189, 215, 212, 188, 186], ''''),
     (''dragon'', bytes [202, 199, 210, 187, 184, 246, 201, 237, 178, 196, 191, 253, 206, 228,
     181, 196, 208, 161, 187, 239, 215, 211, 46, 32, 58, 80, 32], ''''),
     (''@@'', bytes [210, 170, 203, 192, 178, 203, 193, 203, 32, 37, 94, 35, 64, 37, 36, 35,
     38, 94, 42, 38, 40, 38, 94, 36, 35, 37, 36, 35, 64, 40, 42, 38, 40, 41, 42, 41, 95, 42,
     38, 40, 35, 64, 37, 36, 94, 37, 38, 94, 46], '''')]"

definition dscrb :: "string list" where
  "dscrb = [
     bytes [27, 91, 49, 109, 161, 190, 32, 86, 101, 114, 98, 32, 43, 32, 78, 105, 99, 107, 163,
     186, 32, 32, 32, 182, 175, 180, 202, 32, 43, 32, 182, 212, 183, 189, 195, 251, 215, 214,
     32, 161, 191, 27, 91, 51, 54, 109, 32, 32, 32, 192, 253, 163, 186, 47, 47, 107, 105, 99,
     107, 32, 112, 105, 103, 103, 121, 27, 91, 109],
     bytes [27, 91, 49, 109, 161, 190, 32, 86, 101, 114, 98, 32, 43, 32, 77, 101, 115, 115, 97,
     103, 101, 163, 186, 182, 175, 180, 202, 32, 43, 32, 210, 170, 203, 181, 181, 196, 187,
     176, 32, 161, 191, 27, 91, 51, 54, 109, 32, 32, 32, 192, 253, 163, 186, 47, 47, 115, 105,
     110, 103, 32, 204, 236, 204, 236, 204, 236, 192, 182, 27, 91, 109],
     bytes [27, 91, 49, 109, 161, 190, 32, 86, 101, 114, 98, 163, 186, 182, 175, 180, 202, 32,
     161, 191, 32, 32, 32, 32, 161, 252, 161, 253, 163, 186, 190, 201, 187, 176, 214, 216, 204,
     225, 27, 91, 109]]"

definition MY_BBS_NAME :: string where
  "MY_BBS_NAME = bytes [200, 213, 212, 194, 185, 226, 187, 170]"

definition night_talk :: string where
  "night_talk = bytes [209, 224, 212, 176, 210, 185, 187, 176]"

definition txt_locked_mark :: string where
  "txt_locked_mark = bytes [32, 91, 203, 248, 215, 161, 93]"

definition txt_secret_mark :: string where
  "txt_secret_mark = bytes [32, 91, 187, 250, 195, 220, 93]"

definition word_locked :: string where
  "word_locked = bytes [203, 248, 215, 161]"

definition word_secret :: string where
  "word_secret = bytes [187, 250, 195, 220]"

definition word_set :: string where
  "word_set = bytes [201, 232, 182, 168, 206, 170]"

definition word_unset :: string where
  "word_unset = bytes [200, 161, 207, 251]"

definition word_yes :: string where
  "word_yes = bytes [202, 199]"

definition word_no :: string where
  "word_no = bytes [183, 241]"

definition bar :: string where
  "bar = bytes [169, 166]"

definition word_all :: string where
  "word_all = bytes [180, 243, 188, 210]"

definition word_enter :: string where
  "word_enter = bytes [189, 248, 200, 235]"

definition word_stop :: string where
  "word_stop = bytes [205, 163, 214, 185]"

section \<open>Lengths\<close>

lemma length_topic_1 [text_len]: "length topic_1 = 18"
  by (simp add: topic_1_def)

lemma length_topic_2 [text_len]: "length topic_2 = 21"
  by (simp add: topic_2_def)

lemma length_msg_not_op [text_len]: "length msg_not_op = 43"
  by (simp add: msg_not_op_def)

lemma length_msg_no_such_id [text_len]: "length (sprintf msg_no_such_id [As a]) = 53 + length a"
  by (simp add: msg_no_such_id_def)

lemma length_msg_not_here [text_len]: "length (sprintf msg_not_here [As a]) = 57 + length a"
  by (simp add: msg_not_here_def)

lemma length_fmt_left [text_len]: "length (sprintf fmt_left [As a]) = 51 + length a"
  by (simp add: fmt_left_def)

lemma length_fmt_lost [text_len]: "length (sprintf fmt_lost [As a]) = 59 + length a"
  by (simp add: fmt_lost_def)

lemma length_fmt_kicked [text_len]: "length (sprintf fmt_kicked [As a]) = 55 + length a"
  by (simp add: fmt_kicked_def)

lemma length_txt_need_name [text_len]: "length txt_need_name = 46"
  by (simp add: txt_need_name_def)

lemma length_fmt_renamed [text_len]: "length (sprintf fmt_renamed [As a, As b]) = 65 + length a + min 11 (length b)"
  by (simp add: fmt_renamed_def)

lemma length_txt_need_topic [text_len]: "length txt_need_topic = 36"
  by (simp add: txt_need_topic_def)

lemma length_fmt_topic_changed [text_len]: "length (sprintf fmt_topic_changed [As a, As b]) = 59 + length a + max 42 (min 42 (length b))"
  by (simp add: fmt_topic_changed_def)

lemma length_txt_no_new_room [text_len]: "length txt_no_new_room = 46"
  by (simp add: txt_no_new_room_def)

lemma length_txt_rooms_full [text_len]: "length txt_rooms_full = 42"
  by (simp add: txt_rooms_full_def)

lemma length_txt_room_locked [text_len]: "length txt_room_locked = 50"
  by (simp add: txt_room_locked_def)

lemma length_fmt_entered [text_len]: "length (sprintf fmt_entered [As a, As b]) = 63 + length a + length b"
  by (simp add: fmt_entered_def)

lemma length_fmt_welcome [text_len]: "length (sprintf fmt_welcome [As a, As b]) = 65 + length a + length b"
  by (simp add: fmt_welcome_def)

lemma length_fmt_rooms_busy [text_len]: "length (sprintf fmt_rooms_busy [Ad a]) = 66 + length (show_int a)"
  by (simp add: fmt_rooms_busy_def)

lemma length_fmt_people [text_len]: "length (sprintf fmt_people [Ad a]) = 44 + length (show_int a)"
  by (simp add: fmt_people_def)

lemma length_fmt_secret_people [text_len]: "length (sprintf fmt_secret_people [Ad a]) = 29 + length (show_int a)"
  by (simp add: fmt_secret_people_def)

lemma length_txt_people_end [text_len]: "length txt_people_end = 12"
  by (simp add: txt_people_end_def)

lemma length_txt_no_listing [text_len]: "length txt_no_listing = 60"
  by (simp add: txt_no_listing_def)

lemma length_txt_rooms_head [text_len]: "length txt_rooms_head = 46"
  by (simp add: txt_rooms_head_def)

lemma length_fmt_room_line [text_len]: "length (sprintf fmt_room_line [As a, Ad b, As c]) = 37 + max 12 (length a) + max 4 (length (show_int b)) + length c"
  by (simp add: fmt_room_line_def)

lemma length_txt_users_head [text_len]: "length txt_users_head = 88"
  by (simp add: txt_users_head_def)

lemma length_fmt_user_line [text_len]: "length (sprintf fmt_user_line [Ac a, As b, As c, As d, As e, As f, As g]) = 64 + max 8 (length b) + length c + max 12 (length d) + max 14 (length e) + max 2 (length f) + max 30 (length g)"
  by (simp add: fmt_user_line_def)

lemma length_txt_outsider [text_len]: "length txt_outsider = 7"
  by (simp add: txt_outsider_def)

lemma length_txt_insider [text_len]: "length txt_insider = 7"
  by (simp add: txt_insider_def)

lemma length_fmt_no_room [text_len]: "length (sprintf fmt_no_room [As a]) = 42 + length a"
  by (simp add: fmt_no_room_def)

lemma length_txt_no_secrets [text_len]: "length txt_no_secrets = 60"
  by (simp add: txt_no_secrets_def)

lemma length_txt_map_head [text_len]: "length txt_map_head = 82"
  by (simp add: txt_map_head_def)

lemma length_fmt_map_item [text_len]: "length (sprintf fmt_map_item [Ac a, As b, Ac c, As d, As e, As f]) = 23 + max 8 (length b) + length d + max 12 (length e) + length f"
  by (simp add: fmt_map_item_def)

lemma length_txt_flags_usage [text_len]: "length txt_flags_usage = 122"
  by (simp add: txt_flags_usage_def)

lemma length_fmt_bad_flag [text_len]: "length (sprintf fmt_bad_flag [Ac a]) = 63"
  by (simp add: fmt_bad_flag_def)

lemma length_fmt_flag_set [text_len]: "length (sprintf fmt_flag_set [As a, As b, As c]) = 44 + length a + length b + length c"
  by (simp add: fmt_flag_set_def)

lemma length_txt_bad_nick [text_len]: "length txt_bad_nick = 46"
  by (simp add: txt_bad_nick_def)

lemma length_txt_nick_in_use [text_len]: "length txt_nick_in_use = 60"
  by (simp add: txt_nick_in_use_def)

lemma length_fmt_new_nick [text_len]: "length (sprintf fmt_new_nick [As a, As b]) = 54 + length a + length b"
  by (simp add: fmt_new_nick_def)

lemma length_fmt_who_is_that [text_len]: "length (sprintf fmt_who_is_that []) = 49"
  by (simp add: fmt_who_is_that_def)

lemma length_fmt_note_from [text_len]: "length (sprintf fmt_note_from [As a]) = 45 + length a"
  by (simp add: fmt_note_from_def)

lemma length_fmt_note_given [text_len]: "length (sprintf fmt_note_given [As a]) = 43 + length a"
  by (simp add: fmt_note_given_def)

lemma length_fmt_say_what [text_len]: "length (sprintf fmt_say_what []) = 50"
  by (simp add: fmt_say_what_def)

lemma length_fmt_act [text_len]: "length (sprintf fmt_act [As a, As b]) = 18 + length a + length b"
  by (simp add: fmt_act_def)

lemma length_fmt_cloak [text_len]: "length (sprintf fmt_cloak [As a, As b]) = 30 + length a + length b"
  by (simp add: fmt_cloak_def)

lemma length_txt_only_here [text_len]: "length txt_only_here = 42"
  by (simp add: txt_only_here_def)

lemma length_txt_which_room [text_len]: "length txt_which_room = 38"
  by (simp add: txt_which_room_def)

lemma length_txt_bad_room [text_len]: "length txt_bad_room = 60"
  by (simp add: txt_bad_room_def)

lemma length_fmt_already_op [text_len]: "length (sprintf fmt_already_op []) = 50"
  by (simp add: fmt_already_op_def)

lemma length_fmt_new_op [text_len]: "length (sprintf fmt_new_op [As a, As b]) = 58 + length a + length b"
  by (simp add: fmt_new_op_def)

lemma length_fmt_coming [text_len]: "length (sprintf fmt_coming [As a]) = 42 + length a"
  by (simp add: fmt_coming_def)

lemma length_fmt_invites [text_len]: "length (sprintf fmt_invites [As a, As b]) = 62 + length a + length b"
  by (simp add: fmt_invites_def)

lemma length_txt_no_shouting [text_len]: "length txt_no_shouting = 52"
  by (simp add: txt_no_shouting_def)

lemma length_txt_wall_what [text_len]: "length txt_wall_what = 40"
  by (simp add: txt_wall_what_def)

lemma length_fmt_wall_from [text_len]: "length (sprintf fmt_wall_from [As a]) = 60 + length a"
  by (simp add: fmt_wall_from_def)

lemma length_fmt_wall [text_len]: "length (sprintf fmt_wall [As a]) = 24 + length a"
  by (simp add: fmt_wall_def)

lemma length_fmt_which [text_len]: "length (sprintf fmt_which []) = 38"
  by (simp add: fmt_which_def)

lemma length_fmt_party [text_len]: "length (sprintf fmt_party [As a, As b, As c, As d]) = 30 + length a + length b + length c + length d"
  by (simp add: fmt_party_def)

lemma length_fmt_speak [text_len]: "length (sprintf fmt_speak [As a, As b, As c]) = 26 + length a + length b + length c"
  by (simp add: fmt_speak_def)

lemma length_fmt_condition [text_len]: "length (sprintf fmt_condition [As a, As b]) = 18 + length a + length b"
  by (simp add: fmt_condition_def)

lemma length_fmt_bad_command [text_len]: "length (sprintf fmt_bad_command [As a]) = 57 + length a"
  by (simp add: fmt_bad_command_def)

lemma length_MY_BBS_NAME [text_len]: "length MY_BBS_NAME = 8"
  by (simp add: MY_BBS_NAME_def)

lemma length_night_talk [text_len]: "length night_talk = 8"
  by (simp add: night_talk_def)

lemma length_txt_locked_mark [text_len]: "length txt_locked_mark = 7"
  by (simp add: txt_locked_mark_def)

lemma length_txt_secret_mark [text_len]: "length txt_secret_mark = 7"
  by (simp add: txt_secret_mark_def)

lemma length_word_locked [text_len]: "length word_locked = 4"
  by (simp add: word_locked_def)

lemma length_word_secret [text_len]: "length word_secret = 4"
  by (simp add: word_secret_def)

lemma length_word_set [text_len]: "length word_set = 6"
  by (simp add: word_set_def)

lemma length_word_unset [text_len]: "length word_unset = 4"
  by (simp add: word_unset_def)

lemma length_word_yes [text_len]: "length word_yes = 2"
  by (simp add: word_yes_def)

lemma length_word_no [text_len]: "length word_no = 2"
  by (simp add: word_no_def)

lemma length_bar [text_len]: "length bar = 2"
  by (simp add: bar_def)

lemma length_word_all [text_len]: "length word_all = 4"
  by (simp add: word_all_def)

lemma length_word_enter [text_len]: "length word_enter = 4"
  by (simp add: word_enter_def)

lemma length_word_stop [text_len]: "length word_stop = 4"
  by (simp add: word_stop_def)

end
