(* ===== verification/ChatState.thy ===== *)
theory ChatState
  imports ChatTexts CStrings Permissions
begin

text \<open>
  The state of the chat server (src/station.c) and its basic operations: words of a command,
  looking up users and rooms, sending, leaving and entering rooms.

  The tables \<^verbatim>\<open>users\<close> and \<^verbatim>\<open>rooms\<close> are lists; strings in their records are the
  C strings the arrays hold. \<open>chatbuf\<close> is the whole 256-byte buffer that every message is built
  in, so that an overflow would show as a longer list. \<open>outp\<close> is the log of what was sent, each
  entry the socket and the string; \<open>ready\<close> says which sockets \<^verbatim>\<open>select\<close> reports writable.
\<close>

section \<open>Constants\<close>

definition MAXROOM :: nat where "MAXROOM = 32"
definition CHAT_IDLEN :: nat where "CHAT_IDLEN = 9"
definition ROOM_LOCKED :: u32 where "ROOM_LOCKED = 1"
definition ROOM_SECRET :: u32 where "ROOM_SECRET = 2"
definition ROOM_ALL :: int where "ROOM_ALL = -2"
definition EXIT_LOGOUT :: int where "EXIT_LOGOUT = 0"
definition EXIT_LOSTCONN :: int where "EXIT_LOSTCONN = -1"
definition EXIT_KICK :: int where "EXIT_KICK = -4"
definition IDLE :: nat where "IDLE = 0"  \<comment> \<open>the first constant of include/modes.h\<close>
definition CHATPORT1 :: int where "CHATPORT1 = 7201"
definition CHATPORT2 :: int where "CHATPORT2 = 7202"
definition BADCIDCHARS :: string where "BADCIDCHARS = '' *:/%''"
definition mainroom :: string where "mainroom = ''main''"
definition CHAT_LOGIN_OK :: string where "CHAT_LOGIN_OK = ''OK''"
definition CHAT_LOGIN_EXISTS :: string where "CHAT_LOGIN_EXISTS = ''EX''"
definition CHAT_LOGIN_INVALID :: string where "CHAT_LOGIN_INVALID = ''IN''"
definition CHAT_LOGIN_BOGUS :: string where "CHAT_LOGIN_BOGUS = ''BG''"

section \<open>State\<close>

record chatuser =
  cu_sockfd :: int
  cu_utent :: int
  cu_room :: int
  cu_flags :: u32
  cu_cloak :: int
  cu_userid :: string
  cu_chatid :: string
  cu_ibuf :: string  \<comment> \<open>the first \<^verbatim>\<open>ibufsize\<close> bytes\<close>
  cu_host :: string

record chatroom =
  cr_name :: string
  cr_occupants :: int
  cr_flags :: u32
  cr_invites :: "bool list"
  cr_topic :: string

record chat =
  users :: "chatuser list"
  rooms :: "chatroom list"
  chatbuf :: string
  outp :: "(int \<times> string) list"
  ready :: "int \<Rightarrow> bool"
  nfds :: int
  num_conns :: int
  chatport :: int
  maintopic :: string

abbreviation usr :: "chat \<Rightarrow> nat \<Rightarrow> chatuser" where "usr st u \<equiv> users st ! u"
abbreviation room :: "chat \<Rightarrow> int \<Rightarrow> chatroom" where "room st r \<equiv> rooms st ! nat r"

definition set_user :: "nat \<Rightarrow> (chatuser \<Rightarrow> chatuser) \<Rightarrow> chat \<Rightarrow> chat" where
  "set_user u f st = st\<lparr>users := (users st)[u := f (users st ! u)]\<rparr>"

definition set_room :: "int \<Rightarrow> (chatroom \<Rightarrow> chatroom) \<Rightarrow> chat \<Rightarrow> chat" where
  "set_room r f st = st\<lparr>rooms := (rooms st)[nat r := f (rooms st ! nat r)]\<rparr>"

definition RESTRICTED :: "chat \<Rightarrow> nat \<Rightarrow> bool" where
  "RESTRICTED st u \<longleftrightarrow> cu_flags (usr st u) = 0"
definition CLOAK :: "chat \<Rightarrow> nat \<Rightarrow> bool" where
  "CLOAK st u \<longleftrightarrow> and (cu_flags (usr st u)) PERM_CLOAK \<noteq> 0"
definition ROOMOP :: "chat \<Rightarrow> nat \<Rightarrow> bool" where
  "ROOMOP st u \<longleftrightarrow> and (cu_flags (usr st u)) PERM_OCHAT \<noteq> 0"
definition SYSOP :: "chat \<Rightarrow> nat \<Rightarrow> bool" where
  "SYSOP st u \<longleftrightarrow> and (cu_flags (usr st u)) PERM_SYSOPS \<noteq> 0"
definition OUTSIDER :: "chat \<Rightarrow> nat \<Rightarrow> bool" where
  "OUTSIDER st u \<longleftrightarrow> and (cu_flags (usr st u)) PERM_TALK = 0"
definition LOCKED :: "chat \<Rightarrow> int \<Rightarrow> bool" where
  "LOCKED st r \<longleftrightarrow> and (cr_flags (room st r)) ROOM_LOCKED \<noteq> 0"
definition SECRET :: "chat \<Rightarrow> int \<Rightarrow> bool" where
  "SECRET st r \<longleftrightarrow> and (cr_flags (room st r)) ROOM_SECRET \<noteq> 0"

section \<open>Words and names\<close>

definition is_valid_chatid :: "string \<Rightarrow> bool" where
  "is_valid_chatid name \<longleftrightarrow> name \<noteq> [] \<and> (\<forall>c\<in>set (take CHAT_IDLEN name). c \<notin> set BADCIDCHARS)"

definition Isspace :: "char \<Rightarrow> bool" where
  "Isspace ch \<longleftrightarrow> ch \<in> {SPC, CHR 0x09, LF, CR}"

definition nextword :: "string \<Rightarrow> string \<times> string" where
  \<comment> \<open>the word that the result points to and what \<^verbatim>\<open>*str\<close> points to afterwards\<close>
  "nextword str =
     (case dropWhile Isspace str of
        [] \<Rightarrow> ([], [])
      | c # t \<Rightarrow> (c # takeWhile (\<lambda>c. \<not> Isspace c) t,
                  case dropWhile (\<lambda>c. \<not> Isspace c) t of [] \<Rightarrow> [] | _ # r \<Rightarrow> r))"

definition chatid_to_indx :: "nat \<Rightarrow> string \<Rightarrow> chat \<Rightarrow> int" where
  "chatid_to_indx unum chatid st =
     (case find (\<lambda>i. cu_sockfd (usr st i) \<noteq> -1 \<and> strcasecmp_eq chatid (cu_chatid (usr st i))
                   \<and> (cu_cloak (usr st i) = 0 \<or> \<not> CLOAK st unum)) [0..<length (users st)] of
        None \<Rightarrow> -1 | Some i \<Rightarrow> int i)"

text \<open>The loop of \<^verbatim>\<open>fuzzy_chatid_to_indx\<close> from user \<open>i\<close> on.\<close>

fun fuzzy_loop :: "chatuser list \<Rightarrow> int \<Rightarrow> int \<Rightarrow> string \<Rightarrow> int" where
  "fuzzy_loop [] i indx chatid = indx"
| "fuzzy_loop (u # us) i indx chatid =
     (let len = length chatid in
      if cu_sockfd u = -1 then fuzzy_loop us (i + 1) indx chatid
      else if strncasecmp_eq chatid (cu_chatid u) len \<or> strncasecmp_eq chatid (cu_userid u) len
      then (if len = length (cu_chatid u) \<or> len = length (cu_userid u) then i
            else if indx = -1 then fuzzy_loop us (i + 1) i chatid
            else -2)
      else fuzzy_loop us (i + 1) indx chatid)"

definition fuzzy_chatid_to_indx :: "nat \<Rightarrow> string \<Rightarrow> chat \<Rightarrow> int" where
  \<comment> \<open>with no match the source reads \<^verbatim>\<open>users[-1].cloak\<close>; both branches then return -1\<close>
  "fuzzy_chatid_to_indx unum chatid st =
     (let indx = fuzzy_loop (users st) 0 (-1) chatid in
      if indx < 0 then indx
      else if cu_cloak (usr st (nat indx)) = 0 \<or> CLOAK st unum then indx else -1)"

definition roomid_to_indx :: "string \<Rightarrow> chat \<Rightarrow> int" where
  "roomid_to_indx roomid st =
     (case find (\<lambda>i. \<not> (i \<noteq> 0 \<and> cr_occupants (rooms st ! i) = 0)
                   \<and> strcasecmp_eq roomid (cr_name (rooms st ! i))) [0..<MAXROOM] of
        None \<Rightarrow> -1 | Some i \<Rightarrow> int i)"

section \<open>Building and sending messages\<close>

definition buf_write :: "nat \<Rightarrow> string \<Rightarrow> chat \<Rightarrow> chat" where
  \<comment> \<open>\<^verbatim>\<open>sprintf (chatbuf + off, ...)\<close> with the printed string \<open>s\<close>\<close>
  "buf_write off s st =
     st\<lparr>chatbuf := take off (chatbuf st) @ s @ NUL # drop (Suc (off + length s)) (chatbuf st)\<rparr>"

definition buf_cat :: "string \<Rightarrow> chat \<Rightarrow> chat" where
  \<comment> \<open>\<^verbatim>\<open>strcat (chatbuf, s)\<close>\<close>
  "buf_cat s st = buf_write (length (cstr (chatbuf st))) s st"

definition do_send :: "int list \<Rightarrow> string \<Rightarrow> chat \<Rightarrow> chat" where
  "do_send writefds str st =
     st\<lparr>outp := outp st @ map (\<lambda>i. (i, str))
                 (filter (\<lambda>i. i \<in> set writefds \<and> ready st i) [0..nfds st - 1])\<rparr>"

definition send_to_room :: "int \<Rightarrow> string \<Rightarrow> chat \<Rightarrow> chat" where
  \<comment> \<open>the loop runs to \<^verbatim>\<open>MAXROOM\<close>, although it goes over the users\<close>
  "send_to_room r str st =
     do_send (map cu_sockfd (filter (\<lambda>u. cu_sockfd u \<noteq> -1 \<and> (r = ROOM_ALL \<or> r = cu_room u))
                                (take MAXROOM (users st)))) str st"

definition send_to_unum :: "nat \<Rightarrow> string \<Rightarrow> chat \<Rightarrow> chat" where
  "send_to_unum unum str st = do_send [cu_sockfd (usr st unum)] str st"

text \<open>\<^verbatim>\<open>sprintf (chatbuf, ...)\<close> followed by sending \<^verbatim>\<open>chatbuf\<close>.\<close>

definition tell :: "nat \<Rightarrow> string \<Rightarrow> chat \<Rightarrow> chat" where
  "tell unum s st = (let st = buf_write 0 s st in send_to_unum unum (cstr (chatbuf st)) st)"

definition tell_room :: "int \<Rightarrow> string \<Rightarrow> chat \<Rightarrow> chat" where
  "tell_room r s st = (let st = buf_write 0 s st in send_to_room r (cstr (chatbuf st)) st)"

section \<open>Leaving and entering rooms\<close>

definition exit_message :: "int \<Rightarrow> string \<Rightarrow> string option \<Rightarrow> chat \<Rightarrow> chat" where
  \<comment> \<open>the \<^verbatim>\<open>switch\<close> of \<^verbatim>\<open>exit_room\<close>\<close>
  "exit_message disp chatid msg st =
     (if disp = EXIT_LOGOUT
      then (let st = buf_write 0 (sprintf fmt_left [As chatid]) st in
            case msg of
              None \<Rightarrow> st
            | Some m \<Rightarrow> if m = [] then st else buf_cat (take 80 m) (buf_cat '': '' st))
      else if disp = EXIT_LOSTCONN then buf_write 0 (sprintf fmt_lost [As chatid]) st
      else if disp = EXIT_KICK then buf_write 0 (sprintf fmt_kicked [As chatid]) st
      else st)"

definition exit_room :: "nat \<Rightarrow> int \<Rightarrow> string option \<Rightarrow> chat \<Rightarrow> chat" where
  "exit_room unum disp msg st =
     (let oldrnum = cu_room (usr st unum);
          st = (if oldrnum = -1 then st
                else (let st = set_room oldrnum (\<lambda>r. r\<lparr>cr_occupants := cr_occupants r - 1\<rparr>) st in
                      if cr_occupants (room st oldrnum) = 0 then st
                      else (let st = exit_message disp (cu_chatid (usr st unum)) msg st
                            in if cu_cloak (usr st unum) = 0
                               then send_to_room oldrnum (cstr (chatbuf st)) st else st)))
      in set_user unum (\<lambda>u. u\<lparr>cu_flags := and (cu_flags u) (not PERM_OCHAT), cu_room := -1\<rparr>) st)"

definition find_room :: "nat \<Rightarrow> string \<Rightarrow> chat \<Rightarrow> (chat \<times> int \<times> bool) option" where
  \<comment> \<open>the first part of \<^verbatim>\<open>enter_room\<close>: the room, taken or created, and whether it is new\<close>
  "find_room unum r st =
     (let rnum = roomid_to_indx r st in
      if rnum \<noteq> -1 then Some (st, rnum, False)
      else if OUTSIDER st unum then None
      else (case find (\<lambda>i. cr_occupants (rooms st ! i) = 0) [1..<MAXROOM] of
              None \<Rightarrow> None
            | Some i \<Rightarrow>
                Some (set_room (int i)
                        (\<lambda>cr. cr\<lparr>cr_invites := replicate (length (users st)) False,
                                cr_topic := maintopic st, cr_name := take (IDLEN - 2) r,
                                cr_flags := 0\<rparr>) st, int i, True)))"

definition enter_room :: "nat \<Rightarrow> string \<Rightarrow> string option \<Rightarrow> chat \<Rightarrow> chat" where
  "enter_room unum r msg st =
     (case find_room unum r st of
        None \<Rightarrow> send_to_unum unum (if OUTSIDER st unum then txt_no_new_room else txt_rooms_full) st
      | Some (st, rnum, op) \<Rightarrow>
          if \<not> SYSOP st unum \<and> LOCKED st rnum \<and> \<not> cr_invites (room st rnum) ! unum
          then send_to_unum unum txt_room_locked st
          else (let st = exit_room unum EXIT_LOGOUT msg st;
                    st = set_user unum (\<lambda>u. u\<lparr>cu_room := rnum\<rparr>) st;
                    st = (if op then set_user unum (\<lambda>u. u\<lparr>cu_flags := or (cu_flags u) PERM_OCHAT\<rparr>) st
                          else st);
                    st = set_room rnum (\<lambda>cr. cr\<lparr>cr_occupants := cr_occupants cr + 1,
                                             cr_invites := (cr_invites cr)[unum := False]\<rparr>) st;
                    st = (if cu_cloak (usr st unum) = 0
                          then tell_room rnum
                                 (sprintf fmt_entered [As (cu_chatid (usr st unum)),
                                                       As (cr_name (room st rnum))]) st
                          else st);
                    st = tell unum (''/r'' @ r) st
                in tell unum (''/t'' @ cr_topic (room st rnum)) st))"

definition empty_user :: chatuser where
  \<comment> \<open>after \<^verbatim>\<open>memset\<close> and the assignment of -1 to three fields\<close>
  "empty_user = \<lparr>cu_sockfd = -1, cu_utent = -1, cu_room = -1, cu_flags = 0, cu_cloak = 0,
                 cu_userid = [], cu_chatid = [], cu_ibuf = [], cu_host = []\<rparr>"

definition logout_user :: "nat \<Rightarrow> chat \<Rightarrow> chat" where
  "logout_user unum st =
     st\<lparr>users := (users st)[unum := empty_user],
        rooms := map (\<lambda>cr. cr\<lparr>cr_invites := (cr_invites cr)[unum := False]\<rparr>) (rooms st),
        num_conns := num_conns st - 1\<rparr>"

lemmas [c_defs] = PERM_TALK_def PERM_REGISTER_def PERM_OCHAT_def PERM_SYSOPS_def PERM_CLOAK_def
  ROOM_LOCKED_def ROOM_SECRET_def

end
