(* ===== verification/ChatServer.thy ===== *)
theory ChatServer
  imports ChatState
begin

text \<open>
  The commands of the chat server (src/station.c), their dispatch, and the main loop: what the
  server does with a connection, with a chunk of input, and in one turn of \<^verbatim>\<open>select\<close>.
\<close>

section \<open>Login\<close>

definition count_rooms :: "chat \<Rightarrow> int" where
  "count_rooms st =
     int (length (filter (\<lambda>i. 0 < i \<and> 0 < cr_occupants (rooms st ! i) \<and> \<not> SECRET st (int i) \<and> \<not> SYSOP st i)
                         [0..<MAXROOM]))"

definition counted :: "chat \<Rightarrow> chatuser list" where
  "counted st = filter (\<lambda>u. cu_sockfd u \<noteq> -1 \<and> cu_room u \<noteq> -1 \<and> cu_cloak u = 0) (take MAXROOM (users st))"

definition print_user_counts :: "nat \<Rightarrow> chat \<Rightarrow> chat" where
  "print_user_counts unum st =
     (let roomc = count_rooms st;
          hidden = (\<lambda>u. SECRET st (cu_room u) \<and> \<not> SYSOP st unum);
          suserc = int (length (filter hidden (counted st)));
          userc = int (length (filter (\<lambda>u. \<not> hidden u) (counted st)));
          st = tell unum (sprintf fmt_welcome [As MY_BBS_NAME, As night_talk]) st;
          st = tell unum (sprintf fmt_rooms_busy [Ad (roomc + 1)]) st;
          st = buf_write 0 (sprintf fmt_people [Ad (userc + 1)]) st;
          st = (if suserc \<noteq> 0 then buf_cat (sprintf fmt_secret_people [Ad suserc]) st else st);
          st = buf_cat txt_people_end st
      in send_to_unum unum (cstr (chatbuf st)) st)"

definition to_char :: "int \<Rightarrow> int" where
  \<comment> \<open>an \<^verbatim>\<open>int\<close> stored in a \<^verbatim>\<open>char\<close>\<close>
  "to_char i = schar (char_of (nat (i mod 256)))"

text \<open>
  \<open>login_user\<close>: a user id of 14 or more bytes is copied past the end of \<^verbatim>\<open>userid\<close>, which
  is undefined. The second result is the return value.
\<close>

definition login_user :: "nat \<Rightarrow> string \<Rightarrow> chat \<Rightarrow> (chat \<times> int) run" where
  "login_user unum msg st =
     (let (utentstr, msg) = nextword msg;
          (level, msg) = nextword msg;
          (userid, msg) = nextword msg;
          (chatid, msg) = nextword msg;
          (cloak, msg) = nextword msg;
          utent = atoi utentstr
      in if \<exists>u\<in>set (users st). cu_sockfd u \<noteq> -1 \<and> cu_utent u = utent
         then Val (send_to_unum unum CHAT_LOGIN_BOGUS st, -1)
         else if \<not> is_valid_chatid chatid then Val (send_to_unum unum CHAT_LOGIN_INVALID st, 0)
         else if chatid_to_indx 0 chatid st \<noteq> -1 then Val (send_to_unum unum CHAT_LOGIN_EXISTS st, 0)
         else
           (let local = strncasecmp_eq ''localhost'' (cu_host (usr st unum)) 30;
                lev = (word_of_int (atoi level) :: u32)
            in if \<not> local \<and> chatport st \<noteq> CHATPORT1
               then Val (send_to_unum unum CHAT_LOGIN_BOGUS st, -1)
               else if \<not> local \<and> and lev PERM_REGISTER = 0 \<and> strncasecmp_eq chatid ''guest'' 8
               then Val (send_to_unum unum CHAT_LOGIN_INVALID st, 0)
               else if IDLEN + 2 \<le> length userid then UB
               else
                 (let st = set_user unum (\<lambda>u. u\<lparr>
                             cu_flags := (if local then and lev PERM_TALK else 0),
                             cu_cloak := (if local then to_char (atoi cloak) else 0),
                             cu_utent := utent, cu_userid := userid,
                             cu_chatid := take (CHAT_IDLEN - 2) chatid\<rparr>) st;
                      st = send_to_unum unum CHAT_LOGIN_OK st;
                      st = print_user_counts unum st
                  in Val (enter_room unum mainroom None st, 0))))"

section \<open>Listings\<close>

definition list_room :: "nat \<Rightarrow> nat \<Rightarrow> chat \<Rightarrow> chat" where
  "list_room unum i st =
     (let r = rooms st ! i in
      if 0 < cr_occupants r \<and> \<not> (\<not> SYSOP st unum \<and> SECRET st (int i) \<and> cu_room (usr st unum) \<noteq> int i)
      then (let st = buf_write 0 (sprintf fmt_room_line
                       [As (cr_name r), Ad (cr_occupants r), As (cr_topic r)]) st;
                st = (if LOCKED st (int i) then buf_cat txt_locked_mark st else st);
                st = (if SECRET st (int i) then buf_cat txt_secret_mark st else st)
            in send_to_unum unum (cstr (chatbuf st)) st)
      else st)"

definition chat_list_rooms :: "nat \<Rightarrow> string \<Rightarrow> chat \<Rightarrow> chat" where
  "chat_list_rooms unum msg st =
     (if RESTRICTED st unum then send_to_unum unum txt_no_listing st
      else fold (list_room unum) [0..<MAXROOM] (send_to_unum unum txt_rooms_head st))"

text \<open>Whether a listing that \<open>unum\<close> asked for shows user \<open>i\<close>.\<close>

definition shown :: "nat \<Rightarrow> int \<Rightarrow> chat \<Rightarrow> nat \<Rightarrow> bool" where
  "shown unum whichroom st i =
     (let rnum = cu_room (usr st i); myroom = cu_room (usr st unum) in
      cu_sockfd (usr st i) \<noteq> -1 \<and> rnum \<noteq> -1 \<and> \<not> (cu_cloak (usr st i) = 1 \<and> \<not> CLOAK st unum)
      \<and> (whichroom = -1 \<or> whichroom = rnum)
      \<and> (myroom = rnum \<or> (\<not> RESTRICTED st unum \<and> \<not> (SECRET st rnum \<and> \<not> SYSOP st unum))))"

definition user_line :: "nat \<Rightarrow> chat \<Rightarrow> string" where
  "user_line i st =
     (let u = usr st i in
      sprintf fmt_user_line
        [Ac (if cu_cloak u = 1 then CHR ''C'' else SPC), As (cu_chatid u),
         As (if OUTSIDER st i then txt_outsider else txt_insider), As (cu_userid u),
         As (cr_name (room st (cu_room u))), As (if ROOMOP st i then word_yes else word_no),
         As (cu_host u)])"

fun list_users :: "nat \<Rightarrow> int \<Rightarrow> int \<Rightarrow> int \<Rightarrow> int \<Rightarrow> nat list \<Rightarrow> chat \<Rightarrow> chat" where
  \<comment> \<open>the loop of \<^verbatim>\<open>chat_do_user_list\<close>\<close>
  "list_users unum whichroom start stop cur [] st = st"
| "list_users unum whichroom start stop cur (i # js) st =
     (if \<not> shown unum whichroom st i then list_users unum whichroom start stop cur js st
      else (let cur = cur + 1 in
            if cur < start then list_users unum whichroom start stop cur js st
            else if stop \<noteq> 0 \<and> stop < cur then st
            else list_users unum whichroom start stop cur js (tell unum (user_line i st) st)))"

definition chat_do_user_list :: "nat \<Rightarrow> string \<Rightarrow> int \<Rightarrow> chat \<Rightarrow> chat" where
  "chat_do_user_list unum msg whichroom st =
     (let msg = dropWhile Isspace msg;
          start = atoi msg;
          msg = dropWhile isdigit msg;
          msg = dropWhile (\<lambda>c. \<not> isdigit c) msg;
          stop = atoi msg
      in list_users unum whichroom start stop 0 [0..<MAXROOM] (send_to_unum unum txt_users_head st))"

definition chat_list_by_room :: "nat \<Rightarrow> string \<Rightarrow> chat \<Rightarrow> chat" where
  "chat_list_by_room unum msg st =
     (let (roomstr, msg) = nextword msg in
      if roomstr = [] then chat_do_user_list unum msg (cu_room (usr st unum)) st
      else (let whichroom = roomid_to_indx roomstr st in
            if whichroom = -1 then tell unum (sprintf fmt_no_room [As roomstr]) st
            else if SECRET st whichroom \<and> \<not> SYSOP st unum then send_to_unum unum txt_no_secrets st
            else chat_do_user_list unum msg whichroom st))"

definition chat_list_users :: "nat \<Rightarrow> string \<Rightarrow> chat \<Rightarrow> chat" where
  "chat_list_users unum msg st = chat_do_user_list unum msg (-1) st"

definition map_item :: "nat \<Rightarrow> nat \<Rightarrow> chat \<Rightarrow> string" where
  "map_item i c st =
     (let u = usr st i in
      sprintf fmt_map_item
        [Ac (if cu_cloak u = 1 then CHR ''C'' else SPC), As (cu_chatid u),
         Ac (if ROOMOP st i then CHR ''*'' else SPC),
         As (if OUTSIDER st i then txt_outsider else txt_insider), As (cu_userid u),
         As (if c < 2 then bar else ''  '')])"

fun map_users :: "nat \<Rightarrow> int \<Rightarrow> nat \<Rightarrow> nat list \<Rightarrow> chat \<Rightarrow> chat \<times> nat" where
  "map_users unum whichroom c [] st = (st, c)"
| "map_users unum whichroom c (i # js) st =
     (if \<not> shown unum whichroom st i then map_users unum whichroom c js st
      else (let st = buf_write (c * 50) (map_item i c st) st in
            if c + 1 = 3 then map_users unum whichroom 0 js (send_to_unum unum (cstr (chatbuf st)) st)
            else map_users unum whichroom (c + 1) js st))"

definition chat_map_chatids :: "nat \<Rightarrow> int \<Rightarrow> chat \<Rightarrow> chat" where
  "chat_map_chatids unum whichroom st =
     (case map_users unum whichroom 0 [0..<MAXROOM] (send_to_unum unum txt_map_head st) of
        (st, c) \<Rightarrow> if 0 < c then send_to_unum unum (cstr (chatbuf st)) st else st)"

definition chat_map_chatids_thisroom :: "nat \<Rightarrow> string \<Rightarrow> chat \<Rightarrow> chat" where
  "chat_map_chatids_thisroom unum msg st = chat_map_chatids unum (cu_room (usr st unum)) st"

section \<open>Room and user commands\<close>

definition chat_rename :: "nat \<Rightarrow> string \<Rightarrow> chat \<Rightarrow> chat" where
  \<comment> \<open>the new name is copied with the size \<open>IDLE\<close>\<close>
  "chat_rename unum msg st =
     (let rnum = cu_room (usr st unum) in
      if \<not> ROOMOP st unum then send_to_unum unum msg_not_op st
      else if msg = [] then send_to_unum unum txt_need_name st
      else (let st = set_room rnum (\<lambda>r. r\<lparr>cr_name :=
                       cstr (fst (strlcpy (cr_name r @ replicate (IDLEN - length (cr_name r)) NUL) msg IDLE))\<rparr>) st;
                st = tell_room rnum (''/r'' @ take 11 msg) st
            in tell_room rnum (sprintf fmt_renamed [As (cu_chatid (usr st unum)), As msg]) st))"

definition chat_topic :: "nat \<Rightarrow> string \<Rightarrow> chat \<Rightarrow> chat" where
  "chat_topic unum msg st =
     (let rnum = cu_room (usr st unum) in
      if \<not> ROOMOP st unum then send_to_unum unum msg_not_op st
      else if msg = [] then send_to_unum unum txt_need_topic st
      else (let st = set_room rnum (\<lambda>r. r\<lparr>cr_topic := take 42 msg\<rparr>) st;
                st = tell_room rnum (''/t'' @ take 42 msg) st
            in tell_room rnum (sprintf fmt_topic_changed [As (cu_chatid (usr st unum)), As msg]) st))"

definition toggle_flag :: "nat \<Rightarrow> int \<Rightarrow> bool \<Rightarrow> u32 \<Rightarrow> string \<Rightarrow> chat \<Rightarrow> chat" where
  "toggle_flag unum rnum sign flag fstr st =
     (if and (cr_flags (room st rnum)) flag \<noteq> (if sign then flag else 0)
      then (let st = set_room rnum (\<lambda>r. r\<lparr>cr_flags := xor (cr_flags r) flag\<rparr>) st
            in tell_room rnum (sprintf fmt_flag_set [As (cu_chatid (usr st unum)),
                 As (if sign then word_set else word_unset), As fstr]) st)
      else st)"

fun setroom_loop :: "nat \<Rightarrow> int \<Rightarrow> bool \<Rightarrow> string \<Rightarrow> chat \<Rightarrow> chat" where
  "setroom_loop unum rnum sign [] st = st"
| "setroom_loop unum rnum sign (c # modestr) st =
     (if c = CHR ''l'' \<or> c = CHR ''L''
      then setroom_loop unum rnum sign modestr (toggle_flag unum rnum sign ROOM_LOCKED word_locked st)
      else if c = CHR ''s'' \<or> c = CHR ''S''
      then setroom_loop unum rnum sign modestr (toggle_flag unum rnum sign ROOM_SECRET word_secret st)
      else tell unum (sprintf fmt_bad_flag [Ac c]) st)"

definition chat_setroom :: "nat \<Rightarrow> string \<Rightarrow> chat \<Rightarrow> chat" where
  "chat_setroom unum msg st =
     (let rnum = cu_room (usr st unum);
          modestr = fst (nextword msg);
          sign = \<not> (modestr \<noteq> [] \<and> hd modestr = CHR ''-'');
          modestr = (if modestr \<noteq> [] \<and> (hd modestr = CHR ''+'' \<or> hd modestr = CHR ''-'')
                     then tl modestr else modestr)
      in if \<not> ROOMOP st unum \<and> \<not> SYSOP st unum then send_to_unum unum msg_not_op st
         else if modestr = [] then send_to_unum unum txt_flags_usage st
         else setroom_loop unum rnum sign modestr st)"

definition chat_nick :: "nat \<Rightarrow> string \<Rightarrow> chat \<Rightarrow> chat" where
  "chat_nick unum msg st =
     (let chatid = take (CHAT_IDLEN - 1) (fst (nextword msg)) in
      if \<not> is_valid_chatid chatid then send_to_unum unum txt_bad_nick st
      else (let othernum = chatid_to_indx 0 chatid st in
            if othernum \<noteq> -1 \<and> othernum \<noteq> int unum then send_to_unum unum txt_nick_in_use st
            else (let st = tell_room (cu_room (usr st unum))
                             (sprintf fmt_new_nick [As (cu_chatid (usr st unum)), As chatid]) st;
                      st = set_user unum (\<lambda>u. u\<lparr>cu_chatid := chatid\<rparr>) st
                  in tell unum (''/n'' @ chatid) st)))"

definition chat_private :: "nat \<Rightarrow> string \<Rightarrow> chat \<Rightarrow> chat" where
  "chat_private unum msg st =
     (let (recipient, msg) = nextword msg;
          recunum = fuzzy_chatid_to_indx unum recipient st
      in if recunum < 0
         then tell unum (if recunum = -1 then sprintf msg_no_such_id [As recipient]
                         else sprintf fmt_who_is_that []) st
         else if msg \<noteq> []
         then (let st = buf_write 0 (sprintf fmt_note_from [As (cu_chatid (usr st unum))]) st;
                   st = buf_cat (take 80 msg) st;
                   st = send_to_unum (nat recunum) (cstr (chatbuf st)) st;
                   st = buf_write 0 (sprintf fmt_note_given [As (cu_chatid (usr st (nat recunum)))]) st;
                   st = buf_cat (take 80 msg) st
               in send_to_unum unum (cstr (chatbuf st)) st)
         else tell unum (sprintf fmt_say_what []) st)"

definition put_chatid :: "nat \<Rightarrow> chat \<Rightarrow> chat" where
  "put_chatid unum st = buf_write 0 (pad_right 10 (cu_chatid (usr st unum) @ '':'')) st"

definition chat_allmsg :: "nat \<Rightarrow> string \<Rightarrow> chat \<Rightarrow> chat" where
  "chat_allmsg unum msg st =
     (if msg = [] then st
      else (let st = buf_cat msg (put_chatid unum st)
            in send_to_room (cu_room (usr st unum)) (cstr (chatbuf st)) st))"

definition chat_act :: "nat \<Rightarrow> string \<Rightarrow> chat \<Rightarrow> chat" where
  "chat_act unum msg st =
     (if msg = [] then st
      else tell_room (cu_room (usr st unum)) (sprintf fmt_act [As (cu_chatid (usr st unum)), As msg]) st)"

definition chat_cloak :: "nat \<Rightarrow> string \<Rightarrow> chat \<Rightarrow> chat" where
  "chat_cloak unum msg st =
     (if CLOAK st unum
      then (let st = set_user unum (\<lambda>u. u\<lparr>cu_cloak := if cu_cloak u = 1 then 0 else 1\<rparr>) st
            in tell unum (sprintf fmt_cloak [As (cu_chatid (usr st unum)),
                 As (if cu_cloak (usr st unum) = 1 then word_enter else word_stop)]) st)
      else st)"

definition chat_join :: "nat \<Rightarrow> string \<Rightarrow> chat \<Rightarrow> chat" where
  "chat_join unum msg st =
     (let (roomid, msg) = nextword msg in
      if RESTRICTED st unum then send_to_unum unum txt_only_here st
      else if roomid = [] then send_to_unum unum txt_which_room st
      else if \<not> is_valid_chatid roomid then send_to_unum unum txt_bad_room st
      else enter_room unum roomid (Some msg) st)"

definition chat_kick :: "nat \<Rightarrow> string \<Rightarrow> chat \<Rightarrow> chat" where
  "chat_kick unum msg st =
     (let twit = fst (nextword msg); rnum = cu_room (usr st unum) in
      if \<not> ROOMOP st unum \<and> \<not> SYSOP st unum then send_to_unum unum msg_not_op st
      else (let recunum = chatid_to_indx unum twit st in
            if recunum = -1 then tell unum (sprintf msg_no_such_id [As twit]) st
            else if rnum \<noteq> cu_room (usr st (nat recunum))
            then tell unum (sprintf msg_not_here [As (cu_chatid (usr st (nat recunum)))]) st
            else (let st = exit_room (nat recunum) EXIT_KICK None st
                  in if rnum = 0 then logout_user (nat recunum) st
                     else enter_room (nat recunum) mainroom None st)))"

definition chat_makeop :: "nat \<Rightarrow> string \<Rightarrow> chat \<Rightarrow> chat" where
  "chat_makeop unum msg st =
     (let newop = fst (nextword msg); rnum = cu_room (usr st unum) in
      if \<not> ROOMOP st unum \<and> \<not> SYSOP st unum then send_to_unum unum msg_not_op st
      else (let recunum = chatid_to_indx unum newop st in
            if recunum = -1 then tell unum (sprintf msg_no_such_id [As newop]) st
            else if int unum = recunum then tell unum (sprintf fmt_already_op []) st
            else if rnum \<noteq> cu_room (usr st (nat recunum))
            then tell unum (sprintf msg_not_here [As (cu_chatid (usr st (nat recunum)))]) st
            else (let st = set_user unum (\<lambda>u. u\<lparr>cu_flags := and (cu_flags u) (not PERM_OCHAT)\<rparr>) st;
                      st = set_user (nat recunum) (\<lambda>u. u\<lparr>cu_flags := or (cu_flags u) PERM_OCHAT\<rparr>) st
                  in tell_room rnum (sprintf fmt_new_op [As (cu_chatid (usr st unum)),
                                       As (cu_chatid (usr st (nat recunum)))]) st)))"

definition chat_invite :: "nat \<Rightarrow> string \<Rightarrow> chat \<Rightarrow> chat" where
  "chat_invite unum msg st =
     (let invitee = fst (nextword msg); rnum = cu_room (usr st unum) in
      if \<not> ROOMOP st unum \<and> \<not> SYSOP st unum then send_to_unum unum msg_not_op st
      else (let recunum = chatid_to_indx unum invitee st in
            if recunum = -1 then tell unum (sprintf msg_not_here [As invitee]) st
            else if cr_invites (room st rnum) ! nat recunum
            then tell unum (sprintf fmt_coming [As (cu_chatid (usr st (nat recunum)))]) st
            else (let st = set_room rnum (\<lambda>r. r\<lparr>cr_invites := (cr_invites r)[nat recunum := True]\<rparr>) st;
                      st = tell (nat recunum) (sprintf fmt_invites [As (cu_chatid (usr st unum)),
                                                 As (cr_name (room st rnum))]) st
                  in tell unum (sprintf fmt_coming [As (cu_chatid (usr st (nat recunum)))]) st)))"

definition chat_broadcast :: "nat \<Rightarrow> string \<Rightarrow> chat \<Rightarrow> chat" where
  "chat_broadcast unum msg st =
     (if \<not> SYSOP st unum then send_to_unum unum txt_no_shouting st
      else if msg = [] then send_to_unum unum txt_wall_what st
      else (let st = tell_room ROOM_ALL (sprintf fmt_wall_from [As (cu_chatid (usr st unum))]) st
            in tell_room ROOM_ALL (sprintf fmt_wall [As msg]) st))"

definition chat_goodbye :: "nat \<Rightarrow> string \<Rightarrow> chat \<Rightarrow> chat" where
  "chat_goodbye unum msg st = exit_room unum EXIT_LOGOUT (Some msg) st"

section \<open>Social commands\<close>

definition find_verb ::
  "string \<Rightarrow> (string \<times> string \<times> string) list \<Rightarrow> (string \<times> string \<times> string) option" where
  "find_verb cmd table = find (\<lambda>a. cmd = fst a) table"

definition party_action :: "nat \<Rightarrow> string \<Rightarrow> string \<Rightarrow> chat \<Rightarrow> chat option" where
  \<comment> \<open>\<open>None\<close> when the command is not in the table (return value 1)\<close>
  "party_action unum cmd party st =
     (case find_verb cmd party_data of
        None \<Rightarrow> None
      | Some (verb, part1, part2) \<Rightarrow>
          (let say = (\<lambda>party. tell_room (cu_room (usr st unum))
                        (sprintf fmt_party [As (cu_chatid (usr st unum)), As part1, As party, As part2]) st);
               recunum = fuzzy_chatid_to_indx unum party st
           in Some (if party = [] then say word_all
                    else if recunum < 0
                    then tell unum (if recunum = -1 then sprintf msg_no_such_id [As party]
                                    else sprintf fmt_which []) st
                    else say (cu_chatid (usr st (nat recunum))))))"

definition speak_action :: "nat \<Rightarrow> string \<Rightarrow> string \<Rightarrow> chat \<Rightarrow> chat option" where
  "speak_action unum cmd msg st =
     (case find_verb cmd speak_data of
        None \<Rightarrow> None
      | Some (verb, part1, part2) \<Rightarrow>
          Some (tell_room (cu_room (usr st unum))
                  (sprintf fmt_speak [As (cu_chatid (usr st unum)), As part1, As msg]) st))"

definition condition_action :: "nat \<Rightarrow> string \<Rightarrow> chat \<Rightarrow> chat option" where
  "condition_action unum cmd st =
     (case find_verb cmd condition_data of
        None \<Rightarrow> None
      | Some (verb, part1, part2) \<Rightarrow>
          Some (tell_room (cu_room (usr st unum))
                  (sprintf fmt_condition [As (cu_chatid (usr st unum)), As part1]) st))"

definition VERB_NO :: nat where "VERB_NO = 8"
definition MAX_VERB_LEN :: nat where "MAX_VERB_LEN = 10"

fun verb_lines :: "nat \<Rightarrow> string list \<Rightarrow> nat \<Rightarrow> chat \<Rightarrow> chat" where
  \<comment> \<open>\<open>j\<close> verbs of the table are done\<close>
  "verb_lines unum [] j st =
     (if Suc j mod VERB_NO \<noteq> 0 then send_to_unum unum (cstr (chatbuf st)) st else st)"
| "verb_lines unum (p # ps) j st =
     (let st = buf_cat p st in
      if Suc j mod VERB_NO = 0
      then verb_lines unum ps (Suc j) (buf_write 0 [] (send_to_unum unum (cstr (chatbuf st)) st))
      else verb_lines unum ps (Suc j)
             (buf_cat (take (MAX_VERB_LEN - length p) (replicate 8 SPC)) st))"

definition verb_table :: "nat \<Rightarrow> string \<Rightarrow> string list \<Rightarrow> chat \<Rightarrow> chat" where
  "verb_table unum description verbs st =
     (let st = send_to_unum unum description st;
          st = verb_lines unum verbs 0 (buf_write 0 [] st)
      in send_to_unum unum '' '' st)"

definition view_action_verb :: "nat \<Rightarrow> chat \<Rightarrow> chat" where
  "view_action_verb unum st =
     fold (\<lambda>(d, table). verb_table unum d (map fst table))
       (zip dscrb [party_data, speak_data, condition_data]) (send_to_unum unum ''/c'' st)"

section \<open>Dispatch\<close>

datatype cmdfunc = F_act | F_goodbye | F_setroom | F_invite | F_join | F_kick | F_private | F_nick
  | F_makeop | F_list_rooms | F_list_by_room | F_broadcast | F_cloak | F_map_thisroom
  | F_list_users | F_topic | F_rename

fun run_cmdfunc :: "cmdfunc \<Rightarrow> nat \<Rightarrow> string \<Rightarrow> chat \<Rightarrow> chat" where
  "run_cmdfunc F_act = chat_act"
| "run_cmdfunc F_goodbye = chat_goodbye"
| "run_cmdfunc F_setroom = chat_setroom"
| "run_cmdfunc F_invite = chat_invite"
| "run_cmdfunc F_join = chat_join"
| "run_cmdfunc F_kick = chat_kick"
| "run_cmdfunc F_private = chat_private"
| "run_cmdfunc F_nick = chat_nick"
| "run_cmdfunc F_makeop = chat_makeop"
| "run_cmdfunc F_list_rooms = chat_list_rooms"
| "run_cmdfunc F_list_by_room = chat_list_by_room"
| "run_cmdfunc F_broadcast = chat_broadcast"
| "run_cmdfunc F_cloak = chat_cloak"
| "run_cmdfunc F_map_thisroom = chat_map_chatids_thisroom"
| "run_cmdfunc F_list_users = chat_list_users"
| "run_cmdfunc F_topic = chat_topic"
| "run_cmdfunc F_rename = chat_rename"

definition chatcmdlist :: "(string \<times> cmdfunc \<times> bool) list" where
  "chatcmdlist = [(''act'', F_act, False), (''bye'', F_goodbye, False), (''flags'', F_setroom, False),
     (''invite'', F_invite, False), (''join'', F_join, False), (''kick'', F_kick, False),
     (''msg'', F_private, False), (''nick'', F_nick, False), (''operator'', F_makeop, False),
     (''rooms'', F_list_rooms, False), (''whoin'', F_list_by_room, True), (''wall'', F_broadcast, True),
     (''cloak'', F_cloak, True), (''who'', F_map_thisroom, False), (''list'', F_list_users, False),
     (''topic'', F_topic, False), (''rname'', F_rename, False)]"

definition cmd_matches :: "string \<Rightarrow> string \<times> cmdfunc \<times> bool \<Rightarrow> bool" where
  "cmd_matches cmd = (\<lambda>(cmdstr, f, exact).
     if exact then strcasecmp_eq cmd cmdstr else strncasecmp_eq cmd cmdstr (length cmd))"

definition slash_command :: "nat \<Rightarrow> string \<Rightarrow> string \<Rightarrow> chat \<Rightarrow> chat option" where
  \<comment> \<open>\<open>None\<close> when nothing matches\<close>
  "slash_command unum cmd msg st =
     (if cmd \<noteq> [] \<and> hd cmd = CHR ''/''
      then (if tl cmd = ''help'' \<or> tl cmd = [] then Some (view_action_verb unum st)
            else case party_action unum (tl cmd) msg st of
                   Some st \<Rightarrow> Some st
                 | None \<Rightarrow> (case speak_action unum (tl cmd) msg st of
                              Some st \<Rightarrow> Some st
                            | None \<Rightarrow> condition_action unum (tl cmd) st))
      else map_option (\<lambda>(cmdstr, f, exact). run_cmdfunc f unum msg st)
             (find (cmd_matches cmd) chatcmdlist))"

definition command_execute :: "nat \<Rightarrow> string \<Rightarrow> chat \<Rightarrow> (chat \<times> int) run" where
  "command_execute unum msg st =
     (if cu_room (usr st unum) = -1
      then (if take 2 msg = ''/!'' then login_user unum (drop 2 msg) st else Val (st, -1))
      else if take 1 msg \<noteq> ''/'' then Val (chat_allmsg unum msg st, 0)
      else (let (cmd, arg) = nextword (drop 1 msg) in
            case slash_command unum cmd arg st of
              Some st \<Rightarrow> Val (st, 0)
            | None \<Rightarrow> Val (tell unum (sprintf fmt_bad_command [As cmd]) st, 0)))"

section \<open>Input and the main loop\<close>

text \<open>
  \<open>process_loop unum n i line st\<close>: the loop over \<open>chatbuf[i..i+n)\<close>; \<open>line\<close> holds the first
  \<^verbatim>\<open>ibufsize\<close> bytes of the user's \<^verbatim>\<open>ibuf\<close>. It reads \<open>chatbuf\<close> as it is at that moment.
\<close>

fun process_loop :: "nat \<Rightarrow> nat \<Rightarrow> nat \<Rightarrow> string \<Rightarrow> chat \<Rightarrow> (chat \<times> int) run" where
  "process_loop unum 0 i line st = Val (set_user unum (\<lambda>u. u\<lparr>cu_ibuf := line\<rparr>) st, 0)"
| "process_loop unum (Suc n) i line st =
     (let c = chatbuf st ! i in
      if c = CR then process_loop unum n (Suc i) line st
      else if c = LF
      then (case command_execute unum (cstr line) st of
              UB \<Rightarrow> UB
            | Val (st, r) \<Rightarrow> if r = -1 then Val (st, -1) else process_loop unum n (Suc i) [] st)
      else process_loop unum n (Suc i) (if length line < 127 then line @ [c] else line) st)"

definition process_chat_command :: "nat \<Rightarrow> string \<Rightarrow> chat \<Rightarrow> (chat \<times> int) run" where
  \<comment> \<open>\<open>data\<close> is what \<^verbatim>\<open>recv\<close> stores, at most the size of \<open>chatbuf\<close>; empty on error or end of file\<close>
  "process_chat_command unum data st =
     (if data = [] then Val (exit_room unum EXIT_LOSTCONN None st, -1)
      else (let st = st\<lparr>chatbuf := data @ drop (length data) (chatbuf st)\<rparr>
            in process_loop unum (length data) 0 (cu_ibuf (usr st unum)) st))"

definition chat_init :: "nat \<Rightarrow> int \<Rightarrow> (int \<Rightarrow> bool) \<Rightarrow> int \<Rightarrow> chat" where
  \<comment> \<open>the state before the first turn: \<open>arg\<close> is the room argument, \<open>sock\<close> the listening socket\<close>
  "chat_init maxactive arg rdy sock =
     (let chatroom = (if arg = 2 then 2 else 1);
          port = (if arg = 2 then CHATPORT2 else CHATPORT1);
          topic = (if chatroom = (2 :: int) then topic_2 else topic_1);
          none = \<lparr>cr_name = [], cr_occupants = 0, cr_flags = 0,
                  cr_invites = replicate maxactive False, cr_topic = []\<rparr>
      in \<lparr>users = replicate maxactive (empty_user\<lparr>cu_room := 0\<rparr>),
          rooms = (replicate MAXROOM none)[0 := none\<lparr>cr_name := mainroom, cr_topic := topic\<rparr>],
          chatbuf = replicate 256 NUL, outp = [], ready = rdy, nfds = sock + 1, num_conns = 0,
          chatport = port, maintopic = topic\<rparr>)"

definition chat_accept :: "int \<Rightarrow> bool \<Rightarrow> string \<Rightarrow> chat \<Rightarrow> chat" where
  \<comment> \<open>a new connection: its socket, whether it comes from this host, and the name of its host\<close>
  "chat_accept newsock is_local hname st =
     (case find (\<lambda>i. cu_sockfd (usr st i) = -1) [0..<length (users st)] of
        None \<Rightarrow> st
      | Some i \<Rightarrow>
          (let st = set_user i (\<lambda>u. u\<lparr>cu_host := if is_local then ''localhost'' else take 29 hname,
                                      cu_sockfd := newsock, cu_room := -1\<rparr>) st
           in st\<lparr>nfds := (if nfds st \<le> newsock then newsock + 1 else nfds st),
                 num_conns := num_conns st + 1\<rparr>))"

fun serve_users :: "(int \<Rightarrow> string option) \<Rightarrow> nat list \<Rightarrow> chat \<Rightarrow> chat run" where
  \<comment> \<open>the loop over the users: \<open>inp\<close> gives the data of each readable socket\<close>
  "serve_users inp [] st = Val st"
| "serve_users inp (i # js) st =
     (let newsock = cu_sockfd (usr st i) in
      if newsock = -1 then serve_users inp js st
      else (case inp newsock of
              None \<Rightarrow> serve_users inp js st
            | Some data \<Rightarrow>
                (case process_chat_command i data st of
                   UB \<Rightarrow> UB
                 | Val (st, r) \<Rightarrow>
                     serve_users inp js (if r = -1 then logout_user i st else st))))"

text \<open>One turn of \<^verbatim>\<open>select\<close>: which sockets are writable, a new connection, and the input.\<close>

record turn =
  t_ready :: "int \<Rightarrow> bool"
  t_accept :: "(int \<times> bool \<times> string) option"
  t_input :: "int \<Rightarrow> string option"

definition chat_turn :: "turn \<Rightarrow> chat \<Rightarrow> chat run" where
  "chat_turn t st =
     (let st = st\<lparr>ready := t_ready t\<rparr>;
          st = (case t_accept t of None \<Rightarrow> st | Some (fd, is_local, h) \<Rightarrow> chat_accept fd is_local h st)
      in serve_users (t_input t) [0..<length (users st)] st)"

end
