(* ===== verification/ChatFrame.thy ===== *)
theory ChatFrame
  imports ChatServer
begin

text \<open>
  What the operations of the chat server leave alone: sending and formatting change only the
  output and the buffer, and no message is longer than the buffer.
\<close>

section \<open>Operations that only print\<close>

lemmas print_defs = buf_write_def buf_cat_def do_send_def send_to_room_def send_to_unum_def
  tell_def tell_room_def put_chatid_def

text \<open>\<open>quiet st st'\<close>: the two states differ at most in the buffer and the output.\<close>

definition quiet :: "chat \<Rightarrow> chat \<Rightarrow> bool" where
  "quiet st st' \<longleftrightarrow> users st' = users st \<and> rooms st' = rooms st \<and> ready st' = ready st
     \<and> nfds st' = nfds st \<and> num_conns st' = num_conns st \<and> chatport st' = chatport st
     \<and> maintopic st' = maintopic st"

lemma quiet_refl [simp, intro]: "quiet st st"
  by (simp add: quiet_def)

lemma quiet_trans [trans]: "quiet a b \<Longrightarrow> quiet b c \<Longrightarrow> quiet a c"
  by (simp add: quiet_def)

lemma quiet_print [simp]:
  "quiet a (buf_write off s st) = quiet a st" "quiet a (buf_cat s st) = quiet a st"
  "quiet a (do_send fds s st) = quiet a st" "quiet a (send_to_room r s st) = quiet a st"
  "quiet a (send_to_unum u s st) = quiet a st" "quiet a (tell u s st) = quiet a st"
  "quiet a (tell_room r s st) = quiet a st" "quiet a (put_chatid u st) = quiet a st"
  by (simp_all add: quiet_def print_defs Let_def)

lemma print_frame [simp]:
  "users (buf_write off s st) = users st" "rooms (buf_write off s st) = rooms st"
  "users (buf_cat s st) = users st" "rooms (buf_cat s st) = rooms st"
  "users (send_to_room r s st) = users st" "rooms (send_to_room r s st) = rooms st"
  "users (send_to_unum u s st) = users st" "rooms (send_to_unum u s st) = rooms st"
  "users (tell u s st) = users st" "rooms (tell u s st) = rooms st"
  "users (tell_room r s st) = users st" "rooms (tell_room r s st) = rooms st"
  "users (put_chatid u st) = users st" "rooms (put_chatid u st) = rooms st"
  by (simp_all add: print_defs Let_def)

lemma print_frame2 [simp]:
  "maintopic (buf_write off s st) = maintopic st" "maintopic (buf_cat s st) = maintopic st"
  "maintopic (send_to_room r s st) = maintopic st" "maintopic (send_to_unum u s st) = maintopic st"
  "maintopic (tell u s st) = maintopic st" "maintopic (tell_room r s st) = maintopic st"
  "chatbuf (send_to_room r s st) = chatbuf st" "chatbuf (send_to_unum u s st) = chatbuf st"
  "chatbuf (tell u s st) = chatbuf (buf_write 0 s st)"
  "chatbuf (tell_room r s st) = chatbuf (buf_write 0 s st)"
  by (simp_all add: print_defs Let_def)

lemma set_frame [simp]:
  "rooms (set_user u f st) = rooms st" "users (set_room r g st) = users st"
  "users (set_user u f st) = (users st)[u := f (users st ! u)]"
  "rooms (set_room r g st) = (rooms st)[nat r := g (rooms st ! nat r)]"
  "chatbuf (set_user u f st) = chatbuf st" "chatbuf (set_room r g st) = chatbuf st"
  "maintopic (set_user u f st) = maintopic st" "maintopic (set_room r g st) = maintopic st"
  "outp (set_user u f st) = outp st" "outp (set_room r g st) = outp st"
  by (simp_all add: set_user_def set_room_def)

lemma flags_cong:
  "users st' = users st \<Longrightarrow> RESTRICTED st' = RESTRICTED st"
  "users st' = users st \<Longrightarrow> CLOAK st' = CLOAK st"
  "users st' = users st \<Longrightarrow> ROOMOP st' = ROOMOP st"
  "users st' = users st \<Longrightarrow> SYSOP st' = SYSOP st"
  "users st' = users st \<Longrightarrow> OUTSIDER st' = OUTSIDER st"
  "rooms st' = rooms st \<Longrightarrow> LOCKED st' = LOCKED st"
  "rooms st' = rooms st \<Longrightarrow> SECRET st' = SECRET st"
  by (auto simp: RESTRICTED_def CLOAK_def ROOMOP_def SYSOP_def OUTSIDER_def LOCKED_def SECRET_def fun_eq_iff)

section \<open>The size of the message buffer\<close>

definition buf_ok :: "chat \<Rightarrow> bool" where
  "buf_ok st \<longleftrightarrow> length (chatbuf st) = 256"

lemma buf_write_ok: "buf_ok st \<Longrightarrow> off + length s < 256 \<Longrightarrow> buf_ok (buf_write off s st)"
  by (simp add: buf_ok_def buf_write_def)

lemma buf_ok_send [simp]:
  "buf_ok (send_to_room r s st) = buf_ok st" "buf_ok (send_to_unum u s st) = buf_ok st"
  "buf_ok (set_user u f st) = buf_ok st" "buf_ok (set_room r g st) = buf_ok st"
  by (simp_all add: buf_ok_def)

lemma tell_ok: "buf_ok st \<Longrightarrow> length s < 256 \<Longrightarrow> buf_ok (tell u s st)"
  and tell_room_ok: "buf_ok st \<Longrightarrow> length s < 256 \<Longrightarrow> buf_ok (tell_room r s st)"
  using buf_write_ok [of st 0 s] by (simp_all add: buf_ok_def)

lemma cstr_le: "length (cstr (s @ NUL # r)) \<le> length s"
  by (induction s) (auto simp: cstr_def)

definition used :: "chat \<Rightarrow> nat" where
  "used st = length (cstr (chatbuf st))"

lemma used_write: "used (buf_write 0 s st) \<le> length s"
  by (simp add: used_def buf_write_def cstr_le)

lemma buf_cat_ok: "buf_ok st \<Longrightarrow> used st + length s < 256 \<Longrightarrow> buf_ok (buf_cat s st)"
  unfolding buf_cat_def used_def by (rule buf_write_ok)

lemma used_cat: "used (buf_cat s st) \<le> used st + length s"
proof -
  have "chatbuf (buf_cat s st) = (take (used st) (chatbuf st) @ s)
      @ NUL # drop (Suc (used st + length s)) (chatbuf st)"
    by (simp add: buf_cat_def buf_write_def used_def)
  moreover have "length (take (used st) (chatbuf st) @ s) \<le> used st + length s"
    by simp
  ultimately show ?thesis
    using cstr_le [of "take (used st) (chatbuf st) @ s"] unfolding used_def
    by (metis le_trans)
qed

lemma used_send [simp]:
  "used (send_to_room r s st) = used st" "used (send_to_unum u s st) = used st"
  by (simp_all add: used_def)

lemma write_cat_ok:
  "buf_ok st \<Longrightarrow> length a + length b < 256 \<Longrightarrow> buf_ok (buf_cat b (buf_write 0 a st))"
  using used_write [of a st] by (intro buf_cat_ok buf_write_ok) auto

lemma write_cat2_ok:
  "buf_ok st \<Longrightarrow> length a + length b + length c < 256 \<Longrightarrow> buf_ok (buf_cat c (buf_cat b (buf_write 0 a st)))"
  using used_write [of a st] used_cat [of b "buf_write 0 a st"] by (intro buf_cat_ok buf_write_ok) auto

lemma nat_digits_length: "n < 10 ^ k \<Longrightarrow> 0 < k \<Longrightarrow> length (nat_digits n) \<le> k"
proof (induction n arbitrary: k rule: nat_digits.induct)
  case (1 n)
  show ?case
  proof (cases "n < 10")
    case True
    then show ?thesis using "1.prems" by (simp add: nat_digits.simps [of n])
  next
    case False
    then obtain j where j: "k = Suc (Suc j)"
      using "1.prems" by (metis One_nat_def less_numeral_extra(3) not0_implies_Suc power_one_right power_Suc0_right)
    have "n div 10 < 10 ^ Suc j"
      using "1.prems"(1) j by (simp add: less_mult_imp_div_less mult.commute)
    then have "length (nat_digits (n div 10)) \<le> Suc j"
      using "1.IH" False by blast
    then show ?thesis using False j by (simp add: nat_digits.simps [of n])
  qed
qed

lemma show_int_length: "0 \<le> i \<Longrightarrow> i < 100000 \<Longrightarrow> length (show_int i) \<le> 5"
  using nat_digits_length [of "nat i" 5] by (simp add: show_int_def nat_less_iff)

lemma exit_message_quiet [simp]: "quiet a (exit_message d c m st) = quiet a st"
  by (simp add: exit_message_def Let_def split: option.split)

lemma exit_message_frame [simp]:
  "users (exit_message d c m st) = users st" "rooms (exit_message d c m st) = rooms st"
  "maintopic (exit_message d c m st) = maintopic st"
  by (simp_all add: exit_message_def Let_def split: option.split)

lemma exit_message_ok:
  assumes "buf_ok st" "length c \<le> 8"
  shows "buf_ok (exit_message d c m st)"
proof -
  have len: "length (sprintf fmt_left [As c]) + 2 + 80 < 256" "length (sprintf fmt_lost [As c]) < 256"
    "length (sprintf fmt_kicked [As c]) < 256"
    using assms(2) by (simp_all add: text_len)
  have 1: "buf_ok (buf_write 0 (sprintf fmt_left [As c]) st)"
    "buf_ok (buf_write 0 (sprintf fmt_lost [As c]) st)" "buf_ok (buf_write 0 (sprintf fmt_kicked [As c]) st)"
    using assms(1) len by (auto intro!: buf_write_ok)
  have 2: "buf_ok (buf_cat (take 80 m') (buf_cat '': '' (buf_write 0 (sprintf fmt_left [As c]) st)))" for m'
    using assms(1) len by (intro write_cat2_ok) auto
  show ?thesis
    using assms(1) 1 2 unfolding exit_message_def Let_def by (simp split: option.split)
qed

section \<open>Words\<close>

lemma nextword_length: "nextword s = (w, r) \<Longrightarrow> length w + length r \<le> length s"
proof -
  assume a: "nextword s = (w, r)"
  let ?d = "dropWhile Isspace s"
  show ?thesis
  proof (cases ?d)
    case Nil
    show ?thesis using a unfolding nextword_def Nil by auto
  next
    case (Cons c t)
    let ?q = "\<lambda>c. \<not> Isspace c"
    have w: "w = c # takeWhile ?q t" and r: "r = (case dropWhile ?q t of [] \<Rightarrow> [] | _ # r \<Rightarrow> r)"
      using a unfolding nextword_def Cons by auto
    have "length (takeWhile ?q t) + length (dropWhile ?q t) = length t"
      using arg_cong [OF takeWhile_dropWhile_id [of ?q t], of length] by (simp del: takeWhile_dropWhile_id)
    moreover have "length r \<le> length (dropWhile ?q t)"
      unfolding r by (split list.split) simp
    ultimately have "length w + length r \<le> length (c # t)" by (simp add: w)
    also have "\<dots> \<le> length s" using length_dropWhile_le [of Isspace s] Cons by simp
    finally show ?thesis .
  qed
qed

lemma nextword_fst_length: "length (fst (nextword s)) \<le> length s"
  using nextword_length [of s "fst (nextword s)" "snd (nextword s)"] by simp

end
