(* ===== verification/ChatInv.thy ===== *)
theory ChatInv
  imports ChatFrame
begin

text \<open>
  The invariant of the chat server: sizes of all the strings, the permission bits users can
  have, the number of occupants of every room, at most one operator per room and none in the
  main room, which is never renamed, locked or secret. First its preservation by changes of
  the two tables, then by every command, by a chunk of input, by a turn of the main loop, and
  so in every reachable state.
\<close>

section \<open>The invariant\<close>

definition is_op :: "chatuser \<Rightarrow> bool" where
  "is_op u \<longleftrightarrow> and (cu_flags u) PERM_OCHAT \<noteq> 0"

definition in_room :: "int \<Rightarrow> chatuser \<Rightarrow> bool" where
  "in_room r u \<longleftrightarrow> cu_sockfd u \<noteq> -1 \<and> cu_room u = r"

definition op_of :: "int \<Rightarrow> chatuser \<Rightarrow> bool" where
  "op_of r u \<longleftrightarrow> is_op u \<and> cu_room u = r"

definition flags_ok :: "u32 \<Rightarrow> bool" where
  "flags_ok f \<longleftrightarrow> f = 0 \<or> f = PERM_TALK \<or> f = PERM_OCHAT \<or> f = or PERM_TALK PERM_OCHAT"

definition user_ok :: "chatuser \<Rightarrow> bool" where
  "user_ok u \<longleftrightarrow> length (cu_chatid u) \<le> 8 \<and> length (cu_userid u) \<le> 13 \<and> length (cu_host u) \<le> 29
     \<and> length (cu_ibuf u) \<le> 127 \<and> flags_ok (cu_flags u)
     \<and> (cu_sockfd u \<noteq> -1 \<longrightarrow> -1 \<le> cu_room u \<and> cu_room u < int MAXROOM)
     \<and> (is_op u \<longrightarrow> cu_sockfd u \<noteq> -1 \<and> 1 \<le> cu_room u)"

definition room_ok :: "nat \<Rightarrow> chatroom \<Rightarrow> bool" where
  "room_ok n r \<longleftrightarrow> length (cr_name r) \<le> 11 \<and> length (cr_topic r) \<le> 42 \<and> length (cr_invites r) = n"

definition tables_ok :: "chatuser list \<Rightarrow> chatroom list \<Rightarrow> bool" where
  "tables_ok us rs \<longleftrightarrow> MAXROOM \<le> length us \<and> length us < 32768 \<and> length rs = MAXROOM
     \<and> (\<forall>u\<in>set us. user_ok u) \<and> (\<forall>r\<in>set rs. room_ok (length us) r)
     \<and> (\<forall>i<MAXROOM. cr_occupants (rs ! i) = int (length (filter (in_room (int i)) us)))
     \<and> (\<forall>i<MAXROOM. length (filter (op_of (int i)) us) \<le> 1)
     \<and> cr_name (rs ! 0) = mainroom \<and> cr_flags (rs ! 0) = 0"

definition chat_ok :: "chat \<Rightarrow> bool" where
  "chat_ok st \<longleftrightarrow> tables_ok (users st) (rooms st) \<and> buf_ok st \<and> length (maintopic st) \<le> 42"

lemma flags_ok_mask: "flags_ok f \<Longrightarrow> flags_ok (and f (not PERM_OCHAT))"
  and flags_ok_op: "flags_ok f \<Longrightarrow> flags_ok (or f PERM_OCHAT)"
  and flags_not_op: "flags_ok f \<Longrightarrow> and (and f (not PERM_OCHAT)) PERM_OCHAT = 0"
  and flags_is_op: "flags_ok f \<Longrightarrow> and (or f PERM_OCHAT) PERM_OCHAT \<noteq> 0"
  and flags_not_sysop: "flags_ok f \<Longrightarrow> and f PERM_SYSOPS = 0"
  and flags_not_cloak: "flags_ok f \<Longrightarrow> and f PERM_CLOAK = 0"
  by (auto simp: flags_ok_def c_defs)

lemma flags_ok_talk: "flags_ok (and f PERM_TALK)" and flags_talk_not_op: "and (and f PERM_TALK) PERM_OCHAT = 0"
proof -
  have two: "PERM_TALK = 2 ^ 1" by (simp add: PERM_TALK_def)
  have b: "bit PERM_TALK n \<longleftrightarrow> n = 1" for n
    unfolding two by (simp only: bit_exp_iff) auto
  have "and f PERM_TALK = (if bit f 1 then PERM_TALK else 0)"
    by (rule bit_eqI) (auto simp: bit_and_iff b)
  then have "and f PERM_TALK = 0 \<or> and f PERM_TALK = PERM_TALK" by simp
  then show "flags_ok (and f PERM_TALK)" "and (and f PERM_TALK) PERM_OCHAT = 0"
    by (auto simp: flags_ok_def c_defs)
qed

section \<open>Changes of the tables\<close>

lemma tables_lookup:
  assumes "tables_ok us rs"
  shows "u < length us \<Longrightarrow> user_ok (us ! u)" "i < MAXROOM \<Longrightarrow> room_ok (length us) (rs ! i)"
    "i < MAXROOM \<Longrightarrow> i < length rs" "i < MAXROOM \<Longrightarrow> i < length us"
  using assms by (auto simp: tables_ok_def)

lemma tables_user_update0:
  assumes t: "tables_ok us rs" and u: "u < length us" and v: "user_ok v"
    and inr: "\<And>i. in_room (int i) v = in_room (int i) (us ! u)" and op: "\<And>r. op_of r v \<Longrightarrow> op_of r (us ! u)"
  shows "tables_ok (us[u := v]) rs"
proof -
  have 1: "length (filter (in_room (int i)) (us[u := v])) = length (filter (in_room (int i)) us)" for i
    using filter_length_update [OF u, of "in_room (int i)" v] inr [of i] by simp
  have 2: "length (filter (op_of r) (us[u := v])) \<le> length (filter (op_of r) us)" for r
    using filter_length_update [OF u, of "op_of r" v] op [of r] by (auto split: if_splits)
  show ?thesis
    using t v 1 order_trans [OF 2]
    by (auto simp: tables_ok_def dest!: set_update_subset_insert [THEN subsetD])
qed

lemma tables_user_update:
  assumes "tables_ok us rs" "u < length us" "user_ok v"
    "\<And>r. in_room r v = in_room r (us ! u)" "\<And>r. op_of r v \<Longrightarrow> op_of r (us ! u)"
  shows "tables_ok (us[u := v]) rs"
  using tables_user_update0 [OF assms(1-3)] assms(4,5) by blast

lemma tables_room_update:
  assumes t: "tables_ok us rs" and i: "i < MAXROOM" and r: "room_ok (length us) r"
    and occ: "cr_occupants r = cr_occupants (rs ! i)"
    and main: "i = 0 \<Longrightarrow> cr_name r = mainroom \<and> cr_flags r = 0"
  shows "tables_ok us (rs[i := r])"
  using t i r occ main
  by (auto simp: tables_ok_def nth_list_update dest!: set_update_subset_insert [THEN subsetD])

lemma tables_update:
  assumes t: "tables_ok us rs" and u: "u < length us" and i: "i < MAXROOM"
    and v: "user_ok v" and r: "room_ok (length us) r"
    and main: "i = 0 \<Longrightarrow> cr_name r = mainroom \<and> cr_flags r = 0"
    and occ: "\<And>j. j < MAXROOM \<Longrightarrow>
      cr_occupants (rs[i := r] ! j) = int (length (filter (in_room (int j)) (us[u := v])))"
    and ops: "\<And>j. j < MAXROOM \<Longrightarrow> length (filter (op_of (int j)) (us[u := v])) \<le> 1"
  shows "tables_ok (us[u := v]) (rs[i := r])"
proof -
  have "cr_name (rs[i := r] ! 0) = mainroom \<and> cr_flags (rs[i := r] ! 0) = 0"
    using t main i by (cases i) (auto simp: tables_ok_def)
  moreover have "\<forall>x\<in>set (rs[i := r]). room_ok (length us) x"
    using t r by (auto simp: tables_ok_def dest!: set_update_subset_insert [THEN subsetD])
  moreover have "\<forall>x\<in>set (us[u := v]). user_ok x"
    using t v by (auto simp: tables_ok_def dest!: set_update_subset_insert [THEN subsetD])
  ultimately show ?thesis
    using t occ ops unfolding tables_ok_def by simp
qed

lemma room_in_range:
  assumes "tables_ok us rs" "u < length us" "cu_sockfd (us ! u) \<noteq> -1" "cu_room (us ! u) \<noteq> -1"
  shows "0 \<le> cu_room (us ! u) \<and> nat (cu_room (us ! u)) < MAXROOM"
  using tables_lookup(1) [OF assms(1,2)] assms(3,4) by (auto simp: user_ok_def)

lemma tables_leave:
  assumes t: "tables_ok us rs" and u: "u < length us" and s: "cu_sockfd (us ! u) \<noteq> -1"
    and r: "cu_room (us ! u) = r" "r \<noteq> -1"
  shows "tables_ok (us[u := (us ! u)\<lparr>cu_flags := and (cu_flags (us ! u)) (not PERM_OCHAT), cu_room := -1\<rparr>])
           (rs[nat r := (rs ! nat r)\<lparr>cr_occupants := cr_occupants (rs ! nat r) - 1\<rparr>])"
    (is "tables_ok ?us ?rs")
proof -
  let ?v = "(us ! u)\<lparr>cu_flags := and (cu_flags (us ! u)) (not PERM_OCHAT), cu_room := -1\<rparr>"
  have uo: "user_ok (us ! u)" by (rule tables_lookup(1) [OF t u])
  have rr: "0 \<le> r" "nat r < MAXROOM" using room_in_range [OF t u s] r by auto
  have nop: "\<not> is_op ?v"
    using uo flags_not_op by (simp add: is_op_def user_ok_def)
  have v: "user_ok ?v"
    using uo nop flags_ok_mask by (auto simp: user_ok_def)
  have cnt: "length (filter (in_room (int i)) ?us) + (if int i = r then 1 else 0)
      = length (filter (in_room (int i)) us)" for i
    using filter_length_update [OF u, of "in_room (int i)" ?v] s r by (auto simp: in_room_def split: if_splits)
  have ops: "length (filter (op_of (int i)) ?us) \<le> length (filter (op_of (int i)) us)" for i
    using filter_length_update [OF u, of "op_of (int i)" ?v] nop by (auto simp: op_of_def split: if_splits)
  have "cr_occupants (?rs ! i) = int (length (filter (in_room (int i)) ?us))" if i: "i < MAXROOM" for i
  proof -
    have o1: "cr_occupants (rs ! i) = int (length (filter (in_room (int i)) us))"
      using t i by (simp add: tables_ok_def)
    show ?thesis
    proof (cases "int i = r")
      case True
      then show ?thesis using o1 cnt [of i] rr tables_lookup(3) [OF t i] by (auto simp: nth_list_update)
    next
      case False
      then show ?thesis using o1 cnt [of i] rr by (auto simp: nth_list_update)
    qed
  qed
  moreover have "length (filter (op_of (int i)) ?us) \<le> 1" if "i < MAXROOM" for i
    using t that order_trans [OF ops] by (simp add: tables_ok_def)
  moreover have "room_ok (length us) ((rs ! nat r)\<lparr>cr_occupants := cr_occupants (rs ! nat r) - 1\<rparr>)"
    using tables_lookup(2) [OF t rr(2)] by (simp add: room_ok_def)
  moreover have "cr_name (rs ! 0) = mainroom \<and> cr_flags (rs ! 0) = 0"
    using t by (simp add: tables_ok_def)
  ultimately show ?thesis
    by (intro tables_update [OF t u rr(2) v]) auto
qed

lemma tables_enter:
  assumes t: "tables_ok us rs" and u: "u < length us" and s: "cu_sockfd (us ! u) \<noteq> -1"
    and none: "cu_room (us ! u) = -1" and r: "0 \<le> r" "nat r < MAXROOM"
    and f: "f = cu_flags (us ! u) \<or> (f = or (cu_flags (us ! u)) PERM_OCHAT \<and> 1 \<le> r
              \<and> filter (op_of r) us = [])"
    and invl: "length ivs = length us"
  shows "tables_ok (us[u := (us ! u)\<lparr>cu_room := r, cu_flags := f\<rparr>])
           (rs[nat r := (rs ! nat r)\<lparr>cr_occupants := cr_occupants (rs ! nat r) + 1, cr_invites := ivs\<rparr>])"
    (is "tables_ok ?us ?rs")
proof -
  let ?v = "(us ! u)\<lparr>cu_room := r, cu_flags := f\<rparr>"
  have uo: "user_ok (us ! u)" by (rule tables_lookup(1) [OF t u])
  have nop: "\<not> is_op (us ! u)" using uo none by (auto simp: user_ok_def)
  have v: "user_ok ?v"
    using uo nop f r s flags_ok_op by (auto simp: user_ok_def is_op_def)
  have cnt: "length (filter (in_room (int i)) ?us)
      = length (filter (in_room (int i)) us) + (if int i = r then 1 else 0)" for i
    using filter_length_update [OF u, of "in_room (int i)" ?v] s none by (auto simp: in_room_def split: if_splits)
  have ops: "length (filter (op_of (int i)) ?us) \<le> 1" if i: "i < MAXROOM" for i
  proof -
    have old: "length (filter (op_of (int i)) us) \<le> 1" using t i by (simp add: tables_ok_def)
    have "length (filter (op_of (int i)) ?us) + (if op_of (int i) (us ! u) then 1 else 0)
        = length (filter (op_of (int i)) us) + (if op_of (int i) ?v then 1 else 0)"
      by (rule filter_length_update [OF u])
    then show ?thesis using old f nop by (auto simp: op_of_def is_op_def split: if_splits)
  qed
  have "cr_occupants (?rs ! i) = int (length (filter (in_room (int i)) ?us))" if i: "i < MAXROOM" for i
  proof -
    have o1: "cr_occupants (rs ! i) = int (length (filter (in_room (int i)) us))"
      using t i by (simp add: tables_ok_def)
    show ?thesis
    proof (cases "int i = r")
      case True
      then show ?thesis using o1 cnt [of i] r tables_lookup(3) [OF t i] by (auto simp: nth_list_update)
    next
      case False
      then show ?thesis using o1 cnt [of i] r by (auto simp: nth_list_update)
    qed
  qed
  moreover have "room_ok (length us)
      ((rs ! nat r)\<lparr>cr_occupants := cr_occupants (rs ! nat r) + 1, cr_invites := ivs\<rparr>)"
    using tables_lookup(2) [OF t r(2)] invl by (simp add: room_ok_def)
  moreover have "cr_name (rs ! 0) = mainroom \<and> cr_flags (rs ! 0) = 0"
    using t by (simp add: tables_ok_def)
  ultimately show ?thesis
    using ops by (intro tables_update [OF t u r(2) v]) auto
qed

lemma tables_new_room:
  assumes t: "tables_ok us rs" and i: "0 < i" "i < MAXROOM" and r: "room_ok (length us) r"
    and occ: "cr_occupants r = cr_occupants (rs ! i)"
  shows "tables_ok us (rs[i := r])"
  using tables_room_update [OF t i(2) r occ] i by simp

section \<open>Leaving and entering rooms\<close>

lemma chat_okI: "chat_ok st \<Longrightarrow> quiet st st' \<Longrightarrow> buf_ok st' \<Longrightarrow> chat_ok st'"
  by (simp add: chat_ok_def quiet_def)

lemma chat_okD:
  assumes "chat_ok st"
  shows "tables_ok (users st) (rooms st)" "buf_ok st" "length (maintopic st) \<le> 42"
    "length (rooms st) = MAXROOM" "MAXROOM \<le> length (users st)"
    "u < length (users st) \<Longrightarrow> user_ok (usr st u)"
    "i < MAXROOM \<Longrightarrow> room_ok (length (users st)) (rooms st ! i)"
  using assms tables_lookup [of "users st" "rooms st"] by (auto simp: chat_ok_def tables_ok_def)

lemma user_sizes:
  assumes "chat_ok st" "u < length (users st)"
  shows "length (cu_chatid (usr st u)) \<le> 8" "length (cu_userid (usr st u)) \<le> 13"
    "length (cu_host (usr st u)) \<le> 29"
  using chat_okD(6) [OF assms(1), of u] assms(2) by (auto simp: user_ok_def)

lemma room_sizes:
  assumes "chat_ok st" "i < MAXROOM"
  shows "length (cr_name (rooms st ! i)) \<le> 11" "length (cr_topic (rooms st ! i)) \<le> 42"
  using chat_okD(7) [OF assms] by (auto simp: room_ok_def)

lemma send_ok [intro]:
  "chat_ok st \<Longrightarrow> chat_ok (send_to_unum u s st)" "chat_ok st \<Longrightarrow> chat_ok (send_to_room r s st)"
  by (simp_all add: chat_ok_def)

lemma tell_chat_ok:
  "chat_ok st \<Longrightarrow> length s < 256 \<Longrightarrow> chat_ok (tell u s st)"
  "chat_ok st \<Longrightarrow> length s < 256 \<Longrightarrow> chat_ok (tell_room r s st)"
  by (simp_all add: chat_ok_def tell_ok tell_room_ok)

lemma exit_room_frame [simp]:
  "users (exit_room u d m st) = (users st)[u := (usr st u)\<lparr>cu_flags := and (cu_flags (usr st u)) (not PERM_OCHAT),
                                                cu_room := -1\<rparr>]"
  "rooms (exit_room u d m st) =
     (if cu_room (usr st u) = -1 then rooms st
      else (rooms st)[nat (cu_room (usr st u)) :=
              (room st (cu_room (usr st u)))\<lparr>cr_occupants := cr_occupants (room st (cu_room (usr st u))) - 1\<rparr>])"
  "maintopic (exit_room u d m st) = maintopic st"
  by (auto simp: exit_room_def Let_def split: option.splits)

lemma exit_room_buf:
  assumes "buf_ok st" "length (cu_chatid (usr st u)) \<le> 8"
  shows "buf_ok (exit_room u d m st)"
  using assms exit_message_ok by (simp add: exit_room_def Let_def)

lemma exit_room_ok:
  assumes "chat_ok st" "u < length (users st)" "cu_sockfd (usr st u) \<noteq> -1"
  shows "chat_ok (exit_room u d m st)"
proof -
  note t = chat_okD(1) [OF assms(1)]
  have uo: "user_ok (usr st u)" using chat_okD(6) assms by blast
  have "tables_ok (users (exit_room u d m st)) (rooms (exit_room u d m st))"
  proof (cases "cu_room (usr st u) = -1")
    case True
    then have nop: "\<not> is_op (usr st u)" using uo by (auto simp: user_ok_def)
    have "tables_ok ((users st)[u := (usr st u)\<lparr>cu_flags := and (cu_flags (usr st u)) (not PERM_OCHAT),
                                                cu_room := -1\<rparr>]) (rooms st)"
    proof (rule tables_user_update [OF t assms(2)])
      show "user_ok ((usr st u)\<lparr>cu_flags := and (cu_flags (usr st u)) (not PERM_OCHAT), cu_room := -1\<rparr>)"
        using uo flags_ok_mask flags_not_op by (auto simp: user_ok_def is_op_def)
    next
      fix r
      show "in_room r ((usr st u)\<lparr>cu_flags := and (cu_flags (usr st u)) (not PERM_OCHAT), cu_room := -1\<rparr>)
        = in_room r (usr st u)"
        using True by (simp add: in_room_def)
    next
      fix r
      assume "op_of r ((usr st u)\<lparr>cu_flags := and (cu_flags (usr st u)) (not PERM_OCHAT), cu_room := -1\<rparr>)"
      then show "op_of r (usr st u)"
        using uo flags_not_op by (simp add: op_of_def is_op_def user_ok_def)
    qed
    then show ?thesis using True by simp
  next
    case False
    then show ?thesis using tables_leave [OF t assms(2,3) refl False] by simp
  qed
  moreover have "buf_ok (exit_room u d m st)"
    using exit_room_buf user_sizes(1) [OF assms(1,2)] chat_okD(2) [OF assms(1)] by blast
  ultimately show ?thesis using chat_okD(3) [OF assms(1)] by (simp add: chat_ok_def)
qed

lemma find_Some_less: "find P [a..<b] = Some i \<Longrightarrow> a \<le> i \<and> i < b \<and> P i"
  by (auto dest: find_Some_D)

lemma roomid_range:
  "roomid_to_indx r st = -1 \<or> (0 \<le> roomid_to_indx r st \<and> nat (roomid_to_indx r st) < MAXROOM)"
  by (auto simp: roomid_to_indx_def split: option.splits dest!: find_Some_less)

lemma find_room_cases:
  assumes "chat_ok st" "find_room u r st = Some (st', rnum, new)"
  shows "chat_ok st' \<and> users st' = users st \<and> 0 \<le> rnum \<and> nat rnum < MAXROOM
    \<and> (new \<longrightarrow> 1 \<le> rnum \<and> cr_occupants (room st rnum) = 0 \<and> filter (op_of rnum) (users st) = [])
    \<and> (\<not> new \<longrightarrow> st' = st \<and> rnum = roomid_to_indx r st)"
proof (cases "roomid_to_indx r st = -1")
  case False
  then show ?thesis
    using assms roomid_range [of r st] by (auto simp: find_room_def)
next
  case True
  let ?new = "\<lambda>i. set_room (int i)
      (\<lambda>cr. cr\<lparr>cr_invites := replicate (length (users st)) False, cr_topic := maintopic st,
              cr_name := take (IDLEN - 2) r, cr_flags := 0\<rparr>) st"
  let ?find = "find (\<lambda>i. cr_occupants (rooms st ! i) = 0) [1..<MAXROOM]"
  have "(if OUTSIDER st u then None
      else case ?find of None \<Rightarrow> None | Some i \<Rightarrow> Some (?new i, int i, True)) = Some (st', rnum, new)"
    using assms(2) unfolding find_room_def Let_def True by (simp only: simp_thms if_False if_True)
  then obtain i where i: "?find = Some i" and st': "st' = ?new i" and rn: "rnum = int i" "new"
    by (cases "OUTSIDER st u"; cases ?find)
      (simp_all only: if_True if_False option.case option.distinct option.inject prod.inject simp_thms)
  have ir: "0 < i" "i < MAXROOM" "cr_occupants (rooms st ! i) = 0"
    using find_Some_less [OF i] by auto
  note t = chat_okD(1) [OF assms(1)]
  have "tables_ok (users st') (rooms st')"
    unfolding st' using ir chat_okD(3) [OF assms(1)]
    by (simp, intro tables_new_room [OF t]) (auto simp: room_ok_def IDLEN_def)
  then have "chat_ok st'"
    using assms(1) by (simp add: chat_ok_def st')
  moreover have "filter (op_of (int i)) (users st) = []"
  proof -
    have "length (filter (in_room (int i)) (users st)) = 0"
      using t ir by (auto simp: tables_ok_def)
    then have "\<forall>u\<in>set (users st). \<not> in_room (int i) u" by (simp add: filter_empty_conv)
    moreover have "\<forall>u\<in>set (users st). user_ok u" using t by (simp add: tables_ok_def)
    ultimately show ?thesis
      by (auto simp: filter_empty_conv op_of_def in_room_def user_ok_def)
  qed
  ultimately show ?thesis using ir by (simp add: st' rn)
qed

definition enter_tables :: "nat \<Rightarrow> int \<Rightarrow> bool \<Rightarrow> chat \<Rightarrow> chat" where
  \<comment> \<open>the changes of the tables in \<open>enter_room\<close>, after \<open>exit_room\<close>\<close>
  "enter_tables u rnum op st =
     (let st = set_user u (\<lambda>u. u\<lparr>cu_room := rnum\<rparr>) st;
          st = (if op then set_user u (\<lambda>u. u\<lparr>cu_flags := or (cu_flags u) PERM_OCHAT\<rparr>) st else st)
      in set_room rnum (\<lambda>cr. cr\<lparr>cr_occupants := cr_occupants cr + 1,
                             cr_invites := (cr_invites cr)[u := False]\<rparr>) st)"

definition enter_messages :: "nat \<Rightarrow> int \<Rightarrow> string \<Rightarrow> chat \<Rightarrow> chat" where
  "enter_messages u rnum r st =
     (let st = (if cu_cloak (usr st u) = 0
                then tell_room rnum (sprintf fmt_entered [As (cu_chatid (usr st u)), As (cr_name (room st rnum))]) st
                else st);
          st = tell u (''/r'' @ r) st
      in tell u (''/t'' @ cr_topic (room st rnum)) st)"

lemma enter_room_eq:
  "enter_room u r msg st =
     (case find_room u r st of
        None \<Rightarrow> send_to_unum u (if OUTSIDER st u then txt_no_new_room else txt_rooms_full) st
      | Some (st, rnum, op) \<Rightarrow>
          if \<not> SYSOP st u \<and> LOCKED st rnum \<and> \<not> cr_invites (room st rnum) ! u
          then send_to_unum u txt_room_locked st
          else enter_messages u rnum r (enter_tables u rnum op (exit_room u EXIT_LOGOUT msg st)))"
  unfolding enter_room_def enter_tables_def enter_messages_def Let_def ..

lemma enter_tables_frame [simp]:
  "chatbuf (enter_tables u r op st) = chatbuf st" "maintopic (enter_tables u r op st) = maintopic st"
  "length (users (enter_tables u r op st)) = length (users st)"
  "length (rooms (enter_tables u r op st)) = length (rooms st)"
  by (simp_all add: enter_tables_def Let_def)

lemma enter_tables_user:
  "u < length (users st) \<Longrightarrow> users (enter_tables u r op st) = (users st)[u := (usr st u)\<lparr>cu_room := r,
     cu_flags := if op then or (cu_flags (usr st u)) PERM_OCHAT else cu_flags (usr st u)\<rparr>]"
  by (simp add: enter_tables_def Let_def)

lemma enter_tables_room:
  "rooms (enter_tables u r op st) = (rooms st)[nat r := (room st r)\<lparr>cr_occupants := cr_occupants (room st r) + 1,
     cr_invites := (cr_invites (room st r))[u := False]\<rparr>]"
  by (simp add: enter_tables_def Let_def)

lemma enter_messages_quiet [simp]: "quiet a (enter_messages u r s st) = quiet a st"
  by (simp add: enter_messages_def Let_def)

lemma enter_messages_ok:
  assumes "chat_ok st" "u < length (users st)" "0 \<le> rnum" "nat rnum < MAXROOM" "length r \<le> 200"
  shows "chat_ok (enter_messages u rnum r st)"
proof -
  have "length (sprintf fmt_entered [As (cu_chatid (usr st u)), As (cr_name (room st rnum))]) < 256"
    using user_sizes(1) [OF assms(1,2)] room_sizes(1) [OF assms(1,4)] by (simp add: text_len)
  then have "chat_ok (if cu_cloak (usr st u) = 0
      then tell_room rnum (sprintf fmt_entered [As (cu_chatid (usr st u)), As (cr_name (room st rnum))]) st
      else st)" (is "chat_ok ?s")
    using assms(1) tell_chat_ok(2) by simp
  moreover have "length (cr_topic (room st rnum)) \<le> 42"
    using room_sizes(2) [OF assms(1,4)] .
  ultimately show ?thesis
    using assms(5) by (simp add: enter_messages_def Let_def tell_chat_ok)
qed

lemma enter_tables_ok:
  assumes "chat_ok st" "u < length (users st)" "cu_sockfd (usr st u) \<noteq> -1" "cu_room (usr st u) = -1"
    "0 \<le> r" "nat r < MAXROOM" "op \<Longrightarrow> 1 \<le> r \<and> filter (op_of r) (users st) = []"
  shows "chat_ok (enter_tables u r op st)"
proof -
  let ?f = "if op then or (cu_flags (usr st u)) PERM_OCHAT else cu_flags (usr st u)"
  have "length ((cr_invites (room st r))[u := False]) = length (users st)"
    using chat_okD(7) [OF assms(1,6)] by (simp add: room_ok_def)
  moreover have "?f = cu_flags (usr st u) \<or> ?f = or (cu_flags (usr st u)) PERM_OCHAT \<and> 1 \<le> r
      \<and> filter (op_of r) (users st) = []"
    using assms(7) by simp
  ultimately have "tables_ok (users (enter_tables u r op st)) (rooms (enter_tables u r op st))"
    unfolding enter_tables_room enter_tables_user [OF assms(2)]
    using tables_enter [OF chat_okD(1) [OF assms(1)] assms(2-6)] by blast
  then show ?thesis using assms(1) by (simp add: chat_ok_def buf_ok_def)
qed

lemma enter_room_ok:
  assumes "chat_ok st" "u < length (users st)" "cu_sockfd (usr st u) \<noteq> -1" "length r \<le> 200"
  shows "chat_ok (enter_room u r msg st)"
proof (cases "find_room u r st")
  case None
  then show ?thesis using assms(1) unfolding enter_room_eq by (simp add: send_ok)
next
  case (Some p)
  obtain st1 rnum op where p: "p = (st1, rnum, op)" by (cases p)
  have f: "chat_ok st1" "users st1 = users st" "0 \<le> rnum" "nat rnum < MAXROOM"
    "op \<Longrightarrow> 1 \<le> rnum \<and> filter (op_of rnum) (users st) = []"
    using find_room_cases [OF assms(1) Some [unfolded p]] by auto
  let ?s2 = "exit_room u EXIT_LOGOUT msg st1"
  have s2: "chat_ok ?s2" using exit_room_ok f assms(2,3) by metis
  have u2: "u < length (users ?s2)" "cu_sockfd (usr ?s2 u) \<noteq> -1" "cu_room (usr ?s2 u) = -1"
    using assms(2,3) f(2) by auto
  have "filter (op_of rnum) (users ?s2) = []" if "op"
  proof -
    have uo: "user_ok (usr st1 u)" using chat_okD(6) [OF f(1)] assms(2) f(2) by simp
    have "\<not> op_of rnum ((usr st1 u)\<lparr>cu_flags := and (cu_flags (usr st1 u)) (not PERM_OCHAT), cu_room := -1\<rparr>)"
      using f(3) by (simp add: op_of_def)
    then show ?thesis
      using f(5) [OF that] f(2)
      by (auto simp: filter_empty_conv dest!: set_update_subset_insert [THEN subsetD])
  qed
  then have s3: "chat_ok (enter_tables u rnum op ?s2)"
    using enter_tables_ok [OF s2 u2 f(3,4)] f(5) by blast
  have "u < length (users (enter_tables u rnum op ?s2))" using u2 by simp
  then have "chat_ok (enter_messages u rnum r (enter_tables u rnum op ?s2))"
    using enter_messages_ok [OF s3 _ f(3,4) assms(4)] by blast
  then show ?thesis using Some p f(1) unfolding enter_room_eq by (simp add: send_ok)
qed

section \<open>Commands\<close>

definition socks :: "chat \<Rightarrow> int list" where
  "socks st = map cu_sockfd (users st)"

definition active :: "nat \<Rightarrow> chat \<Rightarrow> bool" where
  "active u st \<longleftrightarrow> u < length (users st) \<and> cu_sockfd (usr st u) \<noteq> -1"

text \<open>\<open>keeps st st'\<close>: the invariant holds in \<open>st'\<close> and nobody was connected or disconnected.\<close>

definition keeps :: "chat \<Rightarrow> chat \<Rightarrow> bool" where
  "keeps st st' \<longleftrightarrow> chat_ok st' \<and> socks st' = socks st"

lemma keeps_refl: "chat_ok st \<Longrightarrow> keeps st st"
  by (simp add: keeps_def)

lemma keeps_trans [trans]: "keeps a b \<Longrightarrow> keeps b c \<Longrightarrow> keeps a c"
  by (simp add: keeps_def)

lemma keeps_ok: "keeps a b \<Longrightarrow> chat_ok b"
  by (simp add: keeps_def)

lemma socks_print [simp]:
  "socks (buf_write off s st) = socks st" "socks (buf_cat s st) = socks st"
  "socks (send_to_room r s st) = socks st" "socks (send_to_unum u s st) = socks st"
  "socks (tell u s st) = socks st" "socks (tell_room r s st) = socks st"
  "socks (put_chatid u st) = socks st" "socks (set_room r g st) = socks st"
  by (simp_all add: socks_def)

lemma socks_set_user: "cu_sockfd (f (usr st u)) = cu_sockfd (usr st u) \<Longrightarrow> socks (set_user u f st) = socks st"
  by (simp add: socks_def map_list_update_same)

lemma socks_users: "socks st' = socks st \<Longrightarrow> length (users st') = length (users st)"
  unfolding socks_def by (metis length_map)

lemma keeps_active: "keeps st st' \<Longrightarrow> active u st' = active u st"
  using socks_users [of st' st] unfolding keeps_def active_def socks_def by (metis nth_map)

lemma socks_exit_room [simp]: "socks (exit_room u d m st) = socks st"
  by (simp add: socks_def map_list_update_same)

lemma exit_room_keeps: "chat_ok st \<Longrightarrow> active u st \<Longrightarrow> keeps st (exit_room u d m st)"
  using exit_room_ok by (simp add: keeps_def active_def)

lemma socks_enter_tables [simp]: "socks (enter_tables u r op st) = socks st"
  by (auto simp: enter_tables_def Let_def socks_set_user)

lemma socks_enter_messages [simp]: "socks (enter_messages u r s st) = socks st"
  by (simp add: enter_messages_def Let_def)

lemma find_room_users: "find_room u r st = Some (st', rnum, op) \<Longrightarrow> users st' = users st"
  unfolding find_room_def Let_def by (auto split: if_splits option.splits simp del: find_Some_iff2)

lemma socks_enter_room [simp]: "socks (enter_room u r msg st) = socks st"
proof (cases "find_room u r st")
  case None
  then show ?thesis by (simp add: enter_room_eq)
next
  case (Some p)
  obtain st1 rnum op where p: "p = (st1, rnum, op)" by (cases p)
  then have "socks st1 = socks st" using find_room_users Some by (simp add: socks_def)
  then show ?thesis by (simp add: enter_room_eq Some p)
qed

lemma enter_room_keeps:
  "chat_ok st \<Longrightarrow> active u st \<Longrightarrow> length r \<le> 200 \<Longrightarrow> keeps st (enter_room u r msg st)"
  using enter_room_ok by (simp add: keeps_def active_def)

lemma tell_keeps:
  "chat_ok st \<Longrightarrow> length s < 256 \<Longrightarrow> keeps st (tell u s st)"
  "chat_ok st \<Longrightarrow> length s < 256 \<Longrightarrow> keeps st (tell_room r s st)"
  "chat_ok st \<Longrightarrow> keeps st (send_to_unum u s st)" "chat_ok st \<Longrightarrow> keeps st (send_to_room r s st)"
  by (simp_all add: keeps_def tell_chat_ok send_ok)

lemma write_keeps:
  "chat_ok st \<Longrightarrow> off + length s < 256 \<Longrightarrow> keeps st (buf_write off s st)"
  "chat_ok st \<Longrightarrow> used st + length s < 256 \<Longrightarrow> keeps st (buf_cat s st)"
  by (simp_all add: keeps_def chat_ok_def buf_write_ok buf_cat_ok)

lemma fold_keeps:
  assumes "\<And>i st. i \<in> set xs \<Longrightarrow> chat_ok st \<Longrightarrow> active u st \<Longrightarrow> keeps st (f i st)"
    and "chat_ok st" "active u st"
  shows "keeps st (fold f xs st)"
  using assms
proof (induction xs arbitrary: st)
  case Nil
  then show ?case by (simp add: keeps_refl)
next
  case (Cons x xs)
  have 1: "keeps st (f x st)" using Cons.prems by simp
  have 2: "active u (f x st)" using Cons.prems keeps_active [OF 1] by simp
  have "keeps (f x st) (fold f xs (f x st))"
    using Cons.prems(1) by (intro Cons.IH keeps_ok [OF 1] 2) simp
  with 1 show ?case using keeps_trans by simp
qed

lemma occupants_range:
  assumes "chat_ok st" "i < MAXROOM"
  shows "0 \<le> cr_occupants (rooms st ! i) \<and> cr_occupants (rooms st ! i) < 100000"
proof -
  have "cr_occupants (rooms st ! i) = int (length (filter (in_room (int i)) (users st)))"
    "length (users st) < 32768"
    using assms by (auto simp: chat_ok_def tables_ok_def)
  moreover have "length (filter (in_room (int i)) (users st)) \<le> length (users st)"
    by (rule length_filter_le)
  ultimately show ?thesis by linarith
qed

lemma list_room_keeps:
  assumes "chat_ok st" "i < MAXROOM"
  shows "keeps st (list_room u i st)"
proof -
  let ?r = "rooms st ! i"
  let ?s = "sprintf fmt_room_line [As (cr_name ?r), Ad (cr_occupants ?r), As (cr_topic ?r)]"
  let ?a = "buf_write 0 ?s st"
  have "length (show_int (cr_occupants ?r)) \<le> 5"
    using occupants_range [OF assms] by (intro show_int_length) auto
  then have len: "length ?s + 7 + 7 < 256"
    using room_sizes [OF assms] by (simp add: text_len)
  have a: "keeps st ?a" using write_keeps(1) [OF assms(1), of 0 ?s] len by simp
  have ua: "used ?a \<le> length ?s" by (rule used_write)
  let ?b = "if LOCKED ?a (int i) then buf_cat txt_locked_mark ?a else ?a"
  have b: "keeps st ?b"
    using a keeps_trans [OF a write_keeps(2) [OF keeps_ok [OF a], of txt_locked_mark]] ua len
    by (simp add: text_len)
  have ub: "used ?b \<le> length ?s + 7"
    using ua used_cat [of txt_locked_mark ?a] by (simp add: text_len)
  let ?c = "if SECRET ?b (int i) then buf_cat txt_secret_mark ?b else ?b"
  have c: "keeps st ?c"
    using b keeps_trans [OF b write_keeps(2) [OF keeps_ok [OF b], of txt_secret_mark]] ub len
    by (simp add: text_len)
  have "keeps st (send_to_unum u (cstr (chatbuf ?c)) ?c)"
    using keeps_trans [OF c tell_keeps(3) [OF keeps_ok [OF c]]] .
  then show ?thesis
    using keeps_refl [OF assms(1)] unfolding list_room_def Let_def by simp
qed

lemma chat_list_rooms_keeps:
  assumes "chat_ok st" "active u st"
  shows "keeps st (chat_list_rooms u msg st)"
proof -
  have 1: "keeps st (send_to_unum u s st)" for s by (rule tell_keeps(3) [OF assms(1)])
  have "keeps (send_to_unum u txt_rooms_head st)
      (fold (list_room u) [0..<MAXROOM] (send_to_unum u txt_rooms_head st))"
    using assms keeps_active [OF 1] keeps_ok [OF 1]
    by (intro fold_keeps [of _ u] list_room_keeps) auto
  then show ?thesis
    using 1 keeps_trans [OF 1] by (simp add: chat_list_rooms_def)
qed

lemma shown_user:
  assumes "chat_ok st" "i < MAXROOM" "shown u w st i"
  shows "i < length (users st) \<and> nat (cu_room (usr st i)) < MAXROOM"
proof -
  have i: "i < length (users st)" using chat_okD(5) [OF assms(1)] assms(2) by simp
  then show ?thesis
    using room_in_range [OF chat_okD(1) [OF assms(1)] i] assms(3) by (simp add: shown_def Let_def)
qed

lemma user_line_length:
  assumes "chat_ok st" "i < MAXROOM" "shown u w st i"
  shows "length (user_line i st) < 256"
proof -
  note i = shown_user [OF assms]
  have "length (cr_name (room st (cu_room (usr st i)))) \<le> 11"
    using room_sizes(1) [OF assms(1)] i by blast
  then show ?thesis
    using user_sizes [OF assms(1), of i] i by (simp add: user_line_def Let_def text_len)
qed

lemma list_users_keeps:
  "chat_ok st \<Longrightarrow> \<forall>i\<in>set js. i < MAXROOM \<Longrightarrow> keeps st (list_users u w start stop n js st)"
proof (induction u w start stop n js st rule: list_users.induct)
  case (1 u w start stop n st)
  then show ?case by (simp add: keeps_refl)
next
  case (2 u w start stop n i js st)
  show ?case
  proof (cases "shown u w st i")
    case False
    then show ?thesis using 2 by simp
  next
    case True
    have t: "keeps st (tell u (user_line i st) st)"
      using 2 True by (intro tell_keeps(1) user_line_length) auto
    then have "n + 1 \<ge> start \<Longrightarrow> \<not> (stop \<noteq> 0 \<and> stop < n + 1) \<Longrightarrow>
        keeps st (list_users u w start stop (n + 1) js (tell u (user_line i st) st))"
      using "2.IH"(3) [OF _ refl] True "2.prems"(2) keeps_ok [OF t] keeps_trans [OF t] by simp
    then show ?thesis
      using 2 True keeps_refl by (simp add: Let_def)
  qed
qed

lemma chat_do_user_list_keeps:
  assumes "chat_ok st"
  shows "keeps st (chat_do_user_list u msg w st)"
proof -
  have 1: "keeps st (send_to_unum u txt_users_head st)" by (rule tell_keeps(3) [OF assms])
  show ?thesis
    unfolding chat_do_user_list_def Let_def
    by (rule keeps_trans [OF 1 list_users_keeps [OF keeps_ok [OF 1]]]) simp
qed

lemma chat_list_by_room_keeps:
  assumes "chat_ok st" "length msg \<le> 127"
  shows "keeps st (chat_list_by_room u msg st)"
proof -
  have "length (fst (nextword msg)) \<le> 127" using nextword_fst_length [of msg] assms(2) by simp
  then have "keeps st (tell u (sprintf fmt_no_room [As (fst (nextword msg))]) st)"
    by (intro tell_keeps(1) assms(1)) (simp add: text_len)
  then show ?thesis
    using assms(1)
    by (simp add: chat_list_by_room_def Let_def split_beta chat_do_user_list_keeps tell_keeps)
qed

lemma map_item_length:
  assumes "chat_ok st" "i < length (users st)"
  shows "length (map_item i c st) \<le> 60"
  using user_sizes [OF assms] by (simp add: map_item_def Let_def text_len)

lemma map_users_keeps:
  "chat_ok st \<Longrightarrow> \<forall>i\<in>set js. i < MAXROOM \<Longrightarrow> c < 3 \<Longrightarrow> keeps st (fst (map_users u w c js st))"
proof (induction u w c js st rule: map_users.induct)
  case (1 u w c st)
  then show ?case by (simp add: keeps_refl)
next
  case (2 u w c i js st)
  show ?case
  proof (cases "shown u w st i")
    case False
    then show ?thesis using 2 by simp
  next
    case True
    let ?s = "buf_write (c * 50) (map_item i c st) st"
    have i: "i < length (users st)" using shown_user [OF "2.prems"(1) _ True] "2.prems"(2) by simp
    have s: "keeps st ?s"
      using map_item_length [OF "2.prems"(1) i, of c] "2.prems"(3)
      by (intro write_keeps(1) "2.prems"(1)) simp
    have t: "keeps st (send_to_unum u (cstr (chatbuf ?s)) ?s)"
      by (rule keeps_trans [OF s tell_keeps(3) [OF keeps_ok [OF s]]])
    show ?thesis
    proof (cases "c + 1 = 3")
      case c3: True
      have "keeps (send_to_unum u (cstr (chatbuf ?s)) ?s)
          (fst (map_users u w 0 js (send_to_unum u (cstr (chatbuf ?s)) ?s)))"
        using "2.IH"(2) [OF _ refl c3] True keeps_ok [OF t] "2.prems"(2) by simp
      then show ?thesis using True c3 keeps_trans [OF t] by (simp add: Let_def)
    next
      case c3: False
      have "keeps ?s (fst (map_users u w (c + 1) js ?s))"
        using "2.IH"(3) [OF _ refl c3] True keeps_ok [OF s] "2.prems"(2,3) c3 by simp
      then show ?thesis using True c3 keeps_trans [OF s] by (simp add: Let_def)
    qed
  qed
qed

lemma chat_map_chatids_keeps:
  assumes "chat_ok st"
  shows "keeps st (chat_map_chatids u w st)"
proof -
  have 1: "keeps st (send_to_unum u txt_map_head st)" by (rule tell_keeps(3) [OF assms])
  obtain st' c where m: "map_users u w 0 [0..<MAXROOM] (send_to_unum u txt_map_head st) = (st', c)"
    by (cases "map_users u w 0 [0..<MAXROOM] (send_to_unum u txt_map_head st)")
  then have 2: "keeps st st'"
    using keeps_trans [OF 1 map_users_keeps [OF keeps_ok [OF 1], of "[0..<MAXROOM]" 0 u w]] by simp
  then show ?thesis
    using keeps_trans [OF 2 tell_keeps(3) [OF keeps_ok [OF 2]]] by (simp add: chat_map_chatids_def m)
qed

lemma print_user_counts_keeps:
  assumes "chat_ok st"
  shows "keeps st (print_user_counts u st)"
proof -
  let ?hidden = "\<lambda>v. SECRET st (cu_room v) \<and> \<not> SYSOP st u"
  define sc where "sc = int (length (filter ?hidden (counted st)))"
  define uc where "uc = int (length (filter (\<lambda>v. \<not> ?hidden v) (counted st)))"
  define rc where "rc = count_rooms st"
  have cl: "length (counted st) \<le> MAXROOM"
    unfolding counted_def by (rule order_trans [OF length_filter_le]) simp
  have "0 \<le> sc" "0 \<le> uc" "0 \<le> rc" by (simp_all add: sc_def uc_def rc_def count_rooms_def)
  moreover have "sc \<le> 32" "uc \<le> 32" "rc \<le> 32"
  proof -
    show "sc \<le> 32" using le_trans [OF length_filter_le cl] unfolding sc_def MAXROOM_def by simp
    show "uc \<le> 32" using le_trans [OF length_filter_le cl] unfolding uc_def MAXROOM_def by simp
    show "rc \<le> 32"
      using le_trans [OF length_filter_le, of "[0..<MAXROOM]" 32] unfolding rc_def count_rooms_def
      by (simp add: MAXROOM_def)
  qed
  ultimately have d: "length (show_int sc) \<le> 5" "length (show_int (uc + 1)) \<le> 5" "length (show_int (rc + 1)) \<le> 5"
    by (auto intro!: show_int_length)
  let ?s1 = "tell u (sprintf fmt_welcome [As MY_BBS_NAME, As night_talk]) st"
  let ?s2 = "tell u (sprintf fmt_rooms_busy [Ad (rc + 1)]) ?s1"
  let ?s3 = "buf_write 0 (sprintf fmt_people [Ad (uc + 1)]) ?s2"
  let ?s4 = "if sc \<noteq> 0 then buf_cat (sprintf fmt_secret_people [Ad sc]) ?s3 else ?s3"
  let ?s5 = "buf_cat txt_people_end ?s4"
  have 1: "keeps st ?s1" using assms by (intro tell_keeps(1)) (simp_all add: text_len)
  have 2: "keeps st ?s2"
    using d by (intro keeps_trans [OF 1 tell_keeps(1) [OF keeps_ok [OF 1]]]) (simp add: text_len)
  have 3: "keeps st ?s3"
    using d by (intro keeps_trans [OF 2 write_keeps(1) [OF keeps_ok [OF 2]]]) (simp add: text_len)
  have u3: "used ?s3 \<le> 60"
    using used_write [of "sprintf fmt_people [Ad (uc + 1)]" ?s2] d(2) by (simp add: text_len)
  have l4: "length (sprintf fmt_secret_people [Ad sc]) \<le> 60" using d by (simp add: text_len)
  have 4: "keeps st ?s4"
    using 3 keeps_trans [OF 3 write_keeps(2) [OF keeps_ok [OF 3], of "sprintf fmt_secret_people [Ad sc]"]] u3 l4
    by simp
  have u4: "used ?s4 \<le> 120"
    using u3 l4 used_cat [of "sprintf fmt_secret_people [Ad sc]" ?s3] by simp
  have 5: "keeps st ?s5"
    using u4 by (intro keeps_trans [OF 4 write_keeps(2) [OF keeps_ok [OF 4]]]) (simp add: text_len)
  have "keeps st (send_to_unum u (cstr (chatbuf ?s5)) ?s5)"
    by (rule keeps_trans [OF 5 tell_keeps(3) [OF keeps_ok [OF 5]]])
  then show ?thesis
    unfolding print_user_counts_def Let_def sc_def uc_def rc_def .
qed

lemma user_update_keeps:
  assumes "chat_ok st" "u < length (users st)" "user_ok (f (usr st u))"
    "cu_sockfd (f (usr st u)) = cu_sockfd (usr st u)" "cu_room (f (usr st u)) = cu_room (usr st u)"
    "is_op (f (usr st u)) \<Longrightarrow> is_op (usr st u)"
  shows "keeps st (set_user u f st)"
proof -
  have "tables_ok ((users st)[u := f (usr st u)]) (rooms st)"
    using assms(4-6) by (intro tables_user_update [OF chat_okD(1) [OF assms(1)] assms(2,3)])
      (auto simp: in_room_def op_of_def)
  then show ?thesis
    using assms(1,4) by (simp add: keeps_def chat_ok_def socks_set_user)
qed

lemma room_update_keeps:
  assumes "chat_ok st" "1 \<le> r" "nat r < MAXROOM" "room_ok (length (users st)) (g (room st r))"
    "cr_occupants (g (room st r)) = cr_occupants (room st r)"
  shows "keeps st (set_room r g st)"
  using tables_new_room [OF chat_okD(1) [OF assms(1)] _ assms(3,4,5)] assms(1,2)
  by (simp add: keeps_def chat_ok_def)

lemma not_sysop: "chat_ok st \<Longrightarrow> u < length (users st) \<Longrightarrow> \<not> SYSOP st u"
  and not_cloak: "chat_ok st \<Longrightarrow> u < length (users st) \<Longrightarrow> \<not> CLOAK st u"
  using chat_okD(6) [of st u] flags_not_sysop flags_not_cloak
  by (auto simp: SYSOP_def CLOAK_def user_ok_def)

lemma op_room:
  assumes "chat_ok st" "u < length (users st)" "ROOMOP st u"
  shows "1 \<le> cu_room (usr st u) \<and> nat (cu_room (usr st u)) < MAXROOM \<and> cu_sockfd (usr st u) \<noteq> -1"
  using chat_okD(6) [OF assms(1,2)] assms(3) by (auto simp: ROOMOP_def user_ok_def is_op_def)

lemma login_ok_update:
  assumes "chat_ok st" "active u st" "cu_room (usr st u) = -1"
    "length userid < IDLEN + 2" "fl = 0 \<or> fl = and lev PERM_TALK"
  shows "keeps st (set_user u (\<lambda>v. v\<lparr>cu_flags := fl, cu_cloak := c, cu_utent := ut,
           cu_userid := userid, cu_chatid := take (CHAT_IDLEN - 2) chatid\<rparr>) st)"
proof (rule user_update_keeps [OF assms(1)])
  have uo: "user_ok (usr st u)" using chat_okD(6) assms(1,2) by (auto simp: active_def)
  have fl: "flags_ok fl" "and fl PERM_OCHAT = 0"
    using assms(5) flags_ok_talk flags_talk_not_op by (auto simp: flags_ok_def)
  show "u < length (users st)" using assms(2) by (simp add: active_def)
  show "user_ok ((usr st u)\<lparr>cu_flags := fl, cu_cloak := c, cu_utent := ut, cu_userid := userid,
      cu_chatid := take (CHAT_IDLEN - 2) chatid\<rparr>)"
    using uo fl assms(4) by (auto simp: user_ok_def is_op_def IDLEN_def CHAT_IDLEN_def)
  assume "is_op ((usr st u)\<lparr>cu_flags := fl, cu_cloak := c, cu_utent := ut, cu_userid := userid,
      cu_chatid := take (CHAT_IDLEN - 2) chatid\<rparr>)"
  then show "is_op (usr st u)" using fl by (simp add: is_op_def)
qed simp_all

lemma login_user_keeps:
  assumes "chat_ok st" "active u st" "cu_room (usr st u) = -1" "login_user u msg st = Val (st', r)"
  shows "keeps st st' \<and> (r = -1 \<longrightarrow> users st' = users st)"
proof -
  obtain a m1 where w1: "nextword msg = (a, m1)" by (cases "nextword msg")
  obtain level m2 where w2: "nextword m1 = (level, m2)" by (cases "nextword m1")
  obtain userid m3 where w3: "nextword m2 = (userid, m3)" by (cases "nextword m2")
  obtain chatid m4 where w4: "nextword m3 = (chatid, m4)" by (cases "nextword m3")
  obtain cloak m5 where w5: "nextword m4 = (cloak, m5)" by (cases "nextword m4")
  let ?local = "strncasecmp_eq ''localhost'' (cu_host (usr st u)) 30"
  let ?lev = "word_of_int (atoi level) :: u32"
  let ?s1 = "set_user u (\<lambda>v. v\<lparr>cu_flags := (if ?local then and ?lev PERM_TALK else 0),
      cu_cloak := (if ?local then to_char (atoi cloak) else 0), cu_utent := atoi a,
      cu_userid := userid, cu_chatid := take (CHAT_IDLEN - 2) chatid\<rparr>) st"
  let ?s2 = "print_user_counts u (send_to_unum u CHAT_LOGIN_OK ?s1)"
  have cases: "(\<exists>s. st' = send_to_unum u s st) \<or>
      length userid < IDLEN + 2 \<and> st' = enter_room u mainroom None ?s2 \<and> r = 0"
    using assms(4) unfolding login_user_def Let_def w1 w2 w3 w4 w5 prod.case
    by (auto split: if_splits)
  have "keeps st (enter_room u mainroom None ?s2)" if "length userid < IDLEN + 2"
  proof -
    have 1: "keeps st ?s1" by (rule login_ok_update [OF assms(1-3) that, of _ ?lev]) simp
    have 2: "keeps st (send_to_unum u CHAT_LOGIN_OK ?s1)"
      by (rule keeps_trans [OF 1 tell_keeps(3) [OF keeps_ok [OF 1]]])
    have 3: "keeps st ?s2"
      by (rule keeps_trans [OF 2 print_user_counts_keeps [OF keeps_ok [OF 2]]])
    show ?thesis
      using assms(2) keeps_active [OF 3, of u]
      by (intro keeps_trans [OF 3 enter_room_keeps [OF keeps_ok [OF 3]]]) (simp_all add: mainroom_def)
  qed
  then show ?thesis using cases tell_keeps(3) [OF assms(1)] by auto
qed

lemma chat_rename_keeps:
  assumes "chat_ok st" "active u st" "length msg \<le> 127"
  shows "keeps st (chat_rename u msg st)"
proof (cases "ROOMOP st u \<and> msg \<noteq> []")
  case False
  then show ?thesis using tell_keeps(3) [OF assms(1)] by (auto simp: chat_rename_def Let_def)
next
  case True
  let ?r = "cu_room (usr st u)"
  let ?g = "\<lambda>cr. cr\<lparr>cr_name := cstr (fst (strlcpy (cr_name cr @ replicate (IDLEN - length (cr_name cr)) NUL) msg IDLE))\<rparr>"
  have u: "u < length (users st)" using assms(2) by (simp add: active_def)
  have r: "1 \<le> ?r" "nat ?r < MAXROOM" using op_room [OF assms(1) u] True by auto
  let ?n = "cr_name (room st ?r)"
  have n: "length ?n \<le> 11" using room_sizes(1) [OF assms(1) r(2)] .
  then obtain k where k: "IDLEN - length ?n = Suc k"
    by (cases "IDLEN - length ?n") (auto simp: IDLEN_def)
  have "length (cstr (?n @ NUL # replicate k NUL)) \<le> 11" using cstr_le n le_trans by blast
  then have "room_ok (length (users st)) (?g (room st ?r))"
    using chat_okD(7) [OF assms(1) r(2)] by (simp add: room_ok_def strlcpy_def IDLE_def k)
  then have 1: "keeps st (set_room ?r ?g st)" using r by (intro room_update_keeps [OF assms(1)]) auto
  let ?s1 = "set_room ?r ?g st"
  have 2: "keeps st (tell_room ?r (''/r'' @ take 11 msg) ?s1)"
    by (rule keeps_trans [OF 1 tell_keeps(2) [OF keeps_ok [OF 1]]]) simp
  have "keeps st (tell_room ?r (sprintf fmt_renamed [As (cu_chatid (usr st u)), As msg])
      (tell_room ?r (''/r'' @ take 11 msg) ?s1))"
    using user_sizes(1) [OF assms(1) u]
    by (intro keeps_trans [OF 2 tell_keeps(2) [OF keeps_ok [OF 2]]]) (simp add: text_len)
  then show ?thesis using True by (simp add: chat_rename_def Let_def)
qed

lemma chat_topic_keeps:
  assumes "chat_ok st" "active u st" "length msg \<le> 127"
  shows "keeps st (chat_topic u msg st)"
proof (cases "ROOMOP st u \<and> msg \<noteq> []")
  case False
  then show ?thesis using tell_keeps(3) [OF assms(1)] by (auto simp: chat_topic_def Let_def)
next
  case True
  let ?r = "cu_room (usr st u)"
  let ?s1 = "set_room ?r (\<lambda>cr. cr\<lparr>cr_topic := take 42 msg\<rparr>) st"
  have u: "u < length (users st)" using assms(2) by (simp add: active_def)
  have r: "1 \<le> ?r" "nat ?r < MAXROOM" using op_room [OF assms(1) u] True by auto
  have 1: "keeps st ?s1"
    using chat_okD(7) [OF assms(1) r(2)] r by (intro room_update_keeps [OF assms(1)]) (auto simp: room_ok_def)
  have 2: "keeps st (tell_room ?r (''/t'' @ take 42 msg) ?s1)"
    by (rule keeps_trans [OF 1 tell_keeps(2) [OF keeps_ok [OF 1]]]) simp
  have "keeps st (tell_room ?r (sprintf fmt_topic_changed [As (cu_chatid (usr st u)), As msg])
      (tell_room ?r (''/t'' @ take 42 msg) ?s1))"
    using user_sizes(1) [OF assms(1) u]
    by (intro keeps_trans [OF 2 tell_keeps(2) [OF keeps_ok [OF 2]]]) (simp add: text_len)
  then show ?thesis using True by (simp add: chat_topic_def Let_def)
qed

lemma toggle_flag_keeps:
  assumes "chat_ok st" "u < length (users st)" "1 \<le> r" "nat r < MAXROOM" "length fstr \<le> 10"
  shows "keeps st (toggle_flag u r sign flag fstr st)"
proof -
  let ?s1 = "set_room r (\<lambda>cr. cr\<lparr>cr_flags := xor (cr_flags cr) flag\<rparr>) st"
  have 1: "keeps st ?s1"
    using chat_okD(7) [OF assms(1,4)] assms(3,4)
    by (intro room_update_keeps [OF assms(1)]) (auto simp: room_ok_def)
  have "length (if sign then word_set else word_unset) \<le> 10" by (simp add: text_len)
  then have "keeps st (tell_room r (sprintf fmt_flag_set [As (cu_chatid (usr st u)),
      As (if sign then word_set else word_unset), As fstr]) ?s1)"
    using user_sizes(1) [OF assms(1,2)] assms(5)
    by (intro keeps_trans [OF 1 tell_keeps(2) [OF keeps_ok [OF 1]]]) (simp add: text_len del: if_split)
  then show ?thesis using keeps_refl [OF assms(1)] by (simp add: toggle_flag_def Let_def)
qed

lemma setroom_loop_keeps:
  "chat_ok st \<Longrightarrow> u < length (users st) \<Longrightarrow> 1 \<le> r \<Longrightarrow> nat r < MAXROOM \<Longrightarrow>
   keeps st (setroom_loop u r sign m st)"
proof (induction u r sign m st rule: setroom_loop.induct)
  case (1 u r sign st)
  then show ?case by (simp add: keeps_refl)
next
  case (2 u r sign c m st)
  have t: "keeps st (toggle_flag u r sign ROOM_LOCKED word_locked st)"
    "keeps st (toggle_flag u r sign ROOM_SECRET word_secret st)"
    using 2 by (auto intro!: toggle_flag_keeps simp: text_len)
  have len: "length (users (toggle_flag u r sign f w st)) = length (users st)" for f w
    by (simp add: toggle_flag_def Let_def)
  have bad: "keeps st (tell u (sprintf fmt_bad_flag [Ac c]) st)"
    using 2 by (intro tell_keeps(1)) (simp_all add: text_len)
  show ?case
    using 2 keeps_trans [OF t(1)] keeps_trans [OF t(2)] keeps_ok [OF t(1)] keeps_ok [OF t(2)] bad len
    by simp
qed

lemma chat_setroom_keeps:
  assumes "chat_ok st" "active u st"
  shows "keeps st (chat_setroom u msg st)"
proof (cases "ROOMOP st u")
  case False
  then show ?thesis
    using assms tell_keeps(3) [OF assms(1)] not_sysop by (auto simp: chat_setroom_def Let_def active_def)
next
  case True
  have u: "u < length (users st)" using assms(2) by (simp add: active_def)
  show ?thesis
    using op_room [OF assms(1) u True] setroom_loop_keeps [OF assms(1) u] True tell_keeps(3) [OF assms(1)]
    by (simp add: chat_setroom_def Let_def)
qed

lemma word_length:
  assumes "length msg \<le> 127"
  shows "length (fst (nextword msg)) \<le> 127" "length (snd (nextword msg)) \<le> 127"
  using assms nextword_length [of msg "fst (nextword msg)" "snd (nextword msg)"] by simp_all

lemma chatid_to_indx_range:
  assumes "chatid_to_indx u c st \<noteq> -1"
  shows "nat (chatid_to_indx u c st) < length (users st) \<and> 0 \<le> chatid_to_indx u c st
    \<and> cu_sockfd (usr st (nat (chatid_to_indx u c st))) \<noteq> -1"
  using assms by (auto simp: chatid_to_indx_def split: option.splits dest!: find_Some_less)

lemma chat_nick_keeps:
  assumes "chat_ok st" "active u st" "length msg \<le> 127"
  shows "keeps st (chat_nick u msg st)"
proof -
  let ?c = "take (CHAT_IDLEN - 1) (fst (nextword msg))"
  have u: "u < length (users st)" using assms(2) by (simp add: active_def)
  have c: "length ?c \<le> 8" by (simp add: CHAT_IDLEN_def)
  let ?s1 = "tell_room (cu_room (usr st u)) (sprintf fmt_new_nick [As (cu_chatid (usr st u)), As ?c]) st"
  let ?s2 = "set_user u (\<lambda>v. v\<lparr>cu_chatid := ?c\<rparr>) ?s1"
  have 1: "keeps st ?s1"
    using user_sizes(1) [OF assms(1) u] c by (intro tell_keeps(2) assms(1)) (simp add: text_len del: length_take)
  have "user_ok ((usr st u)\<lparr>cu_chatid := ?c\<rparr>)"
    using chat_okD(6) [OF assms(1) u] c by (simp add: user_ok_def is_op_def del: length_take)
  then have 2: "keeps st ?s2"
    using u by (intro keeps_trans [OF 1 user_update_keeps [OF keeps_ok [OF 1]]]) (auto simp: is_op_def)
  have "keeps st (tell u (''/n'' @ ?c) ?s2)"
    using c by (intro keeps_trans [OF 2 tell_keeps(1) [OF keeps_ok [OF 2]]]) (simp del: length_take)
  then show ?thesis
    using tell_keeps(3) [OF assms(1)] by (simp add: chat_nick_def Let_def)
qed

lemma fuzzy_loop_range:
  "fuzzy_loop us i x c = r \<Longrightarrow> 0 \<le> r \<Longrightarrow> 0 \<le> i \<Longrightarrow> r = x \<or> (i \<le> r \<and> r < i + int (length us))"
proof (induction us i x c rule: fuzzy_loop.induct)
  case (1 i x c)
  then show ?case by simp
next
  case (2 u us i x c)
  show ?case using 2 by (simp add: Let_def split: if_splits) fastforce+
qed

lemma fuzzy_range:
  "\<not> fuzzy_chatid_to_indx u c st < 0 \<Longrightarrow> nat (fuzzy_chatid_to_indx u c st) < length (users st)"
  using fuzzy_loop_range [of "users st" 0 "-1" c "fuzzy_loop (users st) 0 (-1) c"]
  by (auto simp: fuzzy_chatid_to_indx_def Let_def split: if_splits)

lemma chat_private_keeps:
  assumes "chat_ok st" "active u st" "length msg \<le> 127"
  shows "keeps st (chat_private u msg st)"
proof -
  obtain w m where w: "nextword msg = (w, m)" by (cases "nextword msg")
  have wl: "length w \<le> 127" using word_length(1) [OF assms(3)] w by simp
  let ?r = "fuzzy_chatid_to_indx u w st"
  have u: "u < length (users st)" using assms(2) by (simp add: active_def)
  have 0: "keeps st (tell u (if ?r = -1 then sprintf msg_no_such_id [As w] else sprintf fmt_who_is_that []) st)"
    using wl by (intro tell_keeps(1) assms(1)) (simp add: text_len)
  have 9: "keeps st (tell u (sprintf fmt_say_what []) st)"
    by (intro tell_keeps(1) assms(1)) (simp add: text_len)
  have sent: "keeps s0 (send_to_unum v (cstr (chatbuf (buf_cat (take 80 m) (buf_write 0 a s0))))
      (buf_cat (take 80 m) (buf_write 0 a s0)))" if "chat_ok s0" "length a \<le> 150" for s0 a v
  proof -
    have 1: "keeps s0 (buf_write 0 a s0)" using that by (intro write_keeps(1)) auto
    have "keeps s0 (buf_cat (take 80 m) (buf_write 0 a s0))"
      using used_write [of a s0] that(2)
      by (intro keeps_trans [OF 1 write_keeps(2) [OF keeps_ok [OF 1]]]) simp
    then show ?thesis using tell_keeps(3) keeps_trans keeps_ok by meson
  qed
  show ?thesis
  proof (cases "\<not> ?r < 0 \<and> m \<noteq> []")
    case True
    have r: "nat ?r < length (users st)" using fuzzy_range True by blast
    let ?a = "sprintf fmt_note_from [As (cu_chatid (usr st u))]"
    let ?b = "sprintf fmt_note_given [As (cu_chatid (usr st (nat ?r)))]"
    let ?s1 = "send_to_unum (nat ?r) (cstr (chatbuf (buf_cat (take 80 m) (buf_write 0 ?a st))))
      (buf_cat (take 80 m) (buf_write 0 ?a st))"
    have 1: "keeps st ?s1"
      using user_sizes(1) [OF assms(1) u] by (intro sent assms(1)) (simp add: text_len)
    have "keeps ?s1 (send_to_unum u (cstr (chatbuf (buf_cat (take 80 m) (buf_write 0 ?b ?s1))))
      (buf_cat (take 80 m) (buf_write 0 ?b ?s1)))"
      using user_sizes(1) [OF assms(1) r] by (intro sent keeps_ok [OF 1]) (simp add: text_len)
    from keeps_trans [OF 1 this] show ?thesis
      using True by (simp add: chat_private_def w Let_def)
  next
    case False
    then show ?thesis using 0 9 by (auto simp: chat_private_def w Let_def)
  qed
qed

lemma chat_allmsg_keeps:
  assumes "chat_ok st" "active u st" "length msg \<le> 127"
  shows "keeps st (chat_allmsg u msg st)"
proof -
  let ?a = "pad_right 10 (cu_chatid (usr st u) @ '':'')"
  have u: "u < length (users st)" using assms(2) by (simp add: active_def)
  have a: "length ?a \<le> 10" using user_sizes(1) [OF assms(1) u] by simp
  have 1: "keeps st (put_chatid u st)"
    unfolding put_chatid_def using a by (intro write_keeps(1) assms(1)) linarith
  have "used (put_chatid u st) \<le> 10"
    unfolding put_chatid_def using used_write a le_trans by blast
  then have 2: "keeps st (buf_cat msg (put_chatid u st))"
    using assms(3) by (intro keeps_trans [OF 1 write_keeps(2) [OF keeps_ok [OF 1]]]) simp
  show ?thesis
    using keeps_trans [OF 2 tell_keeps(4) [OF keeps_ok [OF 2]]] keeps_refl [OF assms(1)]
    by (simp add: chat_allmsg_def Let_def)
qed

lemma chat_act_keeps:
  assumes "chat_ok st" "active u st" "length msg \<le> 127"
  shows "keeps st (chat_act u msg st)"
proof -
  have u: "u < length (users st)" using assms(2) by (simp add: active_def)
  have "keeps st (tell_room (cu_room (usr st u)) (sprintf fmt_act [As (cu_chatid (usr st u)), As msg]) st)"
    using user_sizes(1) [OF assms(1) u] assms(3) by (intro tell_keeps(2) assms(1)) (simp add: text_len)
  then show ?thesis using keeps_refl [OF assms(1)] by (simp add: chat_act_def)
qed

lemma chat_cloak_idle:
  "chat_ok st \<Longrightarrow> active u st \<Longrightarrow> chat_cloak u msg st = st"
  using not_cloak by (simp add: chat_cloak_def active_def)

lemma chat_join_keeps:
  assumes "chat_ok st" "active u st" "length msg \<le> 127"
  shows "keeps st (chat_join u msg st)"
  using word_length(1) [OF assms(3)] tell_keeps(3) [OF assms(1)] enter_room_keeps [OF assms(1,2)]
  by (simp add: chat_join_def split_beta)

lemma chat_kick_keeps:
  assumes "chat_ok st" "active u st" "length msg \<le> 127"
  shows "keeps st (chat_kick u msg st)"
proof -
  let ?t = "fst (nextword msg)"
  let ?r = "chatid_to_indx u ?t st"
  have u: "u < length (users st)" using assms(2) by (simp add: active_def)
  have 1: "keeps st (tell u (sprintf msg_no_such_id [As ?t]) st)"
    using word_length(1) [OF assms(3)] by (intro tell_keeps(1) assms(1)) (simp add: text_len)
  show ?thesis
  proof (cases "ROOMOP st u \<and> ?r \<noteq> -1")
    case False
    then show ?thesis
      using 1 tell_keeps(3) [OF assms(1)] not_sysop [OF assms(1) u] by (auto simp: chat_kick_def Let_def)
  next
    case True
    note r = chatid_to_indx_range [of u ?t st]
    have 2: "keeps st (tell u (sprintf msg_not_here [As (cu_chatid (usr st (nat ?r)))]) st)"
      using user_sizes(1) [OF assms(1), of "nat ?r"] r True by (intro tell_keeps(1) assms(1)) (simp add: text_len)
    have a: "active (nat ?r) st" using r True by (simp add: active_def)
    have 3: "keeps st (exit_room (nat ?r) EXIT_KICK None st)" by (rule exit_room_keeps [OF assms(1) a])
    have "keeps st (enter_room (nat ?r) mainroom None (exit_room (nat ?r) EXIT_KICK None st))"
      using a keeps_active [OF 3]
      by (intro keeps_trans [OF 3 enter_room_keeps [OF keeps_ok [OF 3]]]) (simp_all add: mainroom_def)
    moreover have "cu_room (usr st u) \<noteq> 0" using op_room [OF assms(1) u] True by auto
    ultimately show ?thesis
      using True 2 by (simp add: chat_kick_def Let_def)
  qed
qed

lemma makeop_keeps:
  assumes "chat_ok st" "u < length (users st)" "ROOMOP st u" "v < length (users st)" "v \<noteq> u"
    "cu_sockfd (usr st v) \<noteq> -1" "cu_room (usr st v) = cu_room (usr st u)"
  shows "keeps st (set_user v (\<lambda>w. w\<lparr>cu_flags := or (cu_flags w) PERM_OCHAT\<rparr>)
      (set_user u (\<lambda>w. w\<lparr>cu_flags := and (cu_flags w) (not PERM_OCHAT)\<rparr>) st))"
    (is "keeps st ?s2")
proof -
  let ?r = "cu_room (usr st u)"
  let ?f = "\<lambda>w. w\<lparr>cu_flags := and (cu_flags w) (not PERM_OCHAT)\<rparr>"
  let ?g = "\<lambda>w. w\<lparr>cu_flags := or (cu_flags w) PERM_OCHAT\<rparr>"
  let ?s1 = "set_user u ?f st"
  have r: "1 \<le> ?r" "nat ?r < MAXROOM" using op_room [OF assms(1-3)] by auto
  have uo: "user_ok (usr st u)" "user_ok (usr st v)" using chat_okD(6) [OF assms(1)] assms(2,4) by auto
  have nop: "\<not> is_op (?f (usr st u))" using uo(1) flags_not_op by (simp add: is_op_def user_ok_def)
  have 1: "keeps st ?s1"
    using uo(1) nop flags_ok_mask by (intro user_update_keeps [OF assms(1,2)]) (auto simp: user_ok_def)
  have t: "tables_ok (users ?s1) (rooms st)" using keeps_ok [OF 1] by (simp add: chat_ok_def)
  have vv: "usr ?s1 v = usr st v" using assms(5) by simp
  have vl: "v < length (users ?s1)" using assms(4) by simp
  have "length (filter (op_of ?r) (users ?s1)) + 1 = length (filter (op_of ?r) (users st))"
    using filter_length_update [OF assms(2), of "op_of ?r" "?f (usr st u)"] nop assms(3)
    by (simp add: op_of_def ROOMOP_def is_op_def)
  moreover have "length (filter (op_of (int (nat ?r))) (users st)) \<le> 1"
    using chat_okD(1) [OF assms(1)] r(2) unfolding tables_ok_def by blast
  moreover have ir: "int (nat ?r) = ?r" using r(1) by simp
  ultimately have none: "length (filter (op_of ?r) (users ?s1)) = 0" unfolding ir by linarith
  have cnt: "length (filter (op_of j) ((users ?s1)[v := ?g (usr ?s1 v)]))
      \<le> length (filter (op_of j) (users ?s1)) + (if j = ?r then 1 else 0)" for j
    using filter_length_update [OF vl, of "op_of j" "?g (usr ?s1 v)"] assms(7) unfolding vv
    by (auto simp: op_of_def split: if_splits)
  have inr: "length (filter (in_room j) ((users ?s1)[v := ?g (usr ?s1 v)])) = length (filter (in_room j) (users ?s1))" for j
    using filter_length_update [OF vl, of "in_room j" "?g (usr ?s1 v)"] by (simp add: in_room_def)
  have v: "user_ok (?g (usr ?s1 v))"
    unfolding vv using uo(2) assms(6,7) r(1) flags_ok_op by (auto simp: user_ok_def)
  have "tables_ok ((users ?s1)[v := ?g (usr ?s1 v)]) ((rooms st)[nat ?r := room st ?r])"
  proof (rule tables_update [OF t vl r(2) v])
    show "room_ok (length (users ?s1)) (room st ?r)" by (rule tables_lookup(2) [OF t r(2)])
    show "nat ?r = 0 \<Longrightarrow> cr_name (room st ?r) = mainroom \<and> cr_flags (room st ?r) = 0" using r(1) by simp
  next
    fix j
    assume "j < MAXROOM"
    then show "cr_occupants (((rooms st)[nat ?r := room st ?r]) ! j)
        = int (length (filter (in_room (int j)) ((users ?s1)[v := ?g (usr ?s1 v)])))"
      using t inr by (simp add: tables_ok_def)
  next
    fix j
    assume j: "j < MAXROOM"
    have "length (filter (op_of (int j)) (users ?s1)) \<le> (if int j = ?r then 0 else 1)"
      using t j none unfolding tables_ok_def by auto
    then show "length (filter (op_of (int j)) ((users ?s1)[v := ?g (usr ?s1 v)])) \<le> 1"
      using cnt [of "int j"] by (auto split: if_splits)
  qed
  then have "chat_ok ?s2"
    using keeps_ok [OF 1] by (simp add: chat_ok_def)
  moreover have "socks ?s2 = socks st" by (simp add: socks_set_user)
  ultimately show ?thesis by (simp add: keeps_def)
qed

lemma chat_makeop_keeps:
  assumes "chat_ok st" "active u st" "length msg \<le> 127"
  shows "keeps st (chat_makeop u msg st)"
proof -
  let ?t = "fst (nextword msg)"
  let ?r = "chatid_to_indx u ?t st"
  have u: "u < length (users st)" using assms(2) by (simp add: active_def)
  have 1: "keeps st (tell u (sprintf msg_no_such_id [As ?t]) st)"
    using word_length(1) [OF assms(3)] by (intro tell_keeps(1) assms(1)) (simp add: text_len)
  have 0: "keeps st (tell u (sprintf fmt_already_op []) st)"
    by (intro tell_keeps(1) assms(1)) (simp add: text_len)
  show ?thesis
  proof (cases "ROOMOP st u \<and> ?r \<noteq> -1 \<and> int u \<noteq> ?r")
    case False
    then show ?thesis
      using 0 1 tell_keeps(3) [OF assms(1)] not_sysop [OF assms(1) u] by (auto simp: chat_makeop_def Let_def)
  next
    case True
    note r = chatid_to_indx_range [of u ?t st]
    have rl: "nat ?r < length (users st)" using r True by simp
    have 2: "keeps st (tell u (sprintf msg_not_here [As (cu_chatid (usr st (nat ?r)))]) st)"
      using user_sizes(1) [OF assms(1) rl] by (intro tell_keeps(1) assms(1)) (simp add: text_len)
    let ?s2 = "set_user (nat ?r) (\<lambda>w. w\<lparr>cu_flags := or (cu_flags w) PERM_OCHAT\<rparr>)
      (set_user u (\<lambda>w. w\<lparr>cu_flags := and (cu_flags w) (not PERM_OCHAT)\<rparr>) st)"
    have 3: "keeps st ?s2" if "cu_room (usr st u) = cu_room (usr st (nat ?r))"
      using makeop_keeps [OF assms(1) u _ rl] r True that by auto
    have "keeps st (tell_room (cu_room (usr st u)) (sprintf fmt_new_op [As (cu_chatid (usr ?s2 u)),
        As (cu_chatid (usr ?s2 (nat ?r)))]) ?s2)" if "cu_room (usr st u) = cu_room (usr st (nat ?r))"
    proof (intro keeps_trans [OF 3 [OF that] tell_keeps(2) [OF keeps_ok [OF 3 [OF that]]]])
      have l: "u < length (users ?s2)" "nat ?r < length (users ?s2)" using u rl by simp_all
      note user_sizes(1) [OF keeps_ok [OF 3 [OF that]] l(1)]
        user_sizes(1) [OF keeps_ok [OF 3 [OF that]] l(2)]
      then show "length (sprintf fmt_new_op [As (cu_chatid (usr ?s2 u)), As (cu_chatid (usr ?s2 (nat ?r)))]) < 256"
        unfolding text_len by linarith
    qed
    then show ?thesis using True 2 by (simp add: chat_makeop_def Let_def)
  qed
qed

lemma chat_invite_keeps:
  assumes "chat_ok st" "active u st" "length msg \<le> 127"
  shows "keeps st (chat_invite u msg st)"
proof -
  let ?t = "fst (nextword msg)"
  let ?r = "chatid_to_indx u ?t st"
  let ?m = "cu_room (usr st u)"
  have u: "u < length (users st)" using assms(2) by (simp add: active_def)
  have 1: "keeps st (tell u (sprintf msg_not_here [As ?t]) st)"
    using word_length(1) [OF assms(3)] by (intro tell_keeps(1) assms(1)) (simp add: text_len)
  show ?thesis
  proof (cases "ROOMOP st u \<and> ?r \<noteq> -1")
    case False
    then show ?thesis
      using 1 tell_keeps(3) [OF assms(1)] not_sysop [OF assms(1) u] by (auto simp: chat_invite_def Let_def)
  next
    case True
    have rl: "nat ?r < length (users st)" using chatid_to_indx_range True by blast
    have m: "1 \<le> ?m" "nat ?m < MAXROOM" using op_room [OF assms(1) u] True by auto
    let ?id = "cu_chatid (usr st (nat ?r))"
    have l: "length ?id \<le> 8" "length (cu_chatid (usr st u)) \<le> 8" "length (cr_name (room st ?m)) \<le> 11"
      using user_sizes(1) [OF assms(1)] rl u room_sizes(1) [OF assms(1) m(2)] by auto
    have 2: "keeps st (tell u (sprintf fmt_coming [As ?id]) st)"
      using l by (intro tell_keeps(1) assms(1)) (simp add: text_len)
    let ?s1 = "set_room ?m (\<lambda>r. r\<lparr>cr_invites := (cr_invites r)[nat ?r := True]\<rparr>) st"
    have 3: "keeps st ?s1"
      using chat_okD(7) [OF assms(1) m(2)] m by (intro room_update_keeps [OF assms(1)]) (auto simp: room_ok_def)
    have name: "cr_name (room ?s1 ?m) = cr_name (room st ?m)"
      using m chat_okD(4) [OF assms(1)] by simp
    let ?s2 = "tell (nat ?r) (sprintf fmt_invites [As (cu_chatid (usr st u)), As (cr_name (room ?s1 ?m))]) ?s1"
    have 4: "keeps st ?s2"
      unfolding name using l by (intro keeps_trans [OF 3 tell_keeps(1) [OF keeps_ok [OF 3]]]) (simp add: text_len)
    have "keeps st (tell u (sprintf fmt_coming [As ?id]) ?s2)"
      using l by (intro keeps_trans [OF 4 tell_keeps(1) [OF keeps_ok [OF 4]]]) (simp add: text_len)
    then show ?thesis using True 2 by (simp add: chat_invite_def Let_def)
  qed
qed

lemma chat_broadcast_refused:
  "chat_ok st \<Longrightarrow> active u st \<Longrightarrow> chat_broadcast u msg st = send_to_unum u txt_no_shouting st"
  using not_sysop by (simp add: chat_broadcast_def active_def)

section \<open>Social commands\<close>

definition small_table :: "(string \<times> string \<times> string) list \<Rightarrow> bool" where
  "small_table t \<longleftrightarrow> list_all (\<lambda>(v, a, b). length v \<le> 10 \<and> length a + length b \<le> 80) t"

lemma small_tables: "small_table party_data" "small_table speak_data" "small_table condition_data"
  by (simp_all add: small_table_def party_data_def speak_data_def condition_data_def)

lemma find_verb_small:
  "find_verb c t = Some (v, a, b) \<Longrightarrow> small_table t \<Longrightarrow> length a + length b \<le> 80"
  unfolding find_verb_def small_table_def by (auto simp: list_all_iff dest!: find_Some_D)

lemma party_action_keeps:
  assumes "chat_ok st" "active u st" "length party \<le> 127" "party_action u cmd party st = Some st'"
  shows "keeps st st'"
proof -
  obtain v a b where f: "find_verb cmd party_data = Some (v, a, b)"
    using assms(4) by (auto simp: party_action_def split: option.splits)
  have l: "length a + length b \<le> 80" by (rule find_verb_small [OF f small_tables(1)])
  have u: "u < length (users st)" using assms(2) by (simp add: active_def)
  have say: "keeps st (tell_room (cu_room (usr st u))
      (sprintf fmt_party [As (cu_chatid (usr st u)), As a, As p, As b]) st)" if "length p \<le> 8" for p
    using user_sizes(1) [OF assms(1) u] l that by (intro tell_keeps(2) assms(1)) (simp add: text_len)
  have err: "keeps st (tell u (if fuzzy_chatid_to_indx u party st = -1 then sprintf msg_no_such_id [As party]
      else sprintf fmt_which []) st)"
    using assms(3) by (intro tell_keeps(1) assms(1)) (simp add: text_len)
  have "length word_all \<le> 8" by (simp add: text_len)
  moreover have "length (cu_chatid (usr st (nat (fuzzy_chatid_to_indx u party st)))) \<le> 8"
    if "\<not> fuzzy_chatid_to_indx u party st < 0"
    using user_sizes(1) [OF assms(1) fuzzy_range [OF that]] .
  ultimately show ?thesis
    using assms(4) say err by (auto simp: party_action_def f Let_def)
qed

lemma speak_action_keeps:
  assumes "chat_ok st" "active u st" "length msg \<le> 127" "speak_action u cmd msg st = Some st'"
  shows "keeps st st'"
proof -
  obtain v a b where f: "find_verb cmd speak_data = Some (v, a, b)"
    using assms(4) by (auto simp: speak_action_def split: option.splits)
  have l: "length a + length b \<le> 80" by (rule find_verb_small [OF f small_tables(2)])
  have u: "u < length (users st)" using assms(2) by (simp add: active_def)
  show ?thesis
    using assms(4) user_sizes(1) [OF assms(1) u] l assms(3)
    by (auto simp: speak_action_def f text_len intro!: tell_keeps(2) [OF assms(1)])
qed

lemma condition_action_keeps:
  assumes "chat_ok st" "active u st" "condition_action u cmd st = Some st'"
  shows "keeps st st'"
proof -
  obtain v a b where f: "find_verb cmd condition_data = Some (v, a, b)"
    using assms(3) by (auto simp: condition_action_def split: option.splits)
  have l: "length a + length b \<le> 80" by (rule find_verb_small [OF f small_tables(3)])
  have u: "u < length (users st)" using assms(2) by (simp add: active_def)
  show ?thesis
    using assms(3) user_sizes(1) [OF assms(1) u] l
    by (auto simp: condition_action_def f text_len intro!: tell_keeps(2) [OF assms(1)])
qed

lemma verb_lines_keeps:
  "chat_ok st \<Longrightarrow> \<forall>p\<in>set ps. length p \<le> 10 \<Longrightarrow> used st \<le> 10 * (j mod VERB_NO) \<Longrightarrow>
   keeps st (verb_lines u ps j st)"
proof (induction u ps j st rule: verb_lines.induct)
  case (1 u j st)
  then show ?case using keeps_refl tell_keeps(3) by simp
next
  case (2 u p ps j st)
  let ?s1 = "buf_cat p st"
  have lp: "length p \<le> 10" using "2.prems" by simp
  have j: "j mod VERB_NO \<le> 7" using mod_less_divisor [of VERB_NO j] by (simp add: VERB_NO_def)
  have 1: "keeps st ?s1" using "2.prems" lp j by (intro write_keeps(2)) auto
  have us: "used ?s1 \<le> 10 * (j mod VERB_NO) + length p" using used_cat [of p st] "2.prems"(3) by simp
  show ?case
  proof (cases "Suc j mod VERB_NO = 0")
    case True
    let ?s2 = "buf_write 0 [] (send_to_unum u (cstr (chatbuf ?s1)) ?s1)"
    have 2: "keeps st (send_to_unum u (cstr (chatbuf ?s1)) ?s1)"
      by (rule keeps_trans [OF 1 tell_keeps(3) [OF keeps_ok [OF 1]]])
    have 3: "keeps st ?s2" by (rule keeps_trans [OF 2 write_keeps(1) [OF keeps_ok [OF 2]]]) simp
    have "keeps ?s2 (verb_lines u ps (Suc j) ?s2)"
      using "2.IH"(1) [OF refl True keeps_ok [OF 3]] "2.prems"(2) used_write [of "[]" "send_to_unum u (cstr (chatbuf ?s1)) ?s1"]
      by simp
    then show ?thesis using keeps_trans [OF 3] True by (simp add: Let_def)
  next
    case False
    let ?pad = "take (MAX_VERB_LEN - length p) (replicate 8 SPC)"
    let ?s2 = "buf_cat ?pad ?s1"
    have pl: "length ?pad \<le> 10 - length p" by (simp add: MAX_VERB_LEN_def)
    have u2: "used ?s2 \<le> 10 * (j mod VERB_NO) + 10"
      using used_cat [of ?pad ?s1] us pl lp by linarith
    have 2: "keeps st ?s2"
      using us pl lp j by (intro keeps_trans [OF 1 write_keeps(2) [OF keeps_ok [OF 1]]]) linarith
    have "Suc j mod VERB_NO = Suc (j mod VERB_NO)" using False by (simp add: mod_Suc split: if_splits)
    then have "keeps ?s2 (verb_lines u ps (Suc j) ?s2)"
      using "2.IH"(2) [OF refl False keeps_ok [OF 2]] "2.prems"(2) u2 by simp
    then show ?thesis using keeps_trans [OF 2] False by (simp add: Let_def)
  qed
qed

lemma verb_table_keeps:
  assumes "chat_ok st" "\<forall>p\<in>set ps. length p \<le> 10"
  shows "keeps st (verb_table u d ps st)"
proof -
  have 1: "keeps st (send_to_unum u d st)" by (rule tell_keeps(3) [OF assms(1)])
  have 2: "keeps st (buf_write 0 [] (send_to_unum u d st))"
    by (rule keeps_trans [OF 1 write_keeps(1) [OF keeps_ok [OF 1]]]) simp
  have 3: "keeps st (verb_lines u ps 0 (buf_write 0 [] (send_to_unum u d st)))"
    using used_write [of "[]" "send_to_unum u d st"]
    by (intro keeps_trans [OF 2 verb_lines_keeps [OF keeps_ok [OF 2] assms(2)]]) simp
  show ?thesis
    unfolding verb_table_def Let_def by (rule keeps_trans [OF 3 tell_keeps(3) [OF keeps_ok [OF 3]]])
qed

lemma small_table_verbs: "small_table t \<Longrightarrow> \<forall>p\<in>set (map fst t). length p \<le> 10"
  by (auto simp: small_table_def list_all_iff)

lemma view_action_verb_keeps:
  assumes "chat_ok st" "active u st"
  shows "keeps st (view_action_verb u st)"
proof -
  have 1: "keeps st (send_to_unum u ''/c'' st)" by (rule tell_keeps(3) [OF assms(1)])
  have "keeps (send_to_unum u ''/c'' st)
      (fold (\<lambda>(d, table). verb_table u d (map fst table))
         (zip dscrb [party_data, speak_data, condition_data]) (send_to_unum u ''/c'' st))"
  proof (rule fold_keeps [of _ u])
    fix i s
    assume i: "i \<in> set (zip dscrb [party_data, speak_data, condition_data])" and s: "chat_ok s"
    obtain d t where it: "i = (d, t)" by (cases i)
    have "t \<in> {party_data, speak_data, condition_data}" using set_zip_rightD i it by fastforce
    then have "small_table t" using small_tables by auto
    then show "keeps s ((\<lambda>(d, table). verb_table u d (map fst table)) i s)"
      using verb_table_keeps [OF s small_table_verbs] it by simp
  qed (use keeps_ok [OF 1] keeps_active [OF 1] assms(2) in auto)
  from keeps_trans [OF 1 this] show ?thesis by (simp add: view_action_verb_def)
qed

section \<open>Dispatch, input and the main loop\<close>

lemma run_cmdfunc_keeps:
  assumes "chat_ok st" "active u st" "length msg \<le> 127"
  shows "keeps st (run_cmdfunc f u msg st)"
proof (cases f)
  case F_goodbye
  then show ?thesis using exit_room_keeps [OF assms(1,2)] by (simp add: chat_goodbye_def)
next
  case F_broadcast
  then show ?thesis using chat_broadcast_refused [OF assms(1,2)] tell_keeps(3) [OF assms(1)] by simp
next
  case F_cloak
  then show ?thesis using chat_cloak_idle [OF assms(1,2)] keeps_refl [OF assms(1)] by simp
next
  case F_map_thisroom
  then show ?thesis using chat_map_chatids_keeps [OF assms(1)] by (simp add: chat_map_chatids_thisroom_def)
next
  case F_list_users
  then show ?thesis using chat_do_user_list_keeps [OF assms(1)] by (simp add: chat_list_users_def)
qed (use assms chat_act_keeps chat_setroom_keeps chat_invite_keeps chat_join_keeps chat_kick_keeps
    chat_private_keeps chat_nick_keeps chat_makeop_keeps chat_list_rooms_keeps chat_list_by_room_keeps
    chat_topic_keeps chat_rename_keeps in simp_all)

lemma slash_command_keeps:
  assumes "chat_ok st" "active u st" "length msg \<le> 127" "slash_command u cmd msg st = Some st'"
  shows "keeps st st'"
proof (cases "cmd \<noteq> [] \<and> hd cmd = CHR ''/''")
  case True
  then show ?thesis
    using assms view_action_verb_keeps party_action_keeps [OF assms(1-3)] speak_action_keeps [OF assms(1-3)]
      condition_action_keeps [OF assms(1,2)]
    by (auto simp: slash_command_def split: if_splits option.splits)
next
  case False
  then have "map_option (\<lambda>(cmdstr, f, exact). run_cmdfunc f u msg st) (find (cmd_matches cmd) chatcmdlist) = Some st'"
    using assms(4) unfolding slash_command_def by (simp only: if_False)
  then show ?thesis using run_cmdfunc_keeps [OF assms(1-3)] by (auto simp: map_option_case split: option.splits)
qed

text \<open>A line, and what its result -1 means: the user is in no room, so can be logged out.\<close>

lemma command_execute_keeps:
  assumes "chat_ok st" "active u st" "length line \<le> 127" "command_execute u line st = Val (st', r)"
  shows "keeps st st' \<and> (r = -1 \<longrightarrow> cu_room (usr st' u) = -1)"
proof (cases "cu_room (usr st u) = -1")
  case True
  then show ?thesis
    using assms(4) login_user_keeps [OF assms(1,2) True] keeps_refl [OF assms(1)]
    by (auto simp: command_execute_def split: if_splits)
next
  case False
  show ?thesis
  proof (cases "take 1 line \<noteq> ''/''")
    case True
    then show ?thesis
      using assms(4) False chat_allmsg_keeps [OF assms(1-3)] by (auto simp: command_execute_def)
  next
    case f2: False
    obtain cmd arg where w: "nextword (drop 1 line) = (cmd, arg)" by (cases "nextword (drop 1 line)")
    have l: "length cmd \<le> 127" "length arg \<le> 127"
      using word_length [of "drop 1 line"] assms(3) w by auto
    have bad: "keeps st (tell u (sprintf fmt_bad_command [As cmd]) st)"
      using l by (intro tell_keeps(1) assms(1)) (simp add: text_len)
    show ?thesis
    proof (cases "slash_command u cmd arg st")
      case None
      then show ?thesis using assms(4) False f2 w bad by (simp add: command_execute_def)
    next
      case (Some s)
      then show ?thesis
        using assms(4) False f2 w slash_command_keeps [OF assms(1,2) l(2) Some] by (simp add: command_execute_def)
    qed
  qed
qed

lemma process_loop_keeps:
  "chat_ok st \<Longrightarrow> active u st \<Longrightarrow> length line \<le> 127 \<Longrightarrow> process_loop u n i line st = Val (st', r) \<Longrightarrow>
   keeps st st' \<and> (r = -1 \<longrightarrow> cu_room (usr st' u) = -1)"
proof (induction u n i line st rule: process_loop.induct)
  case (1 u i line st)
  have "user_ok ((usr st u)\<lparr>cu_ibuf := line\<rparr>)"
    using chat_okD(6) [OF "1.prems"(1)] "1.prems"(2,3) by (simp add: active_def user_ok_def is_op_def)
  then have "keeps st (set_user u (\<lambda>v. v\<lparr>cu_ibuf := line\<rparr>) st)"
    using "1.prems" by (intro user_update_keeps) (auto simp: active_def is_op_def)
  then show ?case using "1.prems"(4) by auto
next
  case (2 u n i line st)
  let ?c = "chatbuf st ! i"
  show ?case
  proof (cases "?c = CR")
    case True
    then show ?thesis using "2.IH"(1) [OF refl True "2.prems"(1-3)] "2.prems"(4) by simp
  next
    case cr: False
    show ?thesis
    proof (cases "?c = LF")
      case True
      obtain s r' where e: "command_execute u (cstr line) st = Val (s, r')"
        using "2.prems"(4) cr True by (cases "command_execute u (cstr line) st") auto
      have l: "length (cstr line) \<le> 127"
        using "2.prems"(3) length_takeWhile_le [of _ line] unfolding cstr_def by (rule order_trans [rotated])
      have k: "keeps st s \<and> (r' = -1 \<longrightarrow> cu_room (usr s u) = -1)"
        by (rule command_execute_keeps [OF "2.prems"(1,2) l e])
      show ?thesis
      proof (cases "r' = -1")
        case t: True
        then show ?thesis using "2.prems"(4) cr True e k by auto
      next
        case f: False
        have a: "active u s" using keeps_active k "2.prems"(2) by blast
        have "keeps s st' \<and> (r = -1 \<longrightarrow> cu_room (usr st' u) = -1)"
          using "2.IH"(2) [OF refl cr True e refl f keeps_ok a] k "2.prems"(4) cr True e f by simp
        then show ?thesis using k keeps_trans by blast
      qed
    next
      case False
      show ?thesis
        using "2.IH"(3) [OF refl cr False "2.prems"(1,2)] "2.prems"(3,4) cr False by simp
    qed
  qed
qed

lemma process_chat_command_keeps:
  assumes "chat_ok st" "active u st" "length data \<le> 256" "process_chat_command u data st = Val (st', r)"
  shows "keeps st st' \<and> (r = -1 \<longrightarrow> cu_room (usr st' u) = -1)"
proof (cases "data = []")
  case True
  then show ?thesis
    using assms exit_room_keeps [OF assms(1,2)] by (auto simp: process_chat_command_def active_def)
next
  case False
  let ?s = "st\<lparr>chatbuf := data @ drop (length data) (chatbuf st)\<rparr>"
  have 1: "keeps st ?s"
    using assms(1,3) by (simp add: keeps_def chat_ok_def buf_ok_def socks_def)
  have "length (cu_ibuf (usr st u)) \<le> 127"
    using chat_okD(6) [OF assms(1)] assms(2) by (simp add: active_def user_ok_def)
  moreover have "process_loop u (length data) 0 (cu_ibuf (usr ?s u)) ?s = Val (st', r)"
    using assms(4) False unfolding process_chat_command_def Let_def by simp
  moreover have "active u ?s" using assms(2) by (simp add: active_def)
  ultimately have "keeps ?s st' \<and> (r = -1 \<longrightarrow> cu_room (usr st' u) = -1)"
    by (intro process_loop_keeps [OF keeps_ok [OF 1]]) auto
  then show ?thesis using keeps_trans [OF 1] by blast
qed

lemma logout_user_ok:
  assumes "chat_ok st" "u < length (users st)" "cu_room (usr st u) = -1"
  shows "chat_ok (logout_user u st)"
proof -
  have nop: "\<not> is_op (usr st u)" using chat_okD(6) [OF assms(1,2)] assms(3) by (auto simp: user_ok_def)
  have e: "user_ok empty_user" by (simp add: user_ok_def empty_user_def flags_ok_def is_op_def)
  have t: "tables_ok ((users st)[u := empty_user]) (rooms st)"
    using assms(3) by (intro tables_user_update0 [OF chat_okD(1) [OF assms(1)] assms(2) e])
      (auto simp: in_room_def op_of_def is_op_def empty_user_def)
  have "tables_ok us (map (\<lambda>cr. cr\<lparr>cr_invites := (cr_invites cr)[u := False]\<rparr>) rs)" if "tables_ok us rs" for us rs
    using that by (auto simp: tables_ok_def room_ok_def MAXROOM_def)
  from this [OF t] show ?thesis
    using assms(1) by (simp add: chat_ok_def logout_user_def buf_ok_def)
qed

lemma chat_accept_ok:
  assumes "chat_ok st" "fd \<noteq> -1"
  shows "chat_ok (chat_accept fd is_local h st)"
proof (cases "find (\<lambda>i. cu_sockfd (usr st i) = -1) [0..<length (users st)]")
  case None
  then show ?thesis using assms(1) unfolding chat_accept_def None by simp
next
  case (Some i)
  have i: "i < length (users st)" "cu_sockfd (usr st i) = -1" using find_Some_less [OF Some] by auto
  have uo: "user_ok (usr st i)" using chat_okD(6) [OF assms(1) i(1)] .
  then have nop: "\<not> is_op (usr st i)" using i(2) by (auto simp: user_ok_def)
  let ?v = "(usr st i)\<lparr>cu_host := if is_local then ''localhost'' else take 29 h, cu_sockfd := fd, cu_room := -1\<rparr>"
  have v: "user_ok ?v" using uo nop by (auto simp: user_ok_def is_op_def MAXROOM_def)
  have "tables_ok ((users st)[i := ?v]) (rooms st)"
    using nop i(2) by (intro tables_user_update0 [OF chat_okD(1) [OF assms(1)] i(1) v])
      (auto simp: in_room_def op_of_def is_op_def)
  then show ?thesis
    using assms(1) unfolding chat_accept_def Some option.case Let_def by (simp add: chat_ok_def buf_ok_def)
qed

lemma serve_users_ok:
  assumes "\<And>fd d. inp fd = Some d \<Longrightarrow> length d \<le> 256"
  shows "chat_ok st \<Longrightarrow> \<forall>i\<in>set js. i < length (users st) \<Longrightarrow> serve_users inp js st = Val st' \<Longrightarrow>
    chat_ok st' \<and> length (users st') = length (users st)"
  using assms
proof (induction inp js st rule: serve_users.induct)
  case (1 inp st)
  then show ?case by simp
next
  case (2 inp i js st)
  show ?case
  proof (cases "cu_sockfd (usr st i) = -1 \<or> inp (cu_sockfd (usr st i)) = None")
    case True
    then show ?thesis
      using 2 by (auto simp: Let_def split: if_splits)
  next
    case False
    then obtain d where d: "inp (cu_sockfd (usr st i)) = Some d" "cu_sockfd (usr st i) \<noteq> -1" by auto
    obtain s r where p: "process_chat_command i d st = Val (s, r)"
      using "2.prems"(3) d by (cases "process_chat_command i d st") auto
    have i: "i < length (users st)" using "2.prems"(2) by simp
    have k: "keeps st s \<and> (r = -1 \<longrightarrow> cu_room (usr s i) = -1)"
      using process_chat_command_keeps [OF "2.prems"(1) _ "2.prems"(4) [OF d(1)] p] d(2) i
      by (simp add: active_def)
    have len: "length (users s) = length (users st)" using k socks_users [of s st] by (simp add: keeps_def)
    let ?t = "if r = -1 then logout_user i s else s"
    have t: "chat_ok ?t" using k i len logout_user_ok by (auto simp: keeps_def)
    have lt: "length (users ?t) = length (users st)" using len by (simp add: logout_user_def)
    have sv: "serve_users inp js ?t = Val st'" using "2.prems"(3) d p by simp
    have js: "\<forall>i\<in>set js. i < length (users ?t)" using "2.prems"(2) lt by simp
    have "chat_ok st' \<and> length (users st') = length (users ?t)"
      by (rule "2.IH"(3) [OF refl d(2,1) p refl t js sv]) (rule "2.prems"(4))
    then show ?thesis using lt by simp
  qed
qed

definition turn_ok :: "turn \<Rightarrow> bool" where
  \<comment> \<open>what the kernel guarantees: descriptors are not negative, \<^verbatim>\<open>recv\<close> fills at most the buffer\<close>
  "turn_ok t \<longleftrightarrow> (\<forall>fd l h. t_accept t = Some (fd, l, h) \<longrightarrow> 0 \<le> fd)
     \<and> (\<forall>fd d. t_input t fd = Some d \<longrightarrow> length d \<le> 256)"

lemma chat_turn_ok:
  assumes "chat_ok st" "turn_ok t" "chat_turn t st = Val st'"
  shows "chat_ok st' \<and> length (users st') = length (users st)"
proof -
  let ?s = "st\<lparr>ready := t_ready t\<rparr>"
  let ?a = "case t_accept t of None \<Rightarrow> ?s | Some (fd, is_local, h) \<Rightarrow> chat_accept fd is_local h ?s"
  have s: "chat_ok ?s" using assms(1) by (simp add: chat_ok_def buf_ok_def)
  have a: "chat_ok ?a"
  proof (cases "t_accept t")
    case None
    then show ?thesis using s by simp
  next
    case (Some p)
    obtain fd l h where p: "p = (fd, l, h)" by (cases p)
    then have "0 \<le> fd" using assms(2) Some unfolding turn_ok_def by blast
    then have "fd \<noteq> -1" by simp
    then show ?thesis using chat_accept_ok [OF s] Some p by simp
  qed
  have len: "length (users ?a) = length (users st)"
    by (auto simp: chat_accept_def Let_def split: option.split)
  have "serve_users (t_input t) [0..<length (users ?a)] ?a = Val st'"
    using assms(3) unfolding chat_turn_def Let_def .
  then show ?thesis
    using serve_users_ok [of "t_input t" ?a "[0..<length (users ?a)]" st'] a len assms(2)
    by (auto simp: turn_ok_def)
qed

lemma chat_init_ok:
  assumes "MAXROOM \<le> n" "n < 32768"
  shows "chat_ok (chat_init n arg rdy sock)"
proof -
  have tl: "length topic_1 \<le> 42" "length topic_2 \<le> 42" by (simp_all add: text_len)
  have e: "user_ok (empty_user\<lparr>cu_room := 0\<rparr>)"
    by (simp add: user_ok_def empty_user_def flags_ok_def is_op_def)
  have f1: "filter (in_room i) (replicate n (empty_user\<lparr>cu_room := 0\<rparr>)) = []" for i
    by (auto simp: filter_empty_conv in_room_def empty_user_def)
  have f2: "filter (op_of i) (replicate n (empty_user\<lparr>cu_room := 0\<rparr>)) = []" for i
    by (auto simp: filter_empty_conv op_of_def is_op_def empty_user_def)
  show ?thesis
    using assms tl e
    by (auto simp: chat_ok_def chat_init_def Let_def tables_ok_def buf_ok_def f1 f2 MAXROOM_def room_ok_def
        nth_list_update mainroom_def dest!: set_update_subset_insert [THEN subsetD])
qed

inductive reachable :: "nat \<Rightarrow> chat \<Rightarrow> bool" for n where
  start: "reachable n (chat_init n arg rdy sock)"
| turn: "reachable n st \<Longrightarrow> turn_ok t \<Longrightarrow> chat_turn t st = Val st' \<Longrightarrow> reachable n st'"

lemma reachable_ok:
  "reachable n st \<Longrightarrow> MAXROOM \<le> n \<Longrightarrow> n < 32768 \<Longrightarrow> chat_ok st \<and> length (users st) = n"
proof (induction rule: reachable.induct)
  case (start arg rdy sock)
  then show ?case using chat_init_ok by (simp add: chat_init_def Let_def)
next
  case (turn st t st')
  then show ?case using chat_turn_ok by auto
qed

end
