(* ===== verification/ChatProps.thy ===== *)
theory ChatProps
  imports ChatInv
begin

text \<open>
  The properties of the chat server: what holds in every reachable state, what the commands do,
  and who receives what.
\<close>

section \<open>A state with two users in a room of their own\<close>

definition alice :: chatuser where
  "alice = \<lparr>cu_sockfd = 5, cu_utent = 100, cu_room = 1, cu_flags = or PERM_TALK PERM_OCHAT, cu_cloak = 0,
     cu_userid = ''alice'', cu_chatid = ''Alice'', cu_ibuf = [], cu_host = ''localhost''\<rparr>"

definition bob :: chatuser where
  "bob = \<lparr>cu_sockfd = 6, cu_utent = 101, cu_room = 1, cu_flags = PERM_TALK, cu_cloak = 0,
     cu_userid = ''bob'', cu_chatid = ''Bob'', cu_ibuf = [], cu_host = ''localhost''\<rparr>"

definition carol :: chatuser where
  "carol = \<lparr>cu_sockfd = 7, cu_utent = 102, cu_room = 0, cu_flags = PERM_TALK, cu_cloak = 0,
     cu_userid = ''carol'', cu_chatid = ''Carol'', cu_ibuf = [], cu_host = ''localhost''\<rparr>"

definition demo_room :: "string \<Rightarrow> int \<Rightarrow> u32 \<Rightarrow> chatroom" where
  "demo_room name occ fl = \<lparr>cr_name = name, cr_occupants = occ, cr_flags = fl,
     cr_invites = replicate 32 False, cr_topic = []\<rparr>"

definition demo :: chat where
  "demo = \<lparr>users = [alice, bob, carol] @ replicate 29 empty_user,
     rooms = [demo_room mainroom 1 0, demo_room ''tea'' 2 ROOM_LOCKED] @ replicate 30 (demo_room [] 0 0),
     chatbuf = replicate 256 NUL, outp = [], ready = (\<lambda>_. True), nfds = 8, num_conns = 3,
     chatport = CHATPORT1, maintopic = []\<rparr>"

lemma demo_users [simp]:
  "users demo = [alice, bob, carol] @ replicate 29 empty_user" "length (users demo) = 32"
  "usr demo 0 = alice" "usr demo (Suc 0) = bob" "usr demo 2 = carol"
  by (simp_all add: demo_def)

lemma demo_rooms [simp]:
  "rooms demo = [demo_room mainroom 1 0, demo_room ''tea'' 2 ROOM_LOCKED] @ replicate 30 (demo_room [] 0 0)"
  "rooms demo ! 0 = demo_room mainroom 1 0" "rooms demo ! Suc 0 = demo_room ''tea'' 2 ROOM_LOCKED"
  by (simp_all add: demo_def)

lemma demo_user_ok: "user_ok alice" "user_ok bob" "user_ok carol" "user_ok empty_user"
  by (auto simp: user_ok_def alice_def bob_def carol_def empty_user_def flags_ok_def is_op_def MAXROOM_def c_defs)

lemma demo_in_room:
  "filter (in_room r) (users demo) = (if r = 1 then [alice, bob] else if r = 0 then [carol] else [])"
  by (auto simp: in_room_def alice_def bob_def carol_def empty_user_def filter_empty_conv)

lemma demo_ops: "filter (op_of r) (users demo) = (if r = 1 then [alice] else [])"
  by (auto simp: op_of_def is_op_def alice_def bob_def carol_def empty_user_def c_defs filter_empty_conv)

lemma demo_occupants:
  "i < MAXROOM \<Longrightarrow> cr_occupants (rooms demo ! i) = (if i = 1 then 2 else if i = 0 then 1 else 0)"
  by (auto simp: demo_def demo_room_def MAXROOM_def nth_Cons' nth_append)

lemma demo_ok: "chat_ok demo"
proof -
  have "tables_ok (users demo) (rooms demo)"
    unfolding tables_ok_def demo_in_room demo_ops
    using demo_occupants demo_user_ok
    by (auto simp: MAXROOM_def room_ok_def demo_room_def mainroom_def)
  then show ?thesis by (simp add: chat_ok_def buf_ok_def demo_def)
qed

lemma demo_active: "active 0 demo" "active (Suc 0) demo" "active 2 demo"
  by (simp_all add: active_def alice_def bob_def carol_def)

section \<open>Reachable states\<close>







text \<open>A turn that accepts a connection gives a reachable state with an active user.\<close>

definition one_conn :: turn where
  "one_conn = \<lparr>t_ready = (\<lambda>_. True), t_accept = Some (4, True, []), t_input = (\<lambda>_. None)\<rparr>"

lemma serve_nothing: "(\<And>fd. inp fd = None) \<Longrightarrow> serve_users inp js st = Val st"
  by (induction inp js st rule: serve_users.induct) (auto simp: Let_def)

lemma one_conn_state:
  "\<exists>st. reachable 32 st \<and> active 0 st"
proof -
  let ?s0 = "chat_init 32 1 (\<lambda>_. True) 3"
  let ?s1 = "chat_accept 4 True [] (?s0\<lparr>ready := \<lambda>_. True\<rparr>)"
  have t: "chat_turn one_conn ?s0 = Val ?s1"
    by (simp add: chat_turn_def one_conn_def serve_nothing)
  have "reachable 32 ?s1"
    by (rule reachable.turn [OF reachable.start _ t]) (simp add: turn_ok_def one_conn_def)
  moreover have "active 0 ?s1"
    by (simp add: active_def chat_accept_def chat_init_def Let_def empty_user_def upt_rec [of 0] set_user_def)
  ultimately show ?thesis by blast
qed

text \<open>Nobody can broadcast or hide: since a login only takes the talk bit over, in every reachable
  state the wall command is refused and the cloak command does nothing, for every user.\<close>

theorem wall_and_cloak_unreachable:
  assumes "reachable n st" and "MAXROOM \<le> n" and "n < 32768" and "active u st"
  shows "chat_broadcast u msg st = send_to_unum u txt_no_shouting st \<and> chat_cloak u msg st = st"
  using reachable_ok [OF assms(1-3)] chat_broadcast_refused chat_cloak_idle assms(4) by blast

theorem wall_and_cloak_unreachable_witness:
  "\<exists>st. chat_broadcast 0 ''hi'' st = send_to_unum 0 txt_no_shouting st \<and> chat_cloak 0 [] st = st"
proof -
  obtain st where st: "reachable 32 st" "active 0 st" using one_conn_state by blast
  have "chat_broadcast 0 ''hi'' st = send_to_unum 0 txt_no_shouting st"
    using wall_and_cloak_unreachable [OF st(1) _ _ st(2), of "''hi''"] by (simp add: MAXROOM_def)
  moreover have "chat_cloak 0 [] st = st"
    using wall_and_cloak_unreachable [OF st(1) _ _ st(2), of "[]"] by (simp add: MAXROOM_def)
  ultimately show ?thesis by blast
qed

section \<open>Rooms\<close>

text \<open>Renaming a room tells everybody in it the new name but changes no room: the name is copied
  with the size 0 of the constant \<open>IDLE\<close>.\<close>

theorem chat_rename_changes_nothing:
  assumes "NUL \<notin> set (cr_name (room st (cu_room (usr st u))))"
    and "length (cr_name (room st (cu_room (usr st u)))) < IDLEN"
  shows "users (chat_rename u msg st) = users st \<and> rooms (chat_rename u msg st) = rooms st"
proof -
  let ?r = "room st (cu_room (usr st u))"
  obtain k where k: "IDLEN - length (cr_name ?r) = Suc k"
    using assms(2) by (metis Suc_diff_Suc)
  have "cstr (fst (strlcpy (cr_name ?r @ replicate (IDLEN - length (cr_name ?r)) NUL) msg IDLE)) = cr_name ?r"
    using assms(1) by (simp add: strlcpy_def IDLE_def k)
  then show ?thesis by (simp add: chat_rename_def Let_def)
qed

theorem chat_rename_changes_nothing_witness:
  "rooms (chat_rename 0 ''coffee'' demo) = rooms demo \<and> ROOMOP demo 0"
  using chat_rename_changes_nothing [of demo 0 "''coffee''"]
  by (simp add: alice_def demo_room_def IDLEN_def ROOMOP_def c_defs)

lemma find_room_old: "roomid_to_indx r st = i \<Longrightarrow> i \<noteq> -1 \<Longrightarrow> find_room u r st = Some (st, i, False)"
  by (simp add: find_room_def)

lemma enter_messages_tables [simp]:
  "users (enter_messages u i r st) = users st" "rooms (enter_messages u i r st) = rooms st"
  using enter_messages_quiet [of st u i r st] unfolding quiet_def by simp_all

lemma exit_flags_idem: "and (and f (not PERM_OCHAT)) (not PERM_OCHAT) = and (f :: u32) (not PERM_OCHAT)"
  by (simp add: and.assoc)

lemma join_existing_room_aux:
  assumes "chat_ok st" "active u st" "roomid_to_indx r st = i" "i \<noteq> -1"
  shows "if LOCKED st i \<and> \<not> cr_invites (room st i) ! u
    then enter_room u r msg st = send_to_unum u txt_room_locked st
    else users (enter_room u r msg st) = (users st)[u := (usr st u)\<lparr>cu_room := i,
           cu_flags := and (cu_flags (usr st u)) (not PERM_OCHAT)\<rparr>]
       \<and> \<not> cr_invites (room (enter_room u r msg st) i) ! u"
proof -
  have u: "u < length (users st)" using assms(2) by (simp add: active_def)
  have ns: "\<not> SYSOP st u" by (rule not_sysop [OF assms(1) u])
  have i: "0 \<le> i" "nat i < MAXROOM" using roomid_range [of r st] assms(3,4) by auto
  let ?s = "enter_tables u i False (exit_room u EXIT_LOGOUT msg st)"
  have e: "enter_room u r msg st = (if LOCKED st i \<and> \<not> cr_invites (room st i) ! u
      then send_to_unum u txt_room_locked st else enter_messages u i r ?s)"
    using find_room_old [OF assms(3,4)] ns by (simp add: enter_room_eq)
  have us: "users ?s = (users st)[u := (usr st u)\<lparr>cu_room := i,
           cu_flags := and (cu_flags (usr st u)) (not PERM_OCHAT)\<rparr>]"
    using u by (simp add: enter_tables_user)
  have "nat i < length (rooms (exit_room u EXIT_LOGOUT msg st))"
    using i chat_okD(4) [OF assms(1)] by simp
  moreover have "length (cr_invites (room (exit_room u EXIT_LOGOUT msg st) i)) = length (users st)"
    using chat_okD(7) [OF exit_room_ok [OF assms(1) u], of "nat i"] i assms(2)
    by (simp add: room_ok_def active_def)
  ultimately have "\<not> cr_invites (room ?s i) ! u"
    using u by (simp add: enter_tables_room)
  then show ?thesis using us by (simp add: e)
qed




text \<open>Opening a new room. A user with the talk permission who names a room that does not exist
  gets the first empty one, unlocked and without invitations, and is its operator.\<close>

theorem open_new_room:
  assumes "chat_ok st" and "active u st" and "roomid_to_indx r st = -1" and "\<not> OUTSIDER st u"
    and "find (\<lambda>i. cr_occupants (rooms st ! i) = 0) [1..<MAXROOM] = Some i"
  shows "users (enter_room u r msg st) = (users st)[u := (usr st u)\<lparr>cu_room := int i,
           cu_flags := or (and (cu_flags (usr st u)) (not PERM_OCHAT)) PERM_OCHAT\<rparr>]
    \<and> ROOMOP (enter_room u r msg st) u
    \<and> cr_name (rooms (enter_room u r msg st) ! i) = take 10 r
    \<and> cr_flags (rooms (enter_room u r msg st) ! i) = 0"
proof -
  have u: "u < length (users st)" using assms(2) by (simp add: active_def)
  have i: "0 < i" "i < MAXROOM" "i < length (rooms st)"
    using find_Some_less [OF assms(5)] chat_okD(4) [OF assms(1)] by auto
  let ?s0 = "set_room (int i) (\<lambda>cr. cr\<lparr>cr_invites := replicate (length (users st)) False,
      cr_topic := maintopic st, cr_name := take (IDLEN - 2) r, cr_flags := 0\<rparr>) st"
  have f: "find_room u r st = Some (?s0, int i, True)"
    unfolding find_room_def Let_def assms(3,5) using assms(4) by simp
  have nl: "\<not> LOCKED ?s0 (int i)" using i by (simp add: LOCKED_def)
  let ?s = "enter_tables u (int i) True (exit_room u EXIT_LOGOUT msg ?s0)"
  have e: "enter_room u r msg st = enter_messages u (int i) r ?s"
    using nl by (simp add: enter_room_eq f)
  have us: "users ?s = (users st)[u := (usr st u)\<lparr>cu_room := int i,
           cu_flags := or (and (cu_flags (usr st u)) (not PERM_OCHAT)) PERM_OCHAT\<rparr>]"
    using u by (simp add: enter_tables_user)
  have fl: "flags_ok (cu_flags (usr st u))" using chat_okD(6) [OF assms(1) u] by (simp add: user_ok_def)
  have "ROOMOP (enter_messages u (int i) r ?s) u"
    using flags_is_op [OF flags_ok_mask [OF fl]] us u by (simp add: ROOMOP_def)
  moreover have "cr_name (rooms ?s ! i) = take 10 r" "cr_flags (rooms ?s ! i) = 0"
    using i by (auto simp: enter_tables_room IDLEN_def nth_list_update)
  ultimately show ?thesis using us by (simp add: e)
qed

lemma demo_free: "find (\<lambda>i. cr_occupants (rooms demo ! i) = 0) [1..<MAXROOM] = Some 2"
  by (simp add: MAXROOM_def upt_rec [of "Suc 0"] upt_rec [of "Suc (Suc 0)"] demo_room_def)

lemma not_cafe: "\<not> strcasecmp_eq ''cafe'' mainroom" "\<not> strcasecmp_eq ''cafe'' ''tea''"
  by code_simp+

lemma demo_cafe: "roomid_to_indx ''cafe'' demo = -1"
proof -
  have "\<not> (\<not> (i \<noteq> 0 \<and> cr_occupants (rooms demo ! i) = 0) \<and> strcasecmp_eq ''cafe'' (cr_name (rooms demo ! i)))"
    if "i < MAXROOM" for i
  proof (cases "i = 0 \<or> i = 1")
    case True
    then show ?thesis using not_cafe by (auto simp: demo_room_def)
  next
    case False
    then show ?thesis using demo_occupants [OF that] by simp
  qed
  then have "find (\<lambda>i. \<not> (i \<noteq> 0 \<and> cr_occupants (rooms demo ! i) = 0)
      \<and> strcasecmp_eq ''cafe'' (cr_name (rooms demo ! i))) [0..<MAXROOM] = None"
    unfolding find_None_iff by auto
  then show ?thesis by (simp only: roomid_to_indx_def option.case)
qed

theorem open_new_room_witness:
  "ROOMOP (enter_room 2 ''cafe'' None demo) 2 \<and> cr_name (rooms (enter_room 2 ''cafe'' None demo) ! 2) = ''cafe''"
  using open_new_room [OF demo_ok demo_active(3) demo_cafe _ demo_free, of None]
  by (simp add: OUTSIDER_def carol_def c_defs)

lemma main_index: "chat_ok st \<Longrightarrow> roomid_to_indx mainroom st = 0"
  using chat_okD(1) [of st]
  by (simp add: roomid_to_indx_def MAXROOM_def upt_rec [of 0] strcasecmp_eq_def tables_ok_def)

text \<open>An operator who kicks a user of his room sends that user, stripped of the operator bit,
  to the main room; no other user's record changes, and the connection is kept.\<close>

theorem kick_sends_to_main:
  assumes "chat_ok st" and "active u st" and "ROOMOP st u"
    and "chatid_to_indx u (fst (nextword msg)) st = int v" and "cu_room (usr st v) = cu_room (usr st u)"
  shows "users (chat_kick u msg st) = (users st)[v := (usr st v)\<lparr>cu_room := 0,
           cu_flags := and (cu_flags (usr st v)) (not PERM_OCHAT)\<rparr>]"
proof -
  let ?s = "exit_room v EXIT_KICK None st"
  have u: "u < length (users st)" using assms(2) by (simp add: active_def)
  have v: "v < length (users st)" "active v st"
    using chatid_to_indx_range [of u "fst (nextword msg)" st] assms(4) by (auto simp: active_def)
  have k: "keeps st ?s" by (rule exit_room_keeps [OF assms(1) v(2)])
  have ok: "chat_ok ?s" by (rule keeps_ok [OF k])
  have nz: "cu_room (usr st u) \<noteq> 0" using op_room [OF assms(1) u assms(3)] by auto
  have "cr_flags (rooms ?s ! 0) = 0" using chat_okD(1) [OF ok] by (simp add: tables_ok_def)
  then have nl: "\<not> LOCKED ?s 0" by (simp add: LOCKED_def)
  have av: "active v ?s" using keeps_active [OF k] v(2) by simp
  have "users (enter_room v mainroom None ?s) = (users ?s)[v := (usr ?s v)\<lparr>cu_room := 0,
           cu_flags := and (cu_flags (usr ?s v)) (not PERM_OCHAT)\<rparr>]"
    using join_existing_room_aux [OF ok av main_index [OF ok]] nl by (simp split: if_splits)
  then show ?thesis
    using assms(3-5) nz v(1) by (simp add: chat_kick_def Let_def exit_flags_idem)
qed

text \<open>An operator who makes another user of the room operator hands the right over: the other
  has it afterwards and he does not, and nothing else changes in the two tables.\<close>

theorem makeop_hands_over:
  assumes "chat_ok st" and "active u st" and "ROOMOP st u" and "v \<noteq> u"
    and "chatid_to_indx u (fst (nextword msg)) st = int v" and "cu_room (usr st v) = cu_room (usr st u)"
  shows "ROOMOP (chat_makeop u msg st) v \<and> \<not> ROOMOP (chat_makeop u msg st) u
    \<and> (\<forall>w. w \<noteq> u \<longrightarrow> w \<noteq> v \<longrightarrow> usr (chat_makeop u msg st) w = usr st w)
    \<and> rooms (chat_makeop u msg st) = rooms st"
proof -
  have u: "u < length (users st)" using assms(2) by (simp add: active_def)
  have v: "v < length (users st)"
    using chatid_to_indx_range [of u "fst (nextword msg)" st] assms(5) by simp
  have fl: "flags_ok (cu_flags (usr st u))" "flags_ok (cu_flags (usr st v))"
    using chat_okD(6) [OF assms(1)] u v by (auto simp: user_ok_def)
  have us: "users (chat_makeop u msg st) = (users st)
      [u := (usr st u)\<lparr>cu_flags := and (cu_flags (usr st u)) (not PERM_OCHAT)\<rparr>,
       v := (usr st v)\<lparr>cu_flags := or (cu_flags (usr st v)) PERM_OCHAT\<rparr>]"
    and rs: "rooms (chat_makeop u msg st) = rooms st"
    using assms(3-6) by (simp_all add: chat_makeop_def Let_def)
  show ?thesis
    using us rs u v assms(4) flags_not_op [OF fl(1)] flags_is_op [OF fl(2)] by (simp add: ROOMOP_def)
qed

lemma demo_names: "strcasecmp_eq ''bob'' ''Bob''" "\<not> strcasecmp_eq ''bob'' ''Alice''"
  by code_simp+

lemma demo_bob: "chatid_to_indx 0 (fst (nextword ''bob'')) demo = int 1"
proof -
  have "find (\<lambda>i. cu_sockfd (usr demo i) \<noteq> -1 \<and> strcasecmp_eq ''bob'' (cu_chatid (usr demo i))
      \<and> (cu_cloak (usr demo i) = 0 \<or> \<not> CLOAK demo 0)) [0..<length (users demo)] = Some 1"
    using demo_names by (simp add: upt_rec [of 0] upt_rec [of "Suc 0"] alice_def bob_def)
  moreover have "fst (nextword ''bob'') = ''bob''"
    by (simp add: nextword_def Isspace_def)
  ultimately show ?thesis by (simp only: chatid_to_indx_def option.case)
qed

lemma demo_alice_op: "ROOMOP demo 0"
  by (simp add: ROOMOP_def alice_def c_defs)

theorem kick_sends_to_main_witness:
  "cu_room (usr (chat_kick 0 ''bob'' demo) 1) = 0 \<and> usr (chat_kick 0 ''bob'' demo) 0 = alice"
  using kick_sends_to_main [OF demo_ok demo_active(1) demo_alice_op demo_bob]
  by (simp add: alice_def bob_def)

theorem makeop_hands_over_witness:
  "ROOMOP (chat_makeop 0 ''bob'' demo) 1 \<and> \<not> ROOMOP (chat_makeop 0 ''bob'' demo) 0"
  using makeop_hands_over [OF demo_ok demo_active(1) demo_alice_op _ demo_bob]
  by (simp add: alice_def bob_def)

section \<open>Messages\<close>

lemma cstr_written: "NUL \<notin> set s \<Longrightarrow> cstr (chatbuf (buf_write 0 s st)) = s"
  by (simp add: buf_write_def)

lemma cstr_cat:
  assumes "NUL \<notin> set s" "cstr (chatbuf st) = t" "NUL \<notin> set t"
  shows "cstr (chatbuf (buf_cat s st)) = t @ s"
proof -
  have "take (length t) (chatbuf st) = t"
    using assms(2) unfolding cstr_def by (metis takeWhile_eq_take length_takeWhile_le takeWhile_dropWhile_id append_eq_conv_conj)
  then have "chatbuf (buf_cat s st) = (t @ s) @ NUL # drop (Suc (length t + length s)) (chatbuf st)"
    using assms(2) by (simp add: buf_cat_def buf_write_def)
  then show ?thesis using assms(1,3) by (simp only:) (rule cstr_append_NUL, simp)
qed

text \<open>A line of talk goes out, behind the speaker's name padded to ten characters, on exactly the
  writable sockets of the users in the speaker's room that are in the first 32 slots of the
  user table: the loop over the users stops at the number of rooms.\<close>

theorem talk_recipients:
  assumes "msg \<noteq> []" and "NUL \<notin> set msg" and "NUL \<notin> set (cu_chatid (usr st u))"
    and "cu_room (usr st u) \<noteq> ROOM_ALL"
  shows "outp (chat_allmsg u msg st) = outp st
    @ map (\<lambda>fd. (fd, pad_right 10 (cu_chatid (usr st u) @ '':'') @ msg))
        (filter (\<lambda>fd. ready st fd \<and> (\<exists>v\<in>set (take MAXROOM (users st)).
                   cu_sockfd v = fd \<and> fd \<noteq> -1 \<and> cu_room v = cu_room (usr st u))) [0..nfds st - 1])"
proof -
  let ?p = "pad_right 10 (cu_chatid (usr st u) @ '':'')"
  have np: "NUL \<notin> set ?p" using assms(3) by (auto simp: pad_right_def)
  have "cstr (chatbuf (buf_cat msg (put_chatid u st))) = ?p @ msg"
    unfolding put_chatid_def by (rule cstr_cat [OF assms(2) cstr_written [OF np] np])
  moreover have "outp (send_to_room r s st') = outp st
      @ map (\<lambda>fd. (fd, s)) (filter (\<lambda>fd. ready st fd \<and> (\<exists>v\<in>set (take MAXROOM (users st)).
          cu_sockfd v = fd \<and> fd \<noteq> -1 \<and> cu_room v = r)) [0..nfds st - 1])"
    if "r \<noteq> ROOM_ALL" "outp st' = outp st" "users st' = users st" "ready st' = ready st" "nfds st' = nfds st" for r s st'
    using that
    by (simp add: send_to_room_def do_send_def)
      (rule arg_cong [where f = "map (\<lambda>i. (i, s))"], rule filter_cong, auto)
  moreover have "outp (buf_cat msg (put_chatid u st)) = outp st" "users (buf_cat msg (put_chatid u st)) = users st"
    "ready (buf_cat msg (put_chatid u st)) = ready st" "nfds (buf_cat msg (put_chatid u st)) = nfds st"
    by (simp_all add: print_defs)
  ultimately show ?thesis
    using assms(1,4) by (simp add: chat_allmsg_def Let_def)
qed

theorem talk_recipients_witness:
  "outp (chat_allmsg 0 ''hi'' demo) = [(5, ''Alice:    hi''), (6, ''Alice:    hi'')]"
proof -
  have "filter (\<lambda>fd. ready demo fd \<and> (\<exists>v\<in>set (take MAXROOM (users demo)).
      cu_sockfd v = fd \<and> fd \<noteq> -1 \<and> cu_room v = cu_room (usr demo 0))) [0..nfds demo - 1] = [5, 6]"
    by (simp add: MAXROOM_def upto_rec1 demo_def alice_def bob_def carol_def empty_user_def)
  then show ?thesis
    using talk_recipients [of "''hi''" demo 0]
    by (simp add: alice_def demo_def pad_right_def ROOM_ALL_def numeral_eq_Suc)
qed

section \<open>Input\<close>

definition plain :: "string \<Rightarrow> bool" where
  "plain l \<longleftrightarrow> CR \<notin> set l \<and> LF \<notin> set l"

lemma process_loop_text:
  "plain l \<Longrightarrow> length line + length l \<le> 127 \<Longrightarrow> take (length l) (drop i (chatbuf st)) = l \<Longrightarrow>
   process_loop u (length l + n) i line st = process_loop u n (i + length l) (line @ l) st"
proof (induction l arbitrary: i line)
  case Nil
  then show ?case by simp
next
  case (Cons c l)
  have d: "drop i (chatbuf st) = c # drop (Suc i) (chatbuf st)" "chatbuf st ! i = c"
    using Cons.prems(3) by (cases "drop i (chatbuf st)"; simp add: drop_Suc nth_via_drop tl_drop [symmetric])+
  have "process_loop u (length l + n) (Suc i) (line @ [c]) st
      = process_loop u n (Suc i + length l) ((line @ [c]) @ l) st"
    using Cons.prems d by (intro Cons.IH) (auto simp: plain_def)
  moreover have "c \<noteq> CR" "c \<noteq> LF" using Cons.prems(1) by (auto simp: plain_def)
  ultimately show ?case using Cons.prems(2) d(2) by simp
qed



text \<open>The second of two lines that arrive together is lost: executing the first one writes over
  the buffer that the second is read from. Here a user says something and leaves, in one packet:
  the server takes bytes of its own message for the rest of the input, and the user stays.\<close>

theorem second_line_lost:
  assumes "chat_ok st" and "active u st" and "cu_room (usr st u) \<noteq> -1" and "cu_ibuf (usr st u) = []"
    and "plain (cu_chatid (usr st u))" and "NUL \<notin> set (cu_chatid (usr st u))"
  shows "\<exists>st'. process_chat_command u (''a'' @ [LF] @ ''/bye'' @ [LF]) st = Val (st', 0)
    \<and> cu_room (usr st' u) = cu_room (usr st u)
    \<and> cu_ibuf (usr st' u) = take 5 (drop 2 (pad_right 10 (cu_chatid (usr st u) @ '':'')))"
proof -
  let ?data = "''a'' @ [LF] @ ''/bye'' @ [LF]"
  let ?s = "st\<lparr>chatbuf := ?data @ drop 7 (chatbuf st)\<rparr>"
  let ?p = "pad_right 10 (cu_chatid (usr st u) @ '':'')"
  let ?l = "take 5 (drop 2 ?p)"
  let ?t = "chat_allmsg u ''a'' ?s"
  have u: "u < length (users st)" using assms(2) by (simp add: active_def)
  have lp: "length ?p = 10" using user_sizes(1) [OF assms(1) u] by simp
  have np: "NUL \<notin> set ?p" using assms(6) by (auto simp: pad_right_def)
  have us: "users ?t = users st" by (simp add: chat_allmsg_def Let_def)
  have off: "length (cstr (chatbuf (put_chatid u ?s))) = 10"
    using cstr_written [OF np, of ?s] lp by (simp add: put_chatid_def del: length_pad_right)
  have "take 10 (chatbuf (put_chatid u ?s)) = ?p"
    using lp by (simp add: put_chatid_def buf_write_def del: length_pad_right)
  then have p10: "take 10 (chatbuf ?t) = ?p"
    using off user_sizes(1) [OF assms(1) u] by (simp add: chat_allmsg_def Let_def buf_cat_def buf_write_def min_def)
  have "?l = take 5 (drop 2 (take 10 (chatbuf ?t)))" by (simp only: p10)
  also have "\<dots> = take 5 (drop 2 (chatbuf ?t))" by (simp add: drop_take)
  finally have l5: "?l = take 5 (drop 2 (chatbuf ?t))" .
  have ll: "length ?l = 5" using lp by (simp del: length_pad_right)
  have buf: "take (length ?l) (drop 2 (chatbuf ?t)) = ?l" unfolding ll by (rule l5 [symmetric])
  have pl: "plain ?l"
    using assms(5) by (auto simp: plain_def pad_right_def dest!: in_set_takeD in_set_dropD)
  have "process_loop u (Suc 6) 0 [] ?s = process_loop u (Suc 5) (Suc 0) ''a'' ?s"
    by (subst process_loop.simps) (simp add: Let_def)
  also have "\<dots> = process_loop u 5 (Suc (Suc 0)) [] ?t"
    using assms(3) by (subst process_loop.simps) (simp add: command_execute_def cstr_def Let_def)
  also have "\<dots> = process_loop u 5 2 [] ?t" by (simp add: numeral_2_eq_2)
  also have "\<dots> = process_loop u 0 (2 + length ?l) ([] @ ?l) ?t"
    using process_loop_text [OF pl _ buf, of "[]" u 0] ll by simp
  finally have run: "process_loop u (Suc 6) 0 [] ?s = Val (set_user u (\<lambda>v. v\<lparr>cu_ibuf := ?l\<rparr>) ?t, 0)"
    by simp
  have pc: "process_chat_command u d st
      = process_loop u (length d) 0 (cu_ibuf (usr st u)) (st\<lparr>chatbuf := d @ drop (length d) (chatbuf st)\<rparr>)"
    if "d \<noteq> []" for d
    using that by (simp add: process_chat_command_def)
  have "length ?data = Suc 6" "Suc 6 = (7 :: nat)" by simp_all
  then have "process_chat_command u ?data st = Val (set_user u (\<lambda>v. v\<lparr>cu_ibuf := ?l\<rparr>) ?t, 0)"
    using pc [of ?data] run assms(4) by (simp only: list.distinct append_is_Nil_conv) simp
  then show ?thesis using u us by (intro exI) (rule conjI, assumption, simp)
qed

theorem second_line_lost_witness:
  "\<exists>st'. process_chat_command 2 (''a'' @ [LF] @ ''/bye'' @ [LF]) demo = Val (st', 0)
    \<and> cu_room (usr st' 2) = 0 \<and> cu_ibuf (usr st' 2) = ''rol: ''"
  using second_line_lost [OF demo_ok demo_active(3)]
  by (simp add: carol_def plain_def pad_right_def numeral_eq_Suc)

end
