(* ===== verification/Spec2Isabelle.thy ===== *)
theory Spec2Isabelle
  imports Prelude CStrings HashTable ReadMarks UserCache Screen TermOutput TermInput Records Boards Posting UserInfo MimeHeader WebRequest Editor ChatProps
begin

text \<open>
  A model of the core of the fdubbs bulletin board server: the C library every program of the system
  links against (\<^verbatim>\<open>lib\<close>) with its strings, tables, files, users, boards, articles and mail; of the
  session program (\<^verbatim>\<open>src\<close>) the terminal (\<^verbatim>\<open>screen.c\<close>, \<^verbatim>\<open>io.c\<close>, \<^verbatim>\<open>convert.c\<close>), the editor
  (\<^verbatim>\<open>edit.c\<close>) and the bans and invitations of the board managers (\<^verbatim>\<open>deny.c\<close>, \<^verbatim>\<open>bm.c\<close>); the chat
  server (\<^verbatim>\<open>station.c\<close>); and what the web programs share (\<^verbatim>\<open>www/libweb.c\<close>).

  \<^bold>\<open>The system.\<close> Each login runs one \<^verbatim>\<open>bbsd\<close> process. It talks telnet to its user: what it shows goes
  from \<^verbatim>\<open>screen.c\<close> (a picture of the terminal, brought up to date by \<open>refresh\<close>) to the output half of
  \<^verbatim>\<open>io.c\<close> (a buffer in front of the socket, with code conversion by \<^verbatim>\<open>convert.c\<close>), and what is typed
  comes in through the other half of \<^verbatim>\<open>io.c\<close> (bytes, keys, edited lines). The processes share the user
  tables of \<^verbatim>\<open>ucache.c\<close> and the board table of \<^verbatim>\<open>brdcache.c\<close>, and the files: texts, and files of
  fixed-size records (the index of a board or a mailbox), which they lock. A text is written in the
  editor, becomes an article by \<^verbatim>\<open>post.c\<close> or a mail by \<^verbatim>\<open>mail.c\<close>, gets a number from the board table and
  a header in the index, and is marked as read for its author in the marks of \<^verbatim>\<open>boardrc.c\<close>. Who may
  read and write a board follows from the permissions of the user, the club members and the bans. The
  chat server is a process of its own that the sessions connect to.

  \<^bold>\<open>Theories.\<close>
  \<^item> \<^verbatim>\<open>Prelude\<close>: bytes of C strings, the C library calls the sources make (character classes, atoi,
    printing of integers), undefined behaviour as a value \<open>UB\<close> beside \<open>Val\<close>, list lemmas.
  \<^item> \<^verbatim>\<open>CStrings\<close>: \<^verbatim>\<open>lib/string.c\<close>. What each routine computes against its obvious specification, within
    the bounds of the destination; where the code differs from its comment, a theorem says so.
  \<^item> \<^verbatim>\<open>HashTable\<close>: \<^verbatim>\<open>lib/hash.c\<close>, the chained table with an entry pool, refined to a finite map through
    a locale of maps interpreted on it; iteration visits every entry once.
  \<^item> \<^verbatim>\<open>ReadMarks\<close>: \<^verbatim>\<open>lib/boardrc.c\<close>, the list of the newest articles a user has read, its file format and
    the pending record of the current board.
  \<^item> \<^verbatim>\<open>UserCache\<close>: \<^verbatim>\<open>lib/ucache.c\<close> with \<open>kick_web_user\<close>, \<open>bbskill\<close> of \<^verbatim>\<open>lib/stuffs.c\<close> and the mode tests of
    \<^verbatim>\<open>lib/modetype.c\<close>: the accounts hashed in doubly linked chains refine a directory of names (locale
    \<open>name_directory\<close>), the table of sessions and the counts kept with it.
  \<^item> \<^verbatim>\<open>UserInfo\<close>: \<^verbatim>\<open>lib/uinfo.c\<close>, what is computed from an account: the bars and titles, the days since a
    date (against a calendar that goes from day to day), the positions a user holds.
  \<^item> \<^verbatim>\<open>FileIO\<close>: \<^verbatim>\<open>lib/fileio.c\<close> and \<^verbatim>\<open>lib/mmap.c\<close>: descriptors, locks, mapped files; \<open>safer_write\<close> writes
    everything however the kernel splits it.
  \<^item> \<^verbatim>\<open>Records\<close>: \<^verbatim>\<open>lib/record.c\<close>: any sequence of calls on a file of records refines the operations on a
    list; insertion by key keeps the order.
  \<^item> \<^verbatim>\<open>TextFiles\<close>: the paths and the line-by-line file routines of \<^verbatim>\<open>lib/stuffs.c\<close>.
  \<^item> \<^verbatim>\<open>Permissions\<close>: the permission bits and the board rights of \<^verbatim>\<open>lib/board.c\<close> and \<^verbatim>\<open>lib/goodbrd.c\<close>.
  \<^item> \<^verbatim>\<open>Boards\<close>: \<^verbatim>\<open>lib/brdcache.c\<close>, \<^verbatim>\<open>src/deny.c\<close>, \<^verbatim>\<open>src/bm.c\<close>: the board table, the numbers of articles, bans and
    club members, and what they do to the right to read and post.
  \<^item> \<^verbatim>\<open>Posting\<close>: \<^verbatim>\<open>lib/post.c\<close> and \<^verbatim>\<open>lib/mail.c\<close>: where an article or a mail ends up, composed of the files,
    the records, the board table and the read marks.
  \<^item> \<^verbatim>\<open>MimeHeader\<close>: \<^verbatim>\<open>lib/mmdecode.c\<close>, encoded words of mail headers: what is encoded is decoded to itself, and
    never to something longer.
  \<^item> \<^verbatim>\<open>WebRequest\<close>: \<^verbatim>\<open>www/libweb.c\<close>: a query is parsed to its pairs, up to the 256 there is room for; what
    is written as XML opens no tag and reads back.
  \<^item> \<^verbatim>\<open>Screen\<close>: all of \<^verbatim>\<open>src/screen.c\<close>. No sequence of calls writes outside a line; \<open>prints\<close> shows what a
    direct definition of its formats renders.
  \<^item> \<^verbatim>\<open>TermOutput\<close>: \<^verbatim>\<open>output\<close>, \<^verbatim>\<open>ochar\<close>, \<^verbatim>\<open>oflush\<close> of \<^verbatim>\<open>src/io.c\<close> and \<^verbatim>\<open>src/convert.c\<close>: the bytes sent are the
    bytes asked for, in order, also with conversion; the one overrun there is.
  \<^item> \<^verbatim>\<open>TermInput\<close>: \<^verbatim>\<open>get_raw_ch\<close> to \<^verbatim>\<open>igetkey\<close> and \<^verbatim>\<open>getdata\<close>: keys do not depend on packets, the edited
    line stays in its buffer.
  \<^item> \<^verbatim>\<open>Editor\<close>: \<^verbatim>\<open>src/edit.c\<close> over a store of list nodes. Cutting, joining and deleting lines refine the
    operations on a list of strings and keep the list linked; characters of two bytes go as a whole.
  \<^item> \<^verbatim>\<open>ChatTexts\<close>, \<^verbatim>\<open>ChatState\<close>, \<^verbatim>\<open>ChatServer\<close>: \<^verbatim>\<open>src/station.c\<close>, its tables of phrases, its state and
    primitives, its commands and main loop. \<^verbatim>\<open>ChatFrame\<close> has what each operation leaves alone, \<^verbatim>\<open>ChatInv\<close> the
    invariants over all runs, \<^verbatim>\<open>ChatProps\<close> the behaviour of single commands.

  \<^bold>\<open>Conventions.\<close> A C array is a list and a write outside it is \<open>UB\<close> (or \<open>None\<close>, as the theory says); a
  struct is a record with the field names of the source behind a prefix. Integers are words or
  \<open>int\<close> where the width matters to the theorems and \<open>nat\<close> where the code keeps them in the range of an
  index. A loop that ends on every input is a recursive function with its termination proof; a loop
  that may not end is a partial function into \<open>option\<close>, where \<open>None\<close> is not to return, so no fuel is
  used. The clock, the results of system calls and the functions of other files are arguments.

  \<^bold>\<open>Not modelled.\<close> The menus and commands of \<^verbatim>\<open>bbsd\<close> in the rest of \<^verbatim>\<open>src/src\<close> (browsing articles and
  the archive, votes, talk and messages, games, administration), the POP3 and scheduling daemons, the pages
  under \<^verbatim>\<open>src/www\<close> but for their library, the tools under \<^verbatim>\<open>src/util\<close> and the vendored \<^verbatim>\<open>src/libssh\<close>: most of it is prompts
  and painting around the operations above. Of the parts above: the attachment of shared memory and
  its locks, host name look-up, the report line of the chat server, of \<^verbatim>\<open>io.c\<close> the status lines, and of
  \<^verbatim>\<open>edit.c\<close> painting, prompts and the header of an article.
\<close>

end
